(* ===== verification/Prelude.thy ===== *)
theory Prelude
  imports Main
begin

text \<open>
  Shared vocabulary of the development.

  A fallible Rust function returns \<open>Result<T, E>\<close>; it is modelled by the sum
  \<open>'e + 'a\<close> with \<open>Inl\<close> for \<open>Err\<close> and \<open>Inr\<close> for \<open>Ok\<close>. A fallible function that also
  mutates state (through \<open>&mut\<close> or interior mutability) takes the state and returns
  the result together with the new state, so that what an early return has already
  changed stays visible. \<open>try_bind\<close> is the \<open>?\<close> operator on such functions, and
  \<open>for_each\<close> is a \<open>for\<close> loop whose body may leave through \<open>?\<close>.
  Counters of type \<open>u64\<close> are natural numbers with the wrap-around written out
  (\<open>add64\<close>).
\<close>

named_theorems mono_defs \<open>definitions of the result-state combinators\<close>

type_synonym ('s, 'e, 'a) res_st = "'s \<Rightarrow> ('e + 'a) \<times> 's"

section \<open>Results and state\<close>

definition ok :: "'a \<Rightarrow> ('s, 'e, 'a) res_st" where
  "ok a s = (Inr a, s)"

definition throw :: "'e \<Rightarrow> ('s, 'e, 'a) res_st" where
  "throw e s = (Inl e, s)"

definition try_bind :: "('s, 'e, 'a) res_st \<Rightarrow> ('a \<Rightarrow> ('s, 'e, 'b) res_st) \<Rightarrow> ('s, 'e, 'b) res_st" where
  "try_bind m f s = (case m s of (Inl e, t) \<Rightarrow> (Inl e, t) | (Inr a, t) \<Rightarrow> f a t)"

fun for_each :: "('x \<Rightarrow> ('s, 'e, unit) res_st) \<Rightarrow> 'x list \<Rightarrow> ('s, 'e, unit) res_st" where
  "for_each f [] s = (Inr (), s)"
| "for_each f (x # xs) s = (case f x s of (Inl e, t) \<Rightarrow> (Inl e, t) | (Inr _, t) \<Rightarrow> for_each f xs t)"

definition modify :: "('s \<Rightarrow> 's) \<Rightarrow> ('s, 'e, unit) res_st" where
  "modify g s = (Inr (), g s)"

definition map_err :: "('e \<Rightarrow> 'f) \<Rightarrow> 'e + 'a \<Rightarrow> 'f + 'a" where
  "map_err h r = (case r of Inl e \<Rightarrow> Inl (h e) | Inr a \<Rightarrow> Inr a)"

definition map_ok :: "('a \<Rightarrow> 'b) \<Rightarrow> 'e + 'a \<Rightarrow> 'e + 'b" where
  "map_ok f r = (case r of Inl e \<Rightarrow> Inl e | Inr a \<Rightarrow> Inr (f a))"

fun collect_results :: "('e + 'a) list \<Rightarrow> 'e + 'a list" where
  "collect_results [] = Inr []"
| "collect_results (r # rs) =
     (case r of Inl e \<Rightarrow> Inl e
      | Inr a \<Rightarrow> (case collect_results rs of Inl e \<Rightarrow> Inl e | Inr as \<Rightarrow> Inr (a # as)))"

declare ok_def [mono_defs] throw_def [mono_defs] modify_def [mono_defs]

lemma ok_apply [simp]: "ok a s = (Inr a, s)"
  by (simp add: ok_def)

lemma throw_apply [simp]: "throw e s = (Inl e, s)"
  by (simp add: throw_def)

lemma modify_apply [simp]: "modify g s = (Inr (), g s)"
  by (simp add: modify_def)

lemma map_err_simps [simp]: "map_err h (Inl e) = Inl (h e)" "map_err h (Inr a) = Inr a"
  by (simp_all add: map_err_def)

lemma map_err_eq_Inr [simp]: "map_err h r = Inr a \<longleftrightarrow> r = Inr a"
  by (cases r) auto

lemma map_err_eq_Inl: "map_err h r = Inl f \<longleftrightarrow> (\<exists>e. r = Inl e \<and> f = h e)"
  by (cases r) auto

lemma map_ok_Inr [simp]: "map_ok f r = Inr y \<longleftrightarrow> (\<exists>a. r = Inr a \<and> y = f a)"
  by (cases r) (auto simp: map_ok_def)

lemma map_ok_simps [simp]: "map_ok f (Inr a) = Inr (f a)" "map_ok f (Inl e) = Inl e"
  by (simp_all add: map_ok_def)

lemma map_ok_Inl [simp]: "map_ok f r = Inl e \<longleftrightarrow> r = Inl e"
  by (cases r) auto

lemma try_bind_Inr:
  "try_bind m f s = (Inr b, t) \<longleftrightarrow> (\<exists>a u. m s = (Inr a, u) \<and> f a u = (Inr b, t))"
  by (auto simp: try_bind_def split: prod.splits sum.splits)

lemma try_bind_Inl:
  "try_bind m f s = (Inl e, t) \<longleftrightarrow>
     m s = (Inl e, t) \<or> (\<exists>a u. m s = (Inr a, u) \<and> f a u = (Inl e, t))"
  by (auto simp: try_bind_def split: prod.splits sum.splits)

lemma try_bind_step [simp]:
  "m s = (Inr a, u) \<Longrightarrow> try_bind m f s = f a u"
  "m s = (Inl e, u) \<Longrightarrow> try_bind m f s = (Inl e, u)"
  by (simp_all add: try_bind_def)

lemma for_each_append_step:
  "for_each f (xs @ ys) s =
     (case for_each f xs s of (Inl e, t) \<Rightarrow> (Inl e, t) | (Inr _, t) \<Rightarrow> for_each f ys t)"
  by (induction xs arbitrary: s) (auto split: prod.splits sum.splits)

text \<open>
  The loop rule: a property of the state that the body keeps on its elements, whatever
  the body's outcome, is kept by the loop.
\<close>

lemma for_each_keeps:
  assumes "I s" and "\<And>x s r t. x \<in> set xs \<Longrightarrow> I s \<Longrightarrow> f x s = (r, t) \<Longrightarrow> I t"
  shows "I (snd (for_each f xs s))"
  using assms
proof (induction xs arbitrary: s)
  case (Cons x xs)
  obtain r t where x: "f x s = (r, t)" by (cases "f x s")
  with Cons.prems have t: "I t" by auto
  have "I (snd (for_each f xs t))"
    by (rule Cons.IH [OF t]) (use Cons.prems(2) in auto)
  with x t show ?case by (cases r) auto
qed simp

text \<open>
  The loop rule with progress: the invariant may mention the elements already processed.
\<close>

lemma for_each_progress:
  assumes "for_each f xs s = (Inr u, t)" and "I [] s"
    and "\<And>ys x zs s t. xs = ys @ x # zs \<Longrightarrow> I ys s \<Longrightarrow> f x s = (Inr (), t) \<Longrightarrow> I (ys @ [x]) t"
  shows "I xs t"
proof -
  have "I (ys @ zs) t" if "xs = ys @ zs" "for_each f zs s = (Inr u, t)" "I ys s" for ys zs s
    using that
  proof (induction zs arbitrary: ys s)
    case (Cons z zs)
    then obtain s' where z: "f z s = (Inr (), s')" and zs: "for_each f zs s' = (Inr u, t)"
      by (auto split: prod.splits sum.splits)
    have "I ((ys @ [z]) @ zs) t"
    proof (rule Cons.IH)
      show "I (ys @ [z]) s'" using assms(3) Cons.prems z by blast
    qed (use Cons.prems zs in auto)
    then show ?case by simp
  qed simp
  with assms show ?thesis by fastforce
qed

lemma collect_results_Inr:
  "collect_results rs = Inr as \<longleftrightarrow> rs = map Inr as"
proof (induction rs arbitrary: as)
  case (Cons r rs)
  have "collect_results rs = Inl e \<Longrightarrow> rs \<noteq> map Inr bs" for e bs
    using Cons.IH [of bs] by auto
  with Cons.IH show ?case by (cases as; cases r) (auto split: sum.splits)
qed auto

lemma collect_results_map_Inr [simp]: "collect_results (map Inr as) = Inr as"
  by (simp add: collect_results_Inr)

lemma collect_results_no_err:
  assumes "\<forall>e. Inl e \<notin> set rs"
  shows "\<exists>as. collect_results rs = Inr as"
  using assms
proof (induction rs)
  case (Cons r rs)
  then show ?case by (cases r) auto
qed auto

section \<open>64-bit counters\<close>

definition add64 :: "nat \<Rightarrow> nat \<Rightarrow> nat" where
  "add64 a b = (a + b) mod 2 ^ 64"

lemma add64_small: "a + b < 2 ^ 64 \<Longrightarrow> add64 a b = a + b"
  by (simp add: add64_def)

lemma add64_bound: "add64 a b < 2 ^ 64"
  by (simp add: add64_def)

lemma add64_assoc: "add64 (add64 a b) c = add64 a (b + c)"
  by (simp add: add64_def mod_simps add.assoc)

section \<open>Lists\<close>

text \<open>
  First-seen de-duplication, as the code writes it with \<open>seen.insert(x)\<close> inside a
  \<open>filter\<close>, or with \<open>!out.contains(x)\<close> before a \<open>push\<close>.
\<close>

fun dedup_seen :: "'a list \<Rightarrow> 'a list \<Rightarrow> 'a list" where
  "dedup_seen seen [] = []"
| "dedup_seen seen (x # xs) =
     (if List.member seen x then dedup_seen seen xs else x # dedup_seen (x # seen) xs)"

lemma set_dedup_seen [simp]: "set (dedup_seen seen xs) = set xs - set seen"
  by (induction xs arbitrary: seen) auto

lemma distinct_dedup_seen [simp]: "distinct (dedup_seen seen xs)"
  by (induction xs arbitrary: seen) auto

lemma dedup_seen_distinct:
  "distinct xs \<Longrightarrow> set xs \<inter> set seen = {} \<Longrightarrow> dedup_seen seen xs = xs"
  by (induction xs arbitrary: seen) auto

lemma dedup_seen_cong: "set A = set B \<Longrightarrow> dedup_seen A xs = dedup_seen B xs"
proof (induction xs arbitrary: A B)
  case (Cons x xs)
  then have "set (x # A) = set (x # B)" by simp
  from Cons.IH [OF this] Cons.IH [OF Cons.prems] Cons.prems show ?case by simp
qed simp

lemma filter_count_le: "length (filter P xs) \<le> length xs"
  by (rule length_filter_le)

lemma sorted_wrt_less_distinct: "sorted_wrt (<) (xs :: 'a::linorder list) \<Longrightarrow> distinct xs"
  by (induction xs) auto

lemma sorted_wrt_filter_map_fst:
  "sorted_wrt R (map fst xs) \<Longrightarrow> sorted_wrt R (map fst (filter P xs))"
  by (induction xs) auto

lemma set_takeWhile_subset: "set (takeWhile P xs) \<subseteq> set xs"
  by (auto dest: set_takeWhileD)

end
