(* ===== verification/Rust_Std.thy ===== *)
theory Rust_Std
  imports Prelude "HOL-Library.Char_ord" "HOL-Library.List_Lexorder" "HOL-Library.Word"
begin

unbundle bit_operations_syntax

text \<open>
  The parts of the Rust standard library that the sources use: decimal formatting and
  parsing of \<open>u64\<close>, \<open>str::strip_prefix\<close>, \<open>str::trim\<close>, \<open>BTreeMap\<close>, the stable
  \<open>sort_by_key\<close>, \<open>f32::is_finite\<close> and \<open>f64::total_cmp\<close>.

  A Rust \<open>String\<close> is its UTF-8 byte sequence, a \<open>string\<close> (list of bytes) here; its
  order is the bytewise lexicographic one, which is the library order on strings.
  A \<open>BTreeMap\<close> is an association list in strictly increasing key order, so that its
  iteration order is the list's order.
\<close>

section \<open>Decimal numbers\<close>

definition digit_char :: "nat \<Rightarrow> char" where
  "digit_char d = char_of (48 + d)"

definition digit_val :: "char \<Rightarrow> nat option" where
  "digit_val c = (let n = of_char c in if 48 \<le> n \<and> n < (58 :: nat) then Some (n - 48) else None)"

fun show_nat :: "nat \<Rightarrow> string" where
  "show_nat n = (if n < 10 then [digit_char n] else show_nat (n div 10) @ [digit_char (n mod 10)])"

declare show_nat.simps [simp del]

text \<open>\<open>u64::from_str\<close>: one optional \<open>+\<close>, then at least one digit; overflow is an error.\<close>

fun parse_digits :: "nat \<Rightarrow> string \<Rightarrow> nat option" where
  "parse_digits acc [] = Some acc"
| "parse_digits acc (c # cs) =
     (case digit_val c of None \<Rightarrow> None
      | Some d \<Rightarrow> (if acc * 10 + d < 2 ^ 64 then parse_digits (acc * 10 + d) cs else None))"

definition parse_u64 :: "string \<Rightarrow> nat option" where
  "parse_u64 s =
     (case s of [] \<Rightarrow> None
      | c # cs \<Rightarrow> if c = CHR ''+'' \<and> cs \<noteq> [] then parse_digits 0 cs else parse_digits 0 s)"

definition strip_prefix :: "string \<Rightarrow> string \<Rightarrow> string option" where
  "strip_prefix p s = (if take (length p) s = p then Some (drop (length p) s) else None)"

section \<open>Trimming\<close>

text \<open>
  \<open>s.trim().is_empty()\<close> holds when every character of \<open>s\<close> has the Unicode property
  \<open>White_Space\<close>. In UTF-8: bytes 9 to 13 and 32; U+0085 and U+00A0 (two bytes);
  U+1680, U+2000 to U+200A, U+2028, U+2029, U+202F, U+205F and U+3000 (three bytes).
\<close>

definition ascii_space :: "nat \<Rightarrow> bool" where
  "ascii_space b \<longleftrightarrow> 9 \<le> b \<and> b \<le> 13 \<or> b = 32"

definition space2 :: "nat \<Rightarrow> nat \<Rightarrow> bool" where
  "space2 a b \<longleftrightarrow> a = 194 \<and> (b = 133 \<or> b = 160)"

definition space3 :: "nat \<Rightarrow> nat \<Rightarrow> nat \<Rightarrow> bool" where
  "space3 a b c \<longleftrightarrow>
     a = 225 \<and> b = 154 \<and> c = 128
   \<or> a = 226 \<and> b = 128 \<and> (128 \<le> c \<and> c \<le> 138 \<or> c = 168 \<or> c = 169 \<or> c = 175)
   \<or> a = 226 \<and> b = 129 \<and> c = 159
   \<or> a = 227 \<and> b = 128 \<and> c = 128"

fun blank_bytes :: "nat list \<Rightarrow> bool" where
  "blank_bytes [] = True"
| "blank_bytes (a # as) =
     (if ascii_space a then blank_bytes as
      else (case as of [] \<Rightarrow> False
            | b # bs \<Rightarrow> if space2 a b then blank_bytes bs
                else (case bs of [] \<Rightarrow> False | c # cs \<Rightarrow> space3 a b c \<and> blank_bytes cs)))"

definition trim_is_empty :: "string \<Rightarrow> bool" where
  "trim_is_empty s = blank_bytes (map of_char s)"

section \<open>Ordered maps\<close>

type_synonym ('k, 'v) btree_map = "('k \<times> 'v) list"

definition bt_wf :: "('k::linorder, 'v) btree_map \<Rightarrow> bool" where
  "bt_wf m = sorted_wrt (<) (map fst m)"

definition bt_get :: "('k, 'v) btree_map \<Rightarrow> 'k \<Rightarrow> 'v option" where
  "bt_get m k = map_of m k"

fun bt_insert :: "'k::linorder \<Rightarrow> 'v \<Rightarrow> ('k, 'v) btree_map \<Rightarrow> ('k, 'v) btree_map" where
  "bt_insert k v [] = [(k, v)]"
| "bt_insert k v (p # m) =
     (if k < fst p then (k, v) # p # m
      else if k = fst p then (k, v) # m
      else p # bt_insert k v m)"

definition bt_remove :: "'k \<Rightarrow> ('k, 'v) btree_map \<Rightarrow> ('k, 'v) btree_map" where
  "bt_remove k m = filter (\<lambda>p. fst p \<noteq> k) m"

text \<open>Writing through \<open>get_mut\<close>: the value at a present key is replaced in place.\<close>

definition bt_adjust :: "'k \<Rightarrow> ('v \<Rightarrow> 'v) \<Rightarrow> ('k, 'v) btree_map \<Rightarrow> ('k, 'v) btree_map" where
  "bt_adjust k f m = map (\<lambda>(k', v). (k', if k' = k then f v else v)) m"

text \<open>\<open>entry(k).or_insert_with(..)\<close>: a present key keeps its value.\<close>

definition bt_or_insert :: "'k::linorder \<Rightarrow> 'v \<Rightarrow> ('k, 'v) btree_map \<Rightarrow> ('k, 'v) btree_map" where
  "bt_or_insert k v m = (case bt_get m k of None \<Rightarrow> bt_insert k v m | Some _ \<Rightarrow> m)"

text \<open>\<open>sort_by_key\<close> is a stable merge sort; \<open>sort_key\<close> is stable as well.\<close>

definition sort_by_key :: "('a \<Rightarrow> 'b::linorder) \<Rightarrow> 'a list \<Rightarrow> 'a list" where
  "sort_by_key f xs = sort_key f xs"

section \<open>Hash sets and vectors\<close>

text \<open>
  A \<open>HashSet\<close> is a list without repetitions. The order of the list stands for the
  unspecified iteration order; no statement about a hash set depends on it.
\<close>

definition hs_insert :: "'a \<Rightarrow> 'a list \<Rightarrow> bool \<times> 'a list" where
  "hs_insert x xs = (if List.member xs x then (False, xs) else (True, xs @ [x]))"

definition hs_remove :: "'a \<Rightarrow> 'a list \<Rightarrow> bool \<times> 'a list" where
  "hs_remove x xs = (if List.member xs x then (True, filter (\<lambda>y. y \<noteq> x) xs) else (False, xs))"

text \<open>\<open>iter().position(..)\<close> and \<open>Vec::swap_remove\<close>.\<close>

fun position :: "('a \<Rightarrow> bool) \<Rightarrow> 'a list \<Rightarrow> nat option" where
  "position P [] = None"
| "position P (x # xs) = (if P x then Some 0 else map_option Suc (position P xs))"

definition swap_remove :: "nat \<Rightarrow> 'a list \<Rightarrow> 'a list" where
  "swap_remove i xs = (if Suc i = length xs then butlast xs else (butlast xs)[i := last xs])"

text \<open>\<open>Vec::dedup\<close> drops consecutive repetitions: \<open>remdups_adj\<close> of the list library.\<close>

section \<open>Floating-point bit patterns\<close>

type_synonym f32 = "32 word"
type_synonym f64 = "64 word"

definition f32_is_finite :: "f32 \<Rightarrow> bool" where
  "f32_is_finite w \<longleftrightarrow> w AND 0x7F800000 \<noteq> 0x7F800000"

text \<open>
  \<open>f64::total_cmp\<close> compares the bit patterns as signed integers after flipping the
  magnitude bits of negative numbers; \<open>f64_total_key\<close> is the compared integer.
\<close>

definition f64_total_key :: "f64 \<Rightarrow> int" where
  "f64_total_key w = (if bit w 63 then sint (w XOR 0x7FFFFFFFFFFFFFFF) else sint w)"

section \<open>Lemmas: decimal numbers\<close>

lemma digit_val_digit_char [simp]: "d < 10 \<Longrightarrow> digit_val (digit_char d) = Some d"
  by (simp add: digit_val_def digit_char_def Let_def)

lemma digit_val_Some: "digit_val c = Some d \<Longrightarrow> d < 10 \<and> digit_char d = c"
  by (auto simp: digit_val_def digit_char_def Let_def split: if_splits)

lemma digit_val_plus: "digit_val (CHR ''+'') = None"
  by (simp add: digit_val_def)

lemma digit_char_plus [simp]: "d < 10 \<Longrightarrow> digit_char d \<noteq> CHR ''+''"
  using digit_val_digit_char [of d] digit_val_plus by force

lemma show_nat_ne [simp]: "show_nat n \<noteq> []"
  by (subst show_nat.simps) simp

lemma show_nat_hd: "hd (show_nat n) \<noteq> CHR ''+''"
proof (induction n rule: show_nat.induct)
  case (1 n)
  then show ?case
    by (cases "n < 10") (simp_all add: show_nat.simps [of n] hd_append)
qed

text \<open>Parsing the decimal text of a number continues from that number.\<close>

lemma parse_digits_show_nat:
  "n < 2 ^ 64 \<Longrightarrow> parse_digits 0 (show_nat n @ cs) = parse_digits n cs"
proof (induction n arbitrary: cs rule: show_nat.induct)
  case (1 n)
  show ?case
  proof (cases "n < 10")
    case True
    then show ?thesis by (simp add: show_nat.simps [of n])
  next
    case False
    have lt: "n div 10 < 2 ^ 64" using "1.prems" by linarith
    have "parse_digits 0 (show_nat n @ cs)
        = parse_digits 0 (show_nat (n div 10) @ (digit_char (n mod 10) # cs))"
      using False by (simp add: show_nat.simps [of n])
    also have "\<dots> = parse_digits (n div 10) (digit_char (n mod 10) # cs)"
      using "1.IH" [OF False lt] .
    also have "\<dots> = parse_digits n cs"
      using "1.prems" by simp
    finally show ?thesis .
  qed
qed

lemma parse_u64_show_nat:
  assumes "n < 2 ^ 64"
  shows "parse_u64 (show_nat n) = Some n"
proof -
  obtain c cs where eq: "show_nat n = c # cs"
    by (cases "show_nat n") auto
  with show_nat_hd [of n] have "c \<noteq> CHR ''+''" by simp
  with eq have "parse_u64 (show_nat n) = parse_digits 0 (show_nat n)"
    by (simp add: parse_u64_def)
  then show ?thesis using parse_digits_show_nat [OF assms, of "[]"] by simp
qed

lemma parse_digits_bound: "parse_digits acc s = Some n \<Longrightarrow> acc < 2 ^ 64 \<Longrightarrow> n < 2 ^ 64"
  by (induction s arbitrary: acc) (auto split: option.splits if_splits)

lemma parse_u64_bound: "parse_u64 s = Some n \<Longrightarrow> n < 2 ^ 64"
  by (auto simp: parse_u64_def dest: parse_digits_bound split: list.splits if_splits option.splits)

lemma show_nat_inject: "a < 2 ^ 64 \<Longrightarrow> b < 2 ^ 64 \<Longrightarrow> show_nat a = show_nat b \<longleftrightarrow> a = b"
  by (metis parse_u64_show_nat option.inject)

lemma strip_prefix_append [simp]: "strip_prefix p (p @ s) = Some s"
  by (simp add: strip_prefix_def)

lemma strip_prefix_Some: "strip_prefix p s = Some r \<longleftrightarrow> s = p @ r"
  by (metis append_take_drop_id option.distinct(1) option.inject strip_prefix_append strip_prefix_def)

section \<open>Lemmas: hash sets and vectors\<close>

lemma hs_insert_fst [simp]: "fst (hs_insert x xs) \<longleftrightarrow> x \<notin> set xs"
  by (simp add: hs_insert_def)

lemma hs_insert_set [simp]: "set (snd (hs_insert x xs)) = insert x (set xs)"
  by (auto simp: hs_insert_def)

lemma hs_insert_distinct [simp]: "distinct (snd (hs_insert x xs)) = distinct xs"
  by (simp add: hs_insert_def)

lemma hs_remove_fst [simp]: "fst (hs_remove x xs) \<longleftrightarrow> x \<in> set xs"
  by (simp add: hs_remove_def)

lemma hs_remove_set [simp]: "set (snd (hs_remove x xs)) = set xs - {x}"
  by (auto simp: hs_remove_def)

lemma hs_remove_distinct [simp]: "distinct xs \<Longrightarrow> distinct (snd (hs_remove x xs))"
  by (simp add: hs_remove_def)

lemma position_Some: "position P xs = Some i \<Longrightarrow> i < length xs \<and> P (xs ! i)"
  by (induction xs arbitrary: i) (auto split: if_splits)

lemma position_None: "position P xs = None \<longleftrightarrow> (\<forall>x\<in>set xs. \<not> P x)"
  by (induction xs) auto

lemma swap_remove_mset_parts:
  assumes "i < length xs"
  shows "set (swap_remove i xs) = set (take i xs) \<union> set (drop (Suc i) xs)"
    and "distinct xs \<Longrightarrow> distinct (swap_remove i xs)"
proof -
  obtain ys z where xs: "xs = ys @ [z]" using assms by (cases xs rule: rev_cases) auto
  have "set (swap_remove i xs) = set (take i xs) \<union> set (drop (Suc i) xs) \<and>
        (distinct xs \<longrightarrow> distinct (swap_remove i xs))"
  proof (cases "i = length ys")
    case True
    then show ?thesis by (simp add: xs swap_remove_def)
  next
    case False
    with assms have i: "i < length ys" by (simp add: xs)
    then have sr: "swap_remove i xs = take i ys @ z # drop (Suc i) ys"
      by (simp add: xs swap_remove_def upd_conv_take_nth_drop)
    have ys: "ys = take i ys @ ys ! i # drop (Suc i) ys" using i by (rule id_take_nth_drop)
    have "distinct (take i ys @ z # drop (Suc i) ys)" if "distinct (ys @ [z])"
    proof -
      have "distinct (take i ys @ ys ! i # drop (Suc i) ys)" using that ys by simp
      moreover have "z \<notin> set ys" using that by simp
      then have "z \<notin> set (take i ys)" "z \<notin> set (drop (Suc i) ys)"
        by (auto dest: in_set_takeD in_set_dropD)
      ultimately show ?thesis by auto
    qed
    with i sr show ?thesis by (auto simp: xs)
  qed
  then show "set (swap_remove i xs) = set (take i xs) \<union> set (drop (Suc i) xs)"
    and "distinct xs \<Longrightarrow> distinct (swap_remove i xs)" by auto
qed

lemma swap_remove_set:
  assumes "i < length xs" "distinct xs"
  shows "set (swap_remove i xs) = set xs - {xs ! i}"
proof -
  have xs: "xs = take i xs @ xs ! i # drop (Suc i) xs" using assms(1) by (rule id_take_nth_drop)
  have "distinct (take i xs @ xs ! i # drop (Suc i) xs)" using assms(2) xs by simp
  then have "set (take i xs @ xs ! i # drop (Suc i) xs) - {xs ! i} = set (take i xs) \<union> set (drop (Suc i) xs)"
    by auto
  then show ?thesis using xs by (simp add: swap_remove_mset_parts(1) [OF assms(1)])
qed

section \<open>Lemmas: ordered maps\<close>

lemma bt_get_insert [simp]: "bt_get (bt_insert k v m) k' = (if k' = k then Some v else bt_get m k')"
  if "bt_wf m" for m :: "('k::linorder, 'v) btree_map"
  using that
proof (induction m)
  case (Cons p m)
  then show ?case by (cases p) (auto simp: bt_get_def bt_wf_def)
qed (simp add: bt_get_def)

lemma set_keys_bt_insert [simp]: "set (map fst (bt_insert k v m)) = insert k (set (map fst m))"
proof (induction m)
  case (Cons p m)
  then show ?case by (cases p) auto
qed simp

lemma bt_wf_insert [simp]: "bt_wf m \<Longrightarrow> bt_wf (bt_insert k v m)"
proof (induction m)
  case (Cons p m)
  then have "bt_wf (bt_insert k v m)" by (simp add: bt_wf_def)
  with Cons.prems show ?case
    using set_keys_bt_insert [of k v m] by (auto simp: bt_wf_def)
qed (simp add: bt_wf_def)

lemma bt_get_remove [simp]: "bt_get (bt_remove k m) k' = (if k' = k then None else bt_get m k')"
proof (induction m)
  case (Cons p m)
  then show ?case by (cases p) (auto simp: bt_get_def bt_remove_def)
qed (simp add: bt_get_def bt_remove_def)

lemma bt_wf_remove [simp]: "bt_wf m \<Longrightarrow> bt_wf (bt_remove k m)"
  by (simp add: bt_wf_def bt_remove_def sorted_wrt_filter_map_fst)

lemma bt_keys_adjust [simp]: "map fst (bt_adjust k f m) = map fst m"
  by (simp add: bt_adjust_def case_prod_unfold)

lemma bt_wf_adjust [simp]: "bt_wf (bt_adjust k f m) = bt_wf m"
  by (simp add: bt_wf_def)

lemma bt_get_adjust [simp]:
  "bt_get (bt_adjust k f m) k' = (if k' = k then map_option f (bt_get m k) else bt_get m k')"
  by (induction m) (auto simp: bt_get_def bt_adjust_def)

lemma bt_wf_Nil [simp]: "bt_wf []"
  by (simp add: bt_wf_def)

lemma bt_get_Nil [simp]: "bt_get [] k = None"
  by (simp add: bt_get_def)

lemma bt_distinct_keys: "bt_wf m \<Longrightarrow> distinct (map fst m)"
  by (simp add: bt_wf_def sorted_wrt_less_distinct)

lemma bt_get_iff: "bt_wf m \<Longrightarrow> bt_get m k = Some v \<longleftrightarrow> (k, v) \<in> set m"
  by (simp add: bt_get_def bt_distinct_keys)

lemma bt_get_None: "bt_get m k = None \<longleftrightarrow> k \<notin> fst ` set m"
  by (auto simp: bt_get_def map_of_eq_None_iff)

lemma bt_get_SomeD: "bt_get m k = Some v \<Longrightarrow> (k, v) \<in> set m"
  by (simp add: bt_get_def map_of_SomeD)

lemma bt_wf_or_insert [simp]: "bt_wf m \<Longrightarrow> bt_wf (bt_or_insert k v m)"
  by (simp add: bt_or_insert_def split: option.split)

lemma bt_get_or_insert:
  "bt_wf m \<Longrightarrow> bt_get (bt_or_insert k v m) k' =
     (if k' = k \<and> bt_get m k = None then Some v else bt_get m k')"
  by (auto simp: bt_or_insert_def split: option.split)

text \<open>The entries after an insertion at a new key, an adjustment and a removal.\<close>

lemma set_bt_insert_new:
  "k \<notin> fst ` set m \<Longrightarrow> set (bt_insert k v m) = insert (k, v) (set m)"
proof (induction m)
  case (Cons p m)
  then show ?case by (cases p) auto
qed simp

lemma length_filter_bt_insert_new:
  "k \<notin> fst ` set m \<Longrightarrow>
     length (filter P (bt_insert k v m)) = length (filter P m) + (if P (k, v) then 1 else 0)"
proof (induction m)
  case (Cons p m)
  then show ?case by (cases p) auto
qed simp

lemma bt_insert_last:
  "\<forall>k'\<in>fst ` set m. k' < k \<Longrightarrow> bt_insert k v m = m @ [(k, v)]"
  by (induction m) auto

lemma set_sort_by_key [simp]: "set (sort_by_key f xs) = set xs"
  by (simp add: sort_by_key_def)

lemma length_sort_by_key [simp]: "length (sort_by_key f xs) = length xs"
  by (simp add: sort_by_key_def)

lemma distinct_sort_by_key [simp]: "distinct (sort_by_key f xs) = distinct xs"
  by (simp add: sort_by_key_def)

lemma distinct_map_sort_by_key:
  "distinct (map g xs) \<Longrightarrow> distinct (map g (sort_by_key f xs))"
  by (metis distinct_map distinct_sort_by_key set_sort_by_key)

end
