(* ===== verification/Rdf_Model.thy ===== *)
theory Rdf_Model
  imports Rust_Std
begin

text \<open>
  The RDF term model of \<^verbatim>\<open>semanticore-core/src/model.rs\<close>: named and blank nodes,
  literals, the subject, object and graph positions, quads, their \<open>Display\<close> forms and
  the \<open>From\<close> conversions. Terms are stored verbatim and compared lexically, so
  structural equality of the datatypes is the code's derived \<open>PartialEq\<close>.
  Constructors of the Rust enums carry the prefix of their enum: \<open>Nb\<close> for
  \<open>NamedOrBlankNode\<close>, \<open>T\<close> for \<open>Term\<close>, \<open>G\<close> for \<open>NamedOrDefault\<close>.
\<close>

section \<open>Terms\<close>

definition xsd_STRING :: string where
  "xsd_STRING = ''http://www.w3.org/2001/XMLSchema#string''"

definition RDF_LANG_STRING :: string where
  "RDF_LANG_STRING = ''http://www.w3.org/1999/02/22-rdf-syntax-ns#langString''"

datatype NamedNode = NamedNode (iri: string)

datatype BlankNode = BlankNode (label: string)

text \<open>The IRI type of the crate root, kept from before \<open>NamedNode\<close>.\<close>

datatype Iri = Iri (iri_text: string)

text \<open>
  The fields of \<open>Literal\<close> are private, and its three constructors give a language tag only
  to a literal of datatype \<open>rdf:langString\<close>. The type has exactly these values.
\<close>

record LiteralFields =
  f_value :: string
  f_datatype :: NamedNode
  f_language :: "string option"

typedef Literal = "{l :: LiteralFields. f_language l \<noteq> None \<longrightarrow> f_datatype l = NamedNode RDF_LANG_STRING}"
  by (rule exI [of _ "\<lparr>f_value = [], f_datatype = NamedNode [], f_language = None\<rparr>"]) simp

setup_lifting type_definition_Literal

lift_definition lit_value :: "Literal \<Rightarrow> string" is f_value .

lift_definition lit_datatype :: "Literal \<Rightarrow> NamedNode" is f_datatype .

lift_definition lit_language :: "Literal \<Rightarrow> string option" is f_language .

lift_definition Literal_new_simple :: "string \<Rightarrow> Literal" is
  "\<lambda>v. \<lparr>f_value = v, f_datatype = NamedNode xsd_STRING, f_language = None\<rparr>" by simp

lift_definition Literal_new_typed :: "string \<Rightarrow> NamedNode \<Rightarrow> Literal" is
  "\<lambda>v dt. \<lparr>f_value = v, f_datatype = dt, f_language = None\<rparr>" by simp

lift_definition Literal_new_lang :: "string \<Rightarrow> string \<Rightarrow> Literal" is
  "\<lambda>v lang. \<lparr>f_value = v, f_datatype = NamedNode RDF_LANG_STRING, f_language = Some lang\<rparr>" by simp

instantiation Literal :: equal
begin

lift_definition equal_Literal :: "Literal \<Rightarrow> Literal \<Rightarrow> bool" is "(=)" .

instance
  by standard (transfer, simp)

end

lemma Literal_sel [simp]:
  "lit_value (Literal_new_simple v) = v" "lit_datatype (Literal_new_simple v) = NamedNode xsd_STRING"
  "lit_language (Literal_new_simple v) = None"
  "lit_value (Literal_new_typed v dt) = v" "lit_datatype (Literal_new_typed v dt) = dt"
  "lit_language (Literal_new_typed v dt) = None"
  "lit_value (Literal_new_lang v lang) = v" "lit_datatype (Literal_new_lang v lang) = NamedNode RDF_LANG_STRING"
  "lit_language (Literal_new_lang v lang) = Some lang"
  by (transfer, simp)+

lemma Literal_tagged: "lit_language l = Some lang \<Longrightarrow> lit_datatype l = NamedNode RDF_LANG_STRING"
  by transfer simp

lemma Literal_eqI:
  "lit_value a = lit_value b \<Longrightarrow> lit_datatype a = lit_datatype b \<Longrightarrow> lit_language a = lit_language b \<Longrightarrow> a = b"
  by transfer simp

datatype NamedOrBlankNode = NbNamed NamedNode | NbBlank BlankNode

datatype Term = TNamed NamedNode | TBlank BlankNode | TLiteral Literal

datatype NamedOrDefault = GNamed NamedNode | GDefault

record Quad =
  q_subject :: NamedOrBlankNode
  q_predicate :: NamedNode
  q_object :: Term
  q_graph :: NamedOrDefault

definition Quad_new :: "NamedOrBlankNode \<Rightarrow> NamedNode \<Rightarrow> Term \<Rightarrow> NamedOrDefault \<Rightarrow> Quad" where
  "Quad_new s p obj g = \<lparr>q_subject = s, q_predicate = p, q_object = obj, q_graph = g\<rparr>"

definition Quad_triple :: "NamedOrBlankNode \<Rightarrow> NamedNode \<Rightarrow> Term \<Rightarrow> Quad" where
  "Quad_triple s p obj = Quad_new s p obj GDefault"

fun Term_from_subject :: "NamedOrBlankNode \<Rightarrow> Term" where
  "Term_from_subject (NbNamed n) = TNamed n"
| "Term_from_subject (NbBlank b) = TBlank b"

section \<open>Display\<close>

definition NamedNode_display :: "NamedNode \<Rightarrow> string" where
  "NamedNode_display n = ''<'' @ iri n @ ''>''"

definition BlankNode_display :: "BlankNode \<Rightarrow> string" where
  "BlankNode_display b = ''_:'' @ label b"

definition quote_char :: char where
  "quote_char = CHR 0x22"

definition Literal_display :: "Literal \<Rightarrow> string" where
  "Literal_display l =
     (case lit_language l of
        Some lang \<Rightarrow> [quote_char] @ lit_value l @ [quote_char] @ ''@'' @ lang
      | None \<Rightarrow> [quote_char] @ lit_value l @ [quote_char] @ ''^^'' @ NamedNode_display (lit_datatype l))"

fun NamedOrBlankNode_display :: "NamedOrBlankNode \<Rightarrow> string" where
  "NamedOrBlankNode_display (NbNamed n) = NamedNode_display n"
| "NamedOrBlankNode_display (NbBlank b) = BlankNode_display b"

fun Term_display :: "Term \<Rightarrow> string" where
  "Term_display (TNamed n) = NamedNode_display n"
| "Term_display (TBlank b) = BlankNode_display b"
| "Term_display (TLiteral l) = Literal_display l"

section \<open>Order on named nodes\<close>

text \<open>\<open>NamedNode\<close> derives \<open>Ord\<close>: the order of the IRI strings.\<close>

instantiation NamedNode :: linorder
begin

definition less_eq_NamedNode :: "NamedNode \<Rightarrow> NamedNode \<Rightarrow> bool" where
  "less_eq_NamedNode a b \<longleftrightarrow> iri a \<le> iri b"

definition less_NamedNode :: "NamedNode \<Rightarrow> NamedNode \<Rightarrow> bool" where
  "less_NamedNode a b \<longleftrightarrow> iri a < iri b"

instance
  by standard (auto simp: less_eq_NamedNode_def less_NamedNode_def NamedNode.expand)

end

section \<open>Display separates terms\<close>

text \<open>
  The domain on which \<open>Display\<close> separates terms: the lexical form of a literal has no
  quote, which \<open>Display\<close> does not escape.
\<close>

fun display_safe :: "Term \<Rightarrow> bool" where
  "display_safe (TLiteral l) = (quote_char \<notin> set (lit_value l))"
| "display_safe _ = True"

lemma split_at_unique:
  assumes "u @ c # v = u' @ c # v'" and "c \<notin> set u" and "c \<notin> set u'"
  shows "u = u' \<and> v = v'"
  using assms
proof (induction u arbitrary: u')
  case Nil
  then show ?case by (cases u') auto
next
  case (Cons x u)
  then show ?case by (cases u') auto
qed

lemma NamedNode_display_inj [simp]: "NamedNode_display a = NamedNode_display b \<longleftrightarrow> a = b"
  by (auto simp: NamedNode_display_def NamedNode.expand)

lemma BlankNode_display_inj [simp]: "BlankNode_display a = BlankNode_display b \<longleftrightarrow> a = b"
  by (auto simp: BlankNode_display_def BlankNode.expand)

lemma Literal_display_inj:
  assumes "quote_char \<notin> set (lit_value a)" "quote_char \<notin> set (lit_value b)"
    and eq: "Literal_display a = Literal_display b"
  shows "a = b"
proof -
  define rest where "rest l = (case lit_language l of Some lang \<Rightarrow> ''@'' @ lang
      | None \<Rightarrow> ''^^'' @ NamedNode_display (lit_datatype l))" for l :: Literal
  have "Literal_display l = quote_char # lit_value l @ quote_char # rest l" for l
    by (simp add: Literal_display_def rest_def split: option.split)
  with eq have "lit_value a @ quote_char # rest a = lit_value b @ quote_char # rest b"
    by simp
  from split_at_unique [OF this assms(1,2)] have v: "lit_value a = lit_value b" "rest a = rest b"
    by auto
  from v(2) have "lit_language a = lit_language b" "lit_datatype a = lit_datatype b"
    by (auto simp: rest_def Literal_tagged split: option.splits)
  with v(1) show ?thesis by (intro Literal_eqI)
qed

lemma Term_from_subject_inj [simp]: "Term_from_subject a = Term_from_subject b \<longleftrightarrow> a = b"
  by (cases a; cases b) auto

lemma Quad_eq_iff:
  "(a :: Quad) = b \<longleftrightarrow> q_subject a = q_subject b \<and> q_predicate a = q_predicate b
     \<and> q_object a = q_object b \<and> q_graph a = q_graph b"
  by auto

lemma Quad_new_sel [simp]:
  "q_subject (Quad_new s p obj g) = s" "q_predicate (Quad_new s p obj g) = p"
  "q_object (Quad_new s p obj g) = obj" "q_graph (Quad_new s p obj g) = g"
  by (simp_all add: Quad_new_def)

lemma Quad_triple_sel [simp]:
  "q_subject (Quad_triple s p obj) = s" "q_predicate (Quad_triple s p obj) = p"
  "q_object (Quad_triple s p obj) = obj" "q_graph (Quad_triple s p obj) = GDefault"
  by (simp_all add: Quad_triple_def)

end
