(* ===== verification/Storage_Trait.thy ===== *)
theory Storage_Trait
  imports Rdf_Model
begin

text \<open>
  The \<open>Storage\<close> and \<open>StorageTransaction\<close> traits of
  \<^verbatim>\<open>semanticore-core/src/storage.rs\<close>, and their contract.

  A trait is a record of functions, one field per method, over a type \<open>'st\<close> of store
  states and a type \<open>'tx\<close> of transactions. A transaction borrows its store, and some
  transactions read through to it, so every transaction method also receives the store.
  \<open>commit\<close> is the only method that writes the store.

  The locale \<open>storage_contract\<close> states what a caller may rely on whether or not a
  method fails; \<open>reliable_storage\<close> adds that the methods do not fail. The lemmas of the
  locales are about sequences of insertions and removals in one transaction, which is
  how every client uses a store.
\<close>

section \<open>Capabilities and errors\<close>

datatype TransactionIsolation = ReadCommitted | SnapshotIsolation | Serializable

record StorageCapabilities =
  persistent :: bool
  concurrent_writes :: bool
  bulk_load :: bool
  sparql_endpoint :: bool
  approximate_quad_count :: bool
  isolation :: TransactionIsolation

datatype StorageCapability =
    Persistent | ConcurrentWrites | BulkLoad | SparqlEndpoint | ApproximateQuadCount
  | Isolation TransactionIsolation

text \<open>
  \<open>StorageError::Backend\<close> boxes any error value. The values boxed in this repository are
  plain messages, the Oxigraph adapter's own error and errors of the Oxigraph crate.
\<close>

datatype AdapterError = ReadOnlyTransaction | ReadOnlyStore

datatype BoxedError = BoxMessage string | BoxAdapter AdapterError | BoxOxigraph string

datatype StorageError =
    Io string
  | Serialization string
  | TransactionConflict
  | UnsupportedCapability StorageCapability
  | Backend BoxedError

section \<open>The traits\<close>

record ('st, 'tx) Storage =
  begin_read :: "'st \<Rightarrow> StorageError + 'tx"
  begin_write :: "'st \<Rightarrow> StorageError + 'tx"
  quad_count :: "'st \<Rightarrow> StorageError + nat"
  named_graphs :: "'st \<Rightarrow> StorageError + NamedNode list"
  capabilities :: "'st \<Rightarrow> StorageCapabilities"
  tx_insert :: "'st \<Rightarrow> Quad \<Rightarrow> 'tx \<Rightarrow> (StorageError + bool) \<times> 'tx"
  tx_remove :: "'st \<Rightarrow> Quad \<Rightarrow> 'tx \<Rightarrow> (StorageError + bool) \<times> 'tx"
  tx_contains :: "'st \<Rightarrow> 'tx \<Rightarrow> Quad \<Rightarrow> StorageError + bool"
  tx_quads_for_pattern :: "'st \<Rightarrow> 'tx \<Rightarrow> NamedOrBlankNode option \<Rightarrow> NamedNode option \<Rightarrow>
      Term option \<Rightarrow> NamedOrDefault option \<Rightarrow> (StorageError + Quad) list"
  tx_commit :: "'tx \<Rightarrow> 'st \<Rightarrow> (StorageError + unit) \<times> 'st"
  tx_rollback :: "'tx \<Rightarrow> 'st \<Rightarrow> (StorageError + unit) \<times> 'st"

section \<open>Pattern semantics\<close>

definition is_none_or :: "'a option \<Rightarrow> 'a \<Rightarrow> bool" where
  "is_none_or pat x = (case pat of None \<Rightarrow> True | Some y \<Rightarrow> x = y)"

definition matches_pattern :: "Quad \<Rightarrow> NamedOrBlankNode option \<Rightarrow> NamedNode option \<Rightarrow>
    Term option \<Rightarrow> NamedOrDefault option \<Rightarrow> bool" where
  "matches_pattern q s p obj g \<longleftrightarrow>
     is_none_or s (q_subject q) \<and> is_none_or p (q_predicate q)
   \<and> is_none_or obj (q_object q) \<and> is_none_or g (q_graph q)"

lemma is_none_or_simps [simp]: "is_none_or None x" "is_none_or (Some y) x \<longleftrightarrow> x = y"
  by (simp_all add: is_none_or_def)

lemma matches_pattern_wildcard [simp]: "matches_pattern q None None None None"
  by (simp add: matches_pattern_def)

text \<open>The named graph of a quad, and the named graphs that hold a quad of a set.\<close>

definition graph_name :: "Quad \<Rightarrow> NamedNode option" where
  "graph_name q = (case q_graph q of GNamed g \<Rightarrow> Some g | GDefault \<Rightarrow> None)"

definition graphs_of :: "Quad set \<Rightarrow> NamedNode set" where
  "graphs_of Q = {g. \<exists>q\<in>Q. q_graph q = GNamed g}"

section \<open>Sequences of writes\<close>

text \<open>
  The write loops of the clients: \<open>insert\<close> or \<open>remove\<close> every quad of a slice, leaving
  through \<open>?\<close> at the first error.
\<close>

definition discard :: "('e + 'a) \<times> 's \<Rightarrow> ('e + unit) \<times> 's" where
  "discard r = (case r of (Inl e, s) \<Rightarrow> (Inl e, s) | (Inr _, s) \<Rightarrow> (Inr (), s))"

definition insert_each :: "('st, 'tx) Storage \<Rightarrow> 'st \<Rightarrow> Quad list \<Rightarrow> ('tx, StorageError, unit) res_st" where
  "insert_each S st = for_each (\<lambda>q tx. discard (tx_insert S st q tx))"

definition remove_each :: "('st, 'tx) Storage \<Rightarrow> 'st \<Rightarrow> Quad list \<Rightarrow> ('tx, StorageError, unit) res_st" where
  "remove_each S st = for_each (\<lambda>q tx. discard (tx_remove S st q tx))"

lemma discard_Inr: "discard r = (Inr u, t) \<longleftrightarrow> (\<exists>a. r = (Inr a, t))"
  by (auto simp: discard_def split: prod.splits sum.splits)

lemma discard_Inl: "discard r = (Inl e, t) \<longleftrightarrow> r = (Inl e, t)"
  by (auto simp: discard_def split: prod.splits sum.splits)

lemma insert_each_simps [simp]:
  "insert_each S st [] tx = (Inr (), tx)"
  "insert_each S st (q # qs) tx =
     (case tx_insert S st q tx of (Inl e, t) \<Rightarrow> (Inl e, t) | (Inr _, t) \<Rightarrow> insert_each S st qs t)"
  by (auto simp: insert_each_def discard_def split: prod.splits sum.splits)

lemma remove_each_simps [simp]:
  "remove_each S st [] tx = (Inr (), tx)"
  "remove_each S st (q # qs) tx =
     (case tx_remove S st q tx of (Inl e, t) \<Rightarrow> (Inl e, t) | (Inr _, t) \<Rightarrow> remove_each S st qs t)"
  by (auto simp: remove_each_def discard_def split: prod.splits sum.splits)

section \<open>The contract\<close>

text \<open>
  \<open>quads_of\<close> is the committed content of a store, \<open>view\<close> what a transaction sees,
  \<open>st_ok\<close> a representation invariant, \<open>tx_ok st tx\<close> that \<open>tx\<close> is a live transaction of the
  store in state \<open>st\<close>, and \<open>writable\<close> tells write from read transactions.
\<close>

locale storage_contract =
  fixes S :: "('st, 'tx) Storage"
    and quads_of :: "'st \<Rightarrow> Quad set"
    and view :: "'st \<Rightarrow> 'tx \<Rightarrow> Quad set"
    and st_ok :: "'st \<Rightarrow> bool"
    and tx_ok :: "'st \<Rightarrow> 'tx \<Rightarrow> bool"
    and writable :: "'tx \<Rightarrow> bool"
  assumes finite_quads: "st_ok st \<Longrightarrow> finite (quads_of st)"
    and begin_read_ok: "st_ok st \<Longrightarrow> begin_read S st = Inr tx \<Longrightarrow>
      tx_ok st tx \<and> \<not> writable tx \<and> view st tx = quads_of st"
    and begin_write_ok: "st_ok st \<Longrightarrow> begin_write S st = Inr tx \<Longrightarrow>
      tx_ok st tx \<and> writable tx \<and> view st tx = quads_of st"
    and insert_ok: "st_ok st \<Longrightarrow> tx_ok st tx \<Longrightarrow> tx_insert S st q tx = (Inr b, tx') \<Longrightarrow>
      tx_ok st tx' \<and> writable tx' = writable tx
      \<and> view st tx' = insert q (view st tx) \<and> (b \<longleftrightarrow> q \<notin> view st tx)"
    and insert_err: "st_ok st \<Longrightarrow> tx_ok st tx \<Longrightarrow> tx_insert S st q tx = (Inl e, tx') \<Longrightarrow>
      tx_ok st tx' \<and> writable tx' = writable tx \<and> view st tx' = view st tx"
    and insert_read_only: "st_ok st \<Longrightarrow> tx_ok st tx \<Longrightarrow> \<not> writable tx \<Longrightarrow>
      \<exists>e. tx_insert S st q tx = (Inl e, tx)"
    and remove_ok: "st_ok st \<Longrightarrow> tx_ok st tx \<Longrightarrow> tx_remove S st q tx = (Inr b, tx') \<Longrightarrow>
      tx_ok st tx' \<and> writable tx' = writable tx
      \<and> view st tx' = view st tx - {q} \<and> (b \<longleftrightarrow> q \<in> view st tx)"
    and remove_err: "st_ok st \<Longrightarrow> tx_ok st tx \<Longrightarrow> tx_remove S st q tx = (Inl e, tx') \<Longrightarrow>
      tx_ok st tx' \<and> writable tx' = writable tx \<and> view st tx' = view st tx"
    and remove_read_only: "st_ok st \<Longrightarrow> tx_ok st tx \<Longrightarrow> \<not> writable tx \<Longrightarrow>
      \<exists>e. tx_remove S st q tx = (Inl e, tx)"
    and contains_ok: "st_ok st \<Longrightarrow> tx_ok st tx \<Longrightarrow> tx_contains S st tx q = Inr b \<Longrightarrow>
      b \<longleftrightarrow> q \<in> view st tx"
    and pattern_ok: "st_ok st \<Longrightarrow> tx_ok st tx \<Longrightarrow>
      collect_results (tx_quads_for_pattern S st tx s p obj g) = Inr qs \<Longrightarrow>
      distinct qs \<and> set qs = {q \<in> view st tx. matches_pattern q s p obj g}"
    and commit_ok: "st_ok st \<Longrightarrow> tx_ok st tx \<Longrightarrow> tx_commit S tx st = (Inr u, st') \<Longrightarrow>
      st_ok st' \<and> quads_of st' = (if writable tx then view st tx else quads_of st)"
    and commit_err: "st_ok st \<Longrightarrow> tx_ok st tx \<Longrightarrow> tx_commit S tx st = (Inl e, st') \<Longrightarrow>
      st_ok st' \<and> quads_of st' = quads_of st"
    and rollback_ok: "st_ok st \<Longrightarrow> tx_ok st tx \<Longrightarrow> tx_rollback S tx st = (r, st') \<Longrightarrow>
      st_ok st' \<and> quads_of st' = quads_of st"
    and quad_count_ok: "st_ok st \<Longrightarrow> quad_count S st = Inr n \<Longrightarrow> n = card (quads_of st)"
    and named_graphs_ok: "st_ok st \<Longrightarrow> named_graphs S st = Inr gs \<Longrightarrow>
      distinct gs \<and> set gs = graphs_of (quads_of st)"

begin

lemma insert_each_Inr:
  assumes "st_ok st" "tx_ok st tx" "insert_each S st qs tx = (Inr u, tx')"
  shows "tx_ok st tx' \<and> writable tx' = writable tx \<and> view st tx' = view st tx \<union> set qs"
  using assms(2,3)
proof (induction qs arbitrary: tx)
  case (Cons q qs)
  then obtain b t where "tx_insert S st q tx = (Inr b, t)" "insert_each S st qs t = (Inr u, tx')"
    by (auto split: prod.splits sum.splits)
  with insert_ok [OF assms(1) Cons.prems(1)] Cons.IH [of t] show ?case by auto
qed simp

lemma insert_keeps:
  assumes "st_ok st" "tx_ok st tx" "tx_insert S st q tx = (r, tx')"
  shows "tx_ok st tx' \<and> writable tx' = writable tx"
proof (cases r)
  case (Inl e)
  with assms insert_err [of st tx q e tx'] show ?thesis by simp
next
  case (Inr b)
  with assms insert_ok [of st tx q b tx'] show ?thesis by simp
qed

lemma insert_each_keeps:
  assumes "st_ok st" "tx_ok st tx" "insert_each S st qs tx = (r, tx')"
  shows "tx_ok st tx' \<and> writable tx' = writable tx"
  using assms(2,3)
proof (induction qs arbitrary: tx)
  case (Cons q qs)
  obtain r' t where t: "tx_insert S st q tx = (r', t)" by (cases "tx_insert S st q tx")
  note insert_keeps [OF assms(1) Cons.prems(1) t]
  with Cons.prems(2) Cons.IH [of t] t show ?case by (cases r') auto
qed simp

lemma remove_each_Inr:
  assumes "st_ok st" "tx_ok st tx" "remove_each S st qs tx = (Inr u, tx')"
  shows "tx_ok st tx' \<and> writable tx' = writable tx \<and> view st tx' = view st tx - set qs"
  using assms(2,3)
proof (induction qs arbitrary: tx)
  case (Cons q qs)
  then obtain b t where "tx_remove S st q tx = (Inr b, t)" "remove_each S st qs t = (Inr u, tx')"
    by (auto split: prod.splits sum.splits)
  with remove_ok [OF assms(1) Cons.prems(1)] Cons.IH [of t] show ?case by auto
qed simp

lemma remove_keeps:
  assumes "st_ok st" "tx_ok st tx" "tx_remove S st q tx = (r, tx')"
  shows "tx_ok st tx' \<and> writable tx' = writable tx"
proof (cases r)
  case (Inl e)
  with assms remove_err [of st tx q e tx'] show ?thesis by simp
next
  case (Inr b)
  with assms remove_ok [of st tx q b tx'] show ?thesis by simp
qed

lemma remove_each_keeps:
  assumes "st_ok st" "tx_ok st tx" "remove_each S st qs tx = (r, tx')"
  shows "tx_ok st tx' \<and> writable tx' = writable tx"
  using assms(2,3)
proof (induction qs arbitrary: tx)
  case (Cons q qs)
  obtain r' t where t: "tx_remove S st q tx = (r', t)" by (cases "tx_remove S st q tx")
  note remove_keeps [OF assms(1) Cons.prems(1) t]
  with Cons.prems(2) Cons.IH [of t] t show ?case by (cases r') auto
qed simp

lemma commit_quads:
  assumes "st_ok st" "tx_ok st tx" "tx_commit S tx st = (r, st')"
  shows "st_ok st' \<and> (quads_of st' = quads_of st \<or> quads_of st' = view st tx)"
proof (cases r)
  case (Inl e)
  with assms commit_err [of st tx e st'] show ?thesis by simp
next
  case (Inr u)
  with assms commit_ok [of st tx u st'] show ?thesis by (auto split: if_splits)
qed

end

text \<open>
  A store whose methods never fail on the quads \<open>accepts\<close> admits; a read transaction
  still refuses writes.
\<close>

locale reliable_storage = storage_contract +
  fixes accepts :: "Quad \<Rightarrow> bool"
  assumes begin_read_total: "st_ok st \<Longrightarrow> \<exists>tx. begin_read S st = Inr tx"
    and begin_write_total: "st_ok st \<Longrightarrow> \<exists>tx. begin_write S st = Inr tx"
    and insert_total: "st_ok st \<Longrightarrow> tx_ok st tx \<Longrightarrow> writable tx \<Longrightarrow> accepts q \<Longrightarrow>
      \<exists>b tx'. tx_insert S st q tx = (Inr b, tx')"
    and remove_total: "st_ok st \<Longrightarrow> tx_ok st tx \<Longrightarrow> writable tx \<Longrightarrow>
      \<exists>b tx'. tx_remove S st q tx = (Inr b, tx')"
    and contains_total: "st_ok st \<Longrightarrow> tx_ok st tx \<Longrightarrow> \<exists>b. tx_contains S st tx q = Inr b"
    and pattern_total: "st_ok st \<Longrightarrow> tx_ok st tx \<Longrightarrow>
      \<exists>qs. collect_results (tx_quads_for_pattern S st tx s p obj g) = Inr qs"
    and commit_total: "st_ok st \<Longrightarrow> tx_ok st tx \<Longrightarrow> \<exists>st'. tx_commit S tx st = (Inr (), st')"
    and rollback_total: "st_ok st \<Longrightarrow> tx_ok st tx \<Longrightarrow> \<exists>st'. tx_rollback S tx st = (Inr (), st')"
    and quad_count_total: "st_ok st \<Longrightarrow> \<exists>n. quad_count S st = Inr n"
    and named_graphs_total: "st_ok st \<Longrightarrow> \<exists>gs. named_graphs S st = Inr gs"

begin

lemma insert_each_total:
  assumes "st_ok st" "tx_ok st tx" "writable tx" "\<forall>q\<in>set qs. accepts q"
  shows "\<exists>tx'. insert_each S st qs tx = (Inr (), tx')"
  using assms(2,3,4)
proof (induction qs arbitrary: tx)
  case (Cons q qs)
  obtain b t where t: "tx_insert S st q tx = (Inr b, t)"
    using insert_total [OF assms(1) Cons.prems(1,2), of q] Cons.prems(3) by auto
  with insert_ok [OF assms(1) Cons.prems(1) t] Cons.IH [of t] Cons.prems show ?case by auto
qed simp

lemma remove_each_total:
  assumes "st_ok st" "tx_ok st tx" "writable tx"
  shows "\<exists>tx'. remove_each S st qs tx = (Inr (), tx')"
  using assms(2,3)
proof (induction qs arbitrary: tx)
  case (Cons q qs)
  obtain b t where t: "tx_remove S st q tx = (Inr b, t)"
    using remove_total [OF assms(1) Cons.prems(1,2), of q] by blast
  with remove_ok [OF assms(1) Cons.prems(1) t] Cons.IH [of t] Cons.prems show ?case by auto
qed simp

end

end
