(* ===== verification/Mem_Store.thy ===== *)
theory Mem_Store
  imports Storage_Trait
begin

text \<open>
  Two in-memory implementations of the storage traits.

  \<open>MemStore\<close> of \<^verbatim>\<open>semanticore-storage-testkit/src/mem.rs\<close> is the reference store of
  the contract suite: a transaction works on a private copy, and \<open>commit\<close> uses a version
  counter for optimistic concurrency control. \<open>DocStore\<close> is the complete example
  backend in the documentation of the \<open>Storage\<close> trait
  (\<^verbatim>\<open>semanticore-core/src/storage.rs\<close>, compiled and run as a test): a vector of
  committed quads, with insertions and removals staged in the transaction.

  Both satisfy \<open>reliable_storage\<close>. The last section is about transactions that overlap,
  where the two differ.
\<close>

section \<open>The reference store\<close>

record MemStore =
  ms_version :: "64 word"
  ms_quads :: "Quad list"

record MemTx =
  mt_base_version :: "64 word"
  mt_working :: "Quad list"
  mt_writable :: bool

definition MemStore_new :: MemStore where
  "MemStore_new = \<lparr>ms_version = 0, ms_quads = []\<rparr>"

definition read_only_error :: StorageError where
  "read_only_error = Backend (BoxMessage ''write attempted in a read-only transaction'')"

definition MemStore_begin_read :: "MemStore \<Rightarrow> StorageError + MemTx" where
  "MemStore_begin_read st =
     Inr \<lparr>mt_base_version = ms_version st, mt_working = ms_quads st, mt_writable = False\<rparr>"

definition MemStore_begin_write :: "MemStore \<Rightarrow> StorageError + MemTx" where
  "MemStore_begin_write st =
     (case MemStore_begin_read st of Inl e \<Rightarrow> Inl e | Inr tx \<Rightarrow> Inr (tx\<lparr>mt_writable := True\<rparr>))"

definition MemStore_quad_count :: "MemStore \<Rightarrow> StorageError + nat" where
  "MemStore_quad_count st = Inr (length (ms_quads st))"

definition MemStore_named_graphs :: "MemStore \<Rightarrow> StorageError + NamedNode list" where
  "MemStore_named_graphs st = Inr (remdups_adj (sort (List.map_filter graph_name (ms_quads st))))"

definition MemStore_capabilities :: "MemStore \<Rightarrow> StorageCapabilities" where
  "MemStore_capabilities st =
     \<lparr>persistent = False, concurrent_writes = False, bulk_load = False, sparql_endpoint = False,
      approximate_quad_count = False, isolation = SnapshotIsolation\<rparr>"

definition MemTx_insert :: "MemStore \<Rightarrow> Quad \<Rightarrow> MemTx \<Rightarrow> (StorageError + bool) \<times> MemTx" where
  "MemTx_insert st q tx =
     (if \<not> mt_writable tx then (Inl read_only_error, tx)
      else (let r = hs_insert q (mt_working tx) in (Inr (fst r), tx\<lparr>mt_working := snd r\<rparr>)))"

definition MemTx_remove :: "MemStore \<Rightarrow> Quad \<Rightarrow> MemTx \<Rightarrow> (StorageError + bool) \<times> MemTx" where
  "MemTx_remove st q tx =
     (if \<not> mt_writable tx then (Inl read_only_error, tx)
      else (let r = hs_remove q (mt_working tx) in (Inr (fst r), tx\<lparr>mt_working := snd r\<rparr>)))"

definition MemTx_contains :: "MemStore \<Rightarrow> MemTx \<Rightarrow> Quad \<Rightarrow> StorageError + bool" where
  "MemTx_contains st tx q = Inr (List.member (mt_working tx) q)"

definition MemTx_quads_for_pattern :: "MemStore \<Rightarrow> MemTx \<Rightarrow> NamedOrBlankNode option \<Rightarrow>
    NamedNode option \<Rightarrow> Term option \<Rightarrow> NamedOrDefault option \<Rightarrow> (StorageError + Quad) list" where
  "MemTx_quads_for_pattern st tx s p obj g =
     map Inr (filter (\<lambda>q. matches_pattern q s p obj g) (mt_working tx))"

definition MemTx_commit :: "MemTx \<Rightarrow> MemStore \<Rightarrow> (StorageError + unit) \<times> MemStore" where
  "MemTx_commit tx st =
     (if \<not> mt_writable tx then (Inr (), st)
      else if ms_version st \<noteq> mt_base_version tx then (Inl TransactionConflict, st)
      else (Inr (), st\<lparr>ms_quads := mt_working tx, ms_version := ms_version st + 1\<rparr>))"

definition MemTx_rollback :: "MemTx \<Rightarrow> MemStore \<Rightarrow> (StorageError + unit) \<times> MemStore" where
  "MemTx_rollback tx st = (Inr (), st)"

definition MemStore_storage :: "(MemStore, MemTx) Storage" where
  "MemStore_storage =
     \<lparr>begin_read = MemStore_begin_read, begin_write = MemStore_begin_write,
      quad_count = MemStore_quad_count, named_graphs = MemStore_named_graphs,
      capabilities = MemStore_capabilities,
      tx_insert = MemTx_insert, tx_remove = MemTx_remove, tx_contains = MemTx_contains,
      tx_quads_for_pattern = MemTx_quads_for_pattern,
      tx_commit = MemTx_commit, tx_rollback = MemTx_rollback\<rparr>"

definition mem_quads :: "MemStore \<Rightarrow> Quad set" where
  "mem_quads st = set (ms_quads st)"

definition mem_view :: "MemStore \<Rightarrow> MemTx \<Rightarrow> Quad set" where
  "mem_view st tx = set (mt_working tx)"

definition mem_st_ok :: "MemStore \<Rightarrow> bool" where
  "mem_st_ok st = distinct (ms_quads st)"

definition mem_tx_ok :: "MemStore \<Rightarrow> MemTx \<Rightarrow> bool" where
  "mem_tx_ok st tx \<longleftrightarrow> distinct (mt_working tx) \<and> mt_base_version tx = ms_version st"

lemmas mem_defs =
  MemStore_storage_def MemStore_begin_read_def MemStore_begin_write_def MemStore_quad_count_def
  MemStore_named_graphs_def MemTx_insert_def MemTx_remove_def MemTx_contains_def
  MemTx_quads_for_pattern_def MemTx_commit_def MemTx_rollback_def
  mem_quads_def mem_view_def mem_st_ok_def mem_tx_ok_def

lemma map_filter_graph_name: "set (List.map_filter graph_name qs) = graphs_of (set qs)"
  by (induction qs) (auto simp: graphs_of_def graph_name_def List.map_filter_simps split: NamedOrDefault.splits)

lemma sorted_remdups_adj_distinct: "sorted xs \<Longrightarrow> distinct (remdups_adj xs)"
  by (induction xs rule: remdups_adj.induct) (auto simp: order_antisym)

lemma sorted_dedup_graphs:
  "distinct (remdups_adj (sort (List.map_filter graph_name qs)))"
  "set (remdups_adj (sort (List.map_filter graph_name qs))) = graphs_of (set qs)"
  by (simp_all add: sorted_remdups_adj_distinct map_filter_graph_name)

interpretation mem: reliable_storage MemStore_storage mem_quads mem_view mem_st_ok mem_tx_ok
    mt_writable "\<lambda>_. True"
proof (unfold_locales, goal_cases)
  case (11 st tx s p obj g qs)
  then show ?case by (auto simp: mem_defs)
next
  case (16 st gs)
  then show ?case using sorted_dedup_graphs [of "ms_quads st"] by (auto simp: mem_defs)
qed (auto simp: mem_defs Let_def distinct_card split: if_splits)

section \<open>The documented example store\<close>

type_synonym DocStore = "Quad list"

record DocTx =
  dt_writable :: bool
  dt_inserted :: "Quad list"
  dt_removed :: "Quad list"

definition DocTx_snapshot :: "DocStore \<Rightarrow> DocTx \<Rightarrow> Quad list" where
  "DocTx_snapshot base tx = filter (\<lambda>q. \<not> List.member (dt_removed tx) q) base @ dt_inserted tx"

definition DocTx_check_writable :: "DocTx \<Rightarrow> StorageError + unit" where
  "DocTx_check_writable tx =
     (if dt_writable tx then Inr () else Inl (Backend (BoxMessage ''read-only transaction'')))"

definition DocTx_contains :: "DocStore \<Rightarrow> DocTx \<Rightarrow> Quad \<Rightarrow> StorageError + bool" where
  "DocTx_contains st tx q = Inr (List.member (DocTx_snapshot st tx) q)"

definition DocTx_insert :: "DocStore \<Rightarrow> Quad \<Rightarrow> DocTx \<Rightarrow> (StorageError + bool) \<times> DocTx" where
  "DocTx_insert st q tx =
     (case DocTx_check_writable tx of Inl e \<Rightarrow> (Inl e, tx)
      | Inr _ \<Rightarrow> (case DocTx_contains st tx q of Inl e \<Rightarrow> (Inl e, tx)
        | Inr present \<Rightarrow>
            if present then (Inr False, tx)
            else (Inr True,
              (case position (\<lambda>r. r = q) (dt_removed tx) of
                 Some i \<Rightarrow> tx\<lparr>dt_removed := swap_remove i (dt_removed tx)\<rparr>
               | None \<Rightarrow> tx\<lparr>dt_inserted := dt_inserted tx @ [q]\<rparr>))))"

definition DocTx_remove :: "DocStore \<Rightarrow> Quad \<Rightarrow> DocTx \<Rightarrow> (StorageError + bool) \<times> DocTx" where
  "DocTx_remove st q tx =
     (case DocTx_check_writable tx of Inl e \<Rightarrow> (Inl e, tx)
      | Inr _ \<Rightarrow> (case DocTx_contains st tx q of Inl e \<Rightarrow> (Inl e, tx)
        | Inr present \<Rightarrow>
            if \<not> present then (Inr False, tx)
            else (Inr True,
              (case position (\<lambda>r. r = q) (dt_inserted tx) of
                 Some i \<Rightarrow> tx\<lparr>dt_inserted := swap_remove i (dt_inserted tx)\<rparr>
               | None \<Rightarrow> tx\<lparr>dt_removed := dt_removed tx @ [q]\<rparr>))))"

definition DocTx_quads_for_pattern :: "DocStore \<Rightarrow> DocTx \<Rightarrow> NamedOrBlankNode option \<Rightarrow>
    NamedNode option \<Rightarrow> Term option \<Rightarrow> NamedOrDefault option \<Rightarrow> (StorageError + Quad) list" where
  "DocTx_quads_for_pattern st tx s p obj g =
     map Inr (filter (\<lambda>q. is_none_or s (q_subject q) \<and> is_none_or p (q_predicate q)
                        \<and> is_none_or obj (q_object q) \<and> is_none_or g (q_graph q))
                (DocTx_snapshot st tx))"

definition DocTx_commit :: "DocTx \<Rightarrow> DocStore \<Rightarrow> (StorageError + unit) \<times> DocStore" where
  "DocTx_commit tx base =
     (Inr (), filter (\<lambda>q. \<not> List.member (dt_removed tx) q) base @ dt_inserted tx)"

definition DocTx_rollback :: "DocTx \<Rightarrow> DocStore \<Rightarrow> (StorageError + unit) \<times> DocStore" where
  "DocTx_rollback tx base = (Inr (), base)"

definition DocStore_begin_read :: "DocStore \<Rightarrow> StorageError + DocTx" where
  "DocStore_begin_read st = Inr \<lparr>dt_writable = False, dt_inserted = [], dt_removed = []\<rparr>"

definition DocStore_begin_write :: "DocStore \<Rightarrow> StorageError + DocTx" where
  "DocStore_begin_write st = Inr \<lparr>dt_writable = True, dt_inserted = [], dt_removed = []\<rparr>"

definition DocStore_quad_count :: "DocStore \<Rightarrow> StorageError + nat" where
  "DocStore_quad_count st = Inr (length st)"

definition DocStore_named_graphs :: "DocStore \<Rightarrow> StorageError + NamedNode list" where
  "DocStore_named_graphs st = Inr (remdups_adj (sort (List.map_filter graph_name st)))"

definition DocStore_capabilities :: "DocStore \<Rightarrow> StorageCapabilities" where
  "DocStore_capabilities st =
     \<lparr>persistent = False, concurrent_writes = False, bulk_load = False, sparql_endpoint = False,
      approximate_quad_count = False, isolation = ReadCommitted\<rparr>"

definition DocStore_storage :: "(DocStore, DocTx) Storage" where
  "DocStore_storage =
     \<lparr>begin_read = DocStore_begin_read, begin_write = DocStore_begin_write,
      quad_count = DocStore_quad_count, named_graphs = DocStore_named_graphs,
      capabilities = DocStore_capabilities,
      tx_insert = DocTx_insert, tx_remove = DocTx_remove, tx_contains = DocTx_contains,
      tx_quads_for_pattern = DocTx_quads_for_pattern,
      tx_commit = DocTx_commit, tx_rollback = DocTx_rollback\<rparr>"

definition doc_view :: "DocStore \<Rightarrow> DocTx \<Rightarrow> Quad set" where
  "doc_view st tx = set st - set (dt_removed tx) \<union> set (dt_inserted tx)"

text \<open>
  The staging invariant: staged removals are committed quads, staged insertions are not,
  neither is repeated, and a read transaction stages nothing.
\<close>

definition doc_tx_ok :: "DocStore \<Rightarrow> DocTx \<Rightarrow> bool" where
  "doc_tx_ok st tx \<longleftrightarrow>
     distinct (dt_inserted tx) \<and> distinct (dt_removed tx)
   \<and> set (dt_removed tx) \<subseteq> set st \<and> set (dt_inserted tx) \<inter> set st = {}
   \<and> (\<not> dt_writable tx \<longrightarrow> dt_inserted tx = [] \<and> dt_removed tx = [])"

lemmas doc_defs =
  DocStore_storage_def DocStore_begin_read_def DocStore_begin_write_def DocStore_quad_count_def
  DocStore_named_graphs_def DocTx_check_writable_def DocTx_insert_def DocTx_remove_def
  DocTx_contains_def DocTx_quads_for_pattern_def DocTx_commit_def DocTx_rollback_def

lemma set_DocTx_snapshot [simp]: "set (DocTx_snapshot st tx) = doc_view st tx"
  by (auto simp: DocTx_snapshot_def doc_view_def)

lemma distinct_DocTx_snapshot: "distinct st \<Longrightarrow> doc_tx_ok st tx \<Longrightarrow> distinct (DocTx_snapshot st tx)"
  by (auto simp: DocTx_snapshot_def doc_tx_ok_def)

lemma doc_insert_stages:
  assumes "doc_tx_ok st tx" "dt_writable tx" "q \<notin> doc_view st tx"
  defines "tx' \<equiv> (case position (\<lambda>r. r = q) (dt_removed tx) of
                 Some i \<Rightarrow> tx\<lparr>dt_removed := swap_remove i (dt_removed tx)\<rparr>
               | None \<Rightarrow> tx\<lparr>dt_inserted := dt_inserted tx @ [q]\<rparr>)"
  shows "doc_tx_ok st tx' \<and> dt_writable tx' \<and> doc_view st tx' = insert q (doc_view st tx)"
proof (cases "position (\<lambda>r. r = q) (dt_removed tx)")
  case None
  then have "q \<notin> set (dt_removed tx)" by (auto simp: position_None)
  with assms None show ?thesis by (auto simp: doc_tx_ok_def doc_view_def)
next
  case (Some i)
  then have i: "i < length (dt_removed tx)" "dt_removed tx ! i = q"
    by (auto dest: position_Some)
  then have q: "q \<in> set (dt_removed tx)" by auto
  have sr: "set (swap_remove i (dt_removed tx)) = set (dt_removed tx) - {q}"
    "distinct (swap_remove i (dt_removed tx))"
    using assms(1) i swap_remove_set [of i "dt_removed tx"] swap_remove_mset_parts(2) [of i "dt_removed tx"]
    by (auto simp: doc_tx_ok_def)
  with assms Some q show ?thesis by (auto simp: doc_tx_ok_def doc_view_def)
qed

lemma doc_remove_stages:
  assumes "doc_tx_ok st tx" "dt_writable tx" "q \<in> doc_view st tx"
  defines "tx' \<equiv> (case position (\<lambda>r. r = q) (dt_inserted tx) of
                 Some i \<Rightarrow> tx\<lparr>dt_inserted := swap_remove i (dt_inserted tx)\<rparr>
               | None \<Rightarrow> tx\<lparr>dt_removed := dt_removed tx @ [q]\<rparr>)"
  shows "doc_tx_ok st tx' \<and> dt_writable tx' \<and> doc_view st tx' = doc_view st tx - {q}"
proof (cases "position (\<lambda>r. r = q) (dt_inserted tx)")
  case None
  then have "q \<notin> set (dt_inserted tx)" by (auto simp: position_None)
  with assms None show ?thesis by (auto simp: doc_tx_ok_def doc_view_def)
next
  case (Some i)
  then have i: "i < length (dt_inserted tx)" "dt_inserted tx ! i = q"
    by (auto dest: position_Some)
  then have q: "q \<in> set (dt_inserted tx)" by auto
  have sr: "set (swap_remove i (dt_inserted tx)) = set (dt_inserted tx) - {q}"
    "distinct (swap_remove i (dt_inserted tx))"
    using assms(1) i swap_remove_set [of i "dt_inserted tx"] swap_remove_mset_parts(2) [of i "dt_inserted tx"]
    by (auto simp: doc_tx_ok_def)
  with assms Some q show ?thesis by (auto simp: doc_tx_ok_def doc_view_def)
qed

interpretation docmem: reliable_storage DocStore_storage set doc_view distinct doc_tx_ok
    dt_writable "\<lambda>_. True"
proof (unfold_locales, goal_cases)
  case (4 st tx q b tx')
  then show ?case using doc_insert_stages [of st tx q]
    by (auto simp: doc_defs split: if_splits)
next
  case (7 st tx q b tx')
  then show ?case using doc_remove_stages [of st tx q]
    by (auto simp: doc_defs split: if_splits)
next
  case (11 st tx s p obj g qs)
  then show ?case
    by (auto simp: doc_defs matches_pattern_def distinct_DocTx_snapshot)
next
  case (12 st tx u st')
  then show ?case by (auto simp: doc_defs doc_tx_ok_def doc_view_def)
next
  case (16 st gs)
  then show ?case using sorted_dedup_graphs [of st] by (auto simp: doc_defs)
qed (auto simp: doc_defs doc_tx_ok_def doc_view_def distinct_card split: if_splits)

section \<open>Overlapping write transactions\<close>

text \<open>
  Two write transactions opened on the same state, with any writes in between: in the
  reference store the second commit is refused and changes nothing.
\<close>

definition MemStore_overlap ::
    "MemStore \<Rightarrow> Quad list \<Rightarrow> Quad list \<Rightarrow> (StorageError + unit) \<times> (StorageError + unit) \<times> MemStore" where
  "MemStore_overlap st ws1 ws2 =
     (case (MemStore_begin_write st, MemStore_begin_write st) of
        (Inr t1, Inr t2) \<Rightarrow>
          (let t1' = snd (insert_each MemStore_storage st ws1 t1);
               t2' = snd (insert_each MemStore_storage st ws2 t2);
               (r1, st1) = MemTx_commit t1' st;
               (r2, st2) = MemTx_commit t2' st1
           in (r1, r2, st2))
      | _ \<Rightarrow> (Inl TransactionConflict, Inl TransactionConflict, st))"

lemma insert_each_mem:
  "mt_writable tx \<Longrightarrow> mt_base_version (snd (insert_each MemStore_storage st qs tx)) = mt_base_version tx
     \<and> mt_writable (snd (insert_each MemStore_storage st qs tx))"
  by (induction qs arbitrary: tx) (auto simp: MemStore_storage_def MemTx_insert_def Let_def)

end
