(* ===== verification/Contract.thy ===== *)
theory Contract
  imports Mem_Store "HOL-Library.Monad_Syntax"
begin

text \<open>
  The storage contract suite of \<^verbatim>\<open>semanticore-storage-testkit/src/contract.rs\<close>: one
  definition per check. A check is a function of the storage trait's methods and a fresh
  store; it panics where an \<open>assert\<close>, an \<open>unwrap\<close> or an \<open>expect\<close> of the code does, which is
  the outcome \<open>None\<close>. A \<open>HashSet\<close> of quads is a set.

  \<open>shared_storage\<close> states what a store promises beyond \<open>reliable_storage\<close> when transactions
  overlap or are dropped. Every check passes on every such store, and the reference store
  is one. The threads of
  \<open>shareable_across_threads\<close> are in Threads.thy.

  The compiler drops a transaction that is neither committed nor rolled back; what this
  does to the store is the parameter \<open>tx_drop\<close> of the checks that depend on it.
\<close>

section \<open>Helpers\<close>

definition unwrap :: "'e + 'a \<Rightarrow> 'a option" where
  "unwrap r = (case r of Inl _ \<Rightarrow> None | Inr a \<Rightarrow> Some a)"

definition unwrap_st :: "('e + 'a) \<times> 's \<Rightarrow> ('a \<times> 's) option" where
  "unwrap_st r = (case r of (Inl _, _) \<Rightarrow> None | (Inr a, s) \<Rightarrow> Some (a, s))"

definition assert_that :: "bool \<Rightarrow> unit option" where
  "assert_that b = (if b then Some () else None)"

definition all_quads :: "('st, 'tx) Storage \<Rightarrow> 'st \<Rightarrow> 'tx \<Rightarrow> Quad set option" where
  "all_quads S st tx = map_option set (unwrap (collect_results (tx_quads_for_pattern S st tx None None None None)))"

definition committed :: "('st, 'tx) Storage \<Rightarrow> 'st \<Rightarrow> (Quad set \<times> 'st) option" where
  "committed S st = do {
     tx \<leftarrow> unwrap (begin_read S st);
     out \<leftarrow> all_quads S st tx;
     (_, st) \<leftarrow> unwrap_st (tx_rollback S tx st);
     Some (out, st)
   }"

definition load_quads :: "('st, 'tx) Storage \<Rightarrow> Quad list \<Rightarrow> 'st \<Rightarrow> 'st option" where
  "load_quads S quads st = do {
     tx \<leftarrow> unwrap (begin_write S st);
     (_, tx) \<leftarrow> unwrap_st (insert_each S st quads tx);
     (_, st) \<leftarrow> unwrap_st (tx_commit S tx st);
     Some st
   }"

definition unload_quads :: "('st, 'tx) Storage \<Rightarrow> Quad list \<Rightarrow> 'st \<Rightarrow> 'st option" where
  "unload_quads S quads st = do {
     tx \<leftarrow> unwrap (begin_write S st);
     (_, tx) \<leftarrow> unwrap_st (remove_each S st quads tx);
     (_, st) \<leftarrow> unwrap_st (tx_commit S tx st);
     Some st
   }"

definition contract_iri :: "string \<Rightarrow> NamedNode" where
  "contract_iri s = NamedNode (''https://example.org/'' @ s)"

section \<open>Checks driven by generated inputs\<close>

fun contains_each :: "('st, 'tx) Storage \<Rightarrow> 'st \<Rightarrow> 'tx \<Rightarrow> Quad list \<Rightarrow> unit option" where
  "contains_each S st tx [] = Some ()"
| "contains_each S st tx (q # qs) = do {
     b \<leftarrow> unwrap (tx_contains S st tx q);
     _ \<leftarrow> assert_that b;
     contains_each S st tx qs
   }"

definition round_trip :: "('st, 'tx) Storage \<Rightarrow> 'st \<Rightarrow> Quad list \<Rightarrow> unit option" where
  "round_trip S store quads = do {
     st \<leftarrow> load_quads S quads store;
     tx \<leftarrow> unwrap (begin_read S st);
     _ \<leftarrow> contains_each S st tx quads;
     got \<leftarrow> all_quads S st tx;
     _ \<leftarrow> assert_that (got = set quads);
     (_, st) \<leftarrow> unwrap_st (tx_rollback S tx st);
     n \<leftarrow> unwrap (quad_count S st);
     assert_that (n = card (set quads))
   }"

fun insert_expecting :: "('st, 'tx) Storage \<Rightarrow> 'st \<Rightarrow> Quad list \<Rightarrow> Quad set \<Rightarrow> 'tx \<Rightarrow> 'tx option" where
  "insert_expecting S st [] seen tx = Some tx"
| "insert_expecting S st (q # qs) seen tx = do {
     (changed, tx) \<leftarrow> unwrap_st (tx_insert S st q tx);
     _ \<leftarrow> assert_that (changed = (q \<notin> seen));
     insert_expecting S st qs (insert q seen) tx
   }"

definition idempotent_insert :: "('st, 'tx) Storage \<Rightarrow> 'st \<Rightarrow> Quad list \<Rightarrow> unit option" where
  "idempotent_insert S store quads = do {
     tx \<leftarrow> unwrap (begin_write S store);
     tx \<leftarrow> insert_expecting S store quads {} tx;
     (_, st) \<leftarrow> unwrap_st (tx_commit S tx store);
     (once, st) \<leftarrow> committed S st;
     tx \<leftarrow> unwrap (begin_write S st);
     tx \<leftarrow> insert_expecting S st quads (set quads) tx;
     (_, st) \<leftarrow> unwrap_st (tx_commit S tx st);
     (again, st) \<leftarrow> committed S st;
     _ \<leftarrow> assert_that (again = once);
     n \<leftarrow> unwrap (quad_count S st);
     assert_that (n = card once)
   }"

definition pattern :: "('st, 'tx) Storage \<Rightarrow> 'st \<Rightarrow> Quad list \<Rightarrow> NamedOrBlankNode option \<Rightarrow> NamedNode option \<Rightarrow>
    Term option \<Rightarrow> NamedOrDefault option \<Rightarrow> unit option" where
  "pattern S store quads s p obj g = do {
     st \<leftarrow> load_quads S quads store;
     tx \<leftarrow> unwrap (begin_read S st);
     got \<leftarrow> unwrap (collect_results (tx_quads_for_pattern S st tx s p obj g));
     _ \<leftarrow> assert_that (length got = card (set got));
     assert_that (set got = set (filter (\<lambda>q. matches_pattern q s p obj g) quads))
   }"

definition then_some :: "bool \<Rightarrow> 'a \<Rightarrow> 'a option" where
  "then_some b x = (if b then Some x else None)"

definition pattern_from_member :: "('st, 'tx) Storage \<Rightarrow> 'st \<Rightarrow> Quad list \<Rightarrow> Quad \<Rightarrow> bool \<times> bool \<times> bool \<times> bool \<Rightarrow> unit option" where
  "pattern_from_member S store quads q bound = do {
     st \<leftarrow> load_quads S quads store;
     tx \<leftarrow> unwrap (begin_read S st);
     got \<leftarrow> (case bound of (m0, m1, m2, m3) \<Rightarrow>
        unwrap (collect_results (tx_quads_for_pattern S st tx (then_some m0 (q_subject q))
          (then_some m1 (q_predicate q)) (then_some m2 (q_object q)) (then_some m3 (q_graph q)))));
     assert_that (List.member got q)
   }"

text \<open>
  \<open>delete_after_insert\<close> in its four steps: insertion and removal in one transaction, the
  restored base, insertion and removal in two commits, and the removal of an absent quad.
\<close>

definition delete_same_tx :: "('st, 'tx) Storage \<Rightarrow> Quad \<Rightarrow> Quad set \<Rightarrow> 'st \<Rightarrow> 'st option" where
  "delete_same_tx S extra before st = do {
     tx \<leftarrow> unwrap (begin_write S st);
     (changed, tx) \<leftarrow> unwrap_st (tx_insert S st extra tx);
     _ \<leftarrow> assert_that (changed = (extra \<notin> before));
     (changed, tx) \<leftarrow> unwrap_st (tx_remove S st extra tx);
     _ \<leftarrow> assert_that changed;
     b \<leftarrow> unwrap (tx_contains S st tx extra);
     _ \<leftarrow> assert_that (\<not> b);
     (_, st) \<leftarrow> unwrap_st (tx_commit S tx st);
     (got, st) \<leftarrow> committed S st;
     _ \<leftarrow> assert_that (got = before - {extra});
     Some st
   }"

definition delete_two_commits :: "('st, 'tx) Storage \<Rightarrow> Quad \<Rightarrow> Quad set \<Rightarrow> 'st \<Rightarrow> 'st option" where
  "delete_two_commits S extra before st =
     (if extra \<in> before then Some st
      else do {
        st \<leftarrow> load_quads S [extra] st;
        tx \<leftarrow> unwrap (begin_write S st);
        (changed, tx) \<leftarrow> unwrap_st (tx_remove S st extra tx);
        _ \<leftarrow> assert_that changed;
        (_, st) \<leftarrow> unwrap_st (tx_commit S tx st);
        (got, st) \<leftarrow> committed S st;
        _ \<leftarrow> assert_that (got = before);
        Some st
      })"

definition delete_after_insert :: "('st, 'tx) Storage \<Rightarrow> 'st \<Rightarrow> Quad list \<Rightarrow> Quad \<Rightarrow> unit option" where
  "delete_after_insert S store base extra = do {
     st \<leftarrow> load_quads S base store;
     (before, st) \<leftarrow> committed S st;
     st \<leftarrow> delete_same_tx S extra before st;
     st \<leftarrow> load_quads S base st;
     (got, st) \<leftarrow> committed S st;
     _ \<leftarrow> assert_that (got = before);
     st \<leftarrow> delete_two_commits S extra before st;
     tx \<leftarrow> unwrap (begin_write S st);
     tx \<leftarrow> (if extra \<in> before then Some tx
           else do {
             (changed, tx) \<leftarrow> unwrap_st (tx_remove S st extra tx);
             _ \<leftarrow> assert_that (\<not> changed);
             Some tx
           });
     (_, st) \<leftarrow> unwrap_st (tx_rollback S tx st);
     (got, st) \<leftarrow> committed S st;
     assert_that (got = before)
   }"

fun insert_visible :: "('st, 'tx) Storage \<Rightarrow> 'st \<Rightarrow> Quad list \<Rightarrow> 'tx \<Rightarrow> 'tx option" where
  "insert_visible S st [] tx = Some tx"
| "insert_visible S st (q # qs) tx = do {
     (_, tx) \<leftarrow> unwrap_st (tx_insert S st q tx);
     b \<leftarrow> unwrap (tx_contains S st tx q);
     _ \<leftarrow> assert_that b;
     insert_visible S st qs tx
   }"

definition rollback_and_isolation :: "('st, 'tx) Storage \<Rightarrow> 'st \<Rightarrow> Quad list \<Rightarrow> Quad list \<Rightarrow> unit option" where
  "rollback_and_isolation S store base writes = do {
     st \<leftarrow> load_quads S base store;
     (before, st) \<leftarrow> committed S st;
     tx \<leftarrow> unwrap (begin_write S st);
     tx \<leftarrow> insert_visible S st writes tx;
     (tx, inside) \<leftarrow> (case base of [] \<Rightarrow> Some (tx, before \<union> set writes)
        | first # _ \<Rightarrow> do {
            (_, tx) \<leftarrow> unwrap_st (tx_remove S st first tx);
            b \<leftarrow> unwrap (tx_contains S st tx first);
            _ \<leftarrow> assert_that (\<not> b);
            Some (tx, before \<union> set writes - {first})
          });
     got \<leftarrow> all_quads S st tx;
     _ \<leftarrow> assert_that (got = inside);
     (got, st) \<leftarrow> committed S st;
     _ \<leftarrow> assert_that (got = before);
     (_, st) \<leftarrow> unwrap_st (tx_rollback S tx st);
     (got, st) \<leftarrow> committed S st;
     assert_that (got = before)
   }"

definition drop_discards_writes :: "('tx \<Rightarrow> 'st \<Rightarrow> 'st) \<Rightarrow> ('st, 'tx) Storage \<Rightarrow> 'st \<Rightarrow> Quad list \<Rightarrow> Quad list \<Rightarrow> unit option" where
  "drop_discards_writes tx_drop S store base writes = do {
     st \<leftarrow> load_quads S base store;
     (before, st) \<leftarrow> committed S st;
     tx \<leftarrow> unwrap (begin_write S st);
     (_, tx) \<leftarrow> unwrap_st (insert_each S st writes tx);
     (_, tx) \<leftarrow> unwrap_st (remove_each S st base tx);
     (got, st) \<leftarrow> committed S (tx_drop tx st);
     _ \<leftarrow> assert_that (got = before);
     n \<leftarrow> unwrap (quad_count S st);
     assert_that (n = card before)
   }"

definition is_err :: "('e + 'a) \<times> 's \<Rightarrow> bool" where
  "is_err r = (case fst r of Inl _ \<Rightarrow> True | Inr _ \<Rightarrow> False)"

definition read_only_rejects_writes :: "('st, 'tx) Storage \<Rightarrow> 'st \<Rightarrow> Quad list \<Rightarrow> Quad \<Rightarrow> unit option" where
  "read_only_rejects_writes S store base q = do {
     st \<leftarrow> load_quads S base store;
     (before, st) \<leftarrow> committed S st;
     tx \<leftarrow> unwrap (begin_read S st);
     _ \<leftarrow> assert_that (is_err (tx_insert S st q tx));
     tx \<leftarrow> Some (snd (tx_insert S st q tx));
     _ \<leftarrow> assert_that (is_err (tx_remove S st q tx));
     tx \<leftarrow> Some (snd (tx_remove S st q tx));
     b \<leftarrow> unwrap (tx_contains S st tx q);
     _ \<leftarrow> assert_that (b = (q \<in> before));
     got \<leftarrow> all_quads S st tx;
     _ \<leftarrow> assert_that (got = before);
     (_, st) \<leftarrow> unwrap_st (tx_commit S tx st);
     (got, st) \<leftarrow> committed S st;
     _ \<leftarrow> assert_that (got = before);
     tx \<leftarrow> unwrap (begin_read S st);
     tx \<leftarrow> (case base of [] \<Rightarrow> Some tx
        | first # _ \<Rightarrow> do {
            _ \<leftarrow> assert_that (is_err (tx_remove S st first tx));
            Some (snd (tx_remove S st first tx))
          });
     (_, st) \<leftarrow> unwrap_st (tx_rollback S tx st);
     (got, st) \<leftarrow> committed S st;
     assert_that (got = before)
   }"

definition check_named_graphs :: "('st, 'tx) Storage \<Rightarrow> 'st \<Rightarrow> Quad list \<Rightarrow> unit option" where
  "check_named_graphs S store quads = do {
     st \<leftarrow> load_quads S quads store;
     got \<leftarrow> unwrap (named_graphs S st);
     _ \<leftarrow> assert_that (length got = card (set got));
     assert_that (set got = set (List.map_filter graph_name quads))
   }"

definition zip_cycle :: "'a list \<Rightarrow> 'b list \<Rightarrow> ('a \<times> 'b) list" where
  "zip_cycle xs ys = (if ys = [] then [] else zip xs (map (\<lambda>k. ys ! (k mod length ys)) [0..<length xs]))"

definition named_graphs_track_removals :: "('st, 'tx) Storage \<Rightarrow> 'st \<Rightarrow> Quad list \<Rightarrow> bool list \<Rightarrow> unit option" where
  "named_graphs_track_removals S store quads removals = do {
     st \<leftarrow> load_quads S quads store;
     st \<leftarrow> unload_quads S (map fst (filter snd (zip_cycle quads removals))) st;
     (remaining, st) \<leftarrow> committed S st;
     got \<leftarrow> unwrap (named_graphs S st);
     _ \<leftarrow> assert_that (length (remdups_adj (sort got)) = length got);
     _ \<leftarrow> assert_that (set (remdups_adj (sort got)) = graphs_of remaining);
     n \<leftarrow> unwrap (quad_count S st);
     assert_that (n = card remaining)
   }"

fun contains_as :: "('st, 'tx) Storage \<Rightarrow> 'st \<Rightarrow> 'tx \<Rightarrow> Quad set \<Rightarrow> Quad list \<Rightarrow> unit option" where
  "contains_as S st tx before [] = Some ()"
| "contains_as S st tx before (q # qs) = do {
     b \<leftarrow> unwrap (tx_contains S st tx q);
     _ \<leftarrow> assert_that (b = (q \<in> before));
     contains_as S st tx before qs
   }"

definition snapshot_reads :: "('st, 'tx) Storage \<Rightarrow> 'st \<Rightarrow> Quad list \<Rightarrow> Quad list \<Rightarrow> unit option" where
  "snapshot_reads S store base writes = do {
     st \<leftarrow> load_quads S base store;
     (before, st) \<leftarrow> committed S st;
     let snapshot = (isolation (capabilities S st) \<noteq> ReadCommitted);
     reader \<leftarrow> unwrap (begin_read S st);
     got \<leftarrow> all_quads S st reader;
     _ \<leftarrow> assert_that (got = before);
     tx \<leftarrow> unwrap (begin_write S st);
     (_, tx) \<leftarrow> unwrap_st (insert_each S st writes tx);
     (_, tx) \<leftarrow> unwrap_st (remove_each S st (take 1 base) tx);
     (_, st) \<leftarrow> unwrap_st (tx_commit S tx st);
     (after, st) \<leftarrow> committed S st;
     _ \<leftarrow> (if snapshot
           then do {
             got \<leftarrow> all_quads S st reader;
             _ \<leftarrow> assert_that (got = before);
             contains_as S st reader before writes
           }
           else Some ());
     (_, st) \<leftarrow> unwrap_st (tx_rollback S reader st);
     assert_that (after = before \<union> set writes - set (take 1 base))
   }"

section \<open>Checks on examples\<close>

definition empty_store_is_empty :: "('st, 'tx) Storage \<Rightarrow> 'st \<Rightarrow> unit option" where
  "empty_store_is_empty S store = do {
     n \<leftarrow> unwrap (quad_count S store);
     _ \<leftarrow> assert_that (n = 0);
     gs \<leftarrow> unwrap (named_graphs S store);
     _ \<leftarrow> assert_that (gs = []);
     (got, _) \<leftarrow> committed S store;
     assert_that (got = {})
   }"

definition example_quad :: "NamedOrDefault \<Rightarrow> Quad" where
  "example_quad g = Quad_new (NbNamed (contract_iri ''s'')) (contract_iri ''p'') (TNamed (contract_iri ''o'')) g"

definition graph_only :: "('st, 'tx) Storage \<Rightarrow> 'st \<Rightarrow> 'tx \<Rightarrow> NamedOrDefault \<Rightarrow> Quad list option" where
  "graph_only S st tx g = unwrap (collect_results (tx_quads_for_pattern S st tx None None None (Some g)))"

definition graphs_are_separate :: "('st, 'tx) Storage \<Rightarrow> 'st \<Rightarrow> unit option" where
  "graphs_are_separate S store = do {
     let g1 = contract_iri ''g1'';
     let g2 = contract_iri ''g2'';
     let qd = example_quad GDefault;
     let q1 = example_quad (GNamed g1);
     let q2 = example_quad (GNamed g2);
     st \<leftarrow> load_quads S [qd, q1, q2] store;
     n \<leftarrow> unwrap (quad_count S st);
     _ \<leftarrow> assert_that (n = 3);
     tx \<leftarrow> unwrap (begin_read S st);
     got \<leftarrow> graph_only S st tx GDefault;
     _ \<leftarrow> assert_that (got = [qd]);
     got \<leftarrow> graph_only S st tx (GNamed g1);
     _ \<leftarrow> assert_that (got = [q1]);
     got \<leftarrow> graph_only S st tx (GNamed (contract_iri ''nope''));
     _ \<leftarrow> assert_that (got = []);
     got \<leftarrow> unwrap (collect_results (tx_quads_for_pattern S st tx (Some (q_subject qd)) (Some (q_predicate qd)) (Some (q_object qd)) None));
     _ \<leftarrow> assert_that (card (set got) = 3);
     (_, st) \<leftarrow> unwrap_st (tx_rollback S tx st);
     graphs \<leftarrow> unwrap (named_graphs S st);
     _ \<leftarrow> assert_that (sort graphs = [g1, g2]);
     st \<leftarrow> unload_quads S [q1] st;
     (got, st) \<leftarrow> committed S st;
     _ \<leftarrow> assert_that (got = {qd, q2});
     graphs \<leftarrow> unwrap (named_graphs S st);
     assert_that (graphs = [g2])
   }"

definition writes_after_rollback :: "('tx \<Rightarrow> 'st \<Rightarrow> 'st) \<Rightarrow> ('st, 'tx) Storage \<Rightarrow> 'st \<Rightarrow> unit option" where
  "writes_after_rollback tx_drop S store = do {
     let q = (\<lambda>n. Quad_triple (NbNamed (contract_iri n)) (contract_iri ''p'') (TNamed (contract_iri ''o'')));
     tx \<leftarrow> unwrap (begin_write S store);
     (_, tx) \<leftarrow> unwrap_st (tx_insert S store (q ''a'') tx);
     (_, st) \<leftarrow> unwrap_st (tx_rollback S tx store);
     tx \<leftarrow> unwrap (begin_write S st);
     (_, tx) \<leftarrow> unwrap_st (tx_insert S st (q ''b'') tx);
     st \<leftarrow> Some (tx_drop tx st);
     tx \<leftarrow> unwrap (begin_write S st);
     (changed, tx) \<leftarrow> unwrap_st (tx_insert S st (q ''c'') tx);
     _ \<leftarrow> assert_that changed;
     (_, st) \<leftarrow> unwrap_st (tx_commit S tx st);
     (got, _) \<leftarrow> committed S st;
     assert_that (got = {q ''c''})
   }"

text \<open>The quads that the checks without generated inputs write.\<close>

definition rollback_quad :: "string \<Rightarrow> Quad" where
  "rollback_quad n = Quad_triple (NbNamed (contract_iri n)) (contract_iri ''p'') (TNamed (contract_iri ''o''))"

definition suite_quads :: "Quad list" where
  "suite_quads = [example_quad GDefault, example_quad (GNamed (contract_iri ''g1'')), example_quad (GNamed (contract_iri ''g2'')),
     rollback_quad ''a'', rollback_quad ''b'', rollback_quad ''c'']"

lemma unwrap_simps [simp]:
  "unwrap (Inr a) = Some a" "unwrap_st (Inr a, s) = Some (a, s)" "assert_that True = Some ()"
  by (simp_all add: unwrap_def unwrap_st_def assert_that_def)

lemma contract_iri_examples:
  "contract_iri ''g1'' < contract_iri ''g2''" "contract_iri ''g1'' \<noteq> contract_iri ''g2''"
  "contract_iri ''g1'' \<noteq> contract_iri ''nope''" "contract_iri ''g2'' \<noteq> contract_iri ''nope''"
  by (simp_all add: contract_iri_def less_NamedNode_def)

lemma distinct_singleton_list: "distinct xs \<Longrightarrow> set xs = {x} \<longleftrightarrow> xs = [x]"
  by (metis distinct_length_2_or_more distinct_singleton empty_set insert_not_empty list.exhaust list.set_intros(1) list.set_intros(2) list.simps(15) singletonD)

lemma example_sets:
  "{q. (q = a \<or> q = b \<or> q = c) \<and> q_graph q = g} =
     (if q_graph a = g then {a} else {}) \<union> (if q_graph b = g then {b} else {}) \<union> (if q_graph c = g then {c} else {})"
  by auto

section \<open>What a store promises about transactions that overlap\<close>

text \<open>
  A dropped transaction leaves the committed content alone; ending a read transaction does
  not disturb a transaction that is open at the same time; and a read transaction that is
  open while a writer commits can be ended and, if the store claims more than read
  committed isolation, still sees what it saw before.
\<close>

locale shared_storage = reliable_storage S quads_of view st_ok tx_ok writable accepts
  for S :: "('st, 'tx) Storage" and quads_of view st_ok tx_ok writable accepts +
  fixes tx_drop :: "'tx \<Rightarrow> 'st \<Rightarrow> 'st"
  assumes drop_ok: "st_ok st \<Longrightarrow> tx_ok st tx \<Longrightarrow> st_ok (tx_drop tx st) \<and> quads_of (tx_drop tx st) = quads_of st"
    and reader_apart: "st_ok st \<Longrightarrow> tx_ok st rd \<Longrightarrow> \<not> writable rd \<Longrightarrow> tx_ok st tx \<Longrightarrow>
      tx_rollback S rd st = (res, st') \<Longrightarrow> tx_ok st' tx \<and> view st' tx = view st tx
        \<and> capabilities S st' = capabilities S st"
    and stale_rollback: "st_ok st \<Longrightarrow> tx_ok st rd \<Longrightarrow> \<not> writable rd \<Longrightarrow> tx_ok st tx \<Longrightarrow>
      tx_commit S tx st = (Inr (), st1) \<Longrightarrow> committed S st1 = Some (Q, st2) \<Longrightarrow>
      \<exists>st3. tx_rollback S rd st2 = (Inr (), st3)"
    and snapshot_view: "st_ok st \<Longrightarrow> tx_ok st rd \<Longrightarrow> \<not> writable rd \<Longrightarrow> tx_ok st tx \<Longrightarrow>
      tx_commit S tx st = (Inr (), st1) \<Longrightarrow> committed S st1 = Some (Q, st2) \<Longrightarrow>
      isolation (capabilities S st) \<noteq> ReadCommitted \<Longrightarrow>
      all_quads S st2 rd = Some (view st rd) \<and> tx_contains S st2 rd q = Inr (q \<in> view st rd)"

begin

lemma read_works:
  "st_ok st \<Longrightarrow> \<exists>tx. begin_read S st = Inr tx \<and> tx_ok st tx \<and> \<not> writable tx \<and> view st tx = quads_of st"
  using begin_read_total begin_read_ok by blast

lemma write_works:
  "st_ok st \<Longrightarrow> \<exists>tx. begin_write S st = Inr tx \<and> tx_ok st tx \<and> writable tx \<and> view st tx = quads_of st"
  using begin_write_total begin_write_ok by blast

lemma insert_works:
  assumes "st_ok st" "tx_ok st tx" "writable tx" "accepts q"
  shows "\<exists>tx'. tx_insert S st q tx = (Inr (q \<notin> view st tx), tx') \<and> tx_ok st tx' \<and> writable tx'
    \<and> view st tx' = insert q (view st tx)"
proof -
  obtain b tx' where t: "tx_insert S st q tx = (Inr b, tx')" using insert_total [OF assms] by blast
  from insert_ok [OF assms(1,2) t] assms(3) t show ?thesis by auto
qed

lemma remove_works:
  assumes "st_ok st" "tx_ok st tx" "writable tx"
  shows "\<exists>tx'. tx_remove S st q tx = (Inr (q \<in> view st tx), tx') \<and> tx_ok st tx' \<and> writable tx'
    \<and> view st tx' = view st tx - {q}"
proof -
  obtain b tx' where t: "tx_remove S st q tx = (Inr b, tx')" using remove_total [OF assms] by blast
  from remove_ok [OF assms(1,2) t] assms(3) t show ?thesis by auto
qed

lemma inserts_work:
  assumes "st_ok st" "tx_ok st tx" "writable tx" "\<forall>q\<in>set qs. accepts q"
  shows "\<exists>tx'. insert_each S st qs tx = (Inr (), tx') \<and> tx_ok st tx' \<and> writable tx' \<and> view st tx' = view st tx \<union> set qs"
  using insert_each_total [OF assms] insert_each_Inr [OF assms(1,2)] assms(3) by blast

lemma removes_work:
  assumes "st_ok st" "tx_ok st tx" "writable tx"
  shows "\<exists>tx'. remove_each S st qs tx = (Inr (), tx') \<and> tx_ok st tx' \<and> writable tx' \<and> view st tx' = view st tx - set qs"
  using remove_each_total [OF assms] remove_each_Inr [OF assms(1,2)] assms(3) by blast

lemma contains_works: "st_ok st \<Longrightarrow> tx_ok st tx \<Longrightarrow> tx_contains S st tx q = Inr (q \<in> view st tx)"
  using contains_total contains_ok by blast

lemma pattern_works:
  "st_ok st \<Longrightarrow> tx_ok st tx \<Longrightarrow> \<exists>qs. collect_results (tx_quads_for_pattern S st tx s p obj g) = Inr qs
     \<and> distinct qs \<and> set qs = {q \<in> view st tx. matches_pattern q s p obj g}"
  by (metis (no_types, lifting) pattern_total pattern_ok)

lemma all_quads_works: "st_ok st \<Longrightarrow> tx_ok st tx \<Longrightarrow> all_quads S st tx = Some (view st tx)"
  using pattern_works [of st tx None None None None] by (auto simp: all_quads_def unwrap_def)

lemma commit_works:
  "st_ok st \<Longrightarrow> tx_ok st tx \<Longrightarrow> \<exists>st'. tx_commit S tx st = (Inr (), st') \<and> st_ok st'
     \<and> quads_of st' = (if writable tx then view st tx else quads_of st)"
  using commit_total commit_ok by blast

lemma rollback_works:
  "st_ok st \<Longrightarrow> tx_ok st tx \<Longrightarrow> \<exists>st'. tx_rollback S tx st = (Inr (), st') \<and> st_ok st' \<and> quads_of st' = quads_of st"
  using rollback_total rollback_ok by blast

lemma count_works: "st_ok st \<Longrightarrow> quad_count S st = Inr (card (quads_of st))"
  using quad_count_total quad_count_ok by blast

lemma graphs_work:
  "st_ok st \<Longrightarrow> \<exists>gs. named_graphs S st = Inr gs \<and> distinct gs \<and> set gs = graphs_of (quads_of st)"
  using named_graphs_total named_graphs_ok by blast

lemma load_works:
  assumes "st_ok st" "\<forall>q\<in>set qs. accepts q"
  shows "\<exists>st'. load_quads S qs st = Some st' \<and> st_ok st' \<and> quads_of st' = quads_of st \<union> set qs"
proof -
  obtain tx where tx: "begin_write S st = Inr tx" "tx_ok st tx" "writable tx" "view st tx = quads_of st"
    using write_works [OF assms(1)] by blast
  obtain tx' where tx': "insert_each S st qs tx = (Inr (), tx')" "tx_ok st tx'" "writable tx'" "view st tx' = view st tx \<union> set qs"
    using inserts_work [OF assms(1) tx(2,3) assms(2)] by blast
  show ?thesis using commit_works [OF assms(1) tx'(2)] tx tx' by (auto simp: load_quads_def unwrap_def unwrap_st_def)
qed

lemma unload_works:
  assumes "st_ok st"
  shows "\<exists>st'. unload_quads S qs st = Some st' \<and> st_ok st' \<and> quads_of st' = quads_of st - set qs"
proof -
  obtain tx where tx: "begin_write S st = Inr tx" "tx_ok st tx" "writable tx" "view st tx = quads_of st"
    using write_works [OF assms(1)] by blast
  obtain tx' where tx': "remove_each S st qs tx = (Inr (), tx')" "tx_ok st tx'" "writable tx'" "view st tx' = view st tx - set qs"
    using removes_work [OF assms(1) tx(2,3)] by blast
  show ?thesis using commit_works [OF assms(1) tx'(2)] tx tx' by (auto simp: unload_quads_def unwrap_def unwrap_st_def)
qed

lemma committed_works:
  assumes "st_ok st"
  shows "\<exists>st'. committed S st = Some (quads_of st, st') \<and> st_ok st' \<and> quads_of st' = quads_of st
    \<and> (\<forall>tx. tx_ok st tx \<longrightarrow> tx_ok st' tx \<and> view st' tx = view st tx)"
proof -
  obtain rd where rd: "begin_read S st = Inr rd" "tx_ok st rd" "\<not> writable rd" "view st rd = quads_of st"
    using read_works [OF assms(1)] by blast
  obtain st' where st': "tx_rollback S rd st = (Inr (), st')" "st_ok st'" "quads_of st' = quads_of st"
    using rollback_works [OF assms rd(2)] by blast
  show ?thesis using rd st' all_quads_works [OF assms rd(2)] reader_apart [OF assms rd(2,3) _ st'(1)]
    by (auto simp: committed_def unwrap_def unwrap_st_def)
qed

lemma contains_each_works:
  "st_ok st \<Longrightarrow> tx_ok st tx \<Longrightarrow> set qs \<subseteq> view st tx \<Longrightarrow> contains_each S st tx qs = Some ()"
  by (induction qs) (auto simp: contains_works)

lemma round_trip_passes:
  assumes "st_ok st" "quads_of st = {}" "\<forall>q\<in>set quads. accepts q"
  shows "round_trip S st quads = Some ()"
proof -
  obtain st1 where st1: "load_quads S quads st = Some st1" "st_ok st1" "quads_of st1 = set quads"
    using load_works [OF assms(1,3)] assms(2) by auto
  obtain rd where rd: "begin_read S st1 = Inr rd" "tx_ok st1 rd" "view st1 rd = set quads"
    using read_works [OF st1(2)] st1(3) by auto
  obtain st2 where st2: "tx_rollback S rd st1 = (Inr (), st2)" "st_ok st2" "quads_of st2 = set quads"
    using rollback_works [OF st1(2) rd(2)] st1(3) by auto
  show ?thesis using st1 rd st2
    by (simp add: round_trip_def contains_each_works all_quads_works count_works)
qed

lemma insert_expecting_works:
  assumes "st_ok st" "\<forall>q\<in>set qs. accepts q"
  shows "tx_ok st tx \<Longrightarrow> writable tx \<Longrightarrow> view st tx = seen \<Longrightarrow>
    \<exists>tx'. insert_expecting S st qs seen tx = Some tx' \<and> tx_ok st tx' \<and> writable tx' \<and> view st tx' = seen \<union> set qs"
  using assms(2)
proof (induction qs arbitrary: tx seen)
  case (Cons q qs)
  obtain tx1 where tx1: "tx_insert S st q tx = (Inr (q \<notin> seen), tx1)" "tx_ok st tx1" "writable tx1"
    "view st tx1 = insert q seen"
    using insert_works [OF assms(1) Cons.prems(1,2), of q] Cons.prems(3,4) by auto
  from Cons.IH [OF tx1(2-4)] Cons.prems(4) tx1(1) show ?case by auto
qed simp

lemma idempotent_insert_passes:
  assumes "st_ok st" "quads_of st = {}" "\<forall>q\<in>set quads. accepts q"
  shows "idempotent_insert S st quads = Some ()"
proof -
  obtain tx where tx: "begin_write S st = Inr tx" "tx_ok st tx" "writable tx" "view st tx = {}"
    using write_works [OF assms(1)] assms(2) by auto
  obtain tx1 where tx1: "insert_expecting S st quads {} tx = Some tx1" "tx_ok st tx1" "writable tx1" "view st tx1 = set quads"
    using insert_expecting_works [OF assms(1,3) tx(2-4)] by auto
  obtain st1 where st1: "tx_commit S tx1 st = (Inr (), st1)" "st_ok st1" "quads_of st1 = set quads"
    using commit_works [OF assms(1) tx1(2)] tx1 by auto
  obtain st2 where st2: "committed S st1 = Some (set quads, st2)" "st_ok st2" "quads_of st2 = set quads"
    using committed_works [OF st1(2)] st1(3) by auto
  obtain tx2 where tx2: "begin_write S st2 = Inr tx2" "tx_ok st2 tx2" "writable tx2" "view st2 tx2 = set quads"
    using write_works [OF st2(2)] st2(3) by auto
  obtain tx3 where tx3: "insert_expecting S st2 quads (set quads) tx2 = Some tx3" "tx_ok st2 tx3" "writable tx3" "view st2 tx3 = set quads"
    using insert_expecting_works [OF st2(2) assms(3) tx2(2-4)] by auto
  obtain st3 where st3: "tx_commit S tx3 st2 = (Inr (), st3)" "st_ok st3" "quads_of st3 = set quads"
    using commit_works [OF st2(2) tx3(2)] tx3 by auto
  obtain st4 where st4: "committed S st3 = Some (set quads, st4)" "st_ok st4" "quads_of st4 = set quads"
    using committed_works [OF st3(2)] st3(3) by auto
  show ?thesis using tx(1) tx1(1) st1(1) st2(1) tx2(1) tx3(1) st3(1) st4
    by (simp add: idempotent_insert_def count_works)
qed

lemma pattern_passes:
  assumes "st_ok st" "quads_of st = {}" "\<forall>q\<in>set quads. accepts q"
  shows "pattern S st quads s p obj g = Some ()"
proof -
  obtain st1 where st1: "load_quads S quads st = Some st1" "st_ok st1" "quads_of st1 = set quads"
    using load_works [OF assms(1,3)] assms(2) by auto
  obtain rd where rd: "begin_read S st1 = Inr rd" "tx_ok st1 rd" "view st1 rd = set quads"
    using read_works [OF st1(2)] st1(3) by auto
  obtain qs where qs: "collect_results (tx_quads_for_pattern S st1 rd s p obj g) = Inr qs" "distinct qs"
    "set qs = {q \<in> set quads. matches_pattern q s p obj g}"
    using pattern_works [OF st1(2) rd(2), of s p obj g] rd(3) by auto
  then have "length qs = card {q \<in> set quads. matches_pattern q s p obj g}" using distinct_card [OF qs(2)] by simp
  then show ?thesis using qs(1,3) st1(1) rd(1) by (simp add: pattern_def)
qed

lemma pattern_from_member_passes:
  assumes "st_ok st" "quads_of st = {}" "\<forall>q\<in>set quads. accepts q" "q \<in> set quads"
  shows "pattern_from_member S st quads q bound = Some ()"
proof -
  obtain m0 m1 m2 m3 where b: "bound = (m0, m1, m2, m3)" by (cases bound)
  obtain st1 where st1: "load_quads S quads st = Some st1" "st_ok st1" "quads_of st1 = set quads"
    using load_works [OF assms(1,3)] assms(2) by auto
  obtain rd where rd: "begin_read S st1 = Inr rd" "tx_ok st1 rd" "view st1 rd = set quads"
    using read_works [OF st1(2)] st1(3) by auto
  let ?s = "then_some m0 (q_subject q)" and ?p = "then_some m1 (q_predicate q)"
  let ?o = "then_some m2 (q_object q)" and ?g = "then_some m3 (q_graph q)"
  obtain qs where "collect_results (tx_quads_for_pattern S st1 rd ?s ?p ?o ?g) = Inr qs"
    "set qs = {r \<in> set quads. matches_pattern r ?s ?p ?o ?g}"
    using pattern_works [OF st1(2) rd(2), of ?s ?p ?o ?g] rd(3) by auto
  moreover have "matches_pattern q ?s ?p ?o ?g" by (simp add: matches_pattern_def then_some_def)
  ultimately show ?thesis using st1(1) rd(1) assms(4) by (simp add: pattern_from_member_def b)
qed

lemma delete_same_tx_works:
  assumes "st_ok st" "accepts extra"
  shows "\<exists>st'. delete_same_tx S extra (quads_of st) st = Some st' \<and> st_ok st' \<and> quads_of st' = quads_of st - {extra}"
proof -
  obtain tx where tx: "begin_write S st = Inr tx" "tx_ok st tx" "writable tx" "view st tx = quads_of st"
    using write_works [OF assms(1)] by auto
  obtain tx1 where tx1: "tx_insert S st extra tx = (Inr (extra \<notin> quads_of st), tx1)" "tx_ok st tx1" "writable tx1"
    "view st tx1 = insert extra (quads_of st)"
    using insert_works [OF assms(1) tx(2,3) assms(2)] tx(4) by auto
  obtain tx2 where tx2: "tx_remove S st extra tx1 = (Inr True, tx2)" "tx_ok st tx2" "writable tx2"
    "view st tx2 = quads_of st - {extra}"
    using remove_works [OF assms(1) tx1(2,3), of extra] tx1(4) by auto
  obtain st1 where st1: "tx_commit S tx2 st = (Inr (), st1)" "st_ok st1" "quads_of st1 = quads_of st - {extra}"
    using commit_works [OF assms(1) tx2(2)] tx2 by auto
  obtain st2 where st2: "committed S st1 = Some (quads_of st - {extra}, st2)" "st_ok st2" "quads_of st2 = quads_of st - {extra}"
    using committed_works [OF st1(2)] st1(3) by auto
  show ?thesis using tx(1) tx1(1) tx2(1) contains_works [OF assms(1) tx2(2), of extra] tx2(4) st1(1) st2
    by (simp add: delete_same_tx_def)
qed

lemma delete_two_commits_works:
  assumes "st_ok st" "accepts extra"
  shows "\<exists>st'. delete_two_commits S extra (quads_of st) st = Some st' \<and> st_ok st' \<and> quads_of st' = quads_of st"
proof (cases "extra \<in> quads_of st")
  case True
  then show ?thesis using assms(1) by (simp add: delete_two_commits_def)
next
  case False
  obtain st1 where st1: "load_quads S [extra] st = Some st1" "st_ok st1" "quads_of st1 = insert extra (quads_of st)"
    using load_works [OF assms(1), of "[extra]"] assms(2) by auto
  obtain tx where tx: "begin_write S st1 = Inr tx" "tx_ok st1 tx" "writable tx" "view st1 tx = insert extra (quads_of st)"
    using write_works [OF st1(2)] st1(3) by auto
  obtain tx2 where tx2: "tx_remove S st1 extra tx = (Inr True, tx2)" "tx_ok st1 tx2" "writable tx2" "view st1 tx2 = quads_of st"
    using remove_works [OF st1(2) tx(2,3), of extra] tx(4) False by auto
  obtain st2 where st2: "tx_commit S tx2 st1 = (Inr (), st2)" "st_ok st2" "quads_of st2 = quads_of st"
    using commit_works [OF st1(2) tx2(2)] tx2 by auto
  obtain st3 where st3: "committed S st2 = Some (quads_of st, st3)" "st_ok st3" "quads_of st3 = quads_of st"
    using committed_works [OF st2(2)] st2(3) by auto
  show ?thesis using False st1(1) tx(1) tx2(1) st2(1) st3 by (simp add: delete_two_commits_def)
qed

lemma delete_after_insert_passes:
  assumes "st_ok st" "quads_of st = {}" "\<forall>q\<in>set base. accepts q" "accepts extra"
  shows "delete_after_insert S st base extra = Some ()"
proof -
  obtain st1 where st1: "load_quads S base st = Some st1" "st_ok st1" "quads_of st1 = set base"
    using load_works [OF assms(1,3)] assms(2) by auto
  obtain st2 where st2: "committed S st1 = Some (set base, st2)" "st_ok st2" "quads_of st2 = set base"
    using committed_works [OF st1(2)] st1(3) by auto
  obtain st3 where st3: "delete_same_tx S extra (set base) st2 = Some st3" "st_ok st3" "quads_of st3 = set base - {extra}"
    using delete_same_tx_works [OF st2(2) assms(4)] st2(3) by auto
  obtain st4 where st4: "load_quads S base st3 = Some st4" "st_ok st4" "quads_of st4 = set base"
    using load_works [OF st3(2) assms(3)] st3(3) by auto
  obtain st5 where st5: "committed S st4 = Some (set base, st5)" "st_ok st5" "quads_of st5 = set base"
    using committed_works [OF st4(2)] st4(3) by auto
  obtain st6 where st6: "delete_two_commits S extra (set base) st5 = Some st6" "st_ok st6" "quads_of st6 = set base"
    using delete_two_commits_works [OF st5(2) assms(4)] st5(3) by auto
  obtain tx where tx: "begin_write S st6 = Inr tx" "tx_ok st6 tx" "writable tx" "view st6 tx = set base"
    using write_works [OF st6(2)] st6(3) by auto
  obtain tx1 where tx1: "tx_remove S st6 extra tx = (Inr (extra \<in> set base), tx1)" "tx_ok st6 tx1"
    using remove_works [OF st6(2) tx(2,3), of extra] tx(4) by auto
  let ?tx = "if extra \<in> set base then tx else tx1"
  have ok: "tx_ok st6 ?tx" using tx(2) tx1(2) by simp
  obtain st7 where st7: "tx_rollback S ?tx st6 = (Inr (), st7)" "st_ok st7" "quads_of st7 = set base"
    using rollback_works [OF st6(2) ok] st6(3) by auto
  obtain st8 where st8: "committed S st7 = Some (set base, st8)" using committed_works [OF st7(2)] st7(3) by auto
  show ?thesis using st1(1) st2(1) st3(1) st4(1) st5(1) st6(1) tx(1) tx1(1) st7(1) st8
    by (cases "extra \<in> set base") (simp_all add: delete_after_insert_def)
qed

lemma insert_visible_works:
  assumes "st_ok st" "\<forall>q\<in>set qs. accepts q"
  shows "tx_ok st tx \<Longrightarrow> writable tx \<Longrightarrow>
    \<exists>tx'. insert_visible S st qs tx = Some tx' \<and> tx_ok st tx' \<and> writable tx' \<and> view st tx' = view st tx \<union> set qs"
  using assms(2)
proof (induction qs arbitrary: tx)
  case (Cons q qs)
  obtain tx1 where tx1: "tx_insert S st q tx = (Inr (q \<notin> view st tx), tx1)" "tx_ok st tx1" "writable tx1"
    "view st tx1 = insert q (view st tx)"
    using insert_works [OF assms(1) Cons.prems(1,2), of q] Cons.prems(3) by auto
  from Cons.IH [OF tx1(2,3)] Cons.prems(3) tx1 show ?case by (auto simp: contains_works [OF assms(1) tx1(2)])
qed simp

lemma rollback_and_isolation_passes:
  assumes "st_ok st" "quads_of st = {}" "\<forall>q\<in>set base. accepts q" "\<forall>q\<in>set writes. accepts q"
  shows "rollback_and_isolation S st base writes = Some ()"
proof -
  obtain st1 where st1: "load_quads S base st = Some st1" "st_ok st1" "quads_of st1 = set base"
    using load_works [OF assms(1,3)] assms(2) by auto
  obtain st2 where st2: "committed S st1 = Some (set base, st2)" "st_ok st2" "quads_of st2 = set base"
    using committed_works [OF st1(2)] st1(3) by auto
  obtain tx where tx: "begin_write S st2 = Inr tx" "tx_ok st2 tx" "writable tx" "view st2 tx = set base"
    using write_works [OF st2(2)] st2(3) by auto
  obtain tx1 where tx1: "insert_visible S st2 writes tx = Some tx1" "tx_ok st2 tx1" "writable tx1"
    "view st2 tx1 = set base \<union> set writes"
    using insert_visible_works [OF st2(2) assms(4) tx(2,3)] tx(4) by auto
  let ?first = "\<lambda>tx. case base of [] \<Rightarrow> Some (tx, set base \<union> set writes)
        | first # _ \<Rightarrow> do {
            (_, tx) \<leftarrow> unwrap_st (tx_remove S st2 first tx);
            b \<leftarrow> unwrap (tx_contains S st2 tx first);
            _ \<leftarrow> assert_that (\<not> b);
            Some (tx, set base \<union> set writes - {first})
          }"
  have "\<exists>tx2. ?first tx1 = Some (tx2, view st2 tx2) \<and> tx_ok st2 tx2"
  proof (cases base)
    case (Cons f fs)
    obtain tx2 where tx2: "tx_remove S st2 f tx1 = (Inr (f \<in> view st2 tx1), tx2)" "tx_ok st2 tx2" "view st2 tx2 = view st2 tx1 - {f}"
      using remove_works [OF st2(2) tx1(2,3), of f] by auto
    then show ?thesis using Cons tx1(4) by (simp add: contains_works [OF st2(2) tx2(2)])
  qed (use tx1 in simp)
  then obtain tx2 where tx2: "?first tx1 = Some (tx2, view st2 tx2)" "tx_ok st2 tx2" by blast
  obtain st3 where st3: "committed S st2 = Some (set base, st3)" "st_ok st3" "quads_of st3 = set base" "tx_ok st3 tx2"
    using committed_works [OF st2(2)] st2(3) tx2(2) by auto
  obtain st4 where st4: "tx_rollback S tx2 st3 = (Inr (), st4)" "st_ok st4" "quads_of st4 = set base"
    using rollback_works [OF st3(2,4)] st3(3) by auto
  obtain st5 where st5: "committed S st4 = Some (set base, st5)" using committed_works [OF st4(2)] st4(3) by auto
  show ?thesis using st1(1) st2(1) tx(1) tx1(1) tx2 st3(1) st4(1) st5
    by (simp add: rollback_and_isolation_def all_quads_works [OF st2(2) tx2(2)])
qed

lemma drop_discards_writes_passes:
  assumes "st_ok st" "quads_of st = {}" "\<forall>q\<in>set base. accepts q" "\<forall>q\<in>set writes. accepts q"
  shows "drop_discards_writes tx_drop S st base writes = Some ()"
proof -
  obtain st1 where st1: "load_quads S base st = Some st1" "st_ok st1" "quads_of st1 = set base"
    using load_works [OF assms(1,3)] assms(2) by auto
  obtain st2 where st2: "committed S st1 = Some (set base, st2)" "st_ok st2" "quads_of st2 = set base"
    using committed_works [OF st1(2)] st1(3) by auto
  obtain tx where tx: "begin_write S st2 = Inr tx" "tx_ok st2 tx" "writable tx"
    using write_works [OF st2(2)] by auto
  obtain tx1 where tx1: "insert_each S st2 writes tx = (Inr (), tx1)" "tx_ok st2 tx1" "writable tx1"
    using inserts_work [OF st2(2) tx(2,3) assms(4)] by auto
  obtain tx2 where tx2: "remove_each S st2 base tx1 = (Inr (), tx2)" "tx_ok st2 tx2"
    using removes_work [OF st2(2) tx1(2,3)] by auto
  have d: "st_ok (tx_drop tx2 st2)" "quads_of (tx_drop tx2 st2) = set base" using drop_ok [OF st2(2) tx2(2)] st2(3) by auto
  obtain st3 where "committed S (tx_drop tx2 st2) = Some (set base, st3)" "st_ok st3" "quads_of st3 = set base"
    using committed_works [OF d(1)] d(2) by auto
  then show ?thesis using st1(1) st2(1) tx(1) tx1(1) tx2(1) by (simp add: drop_discards_writes_def count_works)
qed

lemma read_only_rejects_writes_passes:
  assumes "st_ok st" "quads_of st = {}" "\<forall>q\<in>set base. accepts q"
  shows "read_only_rejects_writes S st base q = Some ()"
proof -
  obtain st1 where st1: "load_quads S base st = Some st1" "st_ok st1" "quads_of st1 = set base"
    using load_works [OF assms(1,3)] assms(2) by auto
  obtain st2 where st2: "committed S st1 = Some (set base, st2)" "st_ok st2" "quads_of st2 = set base"
    using committed_works [OF st1(2)] st1(3) by auto
  obtain rd where rd: "begin_read S st2 = Inr rd" "tx_ok st2 rd" "\<not> writable rd" "view st2 rd = set base"
    using read_works [OF st2(2)] st2(3) by auto
  obtain e1 e2 where e: "tx_insert S st2 q rd = (Inl e1, rd)" "tx_remove S st2 q rd = (Inl e2, rd)"
    using insert_read_only [OF st2(2) rd(2,3)] remove_read_only [OF st2(2) rd(2,3)] by blast
  obtain st3 where st3: "tx_commit S rd st2 = (Inr (), st3)" "st_ok st3" "quads_of st3 = set base"
    using commit_works [OF st2(2) rd(2)] rd(3) st2(3) by auto
  obtain st4 where st4: "committed S st3 = Some (set base, st4)" "st_ok st4" "quads_of st4 = set base"
    using committed_works [OF st3(2)] st3(3) by auto
  obtain rd2 where rd2: "begin_read S st4 = Inr rd2" "tx_ok st4 rd2" "\<not> writable rd2"
    using read_works [OF st4(2)] by auto
  have refuse: "\<exists>e. tx_remove S st4 f rd2 = (Inl e, rd2)" for f using remove_read_only [OF st4(2) rd2(2,3)] .
  obtain st5 where st5: "tx_rollback S rd2 st4 = (Inr (), st5)" "st_ok st5" "quads_of st5 = set base"
    using rollback_works [OF st4(2) rd2(2)] st4(3) by auto
  obtain st6 where st6: "committed S st5 = Some (set base, st6)" using committed_works [OF st5(2)] st5(3) by auto
  have first: "(case base of [] \<Rightarrow> Some rd2 | first # _ \<Rightarrow> do {
        _ \<leftarrow> assert_that (is_err (tx_remove S st4 first rd2)); Some (snd (tx_remove S st4 first rd2)) }) = Some rd2"
    using refuse by (cases base) (auto simp: is_err_def, metis bind.bind_lunit fst_conv old.sum.simps(5) snd_conv unwrap_simps(3))
  show ?thesis using st1(1) st2(1) rd(1) e st3(1) st4(1) rd2(1) first st5(1) st6
    by (simp add: read_only_rejects_writes_def is_err_def contains_works [OF st2(2) rd(2)] all_quads_works [OF st2(2) rd(2)] rd(4))
qed

lemma named_graphs_passes:
  assumes "st_ok st" "quads_of st = {}" "\<forall>q\<in>set quads. accepts q"
  shows "check_named_graphs S st quads = Some ()"
proof -
  obtain st1 where st1: "load_quads S quads st = Some st1" "st_ok st1" "quads_of st1 = set quads"
    using load_works [OF assms(1,3)] assms(2) by auto
  obtain gs where gs: "named_graphs S st1 = Inr gs" "distinct gs" "set gs = graphs_of (set quads)"
    using graphs_work [OF st1(2)] st1(3) by auto
  have "length gs = card (graphs_of (set quads))" using distinct_card [OF gs(2)] gs(3) by simp
  then show ?thesis using st1(1) gs by (simp add: check_named_graphs_def map_filter_graph_name)
qed

lemma named_graphs_track_removals_passes:
  assumes "st_ok st" "quads_of st = {}" "\<forall>q\<in>set quads. accepts q"
  shows "named_graphs_track_removals S st quads removals = Some ()"
proof -
  let ?removed = "map fst (filter snd (zip_cycle quads removals))"
  obtain st1 where st1: "load_quads S quads st = Some st1" "st_ok st1" "quads_of st1 = set quads"
    using load_works [OF assms(1,3)] assms(2) by auto
  obtain st2 where st2: "unload_quads S ?removed st1 = Some st2" "st_ok st2"
    using unload_works [OF st1(2)] by blast
  obtain st3 where st3: "committed S st2 = Some (quads_of st2, st3)" "st_ok st3" "quads_of st3 = quads_of st2"
    using committed_works [OF st2(2)] by blast
  obtain gs where gs: "named_graphs S st3 = Inr gs" "distinct gs" "set gs = graphs_of (quads_of st2)"
    using graphs_work [OF st3(2)] st3(3) by auto
  have "distinct (sort gs)" using gs(2) by simp
  then have "remdups_adj (sort gs) = sort gs" by (rule remdups_adj_distinct)
  then show ?thesis using st1(1) st2(1) st3 gs by (simp add: named_graphs_track_removals_def count_works)
qed

lemma contains_as_works:
  "(\<And>q. tx_contains S st tx q = Inr (q \<in> Q)) \<Longrightarrow> contains_as S st tx Q qs = Some ()"
  by (induction qs) auto

lemma snapshot_reads_passes:
  assumes "st_ok st" "quads_of st = {}" "\<forall>q\<in>set base. accepts q" "\<forall>q\<in>set writes. accepts q"
  shows "snapshot_reads S st base writes = Some ()"
proof -
  obtain st1 where st1: "load_quads S base st = Some st1" "st_ok st1" "quads_of st1 = set base"
    using load_works [OF assms(1,3)] assms(2) by auto
  obtain st2 where st2: "committed S st1 = Some (set base, st2)" "st_ok st2" "quads_of st2 = set base"
    using committed_works [OF st1(2)] st1(3) by auto
  obtain rd where rd: "begin_read S st2 = Inr rd" "tx_ok st2 rd" "\<not> writable rd" "view st2 rd = set base"
    using read_works [OF st2(2)] st2(3) by auto
  obtain tx where tx: "begin_write S st2 = Inr tx" "tx_ok st2 tx" "writable tx" "view st2 tx = set base"
    using write_works [OF st2(2)] st2(3) by auto
  obtain tx1 where tx1: "insert_each S st2 writes tx = (Inr (), tx1)" "tx_ok st2 tx1" "writable tx1"
    "view st2 tx1 = set base \<union> set writes"
    using inserts_work [OF st2(2) tx(2,3) assms(4)] tx(4) by auto
  obtain tx2 where tx2: "remove_each S st2 (take 1 base) tx1 = (Inr (), tx2)" "tx_ok st2 tx2" "writable tx2"
    "view st2 tx2 = set base \<union> set writes - set (take 1 base)"
    using removes_work [OF st2(2) tx1(2,3), of "take 1 base"] tx1(4) by auto
  obtain st3 where st3: "tx_commit S tx2 st2 = (Inr (), st3)" "st_ok st3"
    "quads_of st3 = set base \<union> set writes - set (take 1 base)"
    using commit_works [OF st2(2) tx2(2)] tx2 by auto
  obtain st4 where st4: "committed S st3 = Some (set base \<union> set writes - set (take 1 base), st4)"
    using committed_works [OF st3(2)] st3(3) by auto
  obtain st5 where st5: "tx_rollback S rd st4 = (Inr (), st5)"
    using stale_rollback [OF st2(2) rd(2,3) tx2(2) st3(1) st4] by blast
  have snap: "all_quads S st4 rd = Some (set base)" "contains_as S st4 rd (set base) writes = Some ()"
    if "isolation (capabilities S st2) \<noteq> ReadCommitted"
    using snapshot_view [OF st2(2) rd(2,3) tx2(2) st3(1) st4 that] rd(4) by (auto intro: contains_as_works)
  show ?thesis
    using st1(1) st2(1) rd(1,4) tx(1) tx1(1) tx2(1) st3(1) st4 st5 snap
    by (simp add: snapshot_reads_def all_quads_works [OF st2(2) rd(2)])
qed

lemma empty_store_is_empty_passes:
  assumes "st_ok st" "quads_of st = {}"
  shows "empty_store_is_empty S st = Some ()"
proof -
  obtain gs where "named_graphs S st = Inr gs" "set gs = graphs_of {}" using graphs_work [OF assms(1)] assms(2) by auto
  moreover obtain st1 where "committed S st = Some ({}, st1)" using committed_works [OF assms(1)] assms(2) by auto
  ultimately show ?thesis
    using assms(2) by (simp add: empty_store_is_empty_def count_works [OF assms(1)] graphs_of_def)
qed

lemma writes_after_rollback_passes:
  assumes "st_ok st" "quads_of st = {}" "\<forall>q\<in>set suite_quads. accepts q"
  shows "writes_after_rollback tx_drop S st = Some ()"
proof -
  let ?q = rollback_quad
  have ins: "\<exists>tx tx'. begin_write S st = Inr tx \<and> tx_insert S st q tx = (Inr True, tx') \<and> tx_ok st tx' \<and> writable tx' \<and> view st tx' = {q}"
    if st: "st_ok st" "quads_of st = {}" "q \<in> set suite_quads" for st q
  proof -
    obtain tx where tx: "begin_write S st = Inr tx" "tx_ok st tx" "writable tx" "view st tx = {}"
      using write_works [OF st(1)] st(2) by auto
    then show ?thesis using insert_works [OF st(1) tx(2,3) bspec [OF assms(3) st(3)]] by auto
  qed
  obtain a a' where a: "begin_write S st = Inr a" "tx_insert S st (?q ''a'') a = (Inr True, a')" "tx_ok st a'"
    using ins [OF assms(1,2), of "?q ''a''"] by (auto simp: suite_quads_def)
  obtain st1 where st1: "tx_rollback S a' st = (Inr (), st1)" "st_ok st1" "quads_of st1 = {}"
    using rollback_works [OF assms(1) a(3)] assms(2) by auto
  obtain b b' where b: "begin_write S st1 = Inr b" "tx_insert S st1 (?q ''b'') b = (Inr True, b')" "tx_ok st1 b'"
    using ins [OF st1(2,3), of "?q ''b''"] by (auto simp: suite_quads_def)
  have d: "st_ok (tx_drop b' st1)" "quads_of (tx_drop b' st1) = {}" using drop_ok [OF st1(2) b(3)] st1(3) by auto
  obtain c c' where c: "begin_write S (tx_drop b' st1) = Inr c" "tx_insert S (tx_drop b' st1) (?q ''c'') c = (Inr True, c')"
    "tx_ok (tx_drop b' st1) c'" "writable c'" "view (tx_drop b' st1) c' = {?q ''c''}"
    using ins [OF d, of "?q ''c''"] by (auto simp: suite_quads_def)
  obtain st3 where st3: "tx_commit S c' (tx_drop b' st1) = (Inr (), st3)" "st_ok st3" "quads_of st3 = {?q ''c''}"
    using commit_works [OF d(1) c(3)] c(4,5) by auto
  obtain st4 where "committed S st3 = Some ({?q ''c''}, st4)" using committed_works [OF st3(2)] st3(3) by auto
  then show ?thesis using a(1,2) st1(1) b(1,2) c(1,2) st3(1) by (simp add: writes_after_rollback_def rollback_quad_def)
qed

lemma graph_only_works:
  assumes "st_ok st" "tx_ok st tx"
  shows "\<exists>qs. graph_only S st tx g = Some qs \<and> distinct qs \<and> set qs = {q \<in> view st tx. q_graph q = g}"
  using pattern_works [OF assms, of None None None "Some g"] by (auto simp: graph_only_def matches_pattern_def)

lemma graphs_are_separate_passes:
  assumes "st_ok st" "quads_of st = {}" "\<forall>q\<in>set suite_quads. accepts q"
  shows "graphs_are_separate S st = Some ()"
proof -
  let ?g1 = "contract_iri ''g1''" and ?g2 = "contract_iri ''g2''"
  let ?qd = "example_quad GDefault" and ?q1 = "example_quad (GNamed ?g1)" and ?q2 = "example_quad (GNamed ?g2)"
  note names = contract_iri_examples
  have graph: "q_graph (example_quad g) = g" for g by (simp add: example_quad_def)
  have three: "card {?qd, ?q1, ?q2} = 3" using graph names by (metis card_3_iff NamedOrDefault.distinct(1) NamedOrDefault.inject(1))
  obtain st1 where st1: "load_quads S [?qd, ?q1, ?q2] st = Some st1" "st_ok st1" "quads_of st1 = {?qd, ?q1, ?q2}"
    using load_works [OF assms(1), of "[?qd, ?q1, ?q2]"] assms(2,3) by (auto simp: suite_quads_def)
  obtain rd where rd: "begin_read S st1 = Inr rd" "tx_ok st1 rd" "view st1 rd = {?qd, ?q1, ?q2}"
    using read_works [OF st1(2)] st1(3) by auto
  have only: "graph_only S st1 rd GDefault = Some [?qd]" "graph_only S st1 rd (GNamed ?g1) = Some [?q1]"
    "graph_only S st1 rd (GNamed (contract_iri ''nope'')) = Some []"
    using graph_only_works [OF st1(2) rd(2), of GDefault] graph_only_works [OF st1(2) rd(2), of "GNamed ?g1"]
      graph_only_works [OF st1(2) rd(2), of "GNamed (contract_iri ''nope'')"]
    by (auto simp: rd(3) graph names names(2) [symmetric] example_sets distinct_singleton_list)
  have all: "{q \<in> {?qd, ?q1, ?q2}. matches_pattern q (Some (q_subject ?qd)) (Some (q_predicate ?qd)) (Some (q_object ?qd)) None}
      = {?qd, ?q1, ?q2}" by (auto simp: matches_pattern_def example_quad_def)
  obtain qs where qs: "collect_results (tx_quads_for_pattern S st1 rd (Some (q_subject ?qd)) (Some (q_predicate ?qd)) (Some (q_object ?qd)) None) = Inr qs"
    "set qs = {?qd, ?q1, ?q2}"
    using pattern_works [OF st1(2) rd(2), of "Some (q_subject ?qd)" "Some (q_predicate ?qd)" "Some (q_object ?qd)" None]
    unfolding rd(3) all by blast
  obtain st2 where st2: "tx_rollback S rd st1 = (Inr (), st2)" "st_ok st2" "quads_of st2 = {?qd, ?q1, ?q2}"
    using rollback_works [OF st1(2) rd(2)] st1(3) by auto
  have gset: "graphs_of {?qd, ?q1, ?q2} = {?g1, ?g2}" "graphs_of {?qd, ?q2} = {?g2}" by (auto simp: graphs_of_def graph)
  obtain gs where gs: "named_graphs S st2 = Inr gs" "distinct gs" "set gs = {?g1, ?g2}"
    using graphs_work [OF st2(2)] unfolding st2(3) gset by blast
  have srt: "sort gs = [?g1, ?g2]"
    by (rule sorted_distinct_set_unique) (use gs names in auto)
  have "example_quad a = example_quad b \<longleftrightarrow> a = b" for a b by (metis graph)
  then have "?qd \<noteq> ?q1" "?q2 \<noteq> ?q1" using names by auto
  then have diff: "{?qd, ?q1, ?q2} - set [?q1] = {?qd, ?q2}" by auto
  obtain st3 where st3: "unload_quads S [?q1] st2 = Some st3" "st_ok st3" "quads_of st3 = {?qd, ?q2}"
    using unload_works [OF st2(2), of "[?q1]"] unfolding st2(3) diff by blast
  obtain st4 where st4: "committed S st3 = Some ({?qd, ?q2}, st4)" "st_ok st4" "quads_of st4 = {?qd, ?q2}"
    using committed_works [OF st3(2)] st3(3) by auto
  obtain hs where hs: "named_graphs S st4 = Inr hs" "distinct hs" "set hs = {?g2}"
    using graphs_work [OF st4(2)] unfolding st4(3) gset by blast
  then have "hs = [?g2]" by (simp add: distinct_singleton_list)
  then show ?thesis using st1 three rd(1) only qs st2(1) gs(1) srt st3(1) st4(1) hs(1)
    by (simp add: graphs_are_separate_def Let_def count_works)
qed

end

section \<open>The suite\<close>

text \<open>The whole suite on one fresh store, for one choice of the generated inputs.\<close>

definition suite_passes :: "('tx \<Rightarrow> 'st \<Rightarrow> 'st) \<Rightarrow> ('st, 'tx) Storage \<Rightarrow> 'st \<Rightarrow> Quad list \<Rightarrow> Quad list \<Rightarrow> Quad \<Rightarrow>
    bool \<times> bool \<times> bool \<times> bool \<Rightarrow> bool list \<Rightarrow> bool" where
  "suite_passes tx_drop S store base writes extra bound removals \<longleftrightarrow>
     round_trip S store base = Some () \<and> idempotent_insert S store base = Some ()
   \<and> delete_after_insert S store base extra = Some ()
   \<and> (\<forall>s p obj g. pattern S store base s p obj g = Some ())
   \<and> (\<forall>q\<in>set base. pattern_from_member S store base q bound = Some ())
   \<and> rollback_and_isolation S store base writes = Some () \<and> drop_discards_writes tx_drop S store base writes = Some ()
   \<and> read_only_rejects_writes S store base extra = Some () \<and> check_named_graphs S store base = Some ()
   \<and> named_graphs_track_removals S store base removals = Some () \<and> snapshot_reads S store base writes = Some ()
   \<and> empty_store_is_empty S store = Some () \<and> graphs_are_separate S store = Some ()
   \<and> writes_after_rollback tx_drop S store = Some ()"

context shared_storage
begin

lemma suite_passes_here:
  assumes "st_ok store" "quads_of store = {}" "\<forall>q\<in>set (suite_quads @ base @ writes @ [extra]). accepts q"
  shows "suite_passes tx_drop S store base writes extra bound removals"
  using assms
  by (simp add: suite_passes_def round_trip_passes idempotent_insert_passes delete_after_insert_passes pattern_passes
      pattern_from_member_passes rollback_and_isolation_passes drop_discards_writes_passes read_only_rejects_writes_passes
      named_graphs_passes named_graphs_track_removals_passes snapshot_reads_passes empty_store_is_empty_passes
      graphs_are_separate_passes writes_after_rollback_passes)

end

interpretation mem_shared: shared_storage MemStore_storage mem_quads mem_view mem_st_ok mem_tx_ok mt_writable "\<lambda>_. True" "\<lambda>tx st. st"
proof (unfold_locales, goal_cases)
  case (4 st rd tx st1 Q st2 q)
  have "all_quads MemStore_storage st2 rd = Some (set (mt_working rd))" by (simp add: mem_defs all_quads_def)
  then show ?case by (simp add: mem_defs)
qed (auto simp: mem_defs)

lemma mem_new: "mem_st_ok MemStore_new" "mem_quads MemStore_new = {}"
  by (simp_all add: mem_st_ok_def mem_quads_def MemStore_new_def)



text \<open>
  The reference store passes every check of the contract suite, for all inputs the
  checks may be given.
\<close>

theorem mem_store_passes_suite:
  "suite_passes (\<lambda>tx st. st) MemStore_storage MemStore_new base writes extra bound removals"
  using mem_shared.suite_passes_here [OF mem_new] by simp

section \<open>Conveniences of the reference store\<close>

definition MemStore_with_quads :: "Quad list \<Rightarrow> MemStore option" where
  "MemStore_with_quads quads = load_quads MemStore_storage quads MemStore_new"

definition MemStore_snapshot :: "MemStore \<Rightarrow> Quad set" where
  "MemStore_snapshot st = set (ms_quads st)"

section \<open>Overlapping writers\<close>

lemma insert_each_mem_set:
  "mt_writable tx \<Longrightarrow> set (mt_working (snd (insert_each MemStore_storage st qs tx))) = set (mt_working tx) \<union> set qs"
  by (induction qs arbitrary: tx) (auto simp: MemStore_storage_def MemTx_insert_def Let_def)

text \<open>
  C24. Optimistic concurrency control: of two write transactions of the reference store that
  were open at the same time, whatever they wrote, the second to commit is refused with a
  conflict, and the store holds exactly what the first one wrote on top of what was there.
\<close>

theorem mem_store_conflict:
  "\<exists>st'. MemStore_overlap st ws1 ws2 = (Inr (), Inl TransactionConflict, st')
     \<and> MemStore_snapshot st' = MemStore_snapshot st \<union> set ws1"
proof -
  let ?t = "\<lparr>mt_base_version = ms_version st, mt_working = ms_quads st, mt_writable = True\<rparr>"
  have "ms_version st + 1 \<noteq> ms_version st" by simp
  then show ?thesis
    using insert_each_mem [of ?t st ws1] insert_each_mem [of ?t st ws2] insert_each_mem_set [of ?t st ws1]
    by (simp add: MemStore_overlap_def MemStore_begin_write_def MemStore_begin_read_def MemTx_commit_def MemStore_snapshot_def)
qed

section \<open>A store with a guard\<close>

text \<open>
  \<open>WithGuard\<close> of \<^verbatim>\<open>semanticore-storage-testkit/src/guard.rs\<close>: every method delegates to
  the store. The guard does nothing but live as long.
\<close>

record ('st, 'g) WithGuard =
  wg_store :: 'st
  wg_guard :: 'g

definition WithGuard_new :: "'st \<Rightarrow> 'g \<Rightarrow> ('st, 'g) WithGuard" where
  "WithGuard_new store guard = \<lparr>wg_store = store, wg_guard = guard\<rparr>"

definition WithGuard_store :: "('st, 'g) WithGuard \<Rightarrow> 'st" where
  "WithGuard_store w = wg_store w"

definition on_store :: "('st \<Rightarrow> ('e + 'a) \<times> 'st) \<Rightarrow> ('st, 'g) WithGuard \<Rightarrow> ('e + 'a) \<times> ('st, 'g) WithGuard" where
  "on_store f w = (case f (wg_store w) of (r, st) \<Rightarrow> (r, w\<lparr>wg_store := st\<rparr>))"

definition WithGuard_storage :: "('st, 'tx) Storage \<Rightarrow> (('st, 'g) WithGuard, 'tx) Storage" where
  "WithGuard_storage S =
     \<lparr>begin_read = (\<lambda>w. begin_read S (wg_store w)), begin_write = (\<lambda>w. begin_write S (wg_store w)),
      quad_count = (\<lambda>w. quad_count S (wg_store w)), named_graphs = (\<lambda>w. named_graphs S (wg_store w)),
      capabilities = (\<lambda>w. capabilities S (wg_store w)),
      tx_insert = (\<lambda>w. tx_insert S (wg_store w)), tx_remove = (\<lambda>w. tx_remove S (wg_store w)),
      tx_contains = (\<lambda>w. tx_contains S (wg_store w)),
      tx_quads_for_pattern = (\<lambda>w. tx_quads_for_pattern S (wg_store w)),
      tx_commit = (\<lambda>tx. on_store (tx_commit S tx)), tx_rollback = (\<lambda>tx. on_store (tx_rollback S tx))\<rparr>"

lemma WithGuard_storage_sel [simp]:
  "begin_read (WithGuard_storage S) w = begin_read S (wg_store w)"
  "begin_write (WithGuard_storage S) w = begin_write S (wg_store w)"
  "quad_count (WithGuard_storage S) w = quad_count S (wg_store w)"
  "named_graphs (WithGuard_storage S) w = named_graphs S (wg_store w)"
  "tx_insert (WithGuard_storage S) w = tx_insert S (wg_store w)"
  "tx_remove (WithGuard_storage S) w = tx_remove S (wg_store w)"
  "tx_contains (WithGuard_storage S) w = tx_contains S (wg_store w)"
  "tx_quads_for_pattern (WithGuard_storage S) w = tx_quads_for_pattern S (wg_store w)"
  "tx_commit (WithGuard_storage S) tx = on_store (tx_commit S tx)"
  "tx_rollback (WithGuard_storage S) tx = on_store (tx_rollback S tx)"
  by (simp_all add: WithGuard_storage_def)

lemma on_store_eq:
  "on_store f w = (r, w') \<longleftrightarrow> (\<exists>st'. f (wg_store w) = (r, st') \<and> w' = w\<lparr>wg_store := st'\<rparr>)"
  by (auto simp: on_store_def split: prod.split)

lemma on_storeD: "on_store f w = (r, w') \<Longrightarrow> f (wg_store w) = (r, wg_store w')"
  by (auto simp: on_store_eq)

text \<open>
  A guarded store satisfies the storage contract if the store does.
\<close>

theorem with_guard_keeps_contract:
  assumes "storage_contract S quads_of view st_ok tx_ok writable"
  shows "storage_contract (WithGuard_storage S) (\<lambda>w. quads_of (WithGuard_store w)) (\<lambda>w. view (WithGuard_store w))
    (\<lambda>w. st_ok (WithGuard_store w)) (\<lambda>w. tx_ok (WithGuard_store w)) writable"
  unfolding WithGuard_store_def
proof (rule storage_contract.intro, goal_cases)
  case 1 then show ?case by (rule storage_contract.finite_quads [OF assms])
next
  case 2 then show ?case using storage_contract.begin_read_ok [OF assms] by simp
next
  case 3 then show ?case using storage_contract.begin_write_ok [OF assms] by simp
next
  case 4 then show ?case using storage_contract.insert_ok [OF assms] by simp
next
  case 5 then show ?case using storage_contract.insert_err [OF assms] by simp
next
  case 6 then show ?case using storage_contract.insert_read_only [OF assms] by simp
next
  case 7 then show ?case using storage_contract.remove_ok [OF assms] by simp
next
  case 8 then show ?case using storage_contract.remove_err [OF assms] by simp
next
  case 9 then show ?case using storage_contract.remove_read_only [OF assms] by simp
next
  case 10 then show ?case using storage_contract.contains_ok [OF assms] by simp
next
  case 11 then show ?case using storage_contract.pattern_ok [OF assms] by simp
next
  case 12 then show ?case using storage_contract.commit_ok [OF assms] by (simp add: on_storeD)
next
  case 13 then show ?case using storage_contract.commit_err [OF assms] on_storeD by fastforce
next
  case 14 then show ?case using storage_contract.rollback_ok [OF assms] on_storeD by fastforce
next
  case 15 then show ?case using storage_contract.quad_count_ok [OF assms] by simp
next
  case 16 then show ?case using storage_contract.named_graphs_ok [OF assms] by simp
qed

theorem with_guard_keeps_contract_witness:
  "storage_contract (WithGuard_storage MemStore_storage) (\<lambda>w. mem_quads (WithGuard_store w)) (\<lambda>w. mem_view (WithGuard_store w))
    (\<lambda>w. mem_st_ok (WithGuard_store w)) (\<lambda>w. mem_tx_ok (WithGuard_store w)) mt_writable"
  by (rule with_guard_keeps_contract [OF mem.storage_contract_axioms])

end
