(* ===== verification/Threads.thy ===== *)
theory Threads
  imports Contract
begin

text \<open>
  \<open>shareable_across_threads\<close> of \<^verbatim>\<open>semanticore-storage-testkit/src/contract.rs\<close>: one
  thread commits eight quads, one transaction each, while four threads read eight times each.
  A state is the store and the point each thread has reached; a step is one call of a trait
  method by one thread, so the schedules are the runs of the step relation, and a thread whose
  \<open>unwrap\<close>, \<open>expect\<close> or \<open>assert\<close> fails is in the state \<open>WPanic\<close> or \<open>RPanic\<close>. A method is one
  step: the stores lock their state for the duration of a method, and a read transaction of
  the test collects its iterator in one expression.

  \<open>concurrent_storage\<close> states what a store promises about readers alongside a writer. The
  reference store (snapshots) and the documented example store (read committed) both keep it.
\<close>

section \<open>The threads\<close>

definition thread_quad :: "nat \<Rightarrow> Quad" where
  "thread_quad i = Quad_triple (NbNamed (contract_iri (''s'' @ show_nat i))) (contract_iri ''p'') (TNamed (contract_iri ''o''))"

datatype 'tx Writer = WLoad nat | WBegun nat 'tx | WStaged nat 'tx | WPanic

datatype 'tx Reader = RRun nat | RBegun nat 'tx | RCounted nat 'tx | RPanic

fun writer_step :: "('st, 'tx) Storage \<Rightarrow> 'st \<Rightarrow> 'tx Writer \<Rightarrow> ('st \<times> 'tx Writer) option" where
  "writer_step S st (WLoad i) =
     (if i < 8 then Some (st, case begin_write S st of Inl e \<Rightarrow> WPanic | Inr tx \<Rightarrow> WBegun i tx) else None)"
| "writer_step S st (WBegun i tx) =
     Some (st, case tx_insert S st (thread_quad i) tx of (Inl e, t) \<Rightarrow> WPanic | (Inr b, t) \<Rightarrow> WStaged i t)"
| "writer_step S st (WStaged i tx) =
     Some (case tx_commit S tx st of (Inl e, st') \<Rightarrow> (st', WPanic) | (Inr u, st') \<Rightarrow> (st', WLoad (Suc i)))"
| "writer_step S st WPanic = None"

fun reader_step :: "('st, 'tx) Storage \<Rightarrow> 'st \<Rightarrow> 'tx Reader \<Rightarrow> ('st \<times> 'tx Reader) option" where
  "reader_step S st (RRun k) =
     (if k < 8 then Some (st, case begin_read S st of Inl e \<Rightarrow> RPanic | Inr tx \<Rightarrow> RBegun k tx) else None)"
| "reader_step S st (RBegun k tx) =
     Some (st, case all_quads S st tx of None \<Rightarrow> RPanic | Some qs \<Rightarrow> if card qs \<le> 8 then RCounted k tx else RPanic)"
| "reader_step S st (RCounted k tx) =
     Some (case tx_rollback S tx st of (Inl e, st') \<Rightarrow> (st', RPanic) | (Inr u, st') \<Rightarrow> (st', RRun (Suc k)))"
| "reader_step S st RPanic = None"

type_synonym ('st, 'tx) Threads = "'st \<times> 'tx Writer \<times> 'tx Reader list"

inductive thread_step :: "('st, 'tx) Storage \<Rightarrow> ('st, 'tx) Threads \<Rightarrow> ('st, 'tx) Threads \<Rightarrow> bool" for S where
  writer_moves: "writer_step S st w = Some (st', w') \<Longrightarrow> thread_step S (st, w, rs) (st', w', rs)"
| reader_moves: "k < length rs \<Longrightarrow> reader_step S st (rs ! k) = Some (st', r') \<Longrightarrow>
    thread_step S (st, w, rs) (st', w, rs[k := r'])"

inductive_cases thread_stepE: "thread_step S (st, w, rs) c"

definition threads_start :: "'st \<Rightarrow> ('st, 'tx) Threads" where
  "threads_start st = (st, WLoad 0, replicate 4 (RRun 0))"

text \<open>The calls that a thread has still to make.\<close>

fun writer_left :: "'tx Writer \<Rightarrow> nat" where
  "writer_left (WLoad i) = 3 * (8 - i)"
| "writer_left (WBegun i tx) = 3 * (8 - i) - 1"
| "writer_left (WStaged i tx) = 3 * (8 - i) - 2"
| "writer_left WPanic = 0"

fun reader_left :: "'tx Reader \<Rightarrow> nat" where
  "reader_left (RRun k) = 3 * (8 - k)"
| "reader_left (RBegun k tx) = 3 * (8 - k) - 1"
| "reader_left (RCounted k tx) = 3 * (8 - k) - 2"
| "reader_left RPanic = 0"

definition calls_left :: "('st, 'tx) Threads \<Rightarrow> nat" where
  "calls_left c = (case c of (st, w, rs) \<Rightarrow> writer_left w + sum_list (map reader_left rs))"

text \<open>The quads that the first \<open>i\<close> commits have written, and the contents that were there until then.\<close>

definition written_until :: "nat \<Rightarrow> Quad set" where
  "written_until i = thread_quad ` {..<i}"

definition contents_until :: "nat \<Rightarrow> Quad set set" where
  "contents_until i = written_until ` {..i}"

lemma card_written_until: "i < 2 ^ 64 \<Longrightarrow> card (written_until i) = i"
  by (auto simp: written_until_def thread_quad_def Quad_triple_def Quad_new_def contract_iri_def show_nat_inject inj_on_def
    intro!: card_image [THEN trans])

lemma written_until_0 [simp]: "written_until 0 = {}"
  and written_until_Suc: "written_until (Suc i) = insert (thread_quad i) (written_until i)"
  by (simp_all add: written_until_def lessThan_Suc)

lemma contents_until_Suc: "contents_until (Suc i) = insert (written_until (Suc i)) (contents_until i)"
  by (simp add: contents_until_def atMost_Suc)

lemma contents_until_self [intro]: "written_until i \<in> contents_until i"
  by (simp add: contents_until_def)

lemma contents_until_card: "Q \<in> contents_until i \<Longrightarrow> card Q \<le> i"
proof -
  assume "Q \<in> contents_until i"
  then obtain j where "j \<le> i" "Q = thread_quad ` {..<j}" by (auto simp: contents_until_def written_until_def)
  then show ?thesis using card_image_le [of "{..<j}" thread_quad] by simp
qed

lemma sum_list_update_less:
  fixes f :: "'a \<Rightarrow> nat"
  assumes "k < length xs" "Suc (f x) = f (xs ! k)"
  shows "Suc (sum_list (map f (xs[k := x]))) = sum_list (map f xs)"
  using assms by (induction xs arbitrary: k) (auto simp: less_Suc_eq_0_disj)

section \<open>Readers alongside a writer\<close>

text \<open>
  \<open>reader H st rd\<close>: \<open>rd\<close> is a read transaction that shows one of the contents \<open>H\<close>, those that
  the store has had since \<open>rd\<close> began.
\<close>

locale concurrent_storage = reliable_storage S quads_of view st_ok tx_ok writable accepts
  for S :: "('st, 'tx) Storage" and quads_of view st_ok tx_ok writable accepts +
  fixes reader :: "Quad set set \<Rightarrow> 'st \<Rightarrow> 'tx \<Rightarrow> bool"
  assumes reader_begins: "st_ok st \<Longrightarrow> begin_read S st = Inr rd \<Longrightarrow> reader {quads_of st} st rd"
    and reader_widens: "reader H st rd \<Longrightarrow> H \<subseteq> H' \<Longrightarrow> reader H' st rd"
    and reader_stays: "st_ok st \<Longrightarrow> reader H st rd \<Longrightarrow> tx_ok st tx \<Longrightarrow> tx_commit S tx st = (Inr u, st') \<Longrightarrow>
      reader (insert (quads_of st') H) st' rd"
    and reader_reads: "st_ok st \<Longrightarrow> reader H st rd \<Longrightarrow> \<exists>Q\<in>H. all_quads S st rd = Some Q"
    and reader_ends: "st_ok st \<Longrightarrow> reader H st rd \<Longrightarrow> \<exists>st'. tx_rollback S rd st = (Inr (), st')
      \<and> st_ok st' \<and> quads_of st' = quads_of st \<and> (\<forall>tx. tx_ok st tx \<longrightarrow> tx_ok st' tx \<and> view st' tx = view st tx)
      \<and> (\<forall>H' rd'. reader H' st rd' \<longrightarrow> reader H' st' rd')"

begin

fun writer_ok :: "'st \<Rightarrow> nat \<Rightarrow> 'tx Writer \<Rightarrow> bool" where
  "writer_ok st i (WLoad j) \<longleftrightarrow> j = i \<and> i \<le> 8"
| "writer_ok st i (WBegun j tx) \<longleftrightarrow> j = i \<and> i < 8 \<and> tx_ok st tx \<and> writable tx \<and> view st tx = written_until i"
| "writer_ok st i (WStaged j tx) \<longleftrightarrow> j = i \<and> i < 8 \<and> tx_ok st tx \<and> writable tx \<and> view st tx = written_until (Suc i)"
| "writer_ok st i WPanic \<longleftrightarrow> False"

fun reader_ok :: "'st \<Rightarrow> nat \<Rightarrow> 'tx Reader \<Rightarrow> bool" where
  "reader_ok st i (RRun k) \<longleftrightarrow> k \<le> 8"
| "reader_ok st i (RBegun k rd) \<longleftrightarrow> k < 8 \<and> reader (contents_until i) st rd"
| "reader_ok st i (RCounted k rd) \<longleftrightarrow> k < 8 \<and> reader (contents_until i) st rd"
| "reader_ok st i RPanic \<longleftrightarrow> False"

definition threads_ok :: "nat \<Rightarrow> ('st, 'tx) Threads \<Rightarrow> bool" where
  "threads_ok i c = (case c of (st, w, rs) \<Rightarrow>
     length rs = 4 \<and> st_ok st \<and> quads_of st = written_until i \<and> writer_ok st i w \<and> (\<forall>r\<in>set rs. reader_ok st i r))"

lemma writer_keeps:
  assumes "threads_ok i (st, w, rs)" "writer_step S st w = Some (st', w')" "\<forall>i<8. accepts (thread_quad i)"
  shows "(\<exists>j. threads_ok j (st', w', rs)) \<and> Suc (writer_left w') = writer_left w"
proof (cases w)
  case (WLoad j)
  obtain tx where "begin_write S st = Inr tx" "tx_ok st tx" "writable tx" "view st tx = quads_of st"
    using begin_write_total begin_write_ok assms(1) by (auto simp: threads_ok_def) blast
  then show ?thesis using assms(1,2) WLoad by (auto simp: threads_ok_def split: if_splits)
next
  case (WBegun j tx)
  have tx: "st_ok st" "tx_ok st tx" "writable tx" "view st tx = written_until i" "j = i" "i < 8"
    using assms(1) WBegun by (auto simp: threads_ok_def)
  obtain b t where t: "tx_insert S st (thread_quad i) tx = (Inr b, t)" using insert_total [OF tx(1-3)] assms(3) tx(6) by blast
  with insert_ok [OF tx(1,2) t] tx assms(1,2) WBegun show ?thesis
    by (auto simp: threads_ok_def written_until_Suc)
next
  case (WStaged j tx)
  have tx: "st_ok st" "tx_ok st tx" "writable tx" "view st tx = written_until (Suc i)" "j = i" "i < 8"
    using assms(1) WStaged by (auto simp: threads_ok_def)
  obtain u where c: "tx_commit S tx st = (Inr (), u)" using commit_total [OF tx(1,2)] by blast
  have u: "st_ok u" "quads_of u = written_until (Suc i)" using commit_ok [OF tx(1,2) c] tx(3,4) by simp_all
  have st': "st' = u" "w' = WLoad (Suc i)" using assms(2) WStaged c tx(5) by auto
  have "reader_ok u (Suc i) r" if "r \<in> set rs" for r
  proof -
    have "reader_ok st i r" using assms(1) that by (auto simp: threads_ok_def)
    then show ?thesis using reader_stays [OF tx(1) _ tx(2) c] u(2) by (cases r) (auto simp: contents_until_Suc)
  qed
  then have "threads_ok (Suc i) (st', w', rs)" using assms(1) u st' tx(6) by (simp add: threads_ok_def)
  moreover have "Suc (writer_left w') = writer_left w" using tx st' WStaged by simp
  ultimately show ?thesis by blast
qed (use assms(2) in simp)

lemma reader_keeps:
  assumes "threads_ok i (st, w, rs)" "k < length rs" "reader_step S st (rs ! k) = Some (st', r')"
  shows "threads_ok i (st', w, rs[k := r']) \<and> Suc (reader_left r') = reader_left (rs ! k)"
proof -
  have st: "st_ok st" "quads_of st = written_until i" "writer_ok st i w" "\<forall>r\<in>set rs. reader_ok st i r" "length rs = 4"
    and r: "reader_ok st i (rs ! k)" and i: "i \<le> 8"
    using assms(1,2) by (auto simp: threads_ok_def) (cases w; simp)
  have here: "threads_ok i (st, w, rs[k := r])" if "reader_ok st i r" for r
    using st that set_update_subset_insert [of rs k r] by (auto simp: threads_ok_def)
  show ?thesis
  proof (cases "rs ! k")
    case (RRun m)
    obtain rd where rd: "begin_read S st = Inr rd" using begin_read_total [OF st(1)] by blast
    then have "reader (contents_until i) st rd"
      using reader_widens [OF reader_begins [OF st(1)]] st(2) by (metis contents_until_self empty_subsetI insert_subset)
    with rd here [of "RBegun m rd"] assms(3) RRun show ?thesis by (auto split: if_splits)
  next
    case (RBegun m rd)
    then obtain Q where Q: "all_quads S st rd = Some Q" "Q \<in> contents_until i" using reader_reads [OF st(1)] r by auto
    then have "card Q \<le> 8" using contents_until_card i by (meson le_trans)
    with Q here [of "RCounted m rd"] assms(3) RBegun r show ?thesis by auto
  next
    case (RCounted m rd)
    then obtain u where u: "tx_rollback S rd st = (Inr (), u)" "st_ok u" "quads_of u = quads_of st"
      "\<forall>tx. tx_ok st tx \<longrightarrow> tx_ok u tx \<and> view u tx = view st tx" "\<forall>H' rd'. reader H' st rd' \<longrightarrow> reader H' u rd'"
      using reader_ends [OF st(1)] r by fastforce
    have "writer_ok u i w" using st(3) u(4) by (cases w) auto
    moreover have "reader_ok u i x" if "reader_ok st i x" for x using that u(5) by (cases x) auto
    ultimately have "threads_ok i (u, w, rs[k := RRun (Suc m)])"
      using st u r RCounted set_update_subset_insert [of rs k "RRun (Suc m)"] by (auto simp: threads_ok_def)
    with u(1) assms(3) RCounted r show ?thesis by auto
  qed (use assms(3) in simp)
qed

lemma thread_step_keeps:
  assumes "thread_step S c c'" "threads_ok i c" "\<forall>i<8. accepts (thread_quad i)"
  shows "(\<exists>j. threads_ok j c') \<and> Suc (calls_left c') = calls_left c"
  using assms(1)
proof (cases rule: thread_step.cases)
  case (writer_moves st w st' w' rs)
  then show ?thesis using writer_keeps [OF _ writer_moves(3) assms(3)] assms(2) by (auto simp: calls_left_def)
next
  case (reader_moves k rs st st' r' w)
  then have "threads_ok i (st', w, rs[k := r'])" "Suc (reader_left r') = reader_left (rs ! k)"
    using reader_keeps [OF _ reader_moves(3,4)] assms(2) by auto
  then show ?thesis using reader_moves sum_list_update_less [OF reader_moves(3), of reader_left r']
    by (auto simp: calls_left_def)
qed

lemma threads_run_keeps:
  assumes "(thread_step S ^^ n) (threads_start st0) c" "st_ok st0" "quads_of st0 = {}" "\<forall>i<8. accepts (thread_quad i)"
  shows "(\<exists>i. threads_ok i c) \<and> n + calls_left c = 120"
  using assms(1)
proof (induction n arbitrary: c)
  case 0
  have "threads_ok 0 (threads_start st0)" using assms(2,3) by (simp add: threads_ok_def threads_start_def)
  then show ?case using 0 by (auto simp: calls_left_def threads_start_def sum_list_replicate)
next
  case (Suc n)
  obtain b where b: "(thread_step S ^^ n) (threads_start st0) b" "thread_step S b c"
    using Suc.prems by (rule relpowp_Suc_E)
  then obtain i where "threads_ok i b" "n + calls_left b = 120" using Suc.IH by blast
  with thread_step_keeps [OF b(2) this(1) assms(4)] show ?case by auto
qed

lemma threads_go_on:
  assumes "threads_ok i (st, w, rs)"
  shows "(\<exists>c. thread_step S (st, w, rs) c) \<or> i = 8 \<and> w = WLoad 8 \<and> (\<forall>r\<in>set rs. r = RRun 8)"
proof (cases "writer_step S st w")
  case None
  then have w: "i = 8" "w = WLoad 8" using assms by (cases w; auto simp: threads_ok_def split: if_splits)+
  show ?thesis
  proof (cases "\<exists>k<length rs. reader_step S st (rs ! k) \<noteq> None")
    case True
    then show ?thesis using thread_step.reader_moves by fastforce
  next
    case False
    have "r = RRun 8" if "r \<in> set rs" for r
    proof -
      have "reader_step S st r = None" using False that by (metis in_set_conv_nth)
      then show ?thesis using assms that by (cases r) (auto simp: threads_ok_def split: if_splits)
    qed
    with w show ?thesis by blast
  qed
next
  case (Some p)
  then show ?thesis using thread_step.writer_moves [of S st w "fst p" "snd p" rs] by auto
qed

lemma threads_pass:
  assumes "st_ok store" "quads_of store = {}" "(thread_step S ^^ n) (threads_start store) (st, w, rs)" "\<forall>i<8. accepts (thread_quad i)"
  shows "w \<noteq> WPanic \<and> RPanic \<notin> set rs
    \<and> (if n < 120 then \<exists>c. thread_step S (st, w, rs) c
       else n = 120 \<and> w = WLoad 8 \<and> rs = replicate 4 (RRun 8) \<and> quad_count S st = Inr 8)"
proof -
  obtain i where i: "threads_ok i (st, w, rs)" and n: "n + calls_left (st, w, rs) = 120"
    using threads_run_keeps [OF assms(3,1,2,4)] by blast
  then have ok: "st_ok st" "quads_of st = written_until i" "w \<noteq> WPanic" "RPanic \<notin> set rs" by (auto simp: threads_ok_def)
  have len: "length rs = 4" using i by (simp add: threads_ok_def)
  have go: "n < 120" if "thread_step S (st, w, rs) c" for c
    using thread_step_keeps [OF that i assms(4)] n by linarith
  have eight: "quad_count S st = Inr 8" if "i = 8"
    using quad_count_total [OF ok(1)] quad_count_ok [OF ok(1)] ok(2) that by (auto simp: card_written_until)
  have "n = 120" if "w = WLoad 8" "\<forall>r\<in>set rs. r = RRun 8"
  proof -
    have "reader_left r = 0" if "r \<in> set rs" for r using bspec [OF \<open>\<forall>r\<in>set rs. r = RRun 8\<close> that] by simp
    then have "sum_list (map reader_left rs) = 0" by (simp add: sum_list_eq_0_iff)
    then show ?thesis using n that(1) by (simp only: calls_left_def prod.case writer_left.simps)
  qed
  then show ?thesis using threads_go_on [OF i] go eight ok(3,4) len n by (auto simp: replicate_eqI)
qed

end

text \<open>The reference store reads from a snapshot; the example store reads what is committed.\<close>

interpretation mem_concurrent: concurrent_storage MemStore_storage mem_quads mem_view mem_st_ok mem_tx_ok mt_writable "\<lambda>_. True"
    "\<lambda>H st rd. \<not> mt_writable rd \<and> set (mt_working rd) \<in> H"
proof (unfold_locales, goal_cases)
  case (4 st H rd)
  have "all_quads MemStore_storage st rd = Some (set (mt_working rd))" by (simp add: mem_defs all_quads_def)
  with 4 show ?case by blast
qed (auto simp: mem_defs)

interpretation doc_concurrent: concurrent_storage DocStore_storage set doc_view distinct doc_tx_ok dt_writable "\<lambda>_. True"
    "\<lambda>H st rd. set st \<in> H \<and> dt_inserted rd = [] \<and> dt_removed rd = []"
proof (unfold_locales, goal_cases)
  case (4 st H rd)
  then have "all_quads DocStore_storage st rd = Some (set st)"
    by (simp add: all_quads_def unwrap_def doc_defs matches_pattern_def DocTx_snapshot_def)
  with 4 show ?case by blast
qed (auto simp: doc_defs)

section \<open>Every schedule passes\<close>

text \<open>
  C23. A store can be shared by threads: over every store that keeps the contract, does not
  fail and lets readers run alongside a writer, no schedule of the test's five threads makes
  an assertion or an \<open>unwrap\<close> fail, and none goes on for ever: a schedule is over after
  exactly 120 calls, when every thread has finished, and the store then counts eight quads.
  Until then some thread can make its next call.
\<close>

theorem shareable_across_threads_passes:
  assumes "concurrent_storage S quads_of view st_ok tx_ok writable accepts reader"
    and "st_ok store" "quads_of store = {}"
    and "(thread_step S ^^ n) (threads_start store) (st, w, rs)" "\<forall>i<8. accepts (thread_quad i)"
  shows "w \<noteq> WPanic \<and> RPanic \<notin> set rs
    \<and> (if n < 120 then \<exists>c. thread_step S (st, w, rs) c
       else n = 120 \<and> w = WLoad 8 \<and> rs = replicate 4 (RRun 8) \<and> quad_count S st = Inr 8)"
  by (rule concurrent_storage.threads_pass [OF assms])

theorem shareable_across_threads_passes_witness:
  "(\<exists>c. thread_step MemStore_storage (MemStore_new, WLoad 0, replicate 4 (RRun 0)) c)
   \<and> (\<exists>c. thread_step DocStore_storage ([], WLoad 0, replicate 4 (RRun 0)) c)"
  using shareable_across_threads_passes [OF mem_concurrent.concurrent_storage_axioms mem_new, of 0]
    shareable_across_threads_passes [OF doc_concurrent.concurrent_storage_axioms, of "[]" 0]
  by (simp add: threads_start_def)

end
