(* ===== verification/Oxigraph_Convert.thy ===== *)
theory Oxigraph_Convert
  imports Storage_Trait
begin

text \<open>
  Term conversion between the core model and the Oxigraph crate's model
  (\<^verbatim>\<open>semanticore-store-oxigraph/src/convert.rs\<close>).

  The data of the crate are modelled by the parts its accessors give. Its functions are
  parameters, the record \<open>OxModel\<close>: the checked constructors of IRIs, blank nodes and
  tagged literals, the unchecked constructors, \<open>Display\<close> for terms, and the parsers of the
  XSD datatypes with the text a parsed value is displayed as. What the conversions rely on
  is \<open>ox_model_ok\<close>: an object reads back the text it was built from.
\<close>

section \<open>The crate's terms\<close>

datatype OxNamedNode = OxNamedNode (ox_iri: string)

datatype OxBlankNode = OxBlankNode (ox_label: string)

datatype OxSubject = OxSNamed OxNamedNode | OxSBlank OxBlankNode

datatype OxLiteral = OxLiteral (ol_value: string) (ol_datatype: string) (ol_language: "string option")

datatype OxTerm = OxTNamed OxNamedNode | OxTBlank OxBlankNode | OxTLiteral OxLiteral | OxTTriple string

datatype OxGraphName = OxGNamed OxNamedNode | OxGBlank OxBlankNode | OxGDefault

datatype OxQuad = OxQuad (oq_subject: OxSubject) (oq_predicate: OxNamedNode) (oq_object: OxTerm) (oq_graph: OxGraphName)

datatype XsdType =
    XBoolean | XFloat | XDouble | XInteger | XDecimal | XDateTime | XTime | XDate | XGYearMonth | XGYear
  | XGMonthDay | XGDay | XGMonth | XDuration | XYearMonthDuration | XDayTimeDuration

record OxModel =
  ox_named_new :: "string \<Rightarrow> OxNamedNode option"
  ox_blank_new :: "string \<Rightarrow> OxBlankNode option"
  ox_lang_valid :: "string \<Rightarrow> string \<Rightarrow> bool"
  ox_lang_unchecked :: "string \<Rightarrow> string \<Rightarrow> OxLiteral"
  ox_typed_literal :: "string \<Rightarrow> OxNamedNode \<Rightarrow> OxLiteral"
  ox_literal_display :: "OxLiteral \<Rightarrow> string"
  xsd_parse :: "XsdType \<Rightarrow> string \<Rightarrow> string option"

section \<open>Errors\<close>

definition XSD :: string where
  "XSD = ''http://www.w3.org/2001/XMLSchema#''"

datatype Unrepresentable =
    UIri string
  | UBlankNode string
  | ULanguageTag string
  | LangStringWithoutTag
  | NonCanonicalLiteral string string
  | BlankGraphName string
  | Rdf12Term string

fun Unrepresentable_display :: "Unrepresentable \<Rightarrow> string" where
  "Unrepresentable_display (UIri i) = ''invalid IRI <'' @ i @ ''>''"
| "Unrepresentable_display (UBlankNode i) = ''invalid blank node label _:'' @ i"
| "Unrepresentable_display (ULanguageTag t) = ''invalid language tag @'' @ t"
| "Unrepresentable_display LangStringWithoutTag = ''rdf:langString literal without a language tag''"
| "Unrepresentable_display (NonCanonicalLiteral v dt) =
     ''literal '' @ [quote_char] @ v @ [quote_char] @ ''^^<'' @ dt @ ''> would be stored in canonical form; '' @
     ''insert the canonical lexical form with the primitive datatype instead''"
| "Unrepresentable_display (BlankGraphName i) = ''graph named by blank node _:'' @ i @ '' has no core equivalent''"
| "Unrepresentable_display (Rdf12Term t) = ''RDF 1.2 term '' @ t @ '' has no core equivalent''"

definition StorageError_from :: "Unrepresentable \<Rightarrow> StorageError" where
  "StorageError_from u = Serialization (Unrepresentable_display u)"

datatype OxError = OxIo string | OxOther string

fun map_ox_err :: "OxError \<Rightarrow> StorageError" where
  "map_ox_err (OxIo io) = Io io"
| "map_ox_err (OxOther e) = Backend (BoxOxigraph e)"

section \<open>Core to Oxigraph\<close>

definition named_to_ox :: "OxModel \<Rightarrow> NamedNode \<Rightarrow> Unrepresentable + OxNamedNode" where
  "named_to_ox P n = (case ox_named_new P (iri n) of None \<Rightarrow> Inl (UIri (iri n)) | Some x \<Rightarrow> Inr x)"

definition blank_to_ox :: "OxModel \<Rightarrow> BlankNode \<Rightarrow> Unrepresentable + OxBlankNode" where
  "blank_to_ox P b = (case ox_blank_new P (label b) of None \<Rightarrow> Inl (UBlankNode (label b)) | Some x \<Rightarrow> Inr x)"

fun subject_to_ox :: "OxModel \<Rightarrow> NamedOrBlankNode \<Rightarrow> Unrepresentable + OxSubject" where
  "subject_to_ox P (NbNamed n) = map_ok OxSNamed (named_to_ox P n)"
| "subject_to_ox P (NbBlank b) = map_ok OxSBlank (blank_to_ox P b)"

definition canonical :: "OxModel \<Rightarrow> XsdType \<Rightarrow> string \<Rightarrow> bool" where
  "canonical P T v = (case xsd_parse P T v of None \<Rightarrow> False | Some shown \<Rightarrow> shown = v)"

definition unparsable :: "OxModel \<Rightarrow> XsdType \<Rightarrow> string \<Rightarrow> bool" where
  "unparsable P T v = (xsd_parse P T v = None)"

text \<open>The match on the local name: its value type if a parsable value may stay, or must not be there.\<close>

definition primitive_type :: "string \<Rightarrow> XsdType option" where
  "primitive_type local =
     map_of [(''boolean'', XBoolean), (''float'', XFloat), (''double'', XDouble), (''integer'', XInteger),
       (''decimal'', XDecimal), (''dateTime'', XDateTime), (''time'', XTime), (''date'', XDate),
       (''gYearMonth'', XGYearMonth), (''gYear'', XGYear), (''gMonthDay'', XGMonthDay), (''gDay'', XGDay),
       (''gMonth'', XGMonth), (''duration'', XDuration), (''yearMonthDuration'', XYearMonthDuration),
       (''dayTimeDuration'', XDayTimeDuration)] local"

definition derived_type :: "string \<Rightarrow> XsdType option" where
  "derived_type local =
     (if List.member [''byte'', ''short'', ''int'', ''long'', ''unsignedByte'', ''unsignedShort'', ''unsignedInt'',
          ''unsignedLong'', ''positiveInteger'', ''negativeInteger'', ''nonPositiveInteger'', ''nonNegativeInteger''] local
      then Some XInteger
      else if local = ''dateTimeStamp'' then Some XDateTime
      else None)"

definition round_trips :: "OxModel \<Rightarrow> string \<Rightarrow> string \<Rightarrow> bool" where
  "round_trips P v dt =
     (case strip_prefix XSD dt of None \<Rightarrow> True
      | Some local \<Rightarrow>
         (case primitive_type local of Some T \<Rightarrow> canonical P T v \<or> unparsable P T v
          | None \<Rightarrow>
             (case derived_type local of Some T \<Rightarrow> unparsable P T v
              | None \<Rightarrow> True)))"

definition literal_to_ox :: "OxModel \<Rightarrow> Literal \<Rightarrow> Unrepresentable + OxLiteral" where
  "literal_to_ox P l =
     (case lit_language l of
        Some tag \<Rightarrow>
          if \<not> ox_lang_valid P (lit_value l) tag then Inl (ULanguageTag tag)
          else Inr (ox_lang_unchecked P (lit_value l) tag)
      | None \<Rightarrow>
          let dt = iri (lit_datatype l)
          in if dt = RDF_LANG_STRING then Inl LangStringWithoutTag
             else if \<not> round_trips P (lit_value l) dt then Inl (NonCanonicalLiteral (lit_value l) dt)
             else map_ok (ox_typed_literal P (lit_value l)) (named_to_ox P (lit_datatype l)))"

fun term_to_ox :: "OxModel \<Rightarrow> Term \<Rightarrow> Unrepresentable + OxTerm" where
  "term_to_ox P (TNamed n) = map_ok OxTNamed (named_to_ox P n)"
| "term_to_ox P (TBlank b) = map_ok OxTBlank (blank_to_ox P b)"
| "term_to_ox P (TLiteral l) = map_ok OxTLiteral (literal_to_ox P l)"

fun graph_to_ox :: "OxModel \<Rightarrow> NamedOrDefault \<Rightarrow> Unrepresentable + OxGraphName" where
  "graph_to_ox P (GNamed n) = map_ok OxGNamed (named_to_ox P n)"
| "graph_to_ox P GDefault = Inr OxGDefault"

definition quad_to_ox :: "OxModel \<Rightarrow> Quad \<Rightarrow> Unrepresentable + OxQuad" where
  "quad_to_ox P q =
     (case subject_to_ox P (q_subject q) of Inl e \<Rightarrow> Inl e | Inr s \<Rightarrow>
     (case named_to_ox P (q_predicate q) of Inl e \<Rightarrow> Inl e | Inr p \<Rightarrow>
     (case term_to_ox P (q_object q) of Inl e \<Rightarrow> Inl e | Inr obj \<Rightarrow>
     (case graph_to_ox P (q_graph q) of Inl e \<Rightarrow> Inl e | Inr g \<Rightarrow> Inr (OxQuad s p obj g)))))"

section \<open>Oxigraph to core\<close>

definition named_from_ox :: "OxNamedNode \<Rightarrow> NamedNode" where
  "named_from_ox n = NamedNode (ox_iri n)"

fun subject_from_ox :: "OxSubject \<Rightarrow> NamedOrBlankNode" where
  "subject_from_ox (OxSNamed n) = NbNamed (named_from_ox n)"
| "subject_from_ox (OxSBlank b) = NbBlank (BlankNode (ox_label b))"

definition literal_from_ox :: "OxModel \<Rightarrow> OxLiteral \<Rightarrow> StorageError + Literal" where
  "literal_from_ox P l =
     (case ol_language l of
        Some tag \<Rightarrow>
          if ol_datatype l = RDF_LANG_STRING then Inr (Literal_new_lang (ol_value l) tag)
          else Inl (StorageError_from (Rdf12Term (ox_literal_display P l)))
      | None \<Rightarrow>
          if ol_datatype l = xsd_STRING then Inr (Literal_new_simple (ol_value l))
          else Inr (Literal_new_typed (ol_value l) (NamedNode (ol_datatype l))))"

fun term_from_ox :: "OxModel \<Rightarrow> OxTerm \<Rightarrow> StorageError + Term" where
  "term_from_ox P (OxTNamed n) = Inr (TNamed (named_from_ox n))"
| "term_from_ox P (OxTBlank b) = Inr (TBlank (BlankNode (ox_label b)))"
| "term_from_ox P (OxTLiteral l) = map_ok TLiteral (literal_from_ox P l)"
| "term_from_ox P (OxTTriple shown) = Inl (StorageError_from (Rdf12Term shown))"

fun graph_from_ox :: "OxGraphName \<Rightarrow> StorageError + NamedOrDefault" where
  "graph_from_ox (OxGNamed n) = Inr (GNamed (named_from_ox n))"
| "graph_from_ox OxGDefault = Inr GDefault"
| "graph_from_ox (OxGBlank b) = Inl (StorageError_from (BlankGraphName (ox_label b)))"

definition quad_from_ox :: "OxModel \<Rightarrow> OxQuad \<Rightarrow> StorageError + Quad" where
  "quad_from_ox P x =
     (case term_from_ox P (oq_object x) of Inl e \<Rightarrow> Inl e | Inr obj \<Rightarrow>
     (case graph_from_ox (oq_graph x) of Inl e \<Rightarrow> Inl e | Inr g \<Rightarrow>
        Inr (Quad_new (subject_from_ox (oq_subject x)) (named_from_ox (oq_predicate x)) obj g)))"

section \<open>Round trip\<close>

text \<open>
  What the conversions rely on: the constructors of the crate keep their arguments, which
  its accessors return. (A typed literal with datatype \<open>xsd:string\<close> becomes a simple literal,
  whose datatype accessor returns \<open>xsd:string\<close> as well.)
\<close>

definition ox_model_ok :: "OxModel \<Rightarrow> bool" where
  "ox_model_ok P \<longleftrightarrow>
     (\<forall>s x. ox_named_new P s = Some x \<longrightarrow> ox_iri x = s)
   \<and> (\<forall>s x. ox_blank_new P s = Some x \<longrightarrow> ox_label x = s)
   \<and> (\<forall>v tag. ox_lang_unchecked P v tag = OxLiteral v RDF_LANG_STRING (Some tag))
   \<and> (\<forall>v n. ox_typed_literal P v n = OxLiteral v (ox_iri n) None)"

lemma named_back: "ox_model_ok P \<Longrightarrow> named_to_ox P n = Inr x \<Longrightarrow> named_from_ox x = n"
  by (cases n) (auto simp: named_to_ox_def named_from_ox_def ox_model_ok_def split: option.splits)

lemma blank_back: "ox_model_ok P \<Longrightarrow> blank_to_ox P b = Inr x \<Longrightarrow> BlankNode (ox_label x) = b"
  by (cases b) (auto simp: blank_to_ox_def ox_model_ok_def split: option.splits)

lemma subject_back: "ox_model_ok P \<Longrightarrow> subject_to_ox P s = Inr x \<Longrightarrow> subject_from_ox x = s"
  by (cases s) (auto simp: named_back blank_back)

lemma graph_back: "ox_model_ok P \<Longrightarrow> graph_to_ox P g = Inr x \<Longrightarrow> graph_from_ox x = Inr g"
  by (cases g) (auto simp: named_back)

lemma literal_back:
  assumes "ox_model_ok P" "literal_to_ox P l = Inr x"
  shows "literal_from_ox P x = Inr l"
proof (cases "lit_language l")
  case (Some tag)
  then have x: "x = OxLiteral (lit_value l) RDF_LANG_STRING (Some tag)"
    using assms by (auto simp: literal_to_ox_def ox_model_ok_def split: if_splits)
  have "Literal_new_lang (lit_value l) tag = l"
    using Some Literal_tagged [OF Some] by (intro Literal_eqI) simp_all
  then show ?thesis using x by (simp add: literal_from_ox_def)
next
  case None
  then obtain n where n: "named_to_ox P (lit_datatype l) = Inr n" "x = OxLiteral (lit_value l) (ox_iri n) None"
    using assms by (auto simp: literal_to_ox_def ox_model_ok_def Let_def split: if_splits)
  have dt: "NamedNode (ox_iri n) = lit_datatype l" using named_back [OF assms(1) n(1)] by (simp add: named_from_ox_def)
  then have "Literal_new_simple (lit_value l) = l" if "ox_iri n = xsd_STRING"
    using None that by (intro Literal_eqI) simp_all
  moreover have "Literal_new_typed (lit_value l) (lit_datatype l) = l"
    using None by (intro Literal_eqI) simp_all
  ultimately show ?thesis using n(2) dt by (simp add: literal_from_ox_def)
qed

lemma term_back: "ox_model_ok P \<Longrightarrow> term_to_ox P t = Inr x \<Longrightarrow> term_from_ox P x = Inr t"
  by (cases t) (auto simp: named_back blank_back literal_back)

lemma quad_to_ox_Inr:
  "quad_to_ox P q = Inr x \<longleftrightarrow>
     subject_to_ox P (q_subject q) = Inr (oq_subject x) \<and> named_to_ox P (q_predicate q) = Inr (oq_predicate x)
   \<and> term_to_ox P (q_object q) = Inr (oq_object x) \<and> graph_to_ox P (q_graph q) = Inr (oq_graph x)"
  by (cases x) (auto simp: quad_to_ox_def split: sum.splits)

lemma quad_back:
  assumes "ox_model_ok P" "quad_to_ox P q = Inr x"
  shows "quad_from_ox P x = Inr q"
proof -
  note parts = assms(2) [unfolded quad_to_ox_Inr]
  have "subject_from_ox (oq_subject x) = q_subject q" "named_from_ox (oq_predicate x) = q_predicate q"
    "term_from_ox P (oq_object x) = Inr (q_object q)" "graph_from_ox (oq_graph x) = Inr (q_graph q)"
    using parts subject_back [OF assms(1)] named_back [OF assms(1)] term_back [OF assms(1)] graph_back [OF assms(1)]
    by blast+
  then show ?thesis by (simp add: quad_from_ox_def Quad_new_def)
qed

definition w_ox :: OxModel where
  "w_ox = \<lparr>ox_named_new = (\<lambda>s. if List.member s CHR '':'' then Some (OxNamedNode s) else None),
     ox_blank_new = (\<lambda>s. if s = [] then None else Some (OxBlankNode s)),
     ox_lang_valid = (\<lambda>v tag. tag \<noteq> []), ox_lang_unchecked = (\<lambda>v tag. OxLiteral v RDF_LANG_STRING (Some tag)),
     ox_typed_literal = (\<lambda>v n. OxLiteral v (ox_iri n) None), ox_literal_display = ol_value,
     xsd_parse = (\<lambda>T v. if T = XInteger \<and> v = ''01'' then Some ''1'' else if T = XInteger \<and> v = ''1'' then Some ''1'' else None)\<rparr>"

lemma w_ox_ok: "ox_model_ok w_ox"
  by (auto simp: ox_model_ok_def w_ox_def split: if_splits)

lemmas eval_ox = w_ox_def named_to_ox_def blank_to_ox_def literal_to_ox_def quad_to_ox_def round_trips_def primitive_type_def
  derived_type_def canonical_def unparsable_def strip_prefix_def XSD_def xsd_STRING_def RDF_LANG_STRING_def Let_def

section \<open>What the adapter refuses\<close>

text \<open>
  The documented behaviour of the crate's storage layer on typed literals: a value that
  parses is stored natively and read back in the canonical form of the primitive type; any
  other is stored verbatim.
\<close>

definition ox_reads_back :: "OxModel \<Rightarrow> (string \<Rightarrow> string \<Rightarrow> string \<times> string) \<Rightarrow> bool" where
  "ox_reads_back P back \<longleftrightarrow>
     (\<forall>v local T. primitive_type local = Some T \<longrightarrow>
        back v (XSD @ local) = (case xsd_parse P T v of None \<Rightarrow> (v, XSD @ local) | Some shown \<Rightarrow> (shown, XSD @ local)))
   \<and> (\<forall>v local T. primitive_type local = None \<longrightarrow> derived_type local = Some T \<longrightarrow>
        back v (XSD @ local) = (case xsd_parse P T v of None \<Rightarrow> (v, XSD @ local)
          | Some shown \<Rightarrow> (shown, XSD @ (if T = XInteger then ''integer'' else ''dateTime''))))
   \<and> (\<forall>v dt. (\<forall>local. dt = XSD @ local \<longrightarrow> primitive_type local = None \<and> derived_type local = None) \<longrightarrow> back v dt = (v, dt))"

lemma derived_not_primitive: "derived_type local = Some T \<Longrightarrow> local \<noteq> (if T = XInteger then ''integer'' else ''dateTime'')"
  by (auto simp: derived_type_def split: if_splits)

lemma round_trips_verbatim:
  assumes "ox_reads_back P back"
  shows "round_trips P v dt \<longleftrightarrow> back v dt = (v, dt)"
proof (cases "strip_prefix XSD dt")
  case None
  then have "dt \<noteq> XSD @ local" for local by auto
  then have "back v dt = (v, dt)" using assms by (simp add: ox_reads_back_def)
  then show ?thesis using None by (simp add: round_trips_def)
next
  case (Some local)
  then have dt: "dt = XSD @ local" by (simp add: strip_prefix_Some)
  show ?thesis
  proof (cases "primitive_type local")
    case Some1: (Some T)
    then have "back v (XSD @ local) = (case xsd_parse P T v of None \<Rightarrow> (v, XSD @ local) | Some shown \<Rightarrow> (shown, XSD @ local))"
      using assms by (simp add: ox_reads_back_def)
    then show ?thesis using Some Some1 unfolding dt
      by (simp add: round_trips_def canonical_def unparsable_def split: option.split)
  next
    case None1: None
    show ?thesis
    proof (cases "derived_type local")
      case Some2: (Some T)
      then have "back v (XSD @ local) = (case xsd_parse P T v of None \<Rightarrow> (v, XSD @ local)
          | Some shown \<Rightarrow> (shown, XSD @ (if T = XInteger then ''integer'' else ''dateTime'')))"
        using assms None1 by (simp add: ox_reads_back_def)
      then show ?thesis using Some None1 Some2 derived_not_primitive [OF Some2] unfolding dt
        by (auto simp: round_trips_def unparsable_def split: option.split)
    next
      case None2: None
      then have "back v (XSD @ local) = (v, XSD @ local)" using assms None1 by (simp add: ox_reads_back_def)
      then show ?thesis using Some None1 None2 unfolding dt by (simp add: round_trips_def)
    qed
  qed
qed

definition w_back :: "string \<Rightarrow> string \<Rightarrow> string \<times> string" where
  "w_back v dt =
     (case strip_prefix XSD dt of None \<Rightarrow> (v, dt)
      | Some local \<Rightarrow>
         (case (primitive_type local, derived_type local) of
            (Some T, _) \<Rightarrow> (case xsd_parse w_ox T v of None \<Rightarrow> (v, dt) | Some shown \<Rightarrow> (shown, dt))
          | (None, Some T) \<Rightarrow> (case xsd_parse w_ox T v of None \<Rightarrow> (v, dt)
              | Some shown \<Rightarrow> (shown, XSD @ (if T = XInteger then ''integer'' else ''dateTime'')))
          | _ \<Rightarrow> (v, dt)))"

lemma w_back_ok: "ox_reads_back w_ox w_back"
  unfolding ox_reads_back_def
  by (auto simp: w_back_def strip_prefix_Some split: option.split)

text \<open>
  The adapter accepts an untagged literal exactly if its datatype is a valid IRI other
  than \<open>rdf:langString\<close> and the store would read it back unchanged, value and datatype.
  (\<open>"01"^^xsd:integer\<close> and any \<open>xsd:int\<close> that parses are refused, \<open>"1"^^xsd:integer\<close> is not.)
\<close>

theorem literal_accepted_iff:
  assumes "ox_reads_back P back" "lit_language l = None"
  shows "(\<exists>x. literal_to_ox P l = Inr x) \<longleftrightarrow>
    iri (lit_datatype l) \<noteq> RDF_LANG_STRING \<and> ox_named_new P (iri (lit_datatype l)) \<noteq> None
    \<and> back (lit_value l) (iri (lit_datatype l)) = (lit_value l, iri (lit_datatype l))"
  using assms(2) round_trips_verbatim [OF assms(1)]
  by (auto simp: literal_to_ox_def Let_def named_to_ox_def split: option.split)

theorem literal_accepted_iff_witness:
  "\<not> (\<exists>x. literal_to_ox w_ox (Literal_new_typed ''01'' (NamedNode (XSD @ ''integer''))) = Inr x)
   \<and> (\<exists>x. literal_to_ox w_ox (Literal_new_typed ''1'' (NamedNode (XSD @ ''integer''))) = Inr x)
   \<and> \<not> (\<exists>x. literal_to_ox w_ox (Literal_new_typed ''1'' (NamedNode (XSD @ ''int''))) = Inr x)"
proof -
  note accepted = literal_accepted_iff [OF w_back_ok, of "Literal_new_typed v dt" for v dt, simplified]
  show ?thesis unfolding accepted
    by (simp add: w_back_def primitive_type_def derived_type_def w_ox_def XSD_def RDF_LANG_STRING_def strip_prefix_def)
qed

text \<open>
  What Oxigraph can hold verbatim, said of the crate alone: IRIs, blank node labels and
  language tags that its constructors accept, and untagged literals, not of the datatype
  reserved for tagged ones, that its storage layer reads back unchanged.
\<close>

definition iri_verbatim :: "OxModel \<Rightarrow> NamedNode \<Rightarrow> bool" where
  "iri_verbatim P n \<longleftrightarrow> (\<exists>x. ox_named_new P (iri n) = Some x)"

definition blank_verbatim :: "OxModel \<Rightarrow> BlankNode \<Rightarrow> bool" where
  "blank_verbatim P b \<longleftrightarrow> (\<exists>x. ox_blank_new P (label b) = Some x)"

definition literal_verbatim :: "OxModel \<Rightarrow> (string \<Rightarrow> string \<Rightarrow> string \<times> string) \<Rightarrow> Literal \<Rightarrow> bool" where
  "literal_verbatim P back l \<longleftrightarrow>
     (case lit_language l of
        Some tag \<Rightarrow> ox_lang_valid P (lit_value l) tag
      | None \<Rightarrow> iri (lit_datatype l) \<noteq> RDF_LANG_STRING \<and> iri_verbatim P (lit_datatype l)
          \<and> back (lit_value l) (iri (lit_datatype l)) = (lit_value l, iri (lit_datatype l)))"

fun subject_verbatim :: "OxModel \<Rightarrow> NamedOrBlankNode \<Rightarrow> bool" where
  "subject_verbatim P (NbNamed n) = iri_verbatim P n"
| "subject_verbatim P (NbBlank b) = blank_verbatim P b"

fun term_verbatim :: "OxModel \<Rightarrow> (string \<Rightarrow> string \<Rightarrow> string \<times> string) \<Rightarrow> Term \<Rightarrow> bool" where
  "term_verbatim P back (TNamed n) = iri_verbatim P n"
| "term_verbatim P back (TBlank b) = blank_verbatim P b"
| "term_verbatim P back (TLiteral l) = literal_verbatim P back l"

fun graph_verbatim :: "OxModel \<Rightarrow> NamedOrDefault \<Rightarrow> bool" where
  "graph_verbatim P (GNamed n) = iri_verbatim P n"
| "graph_verbatim P GDefault = True"

definition quad_verbatim :: "OxModel \<Rightarrow> (string \<Rightarrow> string \<Rightarrow> string \<times> string) \<Rightarrow> Quad \<Rightarrow> bool" where
  "quad_verbatim P back q \<longleftrightarrow> subject_verbatim P (q_subject q) \<and> iri_verbatim P (q_predicate q)
     \<and> term_verbatim P back (q_object q) \<and> graph_verbatim P (q_graph q)"

text \<open>The conversion of a term succeeds exactly if Oxigraph can hold the term verbatim.\<close>

lemma named_accepted: "(\<exists>x. named_to_ox P n = Inr x) \<longleftrightarrow> iri_verbatim P n"
  by (simp add: named_to_ox_def iri_verbatim_def split: option.split)

lemma blank_accepted: "(\<exists>x. blank_to_ox P b = Inr x) \<longleftrightarrow> blank_verbatim P b"
  by (simp add: blank_to_ox_def blank_verbatim_def split: option.split)

lemma map_ok_accepted: "(\<exists>y. map_ok f r = Inr y) \<longleftrightarrow> (\<exists>x. r = Inr x)"
  by (cases r) simp_all

lemma literal_accepted:
  assumes "ox_reads_back P back"
  shows "(\<exists>x. literal_to_ox P l = Inr x) \<longleftrightarrow> literal_verbatim P back l"
  using round_trips_verbatim [OF assms] named_accepted [of P "lit_datatype l"]
  by (cases "lit_language l") (auto simp: literal_to_ox_def literal_verbatim_def Let_def)

lemma subject_accepted: "(\<exists>x. subject_to_ox P s = Inr x) \<longleftrightarrow> subject_verbatim P s"
  by (cases s) (simp_all only: subject_to_ox.simps subject_verbatim.simps map_ok_accepted named_accepted blank_accepted)

lemma graph_accepted: "(\<exists>x. graph_to_ox P g = Inr x) \<longleftrightarrow> graph_verbatim P g"
  using named_accepted [of P] by (cases g) (simp_all add: map_ok_accepted [of OxGNamed])

lemma term_accepted:
  assumes "ox_reads_back P back"
  shows "(\<exists>x. term_to_ox P t = Inr x) \<longleftrightarrow> term_verbatim P back t"
  by (cases t) (simp_all only: term_to_ox.simps term_verbatim.simps map_ok_accepted named_accepted blank_accepted
    literal_accepted [OF assms])

lemma quad_accepted:
  assumes "ox_reads_back P back"
  shows "(\<exists>x. quad_to_ox P q = Inr x) \<longleftrightarrow> quad_verbatim P back q"
proof -
  have "(\<exists>x. quad_to_ox P q = Inr x) \<longleftrightarrow> (\<exists>x. subject_to_ox P (q_subject q) = Inr x) \<and> (\<exists>x. named_to_ox P (q_predicate q) = Inr x)
      \<and> (\<exists>x. term_to_ox P (q_object q) = Inr x) \<and> (\<exists>x. graph_to_ox P (q_graph q) = Inr x)"
    by (auto simp: quad_to_ox_def split: sum.split)
  then show ?thesis by (simp only: quad_verbatim_def subject_accepted named_accepted term_accepted [OF assms] graph_accepted)
qed

section \<open>The storage layer's encoding\<close>

text \<open>
  What the crate's storage layer keeps of a quad: an untagged literal is re-encoded, every
  other term is kept. A quad that \<open>quad_to_ox\<close> lets through is kept as it is.
\<close>

fun stored_literal :: "(string \<Rightarrow> string \<Rightarrow> string \<times> string) \<Rightarrow> OxLiteral \<Rightarrow> OxLiteral" where
  "stored_literal back (OxLiteral v dt None) = (case back v dt of (v', dt') \<Rightarrow> OxLiteral v' dt' None)"
| "stored_literal back l = l"

fun stored_term :: "(string \<Rightarrow> string \<Rightarrow> string \<times> string) \<Rightarrow> OxTerm \<Rightarrow> OxTerm" where
  "stored_term back (OxTLiteral l) = OxTLiteral (stored_literal back l)"
| "stored_term back t = t"

definition stored_quad :: "(string \<Rightarrow> string \<Rightarrow> string \<times> string) \<Rightarrow> OxQuad \<Rightarrow> OxQuad" where
  "stored_quad back x = OxQuad (oq_subject x) (oq_predicate x) (stored_term back (oq_object x)) (oq_graph x)"

lemma literal_stored:
  assumes "ox_model_ok P" "ox_reads_back P back" "literal_to_ox P l = Inr x"
  shows "stored_literal back x = x"
proof (cases "lit_language l")
  case (Some tag)
  then show ?thesis using assms(1,3) by (auto simp: literal_to_ox_def ox_model_ok_def split: if_splits)
next
  case None
  then have rt: "round_trips P (lit_value l) (iri (lit_datatype l))"
    and "\<exists>n. named_to_ox P (lit_datatype l) = Inr n \<and> x = ox_typed_literal P (lit_value l) n"
    using assms(3) by (auto simp: literal_to_ox_def Let_def split: if_splits)
  then obtain n where n: "named_to_ox P (lit_datatype l) = Inr n" "x = OxLiteral (lit_value l) (ox_iri n) None"
    using assms(1) by (auto simp: ox_model_ok_def)
  have "ox_iri n = iri (lit_datatype l)"
    using arg_cong [where f = iri, OF named_back [OF assms(1) n(1)]] by (simp add: named_from_ox_def)
  then show ?thesis using n(2) rt round_trips_verbatim [OF assms(2)] by simp
qed

lemma term_stored:
  assumes "ox_model_ok P" "ox_reads_back P back" "term_to_ox P t = Inr x"
  shows "stored_term back x = x"
  using assms(3) literal_stored [OF assms(1,2)] by (cases t) auto

lemma quad_stored:
  assumes "ox_model_ok P" "ox_reads_back P back" "quad_to_ox P q = Inr x"
  shows "stored_quad back x = x"
  using term_stored [OF assms(1,2), of "q_object q" "oq_object x"] assms(3)
  by (cases x) (simp add: quad_to_ox_Inr stored_quad_def)

text \<open>
  C26. A quad that the adapter hands to Oxigraph reads back identical, through the storage
  layer's re-encoding of literals and the conversion back: language tags in their original
  case and literals in their original lexical form.
\<close>

theorem quad_round_trip:
  assumes "ox_model_ok P" "ox_reads_back P back" "quad_to_ox P q = Inr x"
  shows "quad_from_ox P (stored_quad back x) = Inr q"
  using quad_back [OF assms(1,3)] quad_stored [OF assms] by simp

theorem quad_round_trip_witness:
  "\<exists>x. quad_to_ox w_ox (Quad_triple (NbBlank (BlankNode ''b'')) (NamedNode ''ex:p'') (TLiteral (Literal_new_lang ''colour'' ''en-GB''))) = Inr x
     \<and> quad_from_ox w_ox (stored_quad w_back x)
       = Inr (Quad_triple (NbBlank (BlankNode ''b'')) (NamedNode ''ex:p'') (TLiteral (Literal_new_lang ''colour'' ''en-GB'')))"
proof -
  let ?q = "Quad_triple (NbBlank (BlankNode ''b'')) (NamedNode ''ex:p'') (TLiteral (Literal_new_lang ''colour'' ''en-GB''))"
  obtain x where "quad_to_ox w_ox ?q = Inr x" by (simp add: eval_ox)
  with quad_round_trip [OF w_ox_ok w_back_ok this] show ?thesis by blast
qed

end
