(* ===== verification/Strategies.thy ===== *)
theory Strategies
  imports Threads Oxigraph_Convert
begin

text \<open>
  The generators of random quads (\<^verbatim>\<open>semanticore-storage-testkit/src/strategies.rs\<close>). A
  strategy is the list of the values it may produce; \<open>prop_map\<close> maps it, \<open>prop_oneof!\<close>
  appends, and a regular expression is the list of its matches. A vector of generated values
  has no bound that would make a list practical, so \<open>small_quads\<close> is a predicate.

  The last section shows what the module promises of them: a backend that accepts plain
  syntactically valid RDF accepts every generated quad.
\<close>

section \<open>The strategies\<close>

text \<open>The matches of \<open>[cs]{lo,hi}\<close>.\<close>

definition strings_over :: "string \<Rightarrow> nat \<Rightarrow> nat \<Rightarrow> string list" where
  "strings_over cs lo hi = concat (map (\<lambda>n. List.n_lists n cs) [lo..<Suc hi])"

definition small_iri :: "string list" where
  "small_iri = map (\<lambda>s. ''https://example.org/'' @ s) (strings_over ''abc'' 1 2)"

definition small_named :: "NamedNode list" where
  "small_named = map NamedNode small_iri"

definition small_blank :: "BlankNode list" where
  "small_blank = map BlankNode (strings_over ''abc'' 1 2)"

definition small_datatype :: "NamedNode list" where
  "small_datatype = [NamedNode xsd_STRING, NamedNode ''http://www.w3.org/2001/XMLSchema#integer''] @ small_named"

definition typed_literal :: "string \<Rightarrow> NamedNode \<Rightarrow> Literal" where
  "typed_literal value datatype = Literal_new_typed value datatype"

definition lang_literal :: "string \<Rightarrow> string \<Rightarrow> Literal" where
  "lang_literal value language = Literal_new_lang value language"

definition small_literal :: "Literal list" where
  "small_literal =
     map Literal_new_simple (strings_over ''abc '' 0 3)
   @ map (\<lambda>(v, d). typed_literal v d) (List.product (strings_over ''abc '' 0 3) small_datatype)
   @ map (\<lambda>(v, l). lang_literal v l) (List.product (strings_over ''abc '' 0 3) [''en'', ''fr'', ''en-GB''])"

definition small_subject :: "NamedOrBlankNode list" where
  "small_subject = map NbNamed small_named @ map NbBlank small_blank"

definition small_term :: "Term list" where
  "small_term = map TNamed small_named @ map TBlank small_blank @ map TLiteral small_literal"

definition small_graph :: "NamedOrDefault list" where
  "small_graph = [GDefault] @ map GNamed small_named"

definition small_quad :: "Quad list" where
  "small_quad =
     map (\<lambda>(s, p, obj, g). Quad_new s p obj g)
       (List.product small_subject (List.product small_named (List.product small_term small_graph)))"

definition small_quads :: "nat \<Rightarrow> Quad list \<Rightarrow> bool" where
  "small_quads bound qs \<longleftrightarrow> length qs < bound \<and> list_all (\<lambda>q. List.member small_quad q) qs"

definition maybe :: "'a list \<Rightarrow> 'a option list" where
  "maybe inner = [None] @ map Some inner"

text \<open>
  The inputs that \<open>storage_contract_suite!\<close> draws: at most 23 quads for the checks that take
  one vector, at most 15 for \<open>delete_after_insert\<close> and \<open>pattern_from_member\<close>, and at most 11
  for the others. \<open>suite_passes\<close> runs them all on one choice, which these bounds contain.
\<close>

definition suite_inputs :: "Quad list \<Rightarrow> Quad list \<Rightarrow> Quad \<Rightarrow> bool" where
  "suite_inputs base writes extra \<longleftrightarrow> small_quads 24 base \<and> small_quads 12 writes \<and> List.member small_quad extra"

lemmas strategy_defs = small_iri_def small_named_def small_blank_def small_datatype_def typed_literal_def lang_literal_def
  small_literal_def small_subject_def small_term_def small_graph_def

lemma set_strings_over: "set (strings_over cs lo hi) = {s. set s \<subseteq> set cs \<and> lo \<le> length s \<and> length s \<le> hi}"
  by (auto simp: strings_over_def set_n_lists)

section \<open>Every generated quad can be stored\<close>

definition ascii_alnum :: "char set" where
  "ascii_alnum = set ''abcdefghijklmnopqrstuvwxyz0123456789''"

text \<open>
  Syntax that the crate accepts, by the RDF and XML Schema recommendations: plain IRIs and
  labels, two-letter and mixed-case language tags, the IRIs of the two datatypes; and an
  \<open>xsd:integer\<close> has a digit.
\<close>

definition rdf_syntax :: "OxModel \<Rightarrow> bool" where
  "rdf_syntax P \<longleftrightarrow>
     (\<forall>s. s \<noteq> [] \<longrightarrow> set s \<subseteq> ascii_alnum \<longrightarrow> ox_named_new P (''https://example.org/'' @ s) \<noteq> None \<and> ox_blank_new P s \<noteq> None)
   \<and> ox_named_new P xsd_STRING \<noteq> None \<and> ox_named_new P (XSD @ ''integer'') \<noteq> None
   \<and> (\<forall>v. \<forall>tag\<in>set [''en'', ''fr'', ''en-GB'']. ox_lang_valid P v tag)
   \<and> (\<forall>v. xsd_parse P XInteger v \<noteq> None \<longrightarrow> (\<exists>c\<in>set v. c \<in> set ''0123456789''))"

definition representable :: "OxModel \<Rightarrow> Quad \<Rightarrow> bool" where
  "representable P q \<longleftrightarrow> (case quad_to_ox P q of Inl u \<Rightarrow> False | Inr x \<Rightarrow> True)"

lemma map_ok_representable: "(\<exists>x. map_ok f r = Inr x) \<longleftrightarrow> (\<exists>y. r = Inr y)"
  by (cases r) auto

lemma quad_representable:
  assumes "\<exists>x. subject_to_ox P s = Inr x" "\<exists>x. named_to_ox P p = Inr x" "\<exists>x. term_to_ox P obj = Inr x" "\<exists>x. graph_to_ox P g = Inr x"
  shows "representable P (Quad_new s p obj g)"
  using assms by (auto simp: representable_def quad_to_ox_def Quad_new_def)

lemma rdf_syntaxD:
  assumes "rdf_syntax P"
  shows "s \<noteq> [] \<Longrightarrow> set s \<subseteq> ascii_alnum \<Longrightarrow> ox_named_new P (''https://example.org/'' @ s) \<noteq> None \<and> ox_blank_new P s \<noteq> None"
    and "ox_named_new P xsd_STRING \<noteq> None" "ox_named_new P (XSD @ ''integer'') \<noteq> None"
    and "tag \<in> set [''en'', ''fr'', ''en-GB''] \<Longrightarrow> ox_lang_valid P v tag"
    and "xsd_parse P XInteger v \<noteq> None \<Longrightarrow> \<exists>c\<in>set v. c \<in> set ''0123456789''"
  using assms unfolding rdf_syntax_def by blast+

lemma abc_alnum:
  assumes "set s \<subseteq> set ''abc''" "1 \<le> length s"
  shows "s \<noteq> [] \<and> set s \<subseteq> ascii_alnum"
proof -
  have "set ''abc'' \<subseteq> ascii_alnum" by (simp add: ascii_alnum_def)
  with assms show ?thesis by (metis list.size(3) not_one_le_zero order_trans)
qed

lemma syntax_named:
  assumes "rdf_syntax P" "s \<noteq> []" "set s \<subseteq> ascii_alnum"
  shows "\<exists>x. named_to_ox P (contract_iri s) = Inr x"
  using rdf_syntaxD(1) [OF assms] by (auto simp: named_to_ox_def contract_iri_def)

lemma small_named_syntax:
  assumes "rdf_syntax P" "n \<in> set small_named"
  shows "\<exists>x. named_to_ox P n = Inr x"
proof -
  obtain s where n: "n = contract_iri s" and s: "set s \<subseteq> set ''abc''" "1 \<le> length s"
    using assms(2) by (auto simp: small_named_def small_iri_def set_strings_over contract_iri_def)
  show ?thesis unfolding n using syntax_named [OF assms(1)] abc_alnum [OF s] by blast
qed

lemma small_blank_syntax:
  assumes "rdf_syntax P" "b \<in> set small_blank"
  shows "\<exists>x. blank_to_ox P b = Inr x"
proof -
  obtain s where "b = BlankNode s" and s: "set s \<subseteq> set ''abc''" "1 \<le> length s"
    using assms(2) by (auto simp: small_blank_def set_strings_over)
  moreover have "ox_blank_new P s \<noteq> None" using rdf_syntaxD(1) [OF assms(1)] abc_alnum [OF s] by blast
  ultimately show ?thesis by (auto simp: blank_to_ox_def)
qed

lemma untyped_round_trips:
  assumes "\<exists>s. d = contract_iri s"
  shows "round_trips P v (iri d) \<and> iri d \<noteq> RDF_LANG_STRING"
  using assms by (auto simp: round_trips_def contract_iri_def strip_prefix_def XSD_def RDF_LANG_STRING_def)

lemma typed_syntax:
  assumes "rdf_syntax P" "d \<in> set small_datatype" "set v \<subseteq> set ''abc ''"
  shows "\<exists>x. literal_to_ox P (Literal_new_typed v d) = Inr x"
proof -
  have no_digit: "xsd_parse P XInteger v = None"
  proof (rule ccontr)
    assume "xsd_parse P XInteger v \<noteq> None"
    then obtain c where "c \<in> set v" "c \<in> set ''0123456789''" using rdf_syntaxD(5) [OF assms(1)] by blast
    with assms(3) show False by auto
  qed
  consider "d = NamedNode xsd_STRING" | "d = NamedNode (XSD @ ''integer'')" | "d \<in> set small_named"
    using assms(2) by (auto simp: small_datatype_def XSD_def)
  then show ?thesis
  proof cases
    case 3
    then have "\<exists>s. d = contract_iri s" by (auto simp: small_named_def small_iri_def contract_iri_def)
    then show ?thesis using untyped_round_trips small_named_syntax [OF assms(1) 3]
      by (auto simp: literal_to_ox_def Let_def)
  qed (use rdf_syntaxD(2,3) [OF assms(1)] no_digit in \<open>auto simp: literal_to_ox_def Let_def named_to_ox_def round_trips_def
      primitive_type_def derived_type_def unparsable_def strip_prefix_def XSD_def xsd_STRING_def RDF_LANG_STRING_def\<close>)
qed

lemma simple_is_typed: "Literal_new_simple v = Literal_new_typed v (NamedNode xsd_STRING)"
  by (rule Literal_eqI) simp_all

lemma small_literal_syntax:
  assumes "rdf_syntax P" "l \<in> set small_literal"
  shows "\<exists>x. literal_to_ox P l = Inr x"
proof -
  have "NamedNode xsd_STRING \<in> set small_datatype" by (simp add: small_datatype_def)
  moreover have "\<exists>x. literal_to_ox P (Literal_new_lang v tag) = Inr x" if "tag \<in> set [''en'', ''fr'', ''en-GB'']" for v tag
    using rdf_syntaxD(4) [OF assms(1) that] by (simp add: literal_to_ox_def)
  ultimately show ?thesis using assms(2) typed_syntax [OF assms(1)]
    by (auto simp: small_literal_def set_strings_over simple_is_typed typed_literal_def lang_literal_def)
qed

lemma small_quad_representable:
  assumes "rdf_syntax P" "q \<in> set small_quad"
  shows "representable P q"
proof -
  obtain s p obj g where q: "q = Quad_new s p obj g" and parts: "s \<in> set small_subject" "p \<in> set small_named"
    "obj \<in> set small_term" "g \<in> set small_graph" using assms(2) by (auto simp: small_quad_def)
  note small = small_named_syntax [OF assms(1)] small_blank_syntax [OF assms(1)] small_literal_syntax [OF assms(1)]
  have "\<exists>x. subject_to_ox P s = Inr x" using parts(1) small by (auto simp: small_subject_def map_ok_representable)
  moreover have "\<exists>x. term_to_ox P obj = Inr x" using parts(3) small by (auto simp: small_term_def map_ok_representable)
  moreover have "\<exists>x. graph_to_ox P g = Inr x" using parts(4) small by (auto simp: small_graph_def map_ok_representable)
  ultimately show ?thesis using quad_representable small(1) [OF parts(2)] unfolding q by blast
qed

text \<open>The quads that the checks write on their own are plain as well.\<close>

lemma plain_quad_representable:
  assumes "rdf_syntax P" "\<forall>n\<in>set [s, p, obj] \<union> set_option g. n \<noteq> [] \<and> set n \<subseteq> ascii_alnum"
  shows "representable P (Quad_new (NbNamed (contract_iri s)) (contract_iri p) (TNamed (contract_iri obj))
    (case g of None \<Rightarrow> GDefault | Some n \<Rightarrow> GNamed (contract_iri n)))"
  by (rule quad_representable) (use assms syntax_named in \<open>auto simp: map_ok_representable split: option.split\<close>)

lemma suite_quads_representable:
  assumes "rdf_syntax P" "q \<in> set suite_quads"
  shows "representable P q"
proof -
  note plain = plain_quad_representable [OF assms(1), of _ "''p''" "''o''"]
  show ?thesis
    using assms(2) plain [of "''s''" None] plain [of "''s''" "Some ''g1''"] plain [of "''s''" "Some ''g2''"]
      plain [of "''a''" None] plain [of "''b''" None] plain [of "''c''" None]
    by (auto simp: suite_quads_def example_quad_def rollback_quad_def Quad_triple_def ascii_alnum_def)
qed

lemma thread_quad_representable:
  assumes "rdf_syntax P" "i < 8"
  shows "representable P (thread_quad i)"
proof -
  have "i = 0 \<or> i = 1 \<or> i = 2 \<or> i = 3 \<or> i = 4 \<or> i = 5 \<or> i = 6 \<or> i = 7" using assms(2) by linarith
  then have "set (show_nat i) \<subseteq> ascii_alnum"
    by (elim disjE) (simp_all add: show_nat.simps digit_char_def ascii_alnum_def char_of_def bit_Suc_0_iff)
  moreover have "CHR ''s'' \<in> ascii_alnum" "CHR ''p'' \<in> ascii_alnum" "CHR ''o'' \<in> ascii_alnum" by (simp_all add: ascii_alnum_def)
  ultimately show ?thesis
    using plain_quad_representable [OF assms(1), of "''s'' @ show_nat i" "''p''" "''o''" None]
    by (simp add: thread_quad_def Quad_triple_def)
qed

end
