(* ===== verification/Oxigraph_Store.thy ===== *)
theory Oxigraph_Store
  imports Oxigraph_Convert
begin

text \<open>
  The Oxigraph adapter (\<^verbatim>\<open>semanticore-store-oxigraph/src/lib.rs\<close>): \<open>OxigraphStore\<close> and
  \<open>OxigraphTransaction\<close>, an implementation of the storage traits on top of the crate's
  \<open>Store\<close> and \<open>Transaction\<close>.

  The crate's methods are parameters, the record \<open>OxStore\<close> over a type \<open>'s\<close> of stores and a
  type \<open>'t\<close> of transactions. \<open>ox_behaves\<close> states their documented behaviour, relative to the
  content of a store and the quads a transaction sees: insertion adds the quad as the storage
  layer encodes it, iterators yield the matching quads, the names of graphs outlive their
  quads, a commit applies all writes or none. The theorem is that the adapter then satisfies
  the storage contract; its content is the set of core quads whose conversions are stored.
\<close>

section \<open>The crate's store\<close>

record ('s, 't) OxStore =
  ox_new :: "OxError + 's"
  ox_open :: "string \<Rightarrow> OxError + 's"
  ox_open_read_only :: "string \<Rightarrow> OxError + 's"
  ox_start_transaction :: "'s \<Rightarrow> OxError + 't"
  ox_len :: "'s \<Rightarrow> OxError + nat"
  ox_named_graphs :: "'s \<Rightarrow> (OxError + OxSubject) list"
  ox_contains :: "'s \<Rightarrow> OxQuad \<Rightarrow> OxError + bool"
  ox_quads_for_pattern :: "'s \<Rightarrow> OxSubject option \<Rightarrow> OxNamedNode option \<Rightarrow> OxTerm option \<Rightarrow>
      OxGraphName option \<Rightarrow> (OxError + OxQuad) list"
  oxt_contains :: "'t \<Rightarrow> OxQuad \<Rightarrow> OxError + bool"
  oxt_quads_for_pattern :: "'t \<Rightarrow> OxSubject option \<Rightarrow> OxNamedNode option \<Rightarrow> OxTerm option \<Rightarrow>
      OxGraphName option \<Rightarrow> (OxError + OxQuad) list"
  oxt_insert :: "OxQuad \<Rightarrow> 't \<Rightarrow> 't"
  oxt_remove :: "OxQuad \<Rightarrow> 't \<Rightarrow> 't"
  oxt_commit :: "'t \<Rightarrow> 's \<Rightarrow> (OxError + unit) \<times> 's"

section \<open>The adapter\<close>

fun AdapterError_display :: "AdapterError \<Rightarrow> string" where
  "AdapterError_display ReadOnlyTransaction = ''transaction is read-only''"
| "AdapterError_display ReadOnlyStore = ''store was opened read-only''"

definition StorageError_from_adapter :: "AdapterError \<Rightarrow> StorageError" where
  "StorageError_from_adapter e = Backend (BoxAdapter e)"

datatype Kind = InMemory | OnDisk | OnDiskReadOnly

record 's OxigraphStore =
  og_inner :: 's
  og_kind :: Kind

text \<open>\<open>Latest\<close> borrows the store, which every method of a transaction receives.\<close>

datatype 't TxInner = TxWrite 't | TxSnapshot 't | TxLatest

definition OxigraphStore_in_memory :: "('s, 't) OxStore \<Rightarrow> StorageError + 's OxigraphStore" where
  "OxigraphStore_in_memory X =
     (case map_err map_ox_err (ox_new X) of Inl e \<Rightarrow> Inl e
      | Inr i \<Rightarrow> Inr \<lparr>og_inner = i, og_kind = InMemory\<rparr>)"

definition OxigraphStore_open :: "('s, 't) OxStore \<Rightarrow> string \<Rightarrow> StorageError + 's OxigraphStore" where
  "OxigraphStore_open X path =
     (case map_err map_ox_err (ox_open X path) of Inl e \<Rightarrow> Inl e
      | Inr i \<Rightarrow> Inr \<lparr>og_inner = i, og_kind = OnDisk\<rparr>)"

definition OxigraphStore_open_read_only :: "('s, 't) OxStore \<Rightarrow> string \<Rightarrow> StorageError + 's OxigraphStore" where
  "OxigraphStore_open_read_only X path =
     (case map_err map_ox_err (ox_open_read_only X path) of Inl e \<Rightarrow> Inl e
      | Inr i \<Rightarrow> Inr \<lparr>og_inner = i, og_kind = OnDiskReadOnly\<rparr>)"

definition OxigraphStore_begin_read :: "('s, 't) OxStore \<Rightarrow> 's OxigraphStore \<Rightarrow> StorageError + 't TxInner" where
  "OxigraphStore_begin_read X st =
     (case og_kind st of
        OnDisk \<Rightarrow>
          (case map_err map_ox_err (ox_start_transaction X (og_inner st)) of Inl e \<Rightarrow> Inl e
           | Inr t \<Rightarrow> Inr (TxSnapshot t))
      | InMemory \<Rightarrow> Inr TxLatest
      | OnDiskReadOnly \<Rightarrow> Inr TxLatest)"

definition OxigraphStore_begin_write :: "('s, 't) OxStore \<Rightarrow> 's OxigraphStore \<Rightarrow> StorageError + 't TxInner" where
  "OxigraphStore_begin_write X st =
     (if og_kind st = OnDiskReadOnly then Inl (StorageError_from_adapter ReadOnlyStore)
      else (case map_err map_ox_err (ox_start_transaction X (og_inner st)) of Inl e \<Rightarrow> Inl e
            | Inr t \<Rightarrow> Inr (TxWrite t)))"

definition OxigraphStore_quad_count :: "('s, 't) OxStore \<Rightarrow> 's OxigraphStore \<Rightarrow> StorageError + nat" where
  "OxigraphStore_quad_count X st = map_err map_ox_err (ox_len X (og_inner st))"

text \<open>The loop of \<open>named_graphs\<close>, with the accumulated vector.\<close>

fun listed_graphs :: "('s, 't) OxStore \<Rightarrow> 's \<Rightarrow> (OxError + OxSubject) list \<Rightarrow> NamedNode list \<Rightarrow>
    StorageError + NamedNode list" where
  "listed_graphs X i [] graphs = Inr graphs"
| "listed_graphs X i (Inl e # rest) graphs = Inl (map_ox_err e)"
| "listed_graphs X i (Inr (OxSBlank b) # rest) graphs = Inl (StorageError_from (BlankGraphName (ox_label b)))"
| "listed_graphs X i (Inr (OxSNamed g) # rest) graphs =
     (case ox_quads_for_pattern X i None None None (Some (OxGNamed g)) of
        [] \<Rightarrow> listed_graphs X i rest graphs
      | Inl e # _ \<Rightarrow> Inl (map_ox_err e)
      | Inr _ # _ \<Rightarrow> listed_graphs X i rest (graphs @ [named_from_ox g]))"

definition OxigraphStore_named_graphs ::
    "('s, 't) OxStore \<Rightarrow> 's OxigraphStore \<Rightarrow> StorageError + NamedNode list" where
  "OxigraphStore_named_graphs X st = listed_graphs X (og_inner st) (ox_named_graphs X (og_inner st)) []"

definition OxigraphStore_capabilities :: "'s OxigraphStore \<Rightarrow> StorageCapabilities" where
  "OxigraphStore_capabilities st =
     (case og_kind st of
        InMemory \<Rightarrow>
          \<lparr>persistent = False, concurrent_writes = True, bulk_load = False, sparql_endpoint = True,
           approximate_quad_count = False, isolation = ReadCommitted\<rparr>
      | OnDisk \<Rightarrow>
          \<lparr>persistent = True, concurrent_writes = True, bulk_load = True, sparql_endpoint = True,
           approximate_quad_count = False, isolation = SnapshotIsolation\<rparr>
      | OnDiskReadOnly \<Rightarrow>
          \<lparr>persistent = True, concurrent_writes = False, bulk_load = False, sparql_endpoint = True,
           approximate_quad_count = False, isolation = SnapshotIsolation\<rparr>)"

fun TxInner_writer :: "'t TxInner \<Rightarrow> StorageError + 't" where
  "TxInner_writer (TxWrite t) = Inr t"
| "TxInner_writer (TxSnapshot t) = Inl (StorageError_from_adapter ReadOnlyTransaction)"
| "TxInner_writer TxLatest = Inl (StorageError_from_adapter ReadOnlyTransaction)"

fun contains_ox :: "('s, 't) OxStore \<Rightarrow> 's OxigraphStore \<Rightarrow> 't TxInner \<Rightarrow> OxQuad \<Rightarrow> StorageError + bool" where
  "contains_ox X st (TxWrite t) x = map_err map_ox_err (oxt_contains X t x)"
| "contains_ox X st (TxSnapshot t) x = map_err map_ox_err (oxt_contains X t x)"
| "contains_ox X st TxLatest x = map_err map_ox_err (ox_contains X (og_inner st) x)"

definition OxigraphTransaction_insert :: "OxModel \<Rightarrow> ('s, 't) OxStore \<Rightarrow> 's OxigraphStore \<Rightarrow> Quad \<Rightarrow> 't TxInner \<Rightarrow>
    (StorageError + bool) \<times> 't TxInner" where
  "OxigraphTransaction_insert P X st q tx =
     (case TxInner_writer tx of Inl e \<Rightarrow> (Inl e, tx)
      | Inr t \<Rightarrow>
         (case quad_to_ox P q of Inl u \<Rightarrow> (Inl (StorageError_from u), tx)
          | Inr x \<Rightarrow>
             (case contains_ox X st tx x of Inl e \<Rightarrow> (Inl e, tx)
              | Inr present \<Rightarrow> if present then (Inr False, tx) else (Inr True, TxWrite (oxt_insert X x t)))))"

definition OxigraphTransaction_remove :: "OxModel \<Rightarrow> ('s, 't) OxStore \<Rightarrow> 's OxigraphStore \<Rightarrow> Quad \<Rightarrow> 't TxInner \<Rightarrow>
    (StorageError + bool) \<times> 't TxInner" where
  "OxigraphTransaction_remove P X st q tx =
     (case TxInner_writer tx of Inl e \<Rightarrow> (Inl e, tx)
      | Inr t \<Rightarrow>
         (case quad_to_ox P q of Inl u \<Rightarrow> (Inr False, tx)
          | Inr x \<Rightarrow>
             (case contains_ox X st tx x of Inl e \<Rightarrow> (Inl e, tx)
              | Inr present \<Rightarrow> if \<not> present then (Inr False, tx) else (Inr True, TxWrite (oxt_remove X x t)))))"

definition OxigraphTransaction_contains :: "OxModel \<Rightarrow> ('s, 't) OxStore \<Rightarrow> 's OxigraphStore \<Rightarrow> 't TxInner \<Rightarrow> Quad \<Rightarrow>
    StorageError + bool" where
  "OxigraphTransaction_contains P X st tx q =
     (case quad_to_ox P q of Inr x \<Rightarrow> contains_ox X st tx x | Inl _ \<Rightarrow> Inr False)"

text \<open>\<open>Option::map\<close> followed by \<open>transpose\<close>.\<close>

definition bound_to_ox :: "('a \<Rightarrow> Unrepresentable + 'b) \<Rightarrow> 'a option \<Rightarrow> Unrepresentable + 'b option" where
  "bound_to_ox f pat = (case pat of None \<Rightarrow> Inr None | Some a \<Rightarrow> map_ok Some (f a))"

fun iter_ox :: "('s, 't) OxStore \<Rightarrow> 's OxigraphStore \<Rightarrow> 't TxInner \<Rightarrow> OxSubject option \<Rightarrow> OxNamedNode option \<Rightarrow>
    OxTerm option \<Rightarrow> OxGraphName option \<Rightarrow> (OxError + OxQuad) list" where
  "iter_ox X st (TxWrite t) s p obj g = oxt_quads_for_pattern X t s p obj g"
| "iter_ox X st (TxSnapshot t) s p obj g = oxt_quads_for_pattern X t s p obj g"
| "iter_ox X st TxLatest s p obj g = ox_quads_for_pattern X (og_inner st) s p obj g"

definition read_item :: "OxModel \<Rightarrow> OxError + OxQuad \<Rightarrow> StorageError + Quad" where
  "read_item P r = (case map_err map_ox_err r of Inl e \<Rightarrow> Inl e | Inr x \<Rightarrow> quad_from_ox P x)"

definition OxigraphTransaction_quads_for_pattern :: "OxModel \<Rightarrow> ('s, 't) OxStore \<Rightarrow> 's OxigraphStore \<Rightarrow> 't TxInner \<Rightarrow>
    NamedOrBlankNode option \<Rightarrow> NamedNode option \<Rightarrow> Term option \<Rightarrow> NamedOrDefault option \<Rightarrow> (StorageError + Quad) list" where
  "OxigraphTransaction_quads_for_pattern P X st tx s p obj g =
     (case (bound_to_ox (subject_to_ox P) s, bound_to_ox (named_to_ox P) p,
            bound_to_ox (term_to_ox P) obj, bound_to_ox (graph_to_ox P) g) of
        (Inr s', Inr p', Inr obj', Inr g') \<Rightarrow> map (read_item P) (iter_ox X st tx s' p' obj' g')
      | _ \<Rightarrow> [])"

fun OxigraphTransaction_commit :: "('s, 't) OxStore \<Rightarrow> 't TxInner \<Rightarrow> 's OxigraphStore \<Rightarrow>
    (StorageError + unit) \<times> 's OxigraphStore" where
  "OxigraphTransaction_commit X (TxWrite t) st =
     (case oxt_commit X t (og_inner st) of (r, i) \<Rightarrow> (map_err map_ox_err r, st\<lparr>og_inner := i\<rparr>))"
| "OxigraphTransaction_commit X (TxSnapshot t) st = (Inr (), st)"
| "OxigraphTransaction_commit X TxLatest st = (Inr (), st)"

definition OxigraphTransaction_rollback :: "'t TxInner \<Rightarrow> 's OxigraphStore \<Rightarrow> (StorageError + unit) \<times> 's OxigraphStore" where
  "OxigraphTransaction_rollback tx st = (Inr (), st)"

definition OxigraphStore_storage :: "OxModel \<Rightarrow> ('s, 't) OxStore \<Rightarrow> ('s OxigraphStore, 't TxInner) Storage" where
  "OxigraphStore_storage P X =
     \<lparr>begin_read = OxigraphStore_begin_read X, begin_write = OxigraphStore_begin_write X,
      quad_count = OxigraphStore_quad_count X, named_graphs = OxigraphStore_named_graphs X,
      capabilities = OxigraphStore_capabilities,
      tx_insert = OxigraphTransaction_insert P X, tx_remove = OxigraphTransaction_remove P X,
      tx_contains = OxigraphTransaction_contains P X,
      tx_quads_for_pattern = OxigraphTransaction_quads_for_pattern P X,
      tx_commit = OxigraphTransaction_commit X, tx_rollback = OxigraphTransaction_rollback\<rparr>"

section \<open>Documented behaviour of the crate\<close>

definition ox_matches :: "OxQuad \<Rightarrow> OxSubject option \<Rightarrow> OxNamedNode option \<Rightarrow> OxTerm option \<Rightarrow> OxGraphName option \<Rightarrow> bool" where
  "ox_matches x s p obj g \<longleftrightarrow>
     is_none_or s (oq_subject x) \<and> is_none_or p (oq_predicate x) \<and> is_none_or obj (oq_object x) \<and> is_none_or g (oq_graph x)"

text \<open>
  An iterator over the quads \<open>C\<close> that match: what it yields is there and matches, and if it
  reports no error it yields every such quad, once.
\<close>

definition iterates :: "OxQuad set \<Rightarrow> (OxQuad \<Rightarrow> bool) \<Rightarrow> (OxError + OxQuad) list \<Rightarrow> bool" where
  "iterates C f rs \<longleftrightarrow>
     (\<forall>x. Inr x \<in> set rs \<longrightarrow> x \<in> C \<and> f x)
   \<and> (\<forall>xs. rs = map Inr xs \<longrightarrow> distinct xs \<and> set xs = {x \<in> C. f x})"

text \<open>\<open>contains\<close> and \<open>quads_for_pattern\<close> over the quads \<open>C\<close>.\<close>

definition reads :: "(string \<Rightarrow> string \<Rightarrow> string \<times> string) \<Rightarrow> OxQuad set \<Rightarrow> (OxQuad \<Rightarrow> OxError + bool) \<Rightarrow>
    (OxSubject option \<Rightarrow> OxNamedNode option \<Rightarrow> OxTerm option \<Rightarrow> OxGraphName option \<Rightarrow> (OxError + OxQuad) list) \<Rightarrow> bool" where
  "reads back C has iter \<longleftrightarrow>
     (\<forall>x b. has x = Inr b \<longrightarrow> b = (stored_quad back x \<in> C))
   \<and> (\<forall>s p obj g. iterates C (\<lambda>x. ox_matches x s p (map_option (stored_term back) obj) g) (iter s p obj g))"

text \<open>
  \<open>content s\<close> are the quads of a store, \<open>seen t\<close> those a transaction sees, and \<open>live s t\<close> that
  \<open>t\<close> was started on the store as it is in \<open>s\<close>.
\<close>

definition ox_behaves :: "(string \<Rightarrow> string \<Rightarrow> string \<times> string) \<Rightarrow> ('s, 't) OxStore \<Rightarrow> ('s \<Rightarrow> OxQuad set) \<Rightarrow> ('t \<Rightarrow> OxQuad set) \<Rightarrow>
    ('s \<Rightarrow> 't \<Rightarrow> bool) \<Rightarrow> bool" where
  "ox_behaves back X content seen live \<longleftrightarrow>
     (\<forall>s. reads back (content s) (ox_contains X s) (ox_quads_for_pattern X s))
   \<and> (\<forall>t. reads back (seen t) (oxt_contains X t) (oxt_quads_for_pattern X t))
   \<and> (\<forall>s n. ox_len X s = Inr n \<longrightarrow> n = card (content s))
   \<and> (\<forall>s gs. ox_named_graphs X s = map Inr gs \<longrightarrow>
        distinct gs \<and> (\<forall>x\<in>content s. \<forall>g. oq_graph x = OxGNamed g \<longrightarrow> OxSNamed g \<in> set gs))
   \<and> (\<forall>s t. ox_start_transaction X s = Inr t \<longrightarrow> live s t \<and> seen t = content s)
   \<and> (\<forall>s t x. live s t \<longrightarrow> live s (oxt_insert X x t) \<and> seen (oxt_insert X x t) = insert (stored_quad back x) (seen t))
   \<and> (\<forall>s t x. live s t \<longrightarrow> live s (oxt_remove X x t) \<and> seen (oxt_remove X x t) = seen t - {stored_quad back x})
   \<and> (\<forall>s t r s'. live s t \<longrightarrow> oxt_commit X t s = (r, s') \<longrightarrow>
        content s' = (case r of Inr _ \<Rightarrow> seen t | Inl _ \<Rightarrow> content s))"

lemma ox_behavesD:
  assumes "ox_behaves back X content seen live"
  shows "reads back (content s) (ox_contains X s) (ox_quads_for_pattern X s)"
    and "reads back (seen t) (oxt_contains X t) (oxt_quads_for_pattern X t)"
    and "ox_len X s = Inr n \<Longrightarrow> n = card (content s)"
    and "ox_named_graphs X s = map Inr gs \<Longrightarrow>
      distinct gs \<and> (\<forall>x\<in>content s. \<forall>g. oq_graph x = OxGNamed g \<longrightarrow> OxSNamed g \<in> set gs)"
    and "ox_start_transaction X s = Inr t \<Longrightarrow> live s t \<and> seen t = content s"
    and "live s t \<Longrightarrow> live s (oxt_insert X x t) \<and> seen (oxt_insert X x t) = insert (stored_quad back x) (seen t)"
    and "live s t \<Longrightarrow> live s (oxt_remove X x t) \<and> seen (oxt_remove X x t) = seen t - {stored_quad back x}"
    and "live s t \<Longrightarrow> oxt_commit X t s = (r, s') \<Longrightarrow> content s' = (case r of Inr _ \<Rightarrow> seen t | Inl _ \<Rightarrow> content s)"
  using assms unfolding ox_behaves_def by simp_all

section \<open>What the adapter guarantees\<close>

text \<open>The core quads that a set of Oxigraph quads stands for, and sets that only the adapter has written.\<close>

definition core_quads :: "OxModel \<Rightarrow> OxQuad set \<Rightarrow> Quad set" where
  "core_quads P C = {q. \<exists>x\<in>C. quad_to_ox P q = Inr x}"

definition written :: "OxModel \<Rightarrow> OxQuad set \<Rightarrow> bool" where
  "written P C \<longleftrightarrow> finite C \<and> (\<forall>x\<in>C. \<exists>q. quad_to_ox P q = Inr x)"

fun ox_writable :: "'t TxInner \<Rightarrow> bool" where
  "ox_writable (TxWrite t) = True"
| "ox_writable _ = False"

fun tx_content :: "('s \<Rightarrow> OxQuad set) \<Rightarrow> ('t \<Rightarrow> OxQuad set) \<Rightarrow> 's OxigraphStore \<Rightarrow> 't TxInner \<Rightarrow> OxQuad set" where
  "tx_content content seen st (TxWrite t) = seen t"
| "tx_content content seen st (TxSnapshot t) = seen t"
| "tx_content content seen st TxLatest = content (og_inner st)"

fun ox_live :: "('s \<Rightarrow> 't \<Rightarrow> bool) \<Rightarrow> 's OxigraphStore \<Rightarrow> 't TxInner \<Rightarrow> bool" where
  "ox_live live st (TxWrite t) = live (og_inner st) t"
| "ox_live live st (TxSnapshot t) = live (og_inner st) t"
| "ox_live live st TxLatest = True"

lemma quad_to_ox_inj: "ox_model_ok P \<Longrightarrow> quad_to_ox P q = Inr x \<Longrightarrow> quad_to_ox P q' = Inr x \<Longrightarrow> q = q'"
  by (metis quad_back Inr_inject)

lemma core_quads_bij:
  assumes "ox_model_ok P" "written P C"
  shows "finite (core_quads P C) \<and> card (core_quads P C) = card C"
proof -
  have "bij_betw (\<lambda>q. projr (quad_to_ox P q)) (core_quads P C) C"
  proof (rule bij_betwI')
    fix q q' assume "q \<in> core_quads P C" "q' \<in> core_quads P C"
    then show "(projr (quad_to_ox P q) = projr (quad_to_ox P q')) = (q = q')"
      using quad_to_ox_inj [OF assms(1)] by (auto simp: core_quads_def)
  next
    fix q assume "q \<in> core_quads P C"
    then show "projr (quad_to_ox P q) \<in> C" by (auto simp: core_quads_def)
  next
    fix x assume "x \<in> C"
    then show "\<exists>q\<in>core_quads P C. x = projr (quad_to_ox P q)"
      using assms(2) by (auto simp: core_quads_def written_def) force
  qed
  then show ?thesis using assms(2) by (auto simp: written_def bij_betw_finite bij_betw_same_card)
qed

lemma core_quads_insert:
  assumes "ox_model_ok P" "quad_to_ox P q = Inr x"
  shows "core_quads P (insert x C) = insert q (core_quads P C)"
proof -
  have "quad_to_ox P q' = Inr x \<longleftrightarrow> q' = q" for q' using quad_to_ox_inj [OF assms(1)] assms(2) by blast
  then show ?thesis unfolding core_quads_def by blast
qed

lemma core_quads_remove:
  assumes "ox_model_ok P" "quad_to_ox P q = Inr x"
  shows "core_quads P (C - {x}) = core_quads P C - {q}"
proof -
  have "quad_to_ox P q' = Inr x \<longleftrightarrow> q' = q" for q' using quad_to_ox_inj [OF assms(1)] assms(2) by blast
  then show ?thesis unfolding core_quads_def using assms(2) by force
qed

lemma written_insert: "written P C \<Longrightarrow> quad_to_ox P q = Inr x \<Longrightarrow> written P (insert x C)"
  by (auto simp: written_def)

lemma written_remove: "written P C \<Longrightarrow> written P (C - {x})"
  by (auto simp: written_def)

text \<open>Patterns: a bound term matches a quad if its conversion matches the conversion of the quad.\<close>

lemma bound_matches:
  assumes inj: "\<And>a b y. f a = Inr y \<Longrightarrow> f b = Inr y \<Longrightarrow> a = b"
    and "bound_to_ox f pat = Inr pat'" "f v = Inr y"
  shows "is_none_or pat' y \<longleftrightarrow> is_none_or pat v"
proof (cases pat)
  case (Some a)
  with assms(2) obtain b where "f a = Inr b" "pat' = Some b" by (auto simp: bound_to_ox_def)
  with Some assms(3) inj [of a b v] show ?thesis by auto
qed (use assms(2) in \<open>auto simp: bound_to_ox_def\<close>)

lemma bound_stored:
  assumes "ox_model_ok P" "ox_reads_back P back" "bound_to_ox (term_to_ox P) pat = Inr pat'"
  shows "map_option (stored_term back) pat' = pat'"
  using assms(3) term_stored [OF assms(1,2)] by (cases pat) (auto simp: bound_to_ox_def)

lemma ox_matches_core:
  assumes "ox_model_ok P" "quad_to_ox P q = Inr x"
    and "bound_to_ox (subject_to_ox P) s = Inr s'" "bound_to_ox (named_to_ox P) p = Inr p'"
    and "bound_to_ox (term_to_ox P) obj = Inr obj'" "bound_to_ox (graph_to_ox P) g = Inr g'"
  shows "ox_matches x s' p' obj' g' \<longleftrightarrow> matches_pattern q s p obj g"
proof -
  note parts = assms(2) [unfolded quad_to_ox_Inr]
  have "is_none_or s' (oq_subject x) \<longleftrightarrow> is_none_or s (q_subject q)"
    by (rule bound_matches [OF _ assms(3)]) (use parts subject_back [OF assms(1)] in auto)
  moreover have "is_none_or p' (oq_predicate x) \<longleftrightarrow> is_none_or p (q_predicate q)"
    by (rule bound_matches [OF _ assms(4)]) (use parts named_back [OF assms(1)] in auto)
  moreover have "is_none_or obj' (oq_object x) \<longleftrightarrow> is_none_or obj (q_object q)"
    by (rule bound_matches [OF _ assms(5)]) (metis term_back [OF assms(1)] Inr_inject, use parts in blast)
  moreover have "is_none_or g' (oq_graph x) \<longleftrightarrow> is_none_or g (q_graph q)"
    by (rule bound_matches [OF _ assms(6)]) (metis graph_back [OF assms(1)] Inr_inject, use parts in blast)
  ultimately show ?thesis by (simp add: ox_matches_def matches_pattern_def)
qed

lemma unbound_matches:
  assumes "bound_to_ox f pat = Inl e" "f v = Inr y"
  shows "\<not> is_none_or pat v"
  using assms by (cases pat) (auto simp: bound_to_ox_def map_ok_def split: sum.splits)

lemma read_item_Inr: "read_item P r = Inr q \<longleftrightarrow> (\<exists>x. r = Inr x \<and> quad_from_ox P x = Inr q)"
  by (cases r) (auto simp: read_item_def)

lemma read_items:
  assumes "ox_model_ok P" "written P C" "iterates C f rs" "map (read_item P) rs = map Inr qs"
  shows "distinct qs \<and> set qs = {q. \<exists>x\<in>C. f x \<and> quad_to_ox P q = Inr x}"
proof -
  have "\<exists>xs. rs = map Inr xs \<and> map (quad_from_ox P) xs = map Inr qs"
    using assms(4)
  proof (induction rs arbitrary: qs)
    case (Cons r rs)
    then obtain q qs' where q: "qs = q # qs'" "read_item P r = Inr q" "map (read_item P) rs = map Inr qs'"
      by (cases qs) auto
    from Cons.IH [OF q(3)] q(1,2) show ?case by (auto simp: read_item_Inr intro: exI [of _ "_ # _"])
  qed simp
  then obtain xs where xs: "rs = map Inr xs" "map (quad_from_ox P) xs = map Inr qs" by blast
  with assms(3) have d: "distinct xs" "set xs = {x \<in> C. f x}" unfolding iterates_def by blast+
  have len: "length xs = length qs" using xs(2) by (metis length_map)
  have at: "quad_from_ox P (xs ! i) = Inr (qs ! i)" if "i < length qs" for i
    using arg_cong [OF xs(2), of "\<lambda>l. l ! i"] that len by simp
  have to: "quad_to_ox P (qs ! i) = Inr (xs ! i)" if "i < length qs" for i
  proof -
    have "xs ! i \<in> set xs" using that len by simp
    then have "xs ! i \<in> C" unfolding d(2) by blast
    then obtain q where "quad_to_ox P q = Inr (xs ! i)" using assms(2) by (auto simp: written_def)
    with quad_back [OF assms(1) this] at [OF that] show ?thesis by simp
  qed
  have "distinct qs"
    unfolding distinct_conv_nth using to d(1) len by (metis Inr_inject nth_eq_iff_index_eq)
  moreover have "set qs = {q. \<exists>x\<in>set xs. quad_to_ox P q = Inr x}"
  proof (intro set_eqI iffI)
    fix q assume "q \<in> set qs"
    then show "q \<in> {q. \<exists>x\<in>set xs. quad_to_ox P q = Inr x}" using to len by (auto simp: in_set_conv_nth)
  next
    fix q assume "q \<in> {q. \<exists>x\<in>set xs. quad_to_ox P q = Inr x}"
    then obtain i where "i < length xs" "quad_to_ox P q = Inr (xs ! i)" by (auto simp: in_set_conv_nth)
    with to [of i] len quad_to_ox_inj [OF assms(1)] show "q \<in> set qs" by (metis nth_mem)
  qed
  ultimately show ?thesis using d(2) by auto
qed

text \<open>The loop of \<open>named_graphs\<close> lists the names that still have a quad.\<close>

lemma listed_graphs_Inr:
  assumes "\<And>g. iterates C (\<lambda>x. ox_matches x None None None (Some g)) (ox_quads_for_pattern X i None None None (Some g))"
    and "listed_graphs X i rs acc = Inr gs"
  shows "\<exists>ns. rs = map (Inr \<circ> OxSNamed) ns
    \<and> gs = acc @ map named_from_ox (filter (\<lambda>g. \<exists>x\<in>C. oq_graph x = OxGNamed g) ns)"
  using assms(2)
proof (induction rs arbitrary: acc)
  case Nil
  then show ?case by simp
next
  case (Cons r rest)
  from Cons.prems obtain g where r: "r = Inr (OxSNamed g)"
  proof (cases r)
    case (Inr b)
    then show ?thesis using that Cons.prems by (cases b) auto
  qed auto
  let ?it = "ox_quads_for_pattern X i None None None (Some (OxGNamed g))"
  have it: "iterates C (\<lambda>x. oq_graph x = OxGNamed g) ?it" using assms(1) [of "OxGNamed g"] by (simp add: ox_matches_def)
  show ?case
  proof (cases ?it)
    case Nil
    with it have none: "\<not> (\<exists>x\<in>C. oq_graph x = OxGNamed g)" by (auto simp: iterates_def)
    obtain ns where "rest = map (Inr \<circ> OxSNamed) ns"
      "gs = acc @ map named_from_ox (filter (\<lambda>g. \<exists>x\<in>C. oq_graph x = OxGNamed g) ns)"
      using Cons.IH [of acc] Cons.prems r Nil by (simp only: listed_graphs.simps list.case) blast
    then show ?thesis using r none by (intro exI [of _ "g # ns"]) simp
  next
    case (Cons y ys)
    with Cons.prems r obtain x where x: "y = Inr x" by (cases y) auto
    with it Cons have some: "\<exists>x\<in>C. oq_graph x = OxGNamed g" by (auto simp: iterates_def)
    obtain ns where "rest = map (Inr \<circ> OxSNamed) ns"
      "gs = (acc @ [named_from_ox g]) @ map named_from_ox (filter (\<lambda>g. \<exists>x\<in>C. oq_graph x = OxGNamed g) ns)"
      using Cons.IH [of "acc @ [named_from_ox g]"] Cons.prems r Cons x by (simp only: listed_graphs.simps list.case sum.case) blast
    then show ?thesis using r some by (intro exI [of _ "g # ns"]) simp
  qed
qed

lemma graphs_of_core:
  assumes "ox_model_ok P" "written P C"
  shows "graphs_of (core_quads P C) = named_from_ox ` {n. \<exists>x\<in>C. oq_graph x = OxGNamed n}"
proof (intro set_eqI iffI)
  fix g assume "g \<in> graphs_of (core_quads P C)"
  then obtain q x where x: "x \<in> C" "quad_to_ox P q = Inr x" "q_graph q = GNamed g"
    by (auto simp: graphs_of_def core_quads_def)
  then obtain n where n: "named_to_ox P g = Inr n" "oq_graph x = OxGNamed n" by (auto simp: quad_to_ox_Inr)
  with named_back [OF assms(1) n(1)] x(1)
  show "g \<in> named_from_ox ` {n. \<exists>x\<in>C. oq_graph x = OxGNamed n}" by blast
next
  fix g assume "g \<in> named_from_ox ` {n. \<exists>x\<in>C. oq_graph x = OxGNamed n}"
  then obtain n x where x: "x \<in> C" "oq_graph x = OxGNamed n" "g = named_from_ox n" by auto
  then obtain q where q: "quad_to_ox P q = Inr x" using assms(2) by (auto simp: written_def)
  then have "q_graph q = GNamed g"
    using graph_back [OF assms(1), of "q_graph q" "oq_graph x"] x(2,3) by (simp add: quad_to_ox_Inr)
  then show "g \<in> graphs_of (core_quads P C)" using x(1) q by (auto simp: graphs_of_def core_quads_def)
qed

lemma named_from_ox_inj: "inj named_from_ox"
  by (auto simp: inj_def named_from_ox_def OxNamedNode.expand)

lemma named_graphs_contract:
  assumes "ox_model_ok P" "ox_behaves back X content seen live" "written P (content (og_inner st))"
    and "OxigraphStore_named_graphs X st = Inr gs"
  shows "distinct gs \<and> set gs = graphs_of (core_quads P (content (og_inner st)))"
proof -
  let ?C = "content (og_inner st)"
  have "iterates ?C (\<lambda>x. ox_matches x None None None (Some g)) (ox_quads_for_pattern X (og_inner st) None None None (Some g))" for g
    using ox_behavesD(1) [OF assms(2), of "og_inner st"] unfolding reads_def by (metis option.simps(8))
  from listed_graphs_Inr [OF this assms(4) [unfolded OxigraphStore_named_graphs_def]]
  obtain ns where ns: "ox_named_graphs X (og_inner st) = map Inr (map OxSNamed ns)"
    "gs = map named_from_ox (filter (\<lambda>g. \<exists>x\<in>?C. oq_graph x = OxGNamed g) ns)" by (auto simp: comp_def)
  have names: "distinct (map OxSNamed ns)" "{g. \<exists>x\<in>?C. oq_graph x = OxGNamed g} \<subseteq> set ns"
    using ox_behavesD(4) [OF assms(2) ns(1)] by auto
  then have "distinct gs" using ns(2) inj_on_subset [OF named_from_ox_inj] by (simp add: distinct_map)
  moreover have "set gs = graphs_of (core_quads P ?C)"
    unfolding ns(2) graphs_of_core [OF assms(1,3)] using names(2) by auto
  ultimately show ?thesis by blast
qed

definition ox_quads :: "OxModel \<Rightarrow> ('s \<Rightarrow> OxQuad set) \<Rightarrow> 's OxigraphStore \<Rightarrow> Quad set" where
  "ox_quads P content st = core_quads P (content (og_inner st))"

definition ox_view :: "OxModel \<Rightarrow> ('s \<Rightarrow> OxQuad set) \<Rightarrow> ('t \<Rightarrow> OxQuad set) \<Rightarrow> 's OxigraphStore \<Rightarrow> 't TxInner \<Rightarrow> Quad set" where
  "ox_view P content seen st tx = core_quads P (tx_content content seen st tx)"

definition ox_st_ok :: "OxModel \<Rightarrow> ('s \<Rightarrow> OxQuad set) \<Rightarrow> 's OxigraphStore \<Rightarrow> bool" where
  "ox_st_ok P content st = written P (content (og_inner st))"

definition ox_tx_ok :: "OxModel \<Rightarrow> ('s \<Rightarrow> OxQuad set) \<Rightarrow> ('t \<Rightarrow> OxQuad set) \<Rightarrow> ('s \<Rightarrow> 't \<Rightarrow> bool) \<Rightarrow>
    's OxigraphStore \<Rightarrow> 't TxInner \<Rightarrow> bool" where
  "ox_tx_ok P content seen live st tx \<longleftrightarrow> ox_live live st tx \<and> written P (tx_content content seen st tx)"

lemmas ox_spec_defs = ox_quads_def ox_view_def ox_st_ok_def ox_tx_ok_def

lemmas ox_store_defs = OxigraphStore_storage_def OxigraphStore_begin_read_def OxigraphStore_begin_write_def
  OxigraphStore_quad_count_def OxigraphTransaction_rollback_def

definition ox_assumed :: "OxModel \<Rightarrow> (string \<Rightarrow> string \<Rightarrow> string \<times> string) \<Rightarrow> ('s, 't) OxStore \<Rightarrow> ('s \<Rightarrow> OxQuad set) \<Rightarrow>
    ('t \<Rightarrow> OxQuad set) \<Rightarrow> ('s \<Rightarrow> 't \<Rightarrow> bool) \<Rightarrow> bool" where
  "ox_assumed P back X content seen live \<longleftrightarrow>
     ox_model_ok P \<and> ox_reads_back P back \<and> ox_behaves back X content seen live"

lemma ox_assumedD:
  assumes "ox_assumed P back X content seen live"
  shows "ox_model_ok P" "ox_reads_back P back" "ox_behaves back X content seen live"
  using assms by (simp_all add: ox_assumed_def)

lemma tx_reads:
  assumes "ox_behaves back X content seen live"
  shows "contains_ox X st tx x = Inr b \<Longrightarrow> b = (stored_quad back x \<in> tx_content content seen st tx)"
    and "iterates (tx_content content seen st tx) (\<lambda>x. ox_matches x s p (map_option (stored_term back) obj) g)
      (iter_ox X st tx s p obj g)"
  using ox_behavesD(1,2) [OF assms] unfolding reads_def by (cases tx; simp)+

lemma contains_ox_core:
  assumes "ox_assumed P back X content seen live" "quad_to_ox P q = Inr x" "contains_ox X st tx x = Inr b"
  shows "b \<longleftrightarrow> q \<in> ox_view P content seen st tx"
proof -
  note D = ox_assumedD [OF assms(1)]
  have "b \<longleftrightarrow> x \<in> tx_content content seen st tx"
    using tx_reads(1) [OF D(3) assms(3)] quad_stored [OF D(1,2) assms(2)] by simp
  then show ?thesis using assms(2) by (auto simp: ox_view_def core_quads_def)
qed

lemma unrepresentable_absent: "quad_to_ox P q = Inl u \<Longrightarrow> q \<notin> ox_view P content seen st tx"
  by (simp add: ox_view_def core_quads_def)

lemma ox_contains_contract:
  assumes "ox_assumed P back X content seen live" "OxigraphTransaction_contains P X st tx q = Inr b"
  shows "b \<longleftrightarrow> q \<in> ox_view P content seen st tx"
proof (cases "quad_to_ox P q")
  case (Inl u)
  with assms(2) unrepresentable_absent [OF Inl] show ?thesis by (simp add: OxigraphTransaction_contains_def)
next
  case (Inr x)
  with assms(2) contains_ox_core [OF assms(1) Inr] show ?thesis by (simp add: OxigraphTransaction_contains_def)
qed

lemma ox_insert_contract:
  assumes A: "ox_assumed P back X content seen live" and tx: "ox_tx_ok P content seen live st tx"
    and ins: "OxigraphTransaction_insert P X st q tx = (r, tx')"
  shows "ox_tx_ok P content seen live st tx' \<and> ox_writable tx' = ox_writable tx
    \<and> (case r of Inl e \<Rightarrow> tx' = tx
        | Inr b \<Rightarrow> ox_view P content seen st tx' = insert q (ox_view P content seen st tx)
                  \<and> (b \<longleftrightarrow> q \<notin> ox_view P content seen st tx))"
proof (cases "\<exists>t x. tx = TxWrite t \<and> quad_to_ox P q = Inr x \<and> contains_ox X st tx x = Inr False")
  case True
  then obtain t x where t: "tx = TxWrite t" "quad_to_ox P q = Inr x" "contains_ox X st tx x = Inr False" by blast
  note D = ox_assumedD [OF A]
  have "live (og_inner st) (oxt_insert X x t)" "seen (oxt_insert X x t) = insert x (seen t)"
    using ox_behavesD(6) [OF D(3), of "og_inner st" t x] tx t(1) quad_stored [OF D(1,2) t(2)]
    by (auto simp: ox_tx_ok_def)
  moreover have "r = Inr True" "tx' = TxWrite (oxt_insert X x t)"
    using ins t by (auto simp: OxigraphTransaction_insert_def)
  moreover have "q \<notin> ox_view P content seen st tx" using contains_ox_core [OF A t(2,3)] by simp
  ultimately show ?thesis
    using tx t(1) written_insert [OF _ t(2)] core_quads_insert [OF D(1) t(2)] by (simp add: ox_tx_ok_def ox_view_def)
next
  case False
  then have "tx' = tx \<and> ((\<exists>e. r = Inl e) \<or> r = Inr False \<and> (\<exists>x. quad_to_ox P q = Inr x \<and> contains_ox X st tx x = Inr True))"
    using ins by (cases tx) (auto simp: OxigraphTransaction_insert_def simp del: contains_ox.simps dest!: sym [of "Inl _"] split: sum.splits if_splits)
  then show ?thesis using tx contains_ox_core [OF A, of q _ st tx True] by (auto simp: insert_absorb)
qed

lemma ox_remove_contract:
  assumes A: "ox_assumed P back X content seen live" and tx: "ox_tx_ok P content seen live st tx"
    and rem: "OxigraphTransaction_remove P X st q tx = (r, tx')"
  shows "ox_tx_ok P content seen live st tx' \<and> ox_writable tx' = ox_writable tx
    \<and> (case r of Inl e \<Rightarrow> tx' = tx
        | Inr b \<Rightarrow> ox_view P content seen st tx' = ox_view P content seen st tx - {q}
                  \<and> (b \<longleftrightarrow> q \<in> ox_view P content seen st tx))"
proof (cases "\<exists>t x. tx = TxWrite t \<and> quad_to_ox P q = Inr x \<and> contains_ox X st tx x = Inr True")
  case True
  then obtain t x where t: "tx = TxWrite t" "quad_to_ox P q = Inr x" "contains_ox X st tx x = Inr True" by blast
  note D = ox_assumedD [OF A]
  have "live (og_inner st) (oxt_remove X x t)" "seen (oxt_remove X x t) = seen t - {x}"
    using ox_behavesD(7) [OF D(3), of "og_inner st" t x] tx t(1) quad_stored [OF D(1,2) t(2)]
    by (auto simp: ox_tx_ok_def)
  moreover have "r = Inr True" "tx' = TxWrite (oxt_remove X x t)"
    using rem t by (auto simp: OxigraphTransaction_remove_def)
  moreover have "q \<in> ox_view P content seen st tx" using contains_ox_core [OF A t(2,3)] by simp
  ultimately show ?thesis
    using tx t(1) written_remove core_quads_remove [OF D(1) t(2)] by (simp add: ox_tx_ok_def ox_view_def)
next
  case False
  then have "tx' = tx \<and> ((\<exists>e. r = Inl e) \<or> r = Inr False \<and> q \<notin> ox_view P content seen st tx)"
    using rem contains_ox_core [OF A, of q _ st tx False] unrepresentable_absent [of P q _ content seen st tx]
    by (cases tx) (auto simp: OxigraphTransaction_remove_def simp del: contains_ox.simps dest!: sym [of "Inl _"] split: sum.splits if_splits)
  then show ?thesis using tx by auto
qed

lemma ox_pattern_contract:
  assumes A: "ox_assumed P back X content seen live" and tx: "ox_tx_ok P content seen live st tx"
    and qs: "collect_results (OxigraphTransaction_quads_for_pattern P X st tx s p obj g) = Inr qs"
  shows "distinct qs \<and> set qs = {q \<in> ox_view P content seen st tx. matches_pattern q s p obj g}"
proof (cases "\<exists>s' p' obj' g'. bound_to_ox (subject_to_ox P) s = Inr s' \<and> bound_to_ox (named_to_ox P) p = Inr p'
    \<and> bound_to_ox (term_to_ox P) obj = Inr obj' \<and> bound_to_ox (graph_to_ox P) g = Inr g'")
  case True
  then obtain s' p' obj' g' where b: "bound_to_ox (subject_to_ox P) s = Inr s'" "bound_to_ox (named_to_ox P) p = Inr p'"
    "bound_to_ox (term_to_ox P) obj = Inr obj'" "bound_to_ox (graph_to_ox P) g = Inr g'" by blast
  note D = ox_assumedD [OF A]
  let ?C = "tx_content content seen st tx"
  have "iterates ?C (\<lambda>x. ox_matches x s' p' obj' g') (iter_ox X st tx s' p' obj' g')"
    using tx_reads(2) [OF D(3), of st tx s' p' obj' g'] bound_stored [OF D(1,2) b(3)] by simp
  moreover have "map (read_item P) (iter_ox X st tx s' p' obj' g') = map Inr qs"
    using qs b by (simp add: OxigraphTransaction_quads_for_pattern_def collect_results_Inr)
  ultimately have "distinct qs \<and> set qs = {q. \<exists>x\<in>?C. ox_matches x s' p' obj' g' \<and> quad_to_ox P q = Inr x}"
    using read_items [OF D(1)] tx unfolding ox_tx_ok_def by blast
  moreover have "{q. \<exists>x\<in>?C. ox_matches x s' p' obj' g' \<and> quad_to_ox P q = Inr x}
      = {q \<in> ox_view P content seen st tx. matches_pattern q s p obj g}"
    unfolding ox_view_def core_quads_def using ox_matches_core [OF D(1) _ b] by blast
  ultimately show ?thesis by simp
next
  case False
  then have qs_empty: "qs = []"
    using qs by (auto simp: OxigraphTransaction_quads_for_pattern_def split: sum.splits)
  have "\<not> matches_pattern q s p obj g" if q: "q \<in> ox_view P content seen st tx" for q
  proof
    assume "matches_pattern q s p obj g"
    moreover obtain x where "subject_to_ox P (q_subject q) = Inr (oq_subject x)" "named_to_ox P (q_predicate q) = Inr (oq_predicate x)"
      "term_to_ox P (q_object q) = Inr (oq_object x)" "graph_to_ox P (q_graph q) = Inr (oq_graph x)"
      using q by (auto simp: ox_view_def core_quads_def quad_to_ox_Inr)
    ultimately show False
      using False unbound_matches [of "subject_to_ox P" s] unbound_matches [of "named_to_ox P" p]
        unbound_matches [of "term_to_ox P" obj] unbound_matches [of "graph_to_ox P" g]
      unfolding matches_pattern_def by (metis sumE)
  qed
  with qs_empty show ?thesis by auto
qed

lemma ox_contract:
  assumes "ox_assumed P back X content seen live"
  shows "storage_contract (OxigraphStore_storage P X) (ox_quads P content) (ox_view P content seen)
    (ox_st_ok P content) (ox_tx_ok P content seen live) ox_writable"
proof (unfold_locales, goal_cases)
  case (1 st)
  then show ?case using core_quads_bij [OF ox_assumedD(1) [OF assms]] by (simp add: ox_spec_defs)
next
  case (2 st tx)
  then show ?case using ox_behavesD(5) [OF ox_assumedD(3) [OF assms], of "og_inner st"]
    by (cases "og_kind st") (auto simp: ox_store_defs ox_spec_defs split: sum.splits)
next
  case (3 st tx)
  then show ?case using ox_behavesD(5) [OF ox_assumedD(3) [OF assms], of "og_inner st"]
    by (auto simp: ox_store_defs ox_spec_defs split: sum.splits if_splits)
next
  case (4 st tx q b tx')
  then show ?case using ox_insert_contract [OF assms, of st tx q "Inr b" tx'] by (simp add: ox_store_defs)
next
  case (5 st tx q e tx')
  then show ?case using ox_insert_contract [OF assms, of st tx q "Inl e" tx'] by (simp add: ox_store_defs)
next
  case (6 st tx q)
  then show ?case by (cases tx) (auto simp: ox_store_defs OxigraphTransaction_insert_def)
next
  case (7 st tx q b tx')
  then show ?case using ox_remove_contract [OF assms, of st tx q "Inr b" tx'] by (simp add: ox_store_defs)
next
  case (8 st tx q e tx')
  then show ?case using ox_remove_contract [OF assms, of st tx q "Inl e" tx'] by (simp add: ox_store_defs)
next
  case (9 st tx q)
  then show ?case by (cases tx) (auto simp: ox_store_defs OxigraphTransaction_remove_def)
next
  case (10 st tx q b)
  then show ?case using ox_contains_contract [OF assms] by (simp add: ox_store_defs)
next
  case (11 st tx s p obj g qs)
  then show ?case using ox_pattern_contract [OF assms] by (simp add: ox_store_defs)
next
  case (12 st tx u st')
  then show ?case using ox_behavesD(8) [OF ox_assumedD(3) [OF assms], of "og_inner st"]
    by (cases tx) (auto simp: ox_store_defs ox_spec_defs split: prod.splits)
next
  case (13 st tx e st')
  then show ?case using ox_behavesD(8) [OF ox_assumedD(3) [OF assms], of "og_inner st"]
    by (cases tx) (auto simp: ox_store_defs ox_spec_defs map_err_eq_Inl split: prod.splits)
next
  case (14 st tx r st')
  then show ?case by (simp add: ox_store_defs)
next
  case (15 st n)
  then show ?case using ox_behavesD(3) [OF ox_assumedD(3) [OF assms]] core_quads_bij [OF ox_assumedD(1) [OF assms]]
    by (simp add: ox_store_defs ox_spec_defs)
next
  case (16 st gs)
  then show ?case using named_graphs_contract [OF ox_assumedD(1,3) [OF assms]]
    by (simp add: ox_store_defs ox_spec_defs)
qed

text \<open>
  C25. The adapter satisfies the storage contract, given the documented behaviour of the
  crate: begin, insert, remove, contains, pattern queries, commit, rollback, the quad count
  and the graph list all behave as the contract says, on the set of quads written through it.
\<close>

theorem oxigraph_store_contract:
  assumes "ox_assumed P back X content seen live"
  shows "storage_contract (OxigraphStore_storage P X) (ox_quads P content) (ox_view P content seen)
    (ox_st_ok P content) (ox_tx_ok P content seen live) ox_writable"
  by (rule ox_contract [OF assms])

text \<open>A concrete crate: a store and a transaction are lists of quads as the storage layer encodes them.\<close>

definition w_iter :: "OxQuad list \<Rightarrow> OxSubject option \<Rightarrow> OxNamedNode option \<Rightarrow> OxTerm option \<Rightarrow> OxGraphName option \<Rightarrow> (OxError + OxQuad) list" where
  "w_iter xs s p obj g = map Inr (remdups (filter (\<lambda>x. ox_matches x s p (map_option (stored_term w_back) obj) g) xs))"

definition w_has :: "OxQuad list \<Rightarrow> OxQuad \<Rightarrow> OxError + bool" where
  "w_has xs x = Inr (List.member xs (stored_quad w_back x))"

definition w_store :: "(OxQuad list, OxQuad list) OxStore" where
  "w_store = \<lparr>ox_new = Inr [], ox_open = (\<lambda>_. Inr []), ox_open_read_only = (\<lambda>_. Inr []), ox_start_transaction = Inr,
     ox_len = (\<lambda>xs. Inr (length (remdups xs))),
     ox_named_graphs = (\<lambda>xs. map Inr (remdups (concat (map (\<lambda>x. case oq_graph x of OxGNamed g \<Rightarrow> [OxSNamed g] | _ \<Rightarrow> []) xs)))),
     ox_contains = w_has, ox_quads_for_pattern = w_iter, oxt_contains = w_has, oxt_quads_for_pattern = w_iter,
     oxt_insert = (\<lambda>x xs. stored_quad w_back x # xs), oxt_remove = (\<lambda>x xs. removeAll (stored_quad w_back x) xs),
     oxt_commit = (\<lambda>t s. (Inr (), t))\<rparr>"

lemma map_Inr_inj: "map Inr xs = map Inr ys \<longleftrightarrow> xs = ys"
  by (simp add: inj_map_eq_map)

lemma w_reads: "reads w_back (set xs) (w_has xs) (w_iter xs)"
  by (auto simp: reads_def w_has_def w_iter_def iterates_def map_Inr_inj)

lemma w_assumed: "ox_assumed w_ox w_back w_store set set (\<lambda>_ _. True)"
  unfolding ox_assumed_def ox_behaves_def
  by (auto simp: w_ox_ok w_back_ok w_store_def w_reads map_Inr_inj card_set length_remdups_card_conv split: OxGraphName.splits) force

theorem oxigraph_store_contract_witness:
  "storage_contract (OxigraphStore_storage w_ox w_store) (ox_quads w_ox set) (ox_view w_ox set set)
     (ox_st_ok w_ox set) (ox_tx_ok w_ox set set (\<lambda>_ _. True)) ox_writable
   \<and> (\<exists>st tx. OxigraphStore_in_memory w_store = Inr st \<and> ox_st_ok w_ox set st \<and> OxigraphStore_begin_write w_store st = Inr tx)"
proof -
  have "\<exists>st tx. OxigraphStore_in_memory w_store = Inr st \<and> ox_st_ok w_ox set st \<and> OxigraphStore_begin_write w_store st = Inr tx"
    by (simp add: OxigraphStore_in_memory_def OxigraphStore_begin_write_def w_store_def ox_st_ok_def written_def)
  with oxigraph_store_contract [OF w_assumed] show ?thesis by blast
qed

section \<open>Error behaviour\<close>





fun adapter_error :: "StorageError \<Rightarrow> bool" where
  "adapter_error (Io _) = True"
| "adapter_error (Serialization _) = True"
| "adapter_error (Backend _) = True"
| "adapter_error TransactionConflict = False"
| "adapter_error (UnsupportedCapability _) = False"

fun ok_or_adapter_error :: "StorageError + 'a \<Rightarrow> bool" where
  "ok_or_adapter_error (Inl e) = adapter_error e"
| "ok_or_adapter_error (Inr _) = True"

lemma map_ox_err_adapter [simp]: "adapter_error (map_ox_err e)" "ok_or_adapter_error (map_err map_ox_err r)"
  by (cases e; simp) (cases r; cases "projl r"; simp)

lemma listed_graphs_adapter: "ok_or_adapter_error (listed_graphs X i rs acc)"
  by (induction X i rs acc rule: listed_graphs.induct)
    (auto simp: StorageError_from_def split: list.split sum.split)

lemma contains_ox_adapter: "ok_or_adapter_error (contains_ox X st tx x)"
  by (cases tx) auto

lemma quad_from_ox_adapter: "ok_or_adapter_error (quad_from_ox P x)"
proof -
  have "ok_or_adapter_error (term_from_ox P t)" for t
    by (cases t) (auto simp: StorageError_from_def literal_from_ox_def map_ok_def split: option.splits)
  moreover have "ok_or_adapter_error (graph_from_ox g)" for g
    by (cases g) (auto simp: StorageError_from_def)
  ultimately show ?thesis
    unfolding quad_from_ox_def by (auto split: sum.splits) (metis ok_or_adapter_error.simps(1))+
qed

lemma read_item_adapter: "ok_or_adapter_error (read_item P r)"
  by (cases r) (auto simp: read_item_def quad_from_ox_adapter)

lemma ok_or_adapter_error_Inl: "ok_or_adapter_error r \<Longrightarrow> r = Inl e \<Longrightarrow> adapter_error e"
  by simp

lemma start_adapter:
  "ok_or_adapter_error (case map_err map_ox_err r of Inl e \<Rightarrow> Inl e | Inr t \<Rightarrow> Inr (f t))"
  by (cases r) auto

text \<open>
  The only errors of the adapter's methods are I/O errors, serialization errors and
  backend errors; a transaction conflict is never reported. A transaction that is not a
  write transaction refuses every write with \<open>ReadOnlyTransaction\<close>, and a store opened
  read-only every write transaction with \<open>ReadOnlyStore\<close>.
\<close>

theorem adapter_errors:
  "let S = OxigraphStore_storage P X
    in ok_or_adapter_error (begin_read S st) \<and> ok_or_adapter_error (begin_write S st)
    \<and> ok_or_adapter_error (quad_count S st) \<and> ok_or_adapter_error (named_graphs S st)
    \<and> ok_or_adapter_error (fst (tx_insert S st q tx)) \<and> ok_or_adapter_error (fst (tx_remove S st q tx))
    \<and> ok_or_adapter_error (tx_contains S st tx q)
    \<and> list_all ok_or_adapter_error (tx_quads_for_pattern S st tx s p obj g)
    \<and> ok_or_adapter_error (fst (tx_commit S tx st)) \<and> ok_or_adapter_error (fst (tx_rollback S tx st))
    \<and> (ox_writable tx \<or> tx_insert S st q tx = (Inl (Backend (BoxAdapter ReadOnlyTransaction)), tx)
          \<and> tx_remove S st q tx = (Inl (Backend (BoxAdapter ReadOnlyTransaction)), tx))
    \<and> (if og_kind st = OnDiskReadOnly then begin_write S st = Inl (Backend (BoxAdapter ReadOnlyStore)) else True)"
proof -
  define S where "S = OxigraphStore_storage P X"
  note defs = S_def OxigraphStore_storage_def
  have writes: "ok_or_adapter_error (fst (tx_insert S st q tx)) \<and> ok_or_adapter_error (fst (tx_remove S st q tx))"
    using contains_ox_adapter [of X st tx]
    by (cases tx) (auto simp: defs OxigraphTransaction_insert_def OxigraphTransaction_remove_def StorageError_from_def
      StorageError_from_adapter_def simp del: contains_ox.simps split: sum.split dest: ok_or_adapter_error_Inl)
  have has: "ok_or_adapter_error (tx_contains S st tx q)"
    by (simp add: defs OxigraphTransaction_contains_def contains_ox_adapter split: sum.split)
  have items: "list_all ok_or_adapter_error (tx_quads_for_pattern S st tx s p obj g)"
    by (auto simp: defs OxigraphTransaction_quads_for_pattern_def list_all_iff read_item_adapter split: sum.split)
  have begins: "ok_or_adapter_error (begin_read S st)" "ok_or_adapter_error (begin_write S st)"
    by (auto simp: defs OxigraphStore_begin_read_def OxigraphStore_begin_write_def start_adapter
      StorageError_from_adapter_def split: Kind.split)
  have counts: "ok_or_adapter_error (quad_count S st)" "ok_or_adapter_error (named_graphs S st)"
    by (simp_all add: defs OxigraphStore_quad_count_def OxigraphStore_named_graphs_def listed_graphs_adapter)
  have ends: "ok_or_adapter_error (fst (tx_commit S tx st))" "ok_or_adapter_error (fst (tx_rollback S tx st))"
    by (cases tx; simp add: defs OxigraphTransaction_rollback_def split: prod.split)+
  have "ox_writable tx \<or> tx_insert S st q tx = (Inl (Backend (BoxAdapter ReadOnlyTransaction)), tx)
      \<and> tx_remove S st q tx = (Inl (Backend (BoxAdapter ReadOnlyTransaction)), tx)"
    by (cases tx) (simp_all add: defs OxigraphTransaction_insert_def OxigraphTransaction_remove_def StorageError_from_adapter_def)
  moreover have "if og_kind st = OnDiskReadOnly then begin_write S st = Inl (Backend (BoxAdapter ReadOnlyStore)) else True"
    by (simp add: defs OxigraphStore_begin_write_def StorageError_from_adapter_def)
  ultimately show ?thesis using writes has items begins counts ends unfolding S_def Let_def by blast
qed

end
