(* ===== verification/Oxigraph_Suite.thy ===== *)
theory Oxigraph_Suite
  imports Strategies Oxigraph_Store
begin

text \<open>
  The Oxigraph adapter under the storage contract suite, as in
  \<^verbatim>\<open>semanticore-store-oxigraph/tests/contract.rs\<close>: over a crate that does not fail, both kinds
  of writable store pass every check for all generated inputs, and every schedule of the
  threads.
\<close>

section \<open>A crate that does not fail\<close>

text \<open>
  No method reports an error, iterators included, and graph names are IRIs (the adapter writes
  no others).
\<close>

definition ox_never_fails :: "('s, 't) OxStore \<Rightarrow> ('s \<Rightarrow> 't \<Rightarrow> bool) \<Rightarrow> bool" where
  "ox_never_fails X live \<longleftrightarrow>
     (\<forall>s. \<exists>t. ox_start_transaction X s = Inr t) \<and> (\<forall>s. \<exists>n. ox_len X s = Inr n)
   \<and> (\<forall>s. \<exists>ns. ox_named_graphs X s = map (Inr \<circ> OxSNamed) ns)
   \<and> (\<forall>s x. \<exists>b. ox_contains X s x = Inr b) \<and> (\<forall>t x. \<exists>b. oxt_contains X t x = Inr b)
   \<and> (\<forall>s a p obj g. \<exists>xs. ox_quads_for_pattern X s a p obj g = map Inr xs)
   \<and> (\<forall>t a p obj g. \<exists>xs. oxt_quads_for_pattern X t a p obj g = map Inr xs)
   \<and> (\<forall>s t. live s t \<longrightarrow> (\<exists>s'. oxt_commit X t s = (Inr (), s')))"

lemma ox_never_failsD:
  assumes "ox_never_fails X live"
  shows "\<exists>t. ox_start_transaction X s = Inr t" "\<exists>n. ox_len X s = Inr n"
    "\<exists>ns. ox_named_graphs X s = map (Inr \<circ> OxSNamed) ns"
    "\<exists>b. ox_contains X s x = Inr b" "\<exists>b. oxt_contains X t x = Inr b"
    "\<exists>xs. ox_quads_for_pattern X s a p obj g = map Inr xs" "\<exists>xs. oxt_quads_for_pattern X t a p obj g = map Inr xs"
    "live s t \<Longrightarrow> \<exists>s'. oxt_commit X t s = (Inr (), s')"
  using assms unfolding ox_never_fails_def by blast+

definition ox_rw_ok :: "OxModel \<Rightarrow> ('s \<Rightarrow> OxQuad set) \<Rightarrow> 's OxigraphStore \<Rightarrow> bool" where
  "ox_rw_ok P content st \<longleftrightarrow> ox_st_ok P content st \<and> og_kind st \<noteq> OnDiskReadOnly"

text \<open>A transaction of a store on disk never reads past its snapshot.\<close>

definition ox_rw_tx_ok :: "OxModel \<Rightarrow> ('s \<Rightarrow> OxQuad set) \<Rightarrow> ('t \<Rightarrow> OxQuad set) \<Rightarrow> ('s \<Rightarrow> 't \<Rightarrow> bool) \<Rightarrow>
    's OxigraphStore \<Rightarrow> 't TxInner \<Rightarrow> bool" where
  "ox_rw_tx_ok P content seen live st tx \<longleftrightarrow> ox_tx_ok P content seen live st tx \<and> (og_kind st = OnDisk \<longrightarrow> tx \<noteq> TxLatest)"

lemma insert_latest: "OxigraphTransaction_insert P X st q tx = (r, tx') \<Longrightarrow> tx' = TxLatest \<longleftrightarrow> tx = TxLatest"
  and remove_latest: "OxigraphTransaction_remove P X st q tx = (r, tx') \<Longrightarrow> tx' = TxLatest \<longleftrightarrow> tx = TxLatest"
  by (cases tx; auto simp: OxigraphTransaction_insert_def OxigraphTransaction_remove_def split: sum.splits if_splits)+

lemma commit_kind: "OxigraphTransaction_commit X tx st = (r, st') \<Longrightarrow> og_kind st' = og_kind st"
  by (cases tx) (auto split: prod.splits)

lemma contains_ox_total: "ox_never_fails X live \<Longrightarrow> \<exists>b. contains_ox X st tx x = Inr b"
  by (cases tx) (use ox_never_failsD(4,5) in fastforce)+

lemma iter_ox_total: "ox_never_fails X live \<Longrightarrow> \<exists>xs. iter_ox X st tx a p obj g = map Inr xs"
  by (cases tx) (simp_all add: ox_never_failsD(6,7))

lemma read_items_total:
  assumes "ox_model_ok P" "written P C" "iterates C f (map Inr xs)"
  shows "\<exists>qs. map (read_item P) (map Inr xs) = map Inr qs"
proof -
  have "\<exists>q. read_item P (Inr x) = Inr q" if "x \<in> set xs" for x
  proof -
    have "\<forall>x. Inr x \<in> set (map Inr xs :: (OxError + OxQuad) list) \<longrightarrow> x \<in> C \<and> f x"
      using assms(3) unfolding iterates_def by (rule conjunct1)
    then have "x \<in> C" using that by simp
    then obtain q where "quad_to_ox P q = Inr x" using assms(2) by (auto simp: written_def)
    then show ?thesis using quad_back [OF assms(1)] by (auto simp: read_item_Inr)
  qed
  then have "\<forall>x\<in>set xs. \<exists>q. read_item P (Inr x) = Inr q" by blast
  from bchoice [OF this] obtain h where "\<forall>x\<in>set xs. read_item P (Inr x) = Inr (h x)" by blast
  then have "map (read_item P) (map Inr xs) = map Inr (map h xs)" by simp
  then show ?thesis by blast
qed

lemma ox_pattern_total:
  assumes ox: "ox_assumed P back X content seen live" "ox_never_fails X live"
    and "written P (tx_content content seen st tx)"
  shows "\<exists>qs. OxigraphTransaction_quads_for_pattern P X st tx a p obj g = map Inr qs"
proof (cases "(bound_to_ox (subject_to_ox P) a, bound_to_ox (named_to_ox P) p, bound_to_ox (term_to_ox P) obj, bound_to_ox (graph_to_ox P) g)")
  case (fields a' p' obj' g')
  show ?thesis
  proof (cases "\<exists>w x y z. a' = Inr w \<and> p' = Inr x \<and> obj' = Inr y \<and> g' = Inr z")
    case True
    then obtain w x y z where b: "a' = Inr w" "p' = Inr x" "obj' = Inr y" "g' = Inr z" by blast
    obtain xs where xs: "iter_ox X st tx w x y z = map Inr xs" using iter_ox_total [OF ox(2)] by blast
    have "iterates (tx_content content seen st tx) (\<lambda>q. ox_matches q w x (map_option (stored_term back) y) z) (map Inr xs)"
      using tx_reads(2) [OF ox_assumedD(3) [OF ox(1)], where s = w and p = x and obj = y and g = z] xs by metis
    from read_items_total [OF ox_assumedD(1) [OF ox(1)] assms(3) this]
    show ?thesis using fields b xs by (simp add: OxigraphTransaction_quads_for_pattern_def)
  next
    case False
    then have "OxigraphTransaction_quads_for_pattern P X st tx a p obj g = []"
      using fields by (auto simp: OxigraphTransaction_quads_for_pattern_def split: sum.split)
    then show ?thesis by simp
  qed
qed

lemma listed_graphs_total:
  assumes "ox_never_fails X live"
  shows "\<exists>gs. listed_graphs X i (map (Inr \<circ> OxSNamed) ns) acc = Inr gs"
proof (induction ns arbitrary: acc)
  case (Cons n ns)
  obtain xs where "ox_quads_for_pattern X i None None None (Some (OxGNamed n)) = map Inr xs"
    using ox_never_failsD(6) [OF assms] by blast
  with Cons.IH show ?case by (cases xs) auto
qed simp

section \<open>The adapter is a reliable store\<close>

lemma ox_rw_contract:
  assumes "ox_assumed P back X content seen live"
  shows "storage_contract (OxigraphStore_storage P X) (ox_quads P content) (ox_view P content seen)
    (ox_rw_ok P content) (ox_rw_tx_ok P content seen live) ox_writable"
proof -
  note contract = ox_contract [OF assms]
  show ?thesis
  proof (unfold_locales, goal_cases)
    case (2 st tx)
    then show ?case using storage_contract.begin_read_ok [OF contract, of st tx]
      by (auto simp: ox_rw_ok_def ox_rw_tx_ok_def ox_store_defs split: Kind.splits sum.splits)
  next
    case (3 st tx)
    then show ?case using storage_contract.begin_write_ok [OF contract, of st tx]
      by (auto simp: ox_rw_ok_def ox_rw_tx_ok_def ox_store_defs split: if_splits)
  next
    case (4 st tx q b tx')
    then show ?case using storage_contract.insert_ok [OF contract, of st tx q b tx'] insert_latest [of P X st q tx "Inr b" tx']
      by (simp add: ox_rw_ok_def ox_rw_tx_ok_def) (simp add: OxigraphStore_storage_def)
  next
    case (5 st tx q e tx')
    then show ?case using storage_contract.insert_err [OF contract, of st tx q e tx'] insert_latest [of P X st q tx "Inl e" tx']
      by (simp add: ox_rw_ok_def ox_rw_tx_ok_def) (simp add: OxigraphStore_storage_def)
  next
    case (7 st tx q b tx')
    then show ?case using storage_contract.remove_ok [OF contract, of st tx q b tx'] remove_latest [of P X st q tx "Inr b" tx']
      by (simp add: ox_rw_ok_def ox_rw_tx_ok_def) (simp add: OxigraphStore_storage_def)
  next
    case (8 st tx q e tx')
    then show ?case using storage_contract.remove_err [OF contract, of st tx q e tx'] remove_latest [of P X st q tx "Inl e" tx']
      by (simp add: ox_rw_ok_def ox_rw_tx_ok_def) (simp add: OxigraphStore_storage_def)
  next
    case (12 st tx u st')
    then show ?case using storage_contract.commit_ok [OF contract] commit_kind
      by (fastforce simp: ox_rw_ok_def ox_rw_tx_ok_def OxigraphStore_storage_def)
  next
    case (13 st tx e st')
    then show ?case using storage_contract.commit_err [OF contract] commit_kind
      by (fastforce simp: ox_rw_ok_def ox_rw_tx_ok_def OxigraphStore_storage_def)
  next
    case (14 st tx r st')
    then show ?case by (simp add: ox_rw_ok_def ox_store_defs)
  qed (use contract in \<open>unfold storage_contract_def ox_rw_ok_def ox_rw_tx_ok_def; meson\<close>)+
qed

lemma ox_reliable:
  assumes ox: "ox_assumed P back X content seen live" "ox_never_fails X live"
  shows "reliable_storage (OxigraphStore_storage P X) (ox_quads P content) (ox_view P content seen)
    (ox_rw_ok P content) (ox_rw_tx_ok P content seen live) ox_writable (representable P)"
proof (rule reliable_storage.intro [OF ox_rw_contract [OF ox(1)]], rule reliable_storage_axioms.intro, goal_cases)
  case (1 st)
  then show ?case using ox_never_failsD(1) [OF ox(2), of "og_inner st"] by (auto simp: ox_store_defs split: Kind.split)
next
  case (2 st)
  then show ?case using ox_never_failsD(1) [OF ox(2), of "og_inner st"] by (auto simp: ox_store_defs ox_rw_ok_def)
next
  case (3 st tx q)
  then obtain t x where "tx = TxWrite t" "quad_to_ox P q = Inr x"
    by (cases tx) (auto simp: representable_def split: sum.splits)
  then show ?case using contains_ox_total [OF ox(2), of st tx x]
    by (auto simp: OxigraphStore_storage_def OxigraphTransaction_insert_def)
next
  case (4 st tx q)
  then obtain t where t: "tx = TxWrite t" by (cases tx) auto
  show ?case
  proof (cases "quad_to_ox P q")
    case (Inr x)
    then show ?thesis using t contains_ox_total [OF ox(2), of st tx x]
      by (auto simp: OxigraphStore_storage_def OxigraphTransaction_remove_def)
  next
    case (Inl u)
    then have "tx_remove (OxigraphStore_storage P X) st q tx = (Inr False, tx)"
      using t by (simp add: OxigraphStore_storage_def OxigraphTransaction_remove_def)
    then show ?thesis by blast
  qed
next
  case (5 st tx q)
  then show ?case using contains_ox_total [OF ox(2), of st tx]
    by (auto simp: OxigraphStore_storage_def OxigraphTransaction_contains_def split: sum.split)
next
  case (6 st tx s p obj g)
  then have "written P (tx_content content seen st tx)" by (simp add: ox_rw_tx_ok_def ox_tx_ok_def)
  from ox_pattern_total [OF ox this, of s p obj g] show ?case
    by (auto simp: OxigraphStore_storage_def)
next
  case (7 st tx)
  show ?case
  proof (cases tx)
    case (TxWrite t)
    then obtain s' where "oxt_commit X t (og_inner st) = (Inr (), s')"
      using 7(2) ox_never_failsD(8) [OF ox(2), of "og_inner st" t] by (auto simp: ox_rw_tx_ok_def ox_tx_ok_def)
    with TxWrite show ?thesis by (simp add: OxigraphStore_storage_def)
  qed (simp_all add: OxigraphStore_storage_def)
next
  case (8 st tx)
  then show ?case by (simp add: ox_store_defs)
next
  case (9 st)
  then show ?case using ox_never_failsD(2) [OF ox(2), of "og_inner st"] by (auto simp: ox_store_defs)
next
  case (10 st)
  obtain ns where "ox_named_graphs X (og_inner st) = map (Inr \<circ> OxSNamed) ns" using ox_never_failsD(3) [OF ox(2)] by blast
  then show ?case using listed_graphs_total [OF ox(2), of "og_inner st" ns "[]"]
    by (simp add: OxigraphStore_storage_def OxigraphStore_named_graphs_def)
qed

text \<open>
  What a transaction that reads shows: the latest content in memory, its snapshot on disk.
\<close>

definition ox_reader :: "OxModel \<Rightarrow> ('s \<Rightarrow> OxQuad set) \<Rightarrow> ('t \<Rightarrow> OxQuad set) \<Rightarrow> Quad set set \<Rightarrow>
    's OxigraphStore \<Rightarrow> 't TxInner \<Rightarrow> bool" where
  "ox_reader P content seen H st rd \<longleftrightarrow> \<not> ox_writable rd
     \<and> written P (tx_content content seen st rd) \<and> core_quads P (tx_content content seen st rd) \<in> H"

lemma ox_all_quads:
  assumes ox: "ox_assumed P back X content seen live" "ox_never_fails X live"
    and w: "written P (tx_content content seen st tx)"
  shows "all_quads (OxigraphStore_storage P X) st tx = Some (core_quads P (tx_content content seen st tx))"
proof -
  obtain qs where qs: "OxigraphTransaction_quads_for_pattern P X st tx None None None None = map Inr qs"
    using ox_pattern_total [OF ox w] by blast
  have its: "iterates (tx_content content seen st tx) (\<lambda>q. ox_matches q None None (map_option (stored_term back) None) None)
      (iter_ox X st tx None None None None)" by (rule tx_reads(2) [OF ox_assumedD(3) [OF ox(1)]])
  have "map (read_item P) (iter_ox X st tx None None None None) = map Inr qs"
    using qs by (simp add: OxigraphTransaction_quads_for_pattern_def bound_to_ox_def)
  from read_items [OF ox_assumedD(1) [OF ox(1)] w its this]
  have "set qs = core_quads P (tx_content content seen st tx)" by (simp add: core_quads_def ox_matches_def)
  with qs show ?thesis by (simp add: all_quads_def unwrap_def OxigraphStore_storage_def)
qed

lemma ox_shared:
  assumes ox: "ox_assumed P back X content seen live" "ox_never_fails X live"
  shows "shared_storage (OxigraphStore_storage P X) (ox_quads P content) (ox_view P content seen)
    (ox_rw_ok P content) (ox_rw_tx_ok P content seen live) ox_writable (representable P) (\<lambda>tx st. st)"
proof (rule shared_storage.intro [OF ox_reliable [OF ox]], rule shared_storage_axioms.intro, goal_cases)
  case (4 st rd tx st1 Q st2 q)
  then have "og_kind st = OnDisk"
    by (cases "og_kind st") (simp_all add: ox_rw_ok_def OxigraphStore_storage_def OxigraphStore_capabilities_def)
  then obtain t where t: "rd = TxSnapshot t" "written P (seen t)"
    using 4(2,3) by (cases rd) (auto simp: ox_rw_tx_ok_def ox_tx_ok_def)
  have "all_quads (OxigraphStore_storage P X) st2 rd = Some (core_quads P (seen t))"
    using ox_all_quads [OF ox, of st2 rd] t by simp
  moreover have "tx_contains (OxigraphStore_storage P X) st2 rd q = tx_contains (OxigraphStore_storage P X) st rd q"
    using t by (simp add: OxigraphStore_storage_def OxigraphTransaction_contains_def split: sum.split)
  moreover obtain b where b: "tx_contains (OxigraphStore_storage P X) st rd q = Inr b"
    using reliable_storage.contains_total [OF ox_reliable [OF ox] 4(1,2)] by blast
  moreover have "b \<longleftrightarrow> q \<in> ox_view P content seen st rd"
    using storage_contract.contains_ok [OF ox_rw_contract [OF ox(1)] 4(1,2) b] .
  ultimately show ?case using t by (simp add: ox_view_def)
qed (auto simp: ox_store_defs ox_rw_ok_def)

lemma ox_concurrent:
  assumes ox: "ox_assumed P back X content seen live" "ox_never_fails X live"
  shows "concurrent_storage (OxigraphStore_storage P X) (ox_quads P content) (ox_view P content seen)
    (ox_rw_ok P content) (ox_rw_tx_ok P content seen live) ox_writable (representable P) (ox_reader P content seen)"
proof (rule concurrent_storage.intro [OF ox_reliable [OF ox]], rule concurrent_storage_axioms.intro, goal_cases)
  case (1 st rd)
  then show ?case using storage_contract.begin_read_ok [OF ox_rw_contract [OF ox(1)], of st rd]
    by (simp add: ox_reader_def ox_rw_tx_ok_def ox_tx_ok_def ox_view_def)
next
  case (2 H st rd H')
  then show ?case by (auto simp: ox_reader_def)
next
  case (3 st H rd tx u st')
  have "ox_rw_ok P content st'"
    using storage_contract.commit_ok [OF ox_rw_contract [OF ox(1)] 3(1,3,4)] by blast
  with 3(2) show ?case
    by (cases rd) (auto simp: ox_reader_def ox_rw_ok_def ox_st_ok_def ox_quads_def)
next
  case (4 st H rd)
  then show ?case using ox_all_quads [OF ox] by (auto simp: ox_reader_def)
next
  case (5 st H rd)
  then show ?case by (simp add: ox_store_defs)
qed

section \<open>The suite\<close>

text \<open>
  C22. The adapter passes the storage contract suite. Over a crate that behaves as documented,
  accepts plain RDF syntax and does not fail, a fresh writable store, in memory or on disk,
  passes every check for all inputs that the generators can produce, and any schedule of the
  thread test leads on to its end, with no assertion failing.
\<close>

theorem adapter_passes_suite:
  assumes "ox_assumed P back X content seen live" "ox_never_fails X live" "rdf_syntax P"
    and "og_kind store = InMemory \<or> og_kind store = OnDisk" "content (og_inner store) = {}"
    and "suite_inputs base writes extra"
  shows "suite_passes (\<lambda>tx st. st) (OxigraphStore_storage P X) store base writes extra bound removals
    \<and> ((thread_step (OxigraphStore_storage P X) ^^ n) (threads_start store) (st, w, rs) \<longrightarrow>
         w \<noteq> WPanic \<and> RPanic \<notin> set rs
       \<and> (if n < 120 then \<exists>c. thread_step (OxigraphStore_storage P X) (st, w, rs) c
          else n = 120 \<and> w = WLoad 8 \<and> rs = replicate 4 (RRun 8) \<and> OxigraphStore_quad_count X st = Inr 8))"
proof -
  have fresh: "ox_rw_ok P content store" "ox_quads P content store = {}"
    using assms(4,5) by (auto simp: ox_rw_ok_def ox_spec_defs written_def core_quads_def)
  have accepted: "\<forall>q\<in>set (suite_quads @ base @ writes @ [extra]). representable P q"
    using assms(6) small_quad_representable [OF assms(3)] suite_quads_representable [OF assms(3)]
    by (auto simp: suite_inputs_def small_quads_def list_all_iff)
  have threads: "\<forall>i<8. representable P (thread_quad i)" using thread_quad_representable [OF assms(3)] by blast
  have count: "quad_count (OxigraphStore_storage P X) st = OxigraphStore_quad_count X st" by (simp add: OxigraphStore_storage_def)
  show ?thesis
    using shared_storage.suite_passes_here [OF ox_shared [OF assms(1,2)] fresh accepted]
      concurrent_storage.threads_pass [OF ox_concurrent [OF assms(1,2)] fresh _ threads, of n st w rs] unfolding count by blast
qed

text \<open>The concrete crate does not fail, and accepts plain syntax.\<close>

lemma w_named_graphs: "\<exists>ns. ox_named_graphs w_store xs = map (Inr \<circ> OxSNamed) ns"
proof -
  have "\<exists>ns. remdups (concat (map (\<lambda>x. case oq_graph x of OxGNamed g \<Rightarrow> [OxSNamed g] | _ \<Rightarrow> []) xs)) = map OxSNamed ns"
    unfolding ex_map_conv by (auto split: OxGraphName.splits)
  then show ?thesis by (auto simp: w_store_def)
qed

lemma w_never_fails: "ox_never_fails w_store (\<lambda>_ _. True)"
proof -
  have iter: "\<exists>ys. w_iter xs s p obj g = map Inr ys" for xs s p obj g by (auto simp: w_iter_def)
  have "ox_start_transaction w_store = Inr" "ox_len w_store = (\<lambda>xs. Inr (length (remdups xs)))" "ox_contains w_store = w_has"
    "oxt_contains w_store = w_has" "ox_quads_for_pattern w_store = w_iter" "oxt_quads_for_pattern w_store = w_iter"
    "oxt_commit w_store = (\<lambda>t s. (Inr (), t))" by (simp_all add: w_store_def)
  then show ?thesis using iter w_named_graphs by (simp add: ox_never_fails_def w_has_def)
qed

lemma w_rdf_syntax: "rdf_syntax w_ox"
  by (auto simp: rdf_syntax_def w_ox_def XSD_def xsd_STRING_def)

theorem adapter_passes_suite_witness:
  "\<exists>store q. OxigraphStore_in_memory w_store = Inr store \<and> q \<in> set small_quad
   \<and> suite_passes (\<lambda>tx st. st) (OxigraphStore_storage w_ox w_store) store [q] [q] q (True, False, True, False) [True]"
proof -
  let ?store = "\<lparr>og_inner = [], og_kind = InMemory\<rparr> :: OxQuad list OxigraphStore"
  let ?n = "contract_iri ''a''"
  let ?q = "Quad_new (NbNamed ?n) ?n (TNamed ?n) GDefault"
  have n: "?n \<in> set small_named" by (simp add: small_named_def small_iri_def set_strings_over contract_iri_def)
  have q: "?q \<in> set small_quad"
    using n by (force simp: small_quad_def small_subject_def small_term_def small_graph_def)
  then have "suite_inputs [?q] [?q] ?q" by (simp add: suite_inputs_def small_quads_def)
  from adapter_passes_suite [OF w_assumed w_never_fails w_rdf_syntax _ _ this, of ?store]
  have "suite_passes (\<lambda>tx st. st) (OxigraphStore_storage w_ox w_store) ?store [?q] [?q] ?q (True, False, True, False) [True]"
    by simp
  with q show ?thesis by (auto simp: OxigraphStore_in_memory_def w_store_def)
qed

end
