(* ===== verification/Context_Types.thy ===== *)
theory Context_Types
  imports Storage_Trait
begin

text \<open>
  The data types of \<^verbatim>\<open>semanticore-context\<close>: scopes and items (\<^verbatim>\<open>item.rs\<close>), errors
  (\<^verbatim>\<open>error.rs\<close>), configuration (\<^verbatim>\<open>config.rs\<close>) and queries (\<^verbatim>\<open>query.rs\<close>), with the
  functions on them.

  An \<open>ItemId\<close> is its \<open>u64\<close>. Instants and durations are natural numbers of nanoseconds,
  so \<open>saturating_duration_since\<close> is subtraction of naturals. Floating-point values are
  their bit patterns.
\<close>

section \<open>Scopes\<close>

datatype ContextScope = Minor | Major | Enduring

fun scope_rank :: "ContextScope \<Rightarrow> nat" where
  "scope_rank Minor = 0"
| "scope_rank Major = 1"
| "scope_rank Enduring = 2"

text \<open>\<open>ContextScope\<close> derives \<open>Ord\<close>: declaration order, by durability.\<close>

instantiation ContextScope :: linorder
begin

definition less_eq_ContextScope :: "ContextScope \<Rightarrow> ContextScope \<Rightarrow> bool" where
  "less_eq_ContextScope a b \<longleftrightarrow> scope_rank a \<le> scope_rank b"

definition less_ContextScope :: "ContextScope \<Rightarrow> ContextScope \<Rightarrow> bool" where
  "less_ContextScope a b \<longleftrightarrow> scope_rank a < scope_rank b"

instance
proof
  fix a b :: ContextScope
  assume "a \<le> b" "b \<le> a"
  then show "a = b" by (cases a; cases b) (simp_all add: less_eq_ContextScope_def)
qed (auto simp: less_eq_ContextScope_def less_ContextScope_def)

end

definition ContextScope_ALL :: "ContextScope list" where
  "ContextScope_ALL = [Enduring, Major, Minor]"

fun colder :: "ContextScope \<Rightarrow> ContextScope option" where
  "colder Enduring = Some Major"
| "colder Major = Some Minor"
| "colder Minor = None"

fun tag :: "ContextScope \<Rightarrow> string" where
  "tag Enduring = ''enduring''"
| "tag Major = ''major''"
| "tag Minor = ''minor''"

definition ContextScope_display :: "ContextScope \<Rightarrow> string" where
  "ContextScope_display s = tag s"

definition from_tag :: "string \<Rightarrow> ContextScope option" where
  "from_tag t = List.find (\<lambda>s. tag s = t) ContextScope_ALL"

section \<open>Items\<close>

type_synonym ItemId = nat
type_synonym Duration = nat
type_synonym Instant = nat

definition ItemId_display :: "ItemId \<Rightarrow> string" where
  "ItemId_display i = ''item:'' @ show_nat i"

datatype JsonNumber = PosInt nat | NegInt int | Float f64

datatype Json =
    JNull | JBool bool | JNumber JsonNumber | JString string
  | JArray "Json list" | JObject "(string \<times> Json) list"

record Provenance =
  prov_source :: string
  derived_from :: "ItemId list"

definition Provenance_new :: "string \<Rightarrow> Provenance" where
  "Provenance_new src = \<lparr>prov_source = src, derived_from = []\<rparr>"

definition with_derived_from :: "Provenance \<Rightarrow> ItemId list \<Rightarrow> Provenance" where
  "with_derived_from p ids = p\<lparr>derived_from := derived_from p @ ids\<rparr>"

datatype ContextPayload =
    Triples "Quad list"
  | Event string Json
  | Chunk string string

record ContextItem =
  payload :: ContextPayload
  provenance :: Provenance
  scope_hint :: "ContextScope option"
  embedding :: "f32 list option"

definition ContextItem_new :: "ContextPayload \<Rightarrow> Provenance \<Rightarrow> ContextItem" where
  "ContextItem_new pl pr = \<lparr>payload = pl, provenance = pr, scope_hint = None, embedding = None\<rparr>"

definition ContextItem_triples :: "Quad list \<Rightarrow> Provenance \<Rightarrow> ContextItem" where
  "ContextItem_triples qs pr = ContextItem_new (Triples qs) pr"

definition ContextItem_event :: "string \<Rightarrow> Json \<Rightarrow> Provenance \<Rightarrow> ContextItem" where
  "ContextItem_event kind body pr = ContextItem_new (Event kind body) pr"

definition ContextItem_chunk :: "string \<Rightarrow> string \<Rightarrow> Provenance \<Rightarrow> ContextItem" where
  "ContextItem_chunk content content_type pr = ContextItem_new (Chunk content content_type) pr"

definition with_scope_hint :: "ContextItem \<Rightarrow> ContextScope \<Rightarrow> ContextItem" where
  "with_scope_hint it s = it\<lparr>scope_hint := Some s\<rparr>"

definition with_embedding :: "ContextItem \<Rightarrow> f32 list \<Rightarrow> ContextItem" where
  "with_embedding it v = it\<lparr>embedding := Some v\<rparr>"

section \<open>Errors\<close>

datatype ContextError = ShaclUnavailable | DatalogUnavailable

datatype Unimplemented = OwlElReasoner | AnnIndex | Sparql

fun Unimplemented_display :: "Unimplemented \<Rightarrow> string" where
  "Unimplemented_display OwlElReasoner = ''the default OWL 2 EL reasoner''"
| "Unimplemented_display AnnIndex = ''similarity search (default ANN/HNSW index)''"
| "Unimplemented_display Sparql = ''SPARQL query evaluation''"

text \<open>
  The reason of a \<open>Corrupt\<close> error is a formatted message; it is kept here as the parts that
  are formatted into it: the offending metadata quad, the message of the JSON parser, or
  the unknown scope tag.
\<close>

datatype CorruptReason =
    MetadataQuad NamedOrBlankNode Term
  | MetadataJson ItemId string
  | MetadataScope ItemId string

datatype SessionError =
    CapabilityShortfall ContextScope StorageCapability
  | MissingProvenance
  | InvalidItem string
  | UnknownItem ItemId
  | ScopeMismatch ItemId ContextScope ContextScope
  | DurabilityViolation ContextScope ContextScope
  | PremiumOnly ContextError
  | NotYetImplemented Unimplemented
  | Corrupt CorruptReason
  | StorageFailed StorageError

section \<open>Configuration\<close>

datatype 's StorageConfig = PerScope 's 's 's

datatype ReasonerSelection = Auto

record ScopeBounds =
  enduring_max_items :: "nat option"
  major_max_items :: "nat option"
  minor_max_items :: "nat option"

definition ScopeBounds_default :: ScopeBounds where
  "ScopeBounds_default = \<lparr>enduring_max_items = None, major_max_items = None, minor_max_items = None\<rparr>"

fun ScopeBounds_get :: "ScopeBounds \<Rightarrow> ContextScope \<Rightarrow> nat option" where
  "ScopeBounds_get b Enduring = enduring_max_items b"
| "ScopeBounds_get b Major = major_max_items b"
| "ScopeBounds_get b Minor = minor_max_items b"

datatype EvictionPolicy = Lru | Lfu | RecencyWeighted Duration

datatype DemotionTarget = Drop | NextColder | OneStepThenDrop

datatype PersistenceTarget = EnduringStorage

datatype FlushStrategy = OnCommit

record PersistenceConfig =
  persist_target :: PersistenceTarget
  flush_strategy :: FlushStrategy

datatype PromotionCadence = AfterEachQuery | Never

record PromotionConfig =
  cadence :: PromotionCadence
  minor_to_major_accesses :: nat
  minor_window :: Duration
  major_to_enduring_references :: nat

definition Duration_from_secs :: "nat \<Rightarrow> Duration" where
  "Duration_from_secs s = s * 1000000000"

definition PromotionConfig_default :: PromotionConfig where
  "PromotionConfig_default =
     \<lparr>cadence = AfterEachQuery, minor_to_major_accesses = 3,
      minor_window = Duration_from_secs 60, major_to_enduring_references = 5\<rparr>"

record 's SessionConfig =
  cfg_storage :: "'s StorageConfig"
  cfg_reasoners :: ReasonerSelection
  cfg_bounds :: ScopeBounds
  cfg_eviction_policy :: EvictionPolicy
  cfg_demotion_target :: DemotionTarget
  cfg_persistence :: PersistenceConfig
  cfg_promotion :: PromotionConfig

definition SessionConfig_new :: "'s StorageConfig \<Rightarrow> 's SessionConfig" where
  "SessionConfig_new st =
     \<lparr>cfg_storage = st, cfg_reasoners = Auto, cfg_bounds = ScopeBounds_default,
      cfg_eviction_policy = Lru, cfg_demotion_target = OneStepThenDrop,
      cfg_persistence = \<lparr>persist_target = EnduringStorage, flush_strategy = OnCommit\<rparr>,
      cfg_promotion = PromotionConfig_default\<rparr>"

datatype EvictionCriteria =
    Items "ItemId list"
  | Demote "ItemId list" ContextScope
  | Policy nat

section \<open>Queries\<close>

record QuadPattern =
  pat_subject :: "NamedOrBlankNode option"
  pat_predicate :: "NamedNode option"
  pat_object :: "Term option"

definition QuadPattern_default :: QuadPattern where
  "QuadPattern_default = \<lparr>pat_subject = None, pat_predicate = None, pat_object = None\<rparr>"

definition with_subject :: "QuadPattern \<Rightarrow> NamedOrBlankNode \<Rightarrow> QuadPattern" where
  "with_subject p s = p\<lparr>pat_subject := Some s\<rparr>"

definition with_predicate :: "QuadPattern \<Rightarrow> NamedNode \<Rightarrow> QuadPattern" where
  "with_predicate p n = p\<lparr>pat_predicate := Some n\<rparr>"

definition with_object :: "QuadPattern \<Rightarrow> Term \<Rightarrow> QuadPattern" where
  "with_object p obj = p\<lparr>pat_object := Some obj\<rparr>"

datatype ScopeSelection = Single ContextScope | All | Set "ContextScope list"

definition scopes_listed :: "ScopeSelection \<Rightarrow> ContextScope list" where
  "scopes_listed sel = (case sel of Single s \<Rightarrow> [s] | All \<Rightarrow> ContextScope_ALL | Set v \<Rightarrow> v)"

fun push_new :: "ContextScope list \<Rightarrow> ContextScope list \<Rightarrow> ContextScope list" where
  "push_new out [] = out"
| "push_new out (s # ss) = push_new (if \<not> List.member out s then out @ [s] else out) ss"

definition ScopeSelection_scopes :: "ScopeSelection \<Rightarrow> ContextScope list" where
  "ScopeSelection_scopes sel = push_new [] (scopes_listed sel)"

record InferenceQuery =
  inf_pattern :: QuadPattern

datatype ContextQueryKind =
    Pattern QuadPattern
  | SparqlQuery string
  | Similarity "f32 list" nat
  | Inference InferenceQuery

record ContextQuery =
  qy_scopes :: ScopeSelection
  qy_kind :: ContextQueryKind
  qy_limit :: "nat option"
  qy_reasoner_hint :: "ContextScope option"

definition ContextQuery_new :: "ScopeSelection \<Rightarrow> ContextQueryKind \<Rightarrow> ContextQuery" where
  "ContextQuery_new sel k = \<lparr>qy_scopes = sel, qy_kind = k, qy_limit = None, qy_reasoner_hint = None\<rparr>"

definition ContextQuery_pattern :: "ScopeSelection \<Rightarrow> QuadPattern \<Rightarrow> ContextQuery" where
  "ContextQuery_pattern sel p = ContextQuery_new sel (Pattern p)"

definition with_limit :: "ContextQuery \<Rightarrow> nat \<Rightarrow> ContextQuery" where
  "with_limit q n = q\<lparr>qy_limit := Some n\<rparr>"

definition with_reasoner_hint :: "ContextQuery \<Rightarrow> ContextScope \<Rightarrow> ContextQuery" where
  "with_reasoner_hint q s = q\<lparr>qy_reasoner_hint := Some s\<rparr>"

record RankedItem =
  ri_id :: ItemId
  ri_item :: ContextItem
  ri_score :: f64
  ri_source_scope :: ContextScope

record QueryStats =
  scopes_consulted :: nat
  quads_matched :: nat
  auto_promoted :: nat

record ContextQueryResult =
  res_items :: "RankedItem list"
  res_query_stats :: QueryStats

section \<open>Lemmas\<close>

lemma scope_less_iff: "a < b \<longleftrightarrow> scope_rank a < scope_rank b" for a b :: ContextScope
  by (simp add: less_ContextScope_def)

lemma scope_le_iff: "a \<le> b \<longleftrightarrow> scope_rank a \<le> scope_rank b" for a b :: ContextScope
  by (simp add: less_eq_ContextScope_def)

lemma scope_order [simp]: "Minor < Major" "Major < Enduring" "Minor < Enduring"
  by (simp_all add: scope_less_iff)

lemma colder_less: "colder s = Some c \<Longrightarrow> c < s"
  by (cases s) auto

lemma colder_next: "c < s \<Longrightarrow> \<exists>d. colder s = Some d \<and> c \<le> d"
  by (cases s; cases c) (auto simp: scope_less_iff scope_le_iff)

lemma set_ContextScope_ALL [simp]: "set ContextScope_ALL = UNIV"
  by (auto simp: ContextScope_ALL_def) (metis ContextScope.exhaust)

lemma ContextScope_UNIV: "(UNIV :: ContextScope set) = {Enduring, Major, Minor}"
  using ContextScope.exhaust by blast

lemma push_new_dedup: "push_new out ss = out @ dedup_seen out ss"
proof (induction ss arbitrary: out)
  case (Cons s ss)
  have "dedup_seen (out @ [s]) ss = dedup_seen (s # out) ss"
    by (rule dedup_seen_cong) simp
  with Cons show ?case by simp
qed simp

lemma scopes_distinct [simp]: "distinct (ScopeSelection_scopes sel)"
  by (simp add: ScopeSelection_scopes_def push_new_dedup)

lemma set_scopes [simp]: "set (ScopeSelection_scopes sel) = set (scopes_listed sel)"
  by (simp add: ScopeSelection_scopes_def push_new_dedup)

end
