(* ===== verification/Record_Layout.thy ===== *)
theory Record_Layout
  imports Context_Types
begin

text \<open>
  How an item is laid out in a scope's store (\<^verbatim>\<open>semanticore-context/src/record.rs\<close>): a
  named graph per item for its triples, and one metadata quad with a JSON literal for the
  rest.

  The JSON text is produced and read by the \<open>serde_json\<close> crate, which is a parameter:
  a record \<open>JsonOps\<close> of its \<open>to_string\<close> and \<open>from_str\<close> at the type \<open>Record\<close>. Whether
  reading back restores a record depends on the record: \<open>reads_back\<close>.
\<close>

definition ITEM_PREFIX :: string where
  "ITEM_PREFIX = ''urn:semanticore:context:item:''"

definition META_GRAPH :: string where
  "META_GRAPH = ''urn:semanticore:context:meta''"

definition RECORD :: string where
  "RECORD = ''urn:semanticore:context:record''"

definition item_graph :: "ItemId \<Rightarrow> NamedNode" where
  "item_graph i = NamedNode (ITEM_PREFIX @ show_nat i)"

definition parse_item_graph :: "NamedNode \<Rightarrow> ItemId option" where
  "parse_item_graph g =
     (case strip_prefix ITEM_PREFIX (iri g) of None \<Rightarrow> None
      | Some n \<Rightarrow> (case parse_u64 n of None \<Rightarrow> None
        | Some i \<Rightarrow> if show_nat i = n then Some i else None))"

definition meta_graph :: NamedOrDefault where
  "meta_graph = GNamed (NamedNode META_GRAPH)"

definition record_predicate :: NamedNode where
  "record_predicate = NamedNode RECORD"

datatype RecordPayload = RTriples | REvent string Json | RChunk string string

datatype Record = Record
  (rec_payload: RecordPayload)
  (rec_source: string)
  (rec_derived_from: "nat list")
  (rec_scope_hint: "string option")
  (rec_embedding: "f32 list option")

record JsonOps =
  json_to_string :: "Record \<Rightarrow> string"
  json_from_str :: "string \<Rightarrow> string + Record"

text \<open>What \<open>encode\<close> does before serializing: the record of an item, and its triples.\<close>

definition record_of :: "ContextItem \<Rightarrow> Record" where
  "record_of it =
     Record
       (case payload it of Triples _ \<Rightarrow> RTriples | Event k b \<Rightarrow> REvent k b | Chunk c t \<Rightarrow> RChunk c t)
       (prov_source (provenance it))
       (derived_from (provenance it))
       (map_option tag (scope_hint it))
       (embedding it)"

definition triples_of :: "ContextItem \<Rightarrow> Quad list" where
  "triples_of it = (case payload it of Triples t \<Rightarrow> t | Event _ _ \<Rightarrow> [] | Chunk _ _ \<Rightarrow> [])"

definition in_graph :: "NamedNode \<Rightarrow> Quad \<Rightarrow> Quad" where
  "in_graph g t = Quad_new (q_subject t) (q_predicate t) (q_object t) (GNamed g)"

definition meta_quad :: "JsonOps \<Rightarrow> ItemId \<Rightarrow> ContextItem \<Rightarrow> Quad" where
  "meta_quad J i it =
     Quad_new (NbNamed (item_graph i)) record_predicate
       (TLiteral (Literal_new_simple (json_to_string J (record_of it)))) meta_graph"

definition encode :: "JsonOps \<Rightarrow> ItemId \<Rightarrow> ContextItem \<Rightarrow> Quad list" where
  "encode J i it = map (in_graph (item_graph i)) (triples_of it) @ [meta_quad J i it]"

definition decode_payload :: "RecordPayload \<Rightarrow> Quad list \<Rightarrow> ContextPayload" where
  "decode_payload rp graph_quads =
     (case rp of
        RTriples \<Rightarrow> Triples (map (\<lambda>q. Quad_triple (q_subject q) (q_predicate q) (q_object q)) graph_quads)
      | REvent k b \<Rightarrow> Event k b
      | RChunk c t \<Rightarrow> Chunk c t)"

definition decode :: "JsonOps \<Rightarrow> ItemId \<Rightarrow> string \<Rightarrow> Quad list \<Rightarrow> SessionError + ContextItem" where
  "decode J i json graph_quads =
     (case json_from_str J json of Inl e \<Rightarrow> Inl (Corrupt (MetadataJson i e))
      | Inr r \<Rightarrow>
          (let pl = decode_payload (rec_payload r) graph_quads;
               hint = (case rec_scope_hint r of None \<Rightarrow> Inr None
                 | Some t \<Rightarrow> (case from_tag t of None \<Rightarrow> Inl (Corrupt (MetadataScope i t))
                              | Some s \<Rightarrow> Inr (Some s)))
           in (case hint of Inl e \<Rightarrow> Inl e
               | Inr h \<Rightarrow> Inr \<lparr>payload = pl,
                    provenance = \<lparr>prov_source = rec_source r, derived_from = rec_derived_from r\<rparr>,
                    scope_hint = h, embedding = rec_embedding r\<rparr>)))"

section \<open>The behaviour of the JSON crate that the layout relies on\<close>

text \<open>
  \<open>reads_back\<close>: the text the crate writes for the record of an item parses to that record
  again. The crate does not promise this of every record: with its default features it writes
  any nesting of arrays and objects but stops parsing at a depth of 128, writes \<open>null\<close> for a
  float that is not finite, and parses a float only to the nearest or a neighbouring value. So
  it is not a law of the crate here but a condition on items, and the properties that need it
  name the items. \<open>json_readable\<close> is the condition on a stored quad: if it is the metadata
  record of an item, then that item's record reads back.
\<close>

definition reads_back :: "JsonOps \<Rightarrow> ContextItem \<Rightarrow> bool" where
  "reads_back J it \<longleftrightarrow> json_from_str J (json_to_string J (record_of it)) = Inr (record_of it)"

definition json_readable :: "JsonOps \<Rightarrow> Quad \<Rightarrow> bool" where
  "json_readable J q \<longleftrightarrow> (\<forall>i it. q = meta_quad J i it \<longrightarrow> reads_back J it)"

text \<open>
  What the crate does promise, of the records that satisfy \<open>plain\<close>: those of bounded depth
  whose floats have a text that parses exactly. Such a record parses from its text, and no
  other record has that text. (The model's types have values that no Rust value corresponds
  to, like a JSON number that is not finite. The crate never sees them, so \<open>JsonOps\<close> is free
  to give them texts of their own.)
\<close>

definition json_documented :: "JsonOps \<Rightarrow> (Record \<Rightarrow> bool) \<Rightarrow> bool" where
  "json_documented J plain \<longleftrightarrow> (\<forall>r. plain r \<longrightarrow> json_from_str J (json_to_string J r) = Inr r
     \<and> (\<forall>r'. json_to_string J r' = json_to_string J r \<longrightarrow> r' = r))"

section \<open>Ownership\<close>

text \<open>
  The quads that belong to an item: those of its graph, and those with its metadata
  subject and predicate in the metadata graph. \<open>delete\<close> removes exactly these.
\<close>

definition owned :: "ItemId \<Rightarrow> Quad \<Rightarrow> bool" where
  "owned i q \<longleftrightarrow> q_graph q = GNamed (item_graph i)
     \<or> q_subject q = NbNamed (item_graph i) \<and> q_predicate q = record_predicate \<and> q_graph q = meta_graph"

text \<open>Equality of items up to the order and repetition of their triples.\<close>

definition same_payload :: "ContextPayload \<Rightarrow> ContextPayload \<Rightarrow> bool" where
  "same_payload a b = (case (a, b) of
       (Triples s, Triples t) \<Rightarrow> set s = set t
     | _ \<Rightarrow> a = b)"

definition same_item :: "ContextItem \<Rightarrow> ContextItem \<Rightarrow> bool" where
  "same_item a b \<longleftrightarrow> same_payload (payload a) (payload b) \<and> provenance a = provenance b
     \<and> scope_hint a = scope_hint b \<and> embedding a = embedding b"

text \<open>What \<open>validate\<close> demands of the payload and embedding of an item.\<close>

definition storable :: "ContextItem \<Rightarrow> bool" where
  "storable it \<longleftrightarrow>
     (case payload it of Triples qs \<Rightarrow> list_all (\<lambda>q. q_graph q = GDefault) qs | _ \<Rightarrow> True)
   \<and> (case embedding it of None \<Rightarrow> True | Some v \<Rightarrow> list_all f32_is_finite v)"

section \<open>Lemmas\<close>

lemma parse_item_graph_item_graph:
  "i < 2 ^ 64 \<Longrightarrow> parse_item_graph (item_graph i) = Some i"
  by (simp add: parse_item_graph_def item_graph_def parse_u64_show_nat)

lemma parse_item_graph_Some:
  "parse_item_graph g = Some i \<longleftrightarrow> g = item_graph i \<and> i < 2 ^ 64"
proof
  assume "parse_item_graph g = Some i"
  then obtain n where "strip_prefix ITEM_PREFIX (iri g) = Some n" "parse_u64 n = Some i" "show_nat i = n"
    by (auto simp: parse_item_graph_def split: option.splits if_splits)
  then show "g = item_graph i \<and> i < 2 ^ 64"
    by (cases g) (auto simp: strip_prefix_Some item_graph_def dest: parse_u64_bound)
qed (simp add: parse_item_graph_item_graph)

lemma item_graph_inj: "i < 2 ^ 64 \<Longrightarrow> j < 2 ^ 64 \<Longrightarrow> item_graph i = item_graph j \<longleftrightarrow> i = j"
  by (simp add: item_graph_def show_nat_inject)

lemma item_graph_not_meta [simp]: "GNamed (item_graph i) \<noteq> meta_graph" "meta_graph \<noteq> GNamed (item_graph i)"
  by (simp_all add: item_graph_def meta_graph_def ITEM_PREFIX_def META_GRAPH_def)

lemma parse_item_graph_meta [simp]: "parse_item_graph (NamedNode META_GRAPH) = None"
  by (simp add: parse_item_graph_def strip_prefix_def ITEM_PREFIX_def META_GRAPH_def)

lemma from_tag_tag [simp]: "from_tag (tag s) = Some s"
  by (cases s) (simp_all add: from_tag_def ContextScope_ALL_def)

lemma in_graph_sel [simp]:
  "q_subject (in_graph g t) = q_subject t" "q_predicate (in_graph g t) = q_predicate t"
  "q_object (in_graph g t) = q_object t" "q_graph (in_graph g t) = GNamed g"
  by (simp_all add: in_graph_def)

lemma meta_quad_sel [simp]:
  "q_subject (meta_quad J i it) = NbNamed (item_graph i)"
  "q_predicate (meta_quad J i it) = record_predicate"
  "q_object (meta_quad J i it) = TLiteral (Literal_new_simple (json_to_string J (record_of it)))"
  "q_graph (meta_quad J i it) = meta_graph"
  by (simp_all add: meta_quad_def)

lemma set_encode:
  "set (encode J i it) = insert (meta_quad J i it) (in_graph (item_graph i) ` set (triples_of it))"
  by (simp add: encode_def)

lemma encode_owned: "q \<in> set (encode J i it) \<Longrightarrow> owned i q"
  by (auto simp: set_encode owned_def)

lemma owned_unique: "owned i q \<Longrightarrow> owned j q \<Longrightarrow> i < 2 ^ 64 \<Longrightarrow> j < 2 ^ 64 \<Longrightarrow> i = j"
  by (auto simp: owned_def item_graph_inj)

lemma meta_quad_readable: "json_readable J (meta_quad J i it) \<Longrightarrow> reads_back J it"
  unfolding json_readable_def by blast

lemma meta_quad_text:
  assumes "meta_quad J i it = meta_quad J j jt"
  shows "json_to_string J (record_of it) = json_to_string J (record_of jt)"
  using arg_cong [OF assms, of "\<lambda>q. case q_object q of TLiteral l \<Rightarrow> lit_value l"] by simp

text \<open>The items with a plain record read back, whatever id they get.\<close>

lemma documented_readable:
  assumes J: "json_documented J plain" and plain: "plain (record_of it)" and q: "q \<in> set (encode J i it)"
  shows "json_readable J q"
  unfolding json_readable_def
proof (intro allI impI)
  fix j jt
  assume eq: "q = meta_quad J j jt"
  have "meta_quad J j jt = meta_quad J i it"
    using q unfolding eq by (auto simp: encode_def dest: arg_cong [of _ _ q_graph])
  then have "record_of jt = record_of it"
    using J plain meta_quad_text unfolding json_documented_def by metis
  then show "reads_back J jt" using J plain by (simp add: json_documented_def reads_back_def)
qed

lemma same_item_refl [simp]: "same_item it it"
  by (simp add: same_item_def same_payload_def split: ContextPayload.splits)

text \<open>Decoding the stored form of an item, from its graph's quads in any order.\<close>

lemma decode_encoded:
  assumes "reads_back J it" "storable it"
    and "set gqs = in_graph (item_graph i) ` set (triples_of it)"
  shows "\<exists>it'. decode J i (json_to_string J (record_of it)) gqs = Inr it' \<and> same_item it' it"
proof -
  have restored: "(\<lambda>q. Quad_triple (q_subject q) (q_predicate q) (q_object q)) ` set gqs = set t"
    if "payload it = Triples t" for t
  proof -
    have "\<forall>q\<in>set t. q_graph q = GDefault"
      using assms(2) that by (simp add: storable_def list_all_iff)
    then have "\<forall>q\<in>set t. Quad_triple (q_subject q) (q_predicate q) (q_object q) = q"
      by (simp add: Quad_triple_def Quad_new_def)
    then show ?thesis using assms(3) that
      by (auto simp: triples_of_def image_iff)
  qed
  have "same_payload (decode_payload (rec_payload (record_of it)) gqs) (payload it)"
    using restored by (auto simp: record_of_def decode_payload_def same_payload_def split: ContextPayload.split)
  moreover have "json_from_str J (json_to_string J (record_of it)) = Inr (record_of it)"
    using assms(1) by (simp add: reads_back_def)
  ultimately show ?thesis
    by (cases "scope_hint it")
      (simp_all add: decode_def Let_def same_item_def, simp_all add: record_of_def)
qed

end
