(* ===== verification/Datalog_Ir.thy ===== *)
theory Datalog_Ir
  imports Storage_Trait
begin

text \<open>
  The Datalog program IR and result type of \<^verbatim>\<open>semanticore-core/src/datalog.rs\<close>, and the
  example engine \<open>OneStep\<close> of the \<open>DatalogEngine\<close> documentation (compiled and run as a
  test) with a declarative reading of the rules it accepts.
\<close>

section \<open>The program IR\<close>

datatype NegationKind = NegNone | NegStratified | NegWellfounded

datatype DatalogTerm = Var string | Const Term

record Atom =
  atom_predicate :: NamedNode
  atom_terms :: "DatalogTerm list"

definition Atom_new :: "NamedNode \<Rightarrow> DatalogTerm list \<Rightarrow> Atom" where
  "Atom_new p ts = \<lparr>atom_predicate = p, atom_terms = ts\<rparr>"

datatype BodyLiteral = Positive Atom | Negative Atom

fun BodyLiteral_atom :: "BodyLiteral \<Rightarrow> Atom" where
  "BodyLiteral_atom (Positive a) = a"
| "BodyLiteral_atom (Negative a) = a"

fun is_negative :: "BodyLiteral \<Rightarrow> bool" where
  "is_negative (Positive a) = False"
| "is_negative (Negative a) = True"

record Rule =
  rule_head :: Atom
  rule_body :: "BodyLiteral list"

definition Rule_new :: "Atom \<Rightarrow> BodyLiteral list \<Rightarrow> Rule" where
  "Rule_new h b = \<lparr>rule_head = h, rule_body = b\<rparr>"

definition is_fact :: "Rule \<Rightarrow> bool" where
  "is_fact r = (rule_body r = [])"

record DatalogProgram =
  prog_rules :: "Rule list"

definition DatalogProgram_new :: DatalogProgram where
  "DatalogProgram_new = \<lparr>prog_rules = []\<rparr>"

definition has_negation :: "DatalogProgram \<Rightarrow> bool" where
  "has_negation p = list_ex (\<lambda>r. list_ex is_negative (rule_body r)) (prog_rules p)"

section \<open>Results\<close>

text \<open>
  The hash map of relations is an association list without repeated keys; its order
  stands for the unspecified iteration order of the map.
\<close>

record DatalogResult =
  relations :: "(NamedNode \<times> Term list list) list"

definition DatalogResult_new :: DatalogResult where
  "DatalogResult_new = \<lparr>relations = []\<rparr>"

fun push_fact :: "NamedNode \<Rightarrow> Term list \<Rightarrow> (NamedNode \<times> Term list list) list \<Rightarrow>
    (NamedNode \<times> Term list list) list" where
  "push_fact p t [] = [(p, [t])]"
| "push_fact p t ((q, ts) # rest) = (if q = p then (q, ts @ [t]) # rest else (q, ts) # push_fact p t rest)"

definition add_fact :: "NamedNode \<Rightarrow> Term list \<Rightarrow> DatalogResult \<Rightarrow> DatalogResult" where
  "add_fact p t r = r\<lparr>relations := push_fact p t (relations r)\<rparr>"

definition relation :: "DatalogResult \<Rightarrow> NamedNode \<Rightarrow> Term list list option" where
  "relation r p = map_of (relations r) p"

definition predicate_count :: "DatalogResult \<Rightarrow> nat" where
  "predicate_count r = length (relations r)"

definition total_facts :: "DatalogResult \<Rightarrow> nat" where
  "total_facts r = sum_list (map (\<lambda>(p, ts). length ts) (relations r))"

definition result_wf :: "DatalogResult \<Rightarrow> bool" where
  "result_wf r \<longleftrightarrow> distinct (map fst (relations r)) \<and> (\<forall>(p, ts)\<in>set (relations r). ts \<noteq> [])"

section \<open>The example engine\<close>

definition rule_supported :: "Rule \<Rightarrow> bool" where
  "rule_supported r =
     (case rule_body r of [Positive a] \<Rightarrow> length (atom_terms a) = 2 | _ \<Rightarrow> False)"

definition OneStep_load_program :: "DatalogProgram \<Rightarrow> (DatalogProgram, StorageError, unit) res_st" where
  "OneStep_load_program program engine =
     (if \<not> list_all rule_supported (prog_rules program)
      then (Inl (Backend (BoxMessage ''unsupported rule shape'')), engine)
      else (Inr (), program))"

fun is_var :: "string \<Rightarrow> DatalogTerm \<Rightarrow> bool" where
  "is_var v (Var w) = (w = v)"
| "is_var v (Const c) = False"

text \<open>
  \<open>row[i]\<close> of the two-element row panics out of range; a loaded program keeps \<open>i\<close> below 2
  (\<open>rule_supported\<close>).
\<close>

fun lookup_term :: "Atom \<Rightarrow> Term list \<Rightarrow> DatalogTerm \<Rightarrow> Term option" where
  "lookup_term body row (Const c) = Some c"
| "lookup_term body row (Var v) = map_option (\<lambda>i. row ! i) (position (is_var v) (atom_terms body))"

definition consts_match :: "Atom \<Rightarrow> Term list \<Rightarrow> bool" where
  "consts_match body row =
     list_all (\<lambda>(t, v). case t of Const c \<Rightarrow> c = v | Var _ \<Rightarrow> True) (zip (atom_terms body) row)"

fun collect_options :: "'a option list \<Rightarrow> 'a list option" where
  "collect_options [] = Some []"
| "collect_options (x # xs) =
     (case x of None \<Rightarrow> None
      | Some a \<Rightarrow> (case collect_options xs of None \<Rightarrow> None | Some as \<Rightarrow> Some (a # as)))"

definition fire :: "Rule \<Rightarrow> Atom \<Rightarrow> Quad \<Rightarrow> Term list option" where
  "fire rule body q =
     (let row = [Term_from_subject (q_subject q), q_object q]
      in if consts_match body row
         then collect_options (map (lookup_term body row) (atom_terms (rule_head rule)))
         else None)"

fun eval_quads :: "Rule \<Rightarrow> Atom \<Rightarrow> (StorageError + Quad) list \<Rightarrow> DatalogResult \<Rightarrow> StorageError + DatalogResult" where
  "eval_quads rule body [] res = Inr res"
| "eval_quads rule body (r # rs) res =
     (case r of Inl e \<Rightarrow> Inl e
      | Inr q \<Rightarrow>
          eval_quads rule body rs
            (case fire rule body q of None \<Rightarrow> res
             | Some t \<Rightarrow> add_fact (atom_predicate (rule_head rule)) t res))"

fun eval_rules :: "('st, 'tx) Storage \<Rightarrow> 'st \<Rightarrow> 'tx \<Rightarrow> Rule list \<Rightarrow> DatalogResult \<Rightarrow>
    StorageError + DatalogResult" where
  "eval_rules S st tx [] res = Inr res"
| "eval_rules S st tx (rule # rules) res =
     (case rule_body rule of
        [Positive body] \<Rightarrow>
          (case eval_quads rule body
                  (tx_quads_for_pattern S st tx None (Some (atom_predicate body)) None None) res of
             Inl e \<Rightarrow> Inl e
           | Inr res' \<Rightarrow> eval_rules S st tx rules res')
      | _ \<Rightarrow> eval_rules S st tx rules res)"

definition OneStep_evaluate :: "('st, 'tx) Storage \<Rightarrow> DatalogProgram \<Rightarrow> 'st \<Rightarrow> StorageError + DatalogResult" where
  "OneStep_evaluate S engine st =
     (case begin_read S st of Inl e \<Rightarrow> Inl e
      | Inr tx \<Rightarrow> eval_rules S st tx (prog_rules engine) DatalogResult_new)"

end
