(* ===== verification/Shacl_Report.thy ===== *)
theory Shacl_Report
  imports Storage_Trait
begin

text \<open>
  The SHACL report vocabulary of \<^verbatim>\<open>semanticore-core/src/shacl.rs\<close>, and the example
  validator \<open>MinCountOne\<close> of the \<open>ShaclValidator\<close> documentation (compiled and run as a
  test).
\<close>

datatype PropertyPath =
    Predicate NamedNode
  | Inverse PropertyPath
  | Sequence "PropertyPath list"
  | Alternative "PropertyPath list"
  | ZeroOrMore PropertyPath
  | OneOrMore PropertyPath
  | ZeroOrOne PropertyPath

datatype Severity = Violation | Warning | Info

datatype ValidationResult = ValidationResult
  (focus_node: Term)
  (result_severity: Severity)
  (source_constraint_component: NamedNode)
  (result_path: "PropertyPath option")
  (result_value: "Term option")
  (source_shape: "NamedOrBlankNode option")
  (result_message: "string option")
  (result_detail: "ValidationResult list")

record ShaclValidationReport =
  conforms :: bool
  results :: "ValidationResult list"

definition ShaclValidationReport_conforming :: ShaclValidationReport where
  "ShaclValidationReport_conforming = \<lparr>conforms = True, results = []\<rparr>"

definition from_results :: "ValidationResult list \<Rightarrow> ShaclValidationReport" where
  "from_results rs = (let c = List.null rs in \<lparr>conforms = c, results = rs\<rparr>)"

record NodeValidationResult =
  nv_focus :: NamedOrBlankNode
  nv_conforms :: bool
  nv_results :: "ValidationResult list"

section \<open>The example validator\<close>

definition SH :: string where
  "SH = ''http://www.w3.org/ns/shacl#''"

definition RDF_TYPE :: string where
  "RDF_TYPE = ''http://www.w3.org/1999/02/22-rdf-syntax-ns#type''"

definition sh :: "string \<Rightarrow> NamedNode" where
  "sh local = NamedNode (SH @ local)"

definition MinCountOne_objects :: "('st, 'tx) Storage \<Rightarrow> 'st \<Rightarrow> 'tx \<Rightarrow> NamedOrBlankNode \<Rightarrow> NamedNode \<Rightarrow>
    StorageError + Term list" where
  "MinCountOne_objects S st tx s p =
     collect_results (map (\<lambda>r. case r of Inl e \<Rightarrow> Inl e | Inr q \<Rightarrow> Inr (q_object q))
       (tx_quads_for_pattern S st tx (Some s) (Some p) None None))"

definition missing_value :: "NamedOrBlankNode \<Rightarrow> NamedOrBlankNode \<Rightarrow> NamedNode \<Rightarrow> ValidationResult" where
  "missing_value focus shape path =
     ValidationResult (Term_from_subject focus) Violation (sh ''MinCountConstraintComponent'')
       (Some (Predicate path)) None (Some shape) (Some ''missing required value'') []"

text \<open>The three nested loops, from the inside out; each leaves at the first error.\<close>

fun check_members :: "('st, 'tx) Storage \<Rightarrow> 'st \<Rightarrow> 'tx \<Rightarrow> NamedOrBlankNode option \<Rightarrow> NamedOrBlankNode \<Rightarrow>
    NamedNode \<Rightarrow> (StorageError + Quad) list \<Rightarrow> ValidationResult list \<Rightarrow> StorageError + ValidationResult list" where
  "check_members S data tx only shape path [] out = Inr out"
| "check_members S data tx only shape path (r # rs) out =
     (case r of Inl e \<Rightarrow> Inl e
      | Inr q \<Rightarrow>
         (let focus = q_subject q
          in if \<not> is_none_or only focus then check_members S data tx only shape path rs out
             else (case MinCountOne_objects S data tx focus path of Inl e \<Rightarrow> Inl e
                   | Inr objs \<Rightarrow> check_members S data tx only shape path rs
                       (if objs = [] then out @ [missing_value focus shape path] else out))))"

fun check_paths :: "('st, 'tx) Storage \<Rightarrow> 'st \<Rightarrow> 'tx \<Rightarrow> NamedOrBlankNode option \<Rightarrow> NamedOrBlankNode \<Rightarrow>
    Term \<Rightarrow> Term list \<Rightarrow> ValidationResult list \<Rightarrow> StorageError + ValidationResult list" where
  "check_paths S data tx only shape cls [] out = Inr out"
| "check_paths S data tx only shape cls (t # ts) out =
     (case t of
        TNamed path \<Rightarrow>
          (case check_members S data tx only shape path
                  (tx_quads_for_pattern S data tx None (Some (NamedNode RDF_TYPE)) (Some cls) None) out of
             Inl e \<Rightarrow> Inl e
           | Inr out' \<Rightarrow> check_paths S data tx only shape cls ts out')
      | _ \<Rightarrow> check_paths S data tx only shape cls ts out)"

fun check_targets :: "('st, 'tx) Storage \<Rightarrow> 'st \<Rightarrow> 'tx \<Rightarrow> 'st \<Rightarrow> 'tx \<Rightarrow> NamedOrBlankNode option \<Rightarrow>
    (StorageError + Quad) list \<Rightarrow> ValidationResult list \<Rightarrow> StorageError + ValidationResult list" where
  "check_targets S data dtx shapes stx only [] out = Inr out"
| "check_targets S data dtx shapes stx only (r # rs) out =
     (case r of Inl e \<Rightarrow> Inl e
      | Inr target \<Rightarrow>
         (case MinCountOne_objects S shapes stx (q_subject target) (sh ''path'') of Inl e \<Rightarrow> Inl e
          | Inr paths \<Rightarrow>
             (case check_paths S data dtx only (q_subject target) (q_object target) paths out of
                Inl e \<Rightarrow> Inl e
              | Inr out' \<Rightarrow> check_targets S data dtx shapes stx only rs out')))"

definition MinCountOne_check :: "('st, 'tx) Storage \<Rightarrow> 'st \<Rightarrow> 'st \<Rightarrow> NamedOrBlankNode option \<Rightarrow>
    StorageError + ValidationResult list" where
  "MinCountOne_check S data shapes only =
     (case begin_read S data of Inl e \<Rightarrow> Inl e
      | Inr dtx \<Rightarrow> (case begin_read S shapes of Inl e \<Rightarrow> Inl e
        | Inr stx \<Rightarrow>
            check_targets S data dtx shapes stx only
              (tx_quads_for_pattern S shapes stx None (Some (sh ''targetClass'')) None None) []))"

definition MinCountOne_validate :: "('st, 'tx) Storage \<Rightarrow> 'st \<Rightarrow> 'st \<Rightarrow> StorageError + ShaclValidationReport" where
  "MinCountOne_validate S data shapes =
     (case MinCountOne_check S data shapes None of Inl e \<Rightarrow> Inl e | Inr rs \<Rightarrow> Inr (from_results rs))"

definition MinCountOne_validate_node :: "('st, 'tx) Storage \<Rightarrow> 'st \<Rightarrow> 'st \<Rightarrow> NamedOrBlankNode \<Rightarrow>
    StorageError + NodeValidationResult" where
  "MinCountOne_validate_node S data shapes focus =
     (case MinCountOne_check S data shapes (Some focus) of Inl e \<Rightarrow> Inl e
      | Inr rs \<Rightarrow> Inr \<lparr>nv_focus = focus, nv_conforms = List.null rs, nv_results = rs\<rparr>)"

end
