(* ===== verification/Session_Model.thy ===== *)
theory Session_Model
  imports Record_Layout Datalog_Ir Shacl_Report
begin

text \<open>
  The \<open>Session\<close> of \<^verbatim>\<open>semanticore-context/src/session.rs\<close>: its state, its helpers on one
  store, its internal steps and its public operations, one definition per function.

  \<^item> Every operation takes an environment \<open>Env\<close> with the storage trait's methods, the JSON
    crate and the floating-point operations, none of which the session defines itself.
  \<^item> An operation returns its outcome together with the session, so that the effects of
    an operation that fails half-way are part of the model. The outcome of an abort is
    \<open>Err e\<close> for a returned error and \<open>Panic\<close> where the code would panic (an \<open>expect\<close> or an
    index on a missing key).
  \<^item> \<open>Instant::now()\<close> is read several times in one operation; \<open>clk k\<close> is the \<open>k\<close>-th
    reading.
  \<^item> The mutex around the state is taken for the whole of each operation, so operations
    are atomic with respect to each other.
\<close>

section \<open>State\<close>

record SessionStats =
  items_added :: nat
  queries_served :: nat
  reasoning_passes :: nat
  items_promoted :: nat
  items_demoted :: nat
  items_evicted :: nat

definition SessionStats_default :: SessionStats where
  "SessionStats_default =
     \<lparr>items_added = 0, queries_served = 0, reasoning_passes = 0,
      items_promoted = 0, items_demoted = 0, items_evicted = 0\<rparr>"

record PromotionStats =
  promoted :: nat

record ContextSnapshot =
  snap_scope :: ContextScope
  snap_items :: "(ItemId \<times> ContextItem) list"
  snap_quad_count :: nat

datatype Arrival = Added | Promoted | Demoted

record Entry =
  e_item :: ContextItem
  e_scope :: ContextScope
  e_arrival :: Arrival
  e_accesses :: nat
  e_last_touch :: Instant
  e_recent :: "Instant list"
  e_weight :: f64
  e_weight_at :: Instant

text \<open>
  The floating-point operations the recency weights use. \<open>f_as_secs\<close> is
  \<open>Duration::as_secs_f64\<close>.
\<close>

record F64Ops =
  f_add :: "f64 \<Rightarrow> f64 \<Rightarrow> f64"
  f_mul :: "f64 \<Rightarrow> f64 \<Rightarrow> f64"
  f_div :: "f64 \<Rightarrow> f64 \<Rightarrow> f64"
  f_powf :: "f64 \<Rightarrow> f64 \<Rightarrow> f64"
  f_max :: "f64 \<Rightarrow> f64 \<Rightarrow> f64"
  f_as_secs :: "Duration \<Rightarrow> f64"

definition f64_one :: f64 where "f64_one = 0x3FF0000000000000"

definition f64_half :: f64 where "f64_half = 0x3FE0000000000000"

definition f64_MIN_POSITIVE :: f64 where "f64_MIN_POSITIVE = 0x0010000000000000"

record ('st, 'tx) Env =
  env_storage :: "('st, 'tx) Storage"
  env_json :: JsonOps
  env_f64 :: F64Ops

definition Entry_new :: "ContextItem \<Rightarrow> ContextScope \<Rightarrow> Arrival \<Rightarrow> Instant \<Rightarrow> Entry" where
  "Entry_new it sc arr now =
     \<lparr>e_item = it, e_scope = sc, e_arrival = arr, e_accesses = 0, e_last_touch = now,
      e_recent = [], e_weight = f64_one, e_weight_at = now\<rparr>"

definition Entry_weight_at :: "F64Ops \<Rightarrow> Entry \<Rightarrow> Instant \<Rightarrow> Duration \<Rightarrow> f64" where
  "Entry_weight_at F e now half_life =
     (let hl = f_max F (f_as_secs F half_life) f64_MIN_POSITIVE;
          age = f_as_secs F (now - e_weight_at e)
      in f_mul F (e_weight e) (f_powf F f64_half (f_div F age hl)))"

record Settings =
  set_bounds :: ScopeBounds
  set_eviction_policy :: EvictionPolicy
  set_demotion_target :: DemotionTarget
  set_promotion :: PromotionConfig

record 'st Tiers =
  t_enduring :: 'st
  t_major :: 'st
  t_minor :: 'st

fun Tiers_get :: "'st Tiers \<Rightarrow> ContextScope \<Rightarrow> 'st" where
  "Tiers_get t Enduring = t_enduring t"
| "Tiers_get t Major = t_major t"
| "Tiers_get t Minor = t_minor t"

fun Tiers_put :: "'st Tiers \<Rightarrow> ContextScope \<Rightarrow> 'st \<Rightarrow> 'st Tiers" where
  "Tiers_put t Enduring st = t\<lparr>t_enduring := st\<rparr>"
| "Tiers_put t Major st = t\<lparr>t_major := st\<rparr>"
| "Tiers_put t Minor st = t\<lparr>t_minor := st\<rparr>"

record 'st Session =
  s_stores :: "'st Tiers"
  s_settings :: Settings
  s_items :: "(ItemId, Entry) btree_map"
  s_next_id :: nat
  s_stats :: SessionStats

datatype Abort = Err SessionError | Panic

section \<open>Helpers on one store\<close>

definition with_write :: "('st, 'tx) Storage \<Rightarrow> ('st \<Rightarrow> ('tx, SessionError, 'a) res_st) \<Rightarrow>
    ('st, SessionError, 'a) res_st" where
  "with_write S f st =
     (case begin_write S st of Inl e \<Rightarrow> (Inl (StorageFailed e), st)
      | Inr tx \<Rightarrow>
         (case f st tx of
            (Inr v, tx') \<Rightarrow>
              (case tx_commit S tx' st of
                 (Inl e, st') \<Rightarrow> (Inl (StorageFailed e), st')
               | (Inr _, st') \<Rightarrow> (Inr v, st'))
          | (Inl e, tx') \<Rightarrow> (Inl e, snd (tx_rollback S tx' st))))"

definition insert_all :: "('st, 'tx) Storage \<Rightarrow> 'st \<Rightarrow> Quad list \<Rightarrow> ('tx, SessionError, unit) res_st" where
  "insert_all S st qs tx =
     (case insert_each S st qs tx of (r, tx') \<Rightarrow> (map_err StorageFailed r, tx'))"

definition collect :: "(StorageError + Quad) list \<Rightarrow> SessionError + Quad list" where
  "collect rs = map_err StorageFailed (collect_results rs)"

definition delete :: "('st, 'tx) Storage \<Rightarrow> ItemId \<Rightarrow> ('st, SessionError, unit) res_st" where
  "delete S i =
     with_write S (\<lambda>st tx.
       (case collect (tx_quads_for_pattern S st tx None None None (Some (GNamed (item_graph i)))) of
          Inl e \<Rightarrow> (Inl e, tx)
        | Inr quads \<Rightarrow>
           (case collect (tx_quads_for_pattern S st tx (Some (NbNamed (item_graph i)))
                   (Some record_predicate) None (Some meta_graph)) of
              Inl e \<Rightarrow> (Inl e, tx)
            | Inr meta \<Rightarrow>
               (case remove_each S st (quads @ meta) tx of
                  (r, tx') \<Rightarrow> (map_err StorageFailed r, tx')))))"

definition record_id :: "Quad \<Rightarrow> ItemId option" where
  "record_id q = (case q_subject q of NbNamed n \<Rightarrow> parse_item_graph n | NbBlank _ \<Rightarrow> None)"

fun load_records :: "('st, 'tx) Storage \<Rightarrow> JsonOps \<Rightarrow> 'st \<Rightarrow> 'tx \<Rightarrow> Quad list \<Rightarrow>
    SessionError + (ItemId \<times> ContextItem) list" where
  "load_records S J st tx [] = Inr []"
| "load_records S J st tx (q # qs) =
     (case (record_id q, q_object q) of
        (Some i, TLiteral lit) \<Rightarrow>
          (case collect (tx_quads_for_pattern S st tx None None None (Some (GNamed (item_graph i)))) of
             Inl e \<Rightarrow> Inl e
           | Inr triples \<Rightarrow>
              (case decode J i (lit_value lit) triples of
                 Inl e \<Rightarrow> Inl e
               | Inr it \<Rightarrow>
                  (case load_records S J st tx qs of
                     Inl e \<Rightarrow> Inl e
                   | Inr out \<Rightarrow> Inr ((i, it) # out))))
      | _ \<Rightarrow> Inl (Corrupt (MetadataQuad (q_subject q) (q_object q))))"

definition load :: "('st, 'tx) Storage \<Rightarrow> JsonOps \<Rightarrow> ('st, SessionError, (ItemId \<times> ContextItem) list) res_st" where
  "load S J st =
     (case begin_read S st of Inl e \<Rightarrow> (Inl (StorageFailed e), st)
      | Inr tx \<Rightarrow>
         (case collect (tx_quads_for_pattern S st tx None (Some record_predicate) None (Some meta_graph)) of
            Inl e \<Rightarrow> (Inl e, st)
          | Inr records \<Rightarrow>
             (case load_records S J st tx records of
                Inl e \<Rightarrow> (Inl e, st)
              | Inr out \<Rightarrow>
                 (case tx_rollback S tx st of
                    (Inl e, st') \<Rightarrow> (Inl (StorageFailed e), st')
                  | (Inr _, st') \<Rightarrow> (Inr out, st')))))"

section \<open>Opening and closing\<close>

fun load_items :: "ContextScope \<Rightarrow> Instant \<Rightarrow> (ItemId \<times> ContextItem) list \<Rightarrow>
    (ItemId, Entry) btree_map \<Rightarrow> (ItemId, Entry) btree_map" where
  "load_items sc now [] items = items"
| "load_items sc now ((i, it) # rest) items =
     load_items sc now rest (bt_or_insert i (Entry_new it sc Added now) items)"

fun load_scopes :: "('st, 'tx) Env \<Rightarrow> Instant \<Rightarrow> ContextScope list \<Rightarrow> 'st Tiers \<times> (ItemId, Entry) btree_map \<Rightarrow>
    SessionError + ('st Tiers \<times> (ItemId, Entry) btree_map)" where
  "load_scopes E now [] (stores, items) = Inr (stores, items)"
| "load_scopes E now (sc # scs) (stores, items) =
     (case load (env_storage E) (env_json E) (Tiers_get stores sc) of
        (Inl e, _) \<Rightarrow> Inl e
      | (Inr loaded, st') \<Rightarrow>
          load_scopes E now scs (Tiers_put stores sc st', load_items sc now loaded items))"

definition first_free_id :: "(ItemId, Entry) btree_map \<Rightarrow> nat" where
  "first_free_id items = (case rev items of [] \<Rightarrow> 0 | (i, _) # _ \<Rightarrow> add64 i 1)"

definition Session_open :: "('st, 'tx) Env \<Rightarrow> (nat \<Rightarrow> Instant) \<Rightarrow> 'st SessionConfig \<Rightarrow>
    SessionError + 'st Session" where
  "Session_open E clk cfg =
     (case cfg_storage cfg of PerScope en ma mi \<Rightarrow>
        if \<not> persistent (capabilities (env_storage E) en)
        then Inl (CapabilityShortfall Enduring Persistent)
        else
         (case load_scopes E (clk 0) ContextScope_ALL
                 (\<lparr>t_enduring = en, t_major = ma, t_minor = mi\<rparr>, []) of
            Inl e \<Rightarrow> Inl e
          | Inr (stores, items) \<Rightarrow>
              Inr \<lparr>s_stores = stores,
                   s_settings = \<lparr>set_bounds = cfg_bounds cfg,
                                 set_eviction_policy = cfg_eviction_policy cfg,
                                 set_demotion_target = cfg_demotion_target cfg,
                                 set_promotion = cfg_promotion cfg\<rparr>,
                   s_items = items, s_next_id = first_free_id items,
                   s_stats = SessionStats_default\<rparr>))"

definition Session_close :: "'st Session \<Rightarrow> SessionError + SessionStats" where
  "Session_close s = Inr (s_stats s)"

section \<open>Internal steps\<close>

definition at_store :: "ContextScope \<Rightarrow> ('st, SessionError, 'a) res_st \<Rightarrow> ('st Session, Abort, 'a) res_st" where
  "at_store sc f s =
     (case f (Tiers_get (s_stores s) sc) of
        (r, st') \<Rightarrow> (map_err Err r, s\<lparr>s_stores := Tiers_put (s_stores s) sc st'\<rparr>))"

definition add_promoted :: "nat \<Rightarrow> 'st Session \<Rightarrow> 'st Session" where
  "add_promoted n s = s\<lparr>s_stats := (s_stats s)\<lparr>items_promoted := add64 (items_promoted (s_stats s)) n\<rparr>\<rparr>"

definition add_demoted :: "nat \<Rightarrow> 'st Session \<Rightarrow> 'st Session" where
  "add_demoted n s = s\<lparr>s_stats := (s_stats s)\<lparr>items_demoted := add64 (items_demoted (s_stats s)) n\<rparr>\<rparr>"

definition move_item :: "('st, 'tx) Env \<Rightarrow> ItemId \<Rightarrow> ContextScope \<Rightarrow> Arrival \<Rightarrow> ('st Session, Abort, unit) res_st" where
  "move_item E i to arrival s =
     (case bt_get (s_items s) i of None \<Rightarrow> (Inl Panic, s)
      | Some entry \<Rightarrow>
          try_bind (at_store to (with_write (env_storage E)
                      (\<lambda>st. insert_all (env_storage E) st (encode (env_json E) i (e_item entry)))))
            (\<lambda>_. try_bind (at_store (e_scope entry) (delete (env_storage E) i))
              (\<lambda>_. modify (\<lambda>s. s\<lparr>s_items := bt_adjust i
                  (\<lambda>e. e\<lparr>e_scope := to, e_arrival := arrival,
                         e_recent := (if arrival = Demoted then [] else e_recent e)\<rparr>) (s_items s)\<rparr>))) s)"

definition drop_item :: "('st, 'tx) Env \<Rightarrow> ItemId \<Rightarrow> ('st Session, Abort, unit) res_st" where
  "drop_item E i s =
     (case bt_get (s_items s) i of None \<Rightarrow> (Inl Panic, s)
      | Some entry \<Rightarrow>
          try_bind (at_store (e_scope entry) (delete (env_storage E) i))
            (\<lambda>_. modify (\<lambda>s. s\<lparr>s_items := bt_remove i (s_items s),
                s_stats := (s_stats s)\<lparr>items_evicted := add64 (items_evicted (s_stats s)) 1\<rparr>\<rparr>)) s)"

definition scope_entries :: "(ItemId, Entry) btree_map \<Rightarrow> ContextScope \<Rightarrow> (ItemId \<times> Entry) list" where
  "scope_entries items sc = filter (\<lambda>p. e_scope (snd p) = sc) items"

definition victims :: "F64Ops \<Rightarrow> EvictionPolicy \<Rightarrow> Instant \<Rightarrow> (ItemId, Entry) btree_map \<Rightarrow>
    ContextScope \<Rightarrow> nat \<Rightarrow> ItemId list" where
  "victims F policy now items sc count =
     (let candidates = scope_entries items sc;
          ordered = (case policy of
              Lru \<Rightarrow> sort_by_key (\<lambda>p. e_last_touch (snd p)) candidates
            | Lfu \<Rightarrow> sort_by_key (\<lambda>p. e_accesses (snd p)) candidates
            | RecencyWeighted half_life \<Rightarrow>
                sort_by_key (\<lambda>p. f64_total_key (Entry_weight_at F (snd p) now half_life)) candidates)
      in map fst (take count ordered))"

definition Session_victims :: "('st, 'tx) Env \<Rightarrow> Instant \<Rightarrow> 'st Session \<Rightarrow> ContextScope \<Rightarrow> nat \<Rightarrow> ItemId list" where
  "Session_victims E now s sc count =
     victims (env_f64 E) (set_eviction_policy (s_settings s)) now (s_items s) sc count"

definition demote_target :: "DemotionTarget \<Rightarrow> ContextScope \<Rightarrow> Entry option \<Rightarrow> Abort + ContextScope option" where
  "demote_target dt sc entry =
     (case dt of
        Drop \<Rightarrow> Inr None
      | NextColder \<Rightarrow> Inr (colder sc)
      | OneStepThenDrop \<Rightarrow>
          (case entry of None \<Rightarrow> Inl Panic
           | Some e \<Rightarrow> (case e_arrival e of
               Promoted \<Rightarrow> Inr (colder sc)
             | Added \<Rightarrow> Inr None
             | Demoted \<Rightarrow> Inr None)))"

definition evict_victim :: "('st, 'tx) Env \<Rightarrow> ContextScope \<Rightarrow> ItemId \<Rightarrow> ('st Session, Abort, unit) res_st" where
  "evict_victim E sc i s =
     (case demote_target (set_demotion_target (s_settings s)) sc (bt_get (s_items s) i) of
        Inl a \<Rightarrow> (Inl a, s)
      | Inr (Some c) \<Rightarrow>
          try_bind (move_item E i c Demoted)
            (\<lambda>_. modify (add_demoted 1)) s
      | Inr None \<Rightarrow> drop_item E i s)"

definition evict_victims :: "('st, 'tx) Env \<Rightarrow> ContextScope \<Rightarrow> ItemId list \<Rightarrow> ('st Session, Abort, unit) res_st" where
  "evict_victims E sc = for_each (evict_victim E sc)"

definition enforce_scope :: "('st, 'tx) Env \<Rightarrow> Instant \<Rightarrow> ContextScope \<Rightarrow> ('st Session, Abort, unit) res_st" where
  "enforce_scope E now sc s =
     (case ScopeBounds_get (set_bounds (s_settings s)) sc of
        None \<Rightarrow> (Inr (), s)
      | Some bound \<Rightarrow>
          (let count = length (scope_entries (s_items s) sc)
           in if bound < count
              then evict_victims E sc (Session_victims E now s sc (count - bound)) s
              else (Inr (), s)))"

function enforce_bounds :: "('st, 'tx) Env \<Rightarrow> (nat \<Rightarrow> Instant) \<Rightarrow> nat \<Rightarrow> ContextScope \<Rightarrow>
    ('st Session, Abort, unit) res_st" where
  "enforce_bounds E clk k sc s =
     (case enforce_scope E (clk k) sc s of
        (Inl a, s') \<Rightarrow> (Inl a, s')
      | (Inr _, s') \<Rightarrow>
         (case colder sc of None \<Rightarrow> (Inr (), s')
          | Some c \<Rightarrow> enforce_bounds E clk (Suc k) c s'))"
  by pat_completeness auto
termination
  by (relation "measure (\<lambda>(E, clk, k, sc, s). scope_rank sc)")
    (auto dest!: colder_less simp: scope_less_iff)

declare enforce_bounds.simps [simp del]

section \<open>Checks\<close>

definition validate_graphs :: "ContextItem \<Rightarrow> bool" where
  "validate_graphs it =
     (case payload it of Triples quads \<Rightarrow> \<not> list_ex (\<lambda>q. q_graph q \<noteq> GDefault) quads
      | Event _ _ \<Rightarrow> True | Chunk _ _ \<Rightarrow> True)"

definition validate_embedding :: "ContextItem \<Rightarrow> bool" where
  "validate_embedding it =
     (case embedding it of None \<Rightarrow> True | Some v \<Rightarrow> \<not> list_ex (\<lambda>x. \<not> f32_is_finite x) v)"

definition validate :: "(ItemId, Entry) btree_map \<Rightarrow> ContextItem \<Rightarrow> SessionError + unit" where
  "validate items it =
     (if trim_is_empty (prov_source (provenance it)) then Inl MissingProvenance
      else if \<not> validate_graphs it then Inl (InvalidItem ''triples must be in the default graph'')
      else if \<not> validate_embedding it then Inl (InvalidItem ''embedding values must be finite'')
      else (case List.find (\<lambda>i. bt_get items i = None) (derived_from (provenance it)) of
              Some i \<Rightarrow> Inl (UnknownItem i)
            | None \<Rightarrow> Inr ()))"

fun validate_all :: "(ItemId, Entry) btree_map \<Rightarrow> ContextItem list \<Rightarrow> SessionError + unit" where
  "validate_all items [] = Inr ()"
| "validate_all items (it # its) =
     (case validate items it of Inl e \<Rightarrow> Inl e | Inr _ \<Rightarrow> validate_all items its)"

fun check_each :: "(ItemId, Entry) btree_map \<Rightarrow> ContextScope \<Rightarrow> ItemId list \<Rightarrow> SessionError + unit" where
  "check_each items sc [] = Inr ()"
| "check_each items sc (i # ids) =
     (case bt_get items i of
        None \<Rightarrow> Inl (UnknownItem i)
      | Some e \<Rightarrow> if e_scope e \<noteq> sc then Inl (ScopeMismatch i sc (e_scope e))
          else check_each items sc ids)"

definition check_in_scope :: "(ItemId, Entry) btree_map \<Rightarrow> ItemId list \<Rightarrow> ContextScope \<Rightarrow>
    SessionError + ItemId list" where
  "check_in_scope items ids sc =
     (let unique = dedup_seen [] ids
      in case check_each items sc unique of Inl e \<Rightarrow> Inl e | Inr _ \<Rightarrow> Inr unique)"

section \<open>Adding and removing\<close>

definition write_batch :: "('st, 'tx) Env \<Rightarrow> 'st \<Rightarrow> (ItemId \<times> ContextItem) list \<Rightarrow> ('tx, SessionError, unit) res_st" where
  "write_batch E st = for_each (\<lambda>(i, it). insert_all (env_storage E) st (encode (env_json E) i it))"

fun insert_entries :: "ContextScope \<Rightarrow> Instant \<Rightarrow> (ItemId \<times> ContextItem) list \<Rightarrow>
    (ItemId, Entry) btree_map \<Rightarrow> (ItemId, Entry) btree_map" where
  "insert_entries sc now [] items = items"
| "insert_entries sc now ((i, it) # rest) items =
     insert_entries sc now rest (bt_insert i (Entry_new it sc Added now) items)"

definition Session_add_batch :: "('st, 'tx) Env \<Rightarrow> (nat \<Rightarrow> Instant) \<Rightarrow> ContextScope \<Rightarrow> ContextItem list \<Rightarrow>
    ('st Session, Abort, ItemId list) res_st" where
  "Session_add_batch E clk sc items s =
     (case validate_all (s_items s) items of Inl e \<Rightarrow> (Inl (Err e), s)
      | Inr _ \<Rightarrow>
         (let first = s_next_id s; last = add64 first (length items); ids = [first..<last]
          in try_bind (at_store sc (with_write (env_storage E) (\<lambda>st. write_batch E st (zip ids items))))
              (\<lambda>_. try_bind (modify (\<lambda>s. s\<lparr>s_next_id := last,
                      s_items := insert_entries sc (clk 0) (zip ids items) (s_items s),
                      s_stats := (s_stats s)\<lparr>items_added := add64 (items_added (s_stats s)) (length items)\<rparr>\<rparr>))
                (\<lambda>_. try_bind (enforce_bounds E clk 1 sc) (\<lambda>_. ok ids))) s))"

definition Session_add :: "('st, 'tx) Env \<Rightarrow> (nat \<Rightarrow> Instant) \<Rightarrow> ContextScope \<Rightarrow> ContextItem \<Rightarrow>
    ('st Session, Abort, ItemId) res_st" where
  "Session_add E clk sc it =
     try_bind (Session_add_batch E clk sc [it])
       (\<lambda>ids. case ids of [] \<Rightarrow> throw Panic | i # _ \<Rightarrow> ok i)"

definition Session_remove :: "('st, 'tx) Env \<Rightarrow> ContextScope \<Rightarrow> ItemId \<Rightarrow> ('st Session, Abort, bool) res_st" where
  "Session_remove E sc i s =
     (if map_option e_scope (bt_get (s_items s) i) \<noteq> Some sc then (Inr False, s)
      else try_bind (at_store sc (delete (env_storage E) i))
             (\<lambda>_. try_bind (modify (\<lambda>s. s\<lparr>s_items := bt_remove i (s_items s)\<rparr>)) (\<lambda>_. ok True)) s)"

section \<open>Promotion and eviction\<close>

definition move_items :: "('st, 'tx) Env \<Rightarrow> ContextScope \<Rightarrow> Arrival \<Rightarrow> ItemId list \<Rightarrow> ('st Session, Abort, unit) res_st" where
  "move_items E to arrival = for_each (\<lambda>i. move_item E i to arrival)"

definition Session_promote :: "('st, 'tx) Env \<Rightarrow> (nat \<Rightarrow> Instant) \<Rightarrow> ItemId list \<Rightarrow> ContextScope \<Rightarrow> ContextScope \<Rightarrow>
    ('st Session, Abort, PromotionStats) res_st" where
  "Session_promote E clk ids from to s =
     (if to < from then (Inl (Err (DurabilityViolation from to)), s)
      else (case check_in_scope (s_items s) ids from of Inl e \<Rightarrow> (Inl (Err e), s)
        | Inr items \<Rightarrow>
            if to = from then (Inr \<lparr>promoted = 0\<rparr>, s)
            else try_bind (move_items E to Promoted items)
              (\<lambda>_. try_bind (modify (add_promoted (length items)))
                (\<lambda>_. try_bind (enforce_bounds E clk 0 to)
                  (\<lambda>_. ok \<lparr>promoted = length items\<rparr>))) s))"

definition Session_evict :: "('st, 'tx) Env \<Rightarrow> (nat \<Rightarrow> Instant) \<Rightarrow> ContextScope \<Rightarrow> EvictionCriteria \<Rightarrow>
    ('st Session, Abort, nat) res_st" where
  "Session_evict E clk sc criteria s =
     (case criteria of
        Items ids \<Rightarrow>
          (case check_in_scope (s_items s) ids sc of Inl e \<Rightarrow> (Inl (Err e), s)
           | Inr ids' \<Rightarrow> try_bind (for_each (drop_item E) ids') (\<lambda>_. ok (length ids')) s)
      | Demote ids to \<Rightarrow>
          (if sc \<le> to then (Inl (Err (DurabilityViolation sc to)), s)
           else (case check_in_scope (s_items s) ids sc of Inl e \<Rightarrow> (Inl (Err e), s)
             | Inr items \<Rightarrow>
                 try_bind (move_items E to Demoted items)
                   (\<lambda>_. try_bind (modify (add_demoted (length items)))
                     (\<lambda>_. try_bind (enforce_bounds E clk 0 to) (\<lambda>_. ok (length items)))) s))
      | Policy count \<Rightarrow>
          (let vs = Session_victims E (clk 0) s sc count
           in try_bind (evict_victims E sc vs)
                (\<lambda>_. case colder sc of
                    None \<Rightarrow> ok (length vs)
                  | Some c \<Rightarrow> try_bind (enforce_bounds E clk 1 c) (\<lambda>_. ok (length vs))) s))"

section \<open>Queries\<close>

text \<open>
  The scan of one scope: matching quads of live items of the scope are counted, and their
  items collected in a \<open>BTreeSet\<close> (a sorted list without repetitions).
\<close>

fun scan :: "(ItemId, Entry) btree_map \<Rightarrow> ContextScope \<Rightarrow> (StorageError + Quad) list \<Rightarrow> nat \<Rightarrow> ItemId list \<Rightarrow>
    SessionError + (nat \<times> ItemId list)" where
  "scan items sc [] matched found = Inr (matched, found)"
| "scan items sc (r # rs) matched found =
     (case r of Inl e \<Rightarrow> Inl (StorageFailed e)
      | Inr q \<Rightarrow>
         (case q_graph q of GDefault \<Rightarrow> scan items sc rs matched found
          | GNamed g \<Rightarrow>
             (case parse_item_graph g of None \<Rightarrow> scan items sc rs matched found
              | Some i \<Rightarrow>
                  if (case bt_get items i of None \<Rightarrow> False | Some e \<Rightarrow> e_scope e = sc)
                  then scan items sc rs (Suc matched) (insort_insert i found)
                  else scan items sc rs matched found)))"

definition query_scope :: "('st, 'tx) Storage \<Rightarrow> (ItemId, Entry) btree_map \<Rightarrow> QuadPattern \<Rightarrow> ContextScope \<Rightarrow>
    nat \<Rightarrow> ('st, SessionError, nat \<times> ItemId list) res_st" where
  "query_scope S items pat sc matched st =
     (case begin_read S st of Inl e \<Rightarrow> (Inl (StorageFailed e), st)
      | Inr tx \<Rightarrow>
         (case scan items sc (tx_quads_for_pattern S st tx (pat_subject pat) (pat_predicate pat)
                 (pat_object pat) None) matched [] of
            Inl e \<Rightarrow> (Inl e, st)
          | Inr res \<Rightarrow>
             (case tx_rollback S tx st of
                (Inl e, st') \<Rightarrow> (Inl (StorageFailed e), st')
              | (Inr _, st') \<Rightarrow> (Inr res, st'))))"

fun query_scopes :: "('st, 'tx) Env \<Rightarrow> QuadPattern \<Rightarrow> ContextScope list \<Rightarrow> nat \<Rightarrow> (ItemId \<times> ContextScope) list \<Rightarrow>
    ('st Session, Abort, nat \<times> (ItemId \<times> ContextScope) list) res_st" where
  "query_scopes E pat [] matched hits s = (Inr (matched, hits), s)"
| "query_scopes E pat (sc # scs) matched hits s =
     (case at_store sc (query_scope (env_storage E) (s_items s) pat sc matched) s of
        (Inl a, s') \<Rightarrow> (Inl a, s')
      | (Inr (matched', found), s') \<Rightarrow>
          query_scopes E pat scs matched' (hits @ map (\<lambda>i. (i, sc)) found) s')"

definition Entry_touch :: "F64Ops \<Rightarrow> Instant \<Rightarrow> Duration \<Rightarrow> Duration option \<Rightarrow> Entry \<Rightarrow> Entry" where
  "Entry_touch F now window half_life e =
     (let e' = e\<lparr>e_accesses := add64 (e_accesses e) 1, e_last_touch := now,
                 e_recent := dropWhile (\<lambda>t. window < now - t) (e_recent e @ [now])\<rparr>
      in case half_life of None \<Rightarrow> e'
         | Some hl \<Rightarrow> e'\<lparr>e_weight := f_add F (Entry_weight_at F e' now hl) f64_one, e_weight_at := now\<rparr>)"

fun touch_hits :: "F64Ops \<Rightarrow> Instant \<Rightarrow> Duration \<Rightarrow> Duration option \<Rightarrow> (ItemId \<times> ContextScope) list \<Rightarrow>
    ('st Session, Abort, RankedItem list) res_st" where
  "touch_hits F now window half_life [] s = (Inr [], s)"
| "touch_hits F now window half_life ((i, sc) # hits) s =
     (case bt_get (s_items s) i of None \<Rightarrow> (Inl Panic, s)
      | Some e \<Rightarrow>
         (case touch_hits F now window half_life hits
                 (s\<lparr>s_items := bt_adjust i (Entry_touch F now window half_life) (s_items s)\<rparr>) of
            (Inl a, s') \<Rightarrow> (Inl a, s')
          | (Inr rs, s') \<Rightarrow>
              (Inr (\<lparr>ri_id = i, ri_item = e_item e, ri_score = f64_one, ri_source_scope = sc\<rparr> # rs), s')))"

section \<open>Auto-promotion\<close>

text \<open>
  \<open>references\<close>: for every item the set of items it cites (a \<open>BTreeSet\<close>, so each once and
  in order), itself excluded, each cited id counted. The hash map is a function that is 0
  where the map has no entry, as the code reads it.
\<close>

definition cited :: "ItemId \<times> Entry \<Rightarrow> ItemId list" where
  "cited p = filter (\<lambda>c. c \<noteq> fst p) (sort (remdups (derived_from (provenance (e_item (snd p))))))"

definition references :: "(ItemId, Entry) btree_map \<Rightarrow> ItemId \<Rightarrow> nat" where
  "references items = fold (\<lambda>p m. fold (\<lambda>c m. m(c := m c + 1)) (cited p) m) items (\<lambda>_. 0)"

definition in_window :: "PromotionConfig \<Rightarrow> Instant \<Rightarrow> Entry \<Rightarrow> nat" where
  "in_window cfg now e = length (filter (\<lambda>t. now - t \<le> minor_window cfg) (e_recent e))"

definition to_enduring :: "PromotionConfig \<Rightarrow> (ItemId, Entry) btree_map \<Rightarrow> ItemId list" where
  "to_enduring cfg items =
     map fst (filter (\<lambda>(i, e). e_scope e = Major \<and> major_to_enduring_references cfg < references items i) items)"

definition to_major :: "PromotionConfig \<Rightarrow> Instant \<Rightarrow> (ItemId, Entry) btree_map \<Rightarrow> ItemId list" where
  "to_major cfg now items =
     map fst (filter (\<lambda>(i, e). e_scope e = Minor \<and> minor_to_major_accesses cfg < in_window cfg now e) items)"

definition auto_promote :: "('st, 'tx) Env \<Rightarrow> (nat \<Rightarrow> Instant) \<Rightarrow> nat \<Rightarrow> Instant \<Rightarrow> ('st Session, Abort, nat) res_st" where
  "auto_promote E clk k now s =
     (let cfg = set_promotion (s_settings s);
          en = to_enduring cfg (s_items s);
          ma = to_major cfg now (s_items s);
          n = length en + length ma
      in try_bind (move_items E Enduring Promoted en)
          (\<lambda>_. try_bind (move_items E Major Promoted ma)
            (\<lambda>_. try_bind (modify (add_promoted n))
              (\<lambda>_. try_bind (if en \<noteq> [] then enforce_bounds E clk k Enduring
                       else if ma \<noteq> [] then enforce_bounds E clk k Major
                       else ok ())
                (\<lambda>_. ok n)))) s)"

definition policy_half_life :: "EvictionPolicy \<Rightarrow> Duration option" where
  "policy_half_life p = (case p of RecencyWeighted hl \<Rightarrow> Some hl | Lru \<Rightarrow> None | Lfu \<Rightarrow> None)"

definition truncate_hits :: "nat option \<Rightarrow> 'a list \<Rightarrow> 'a list" where
  "truncate_hits limit xs = (case limit of None \<Rightarrow> xs | Some n \<Rightarrow> take n xs)"

definition run_pattern :: "('st, 'tx) Env \<Rightarrow> (nat \<Rightarrow> Instant) \<Rightarrow> ContextQuery \<Rightarrow> QuadPattern \<Rightarrow>
    ('st Session, Abort, ContextQueryResult) res_st" where
  "run_pattern E clk query pat s =
     (let scopes = ScopeSelection_scopes (qy_scopes query);
          cfg = set_promotion (s_settings s);
          now = clk 0
      in try_bind (query_scopes E pat scopes 0 [])
          (\<lambda>(matched, hits).
             try_bind (touch_hits (env_f64 E) now (minor_window cfg)
                 (policy_half_life (set_eviction_policy (s_settings s))) (truncate_hits (qy_limit query) hits))
               (\<lambda>items. try_bind (modify (\<lambda>s. s\<lparr>s_stats :=
                     (s_stats s)\<lparr>queries_served := add64 (queries_served (s_stats s)) 1\<rparr>\<rparr>))
                 (\<lambda>_. try_bind (if cadence cfg = AfterEachQuery then auto_promote E clk 1 now else ok 0)
                   (\<lambda>n. ok \<lparr>res_items = items,
                            res_query_stats = \<lparr>scopes_consulted = length scopes,
                              quads_matched = matched, auto_promoted = n\<rparr>\<rparr>)))) s)"

definition nyi :: "Unimplemented \<Rightarrow> SessionError" where
  "nyi what = NotYetImplemented what"

definition Session_query :: "('st, 'tx) Env \<Rightarrow> (nat \<Rightarrow> Instant) \<Rightarrow> ContextQuery \<Rightarrow>
    ('st Session, Abort, ContextQueryResult) res_st" where
  "Session_query E clk query s =
     (case qy_kind query of
        SparqlQuery _ \<Rightarrow> (Inl (Err (nyi Sparql)), s)
      | Similarity _ _ \<Rightarrow> (Inl (Err (nyi AnnIndex)), s)
      | Inference _ \<Rightarrow> (Inl (Err (nyi OwlElReasoner)), s)
      | Pattern p \<Rightarrow>
          if qy_reasoner_hint query \<noteq> None then (Inl (Err (nyi OwlElReasoner)), s)
          else run_pattern E clk query p s)"

section \<open>Reserved operations and inspection\<close>

record ReasoningStats =
  reason_quads_added :: nat

definition Session_reason :: "ContextScope \<Rightarrow> ('st Session, SessionError, ReasoningStats) res_st" where
  "Session_reason sc s = (Inl (nyi OwlElReasoner), s)"

definition Session_validate :: "'st Session \<Rightarrow> ContextScope \<Rightarrow> ContextScope \<Rightarrow> SessionError + ShaclValidationReport" where
  "Session_validate s data shapes = Inl (PremiumOnly ShaclUnavailable)"

definition Session_evaluate_datalog :: "'st Session \<Rightarrow> DatalogProgram \<Rightarrow> ContextScope \<Rightarrow> SessionError + DatalogResult" where
  "Session_evaluate_datalog s program sc = Inl (PremiumOnly DatalogUnavailable)"

definition Session_snapshot :: "('st, 'tx) Env \<Rightarrow> 'st Session \<Rightarrow> ContextScope \<Rightarrow> SessionError + ContextSnapshot" where
  "Session_snapshot E s sc =
     (let items = map (\<lambda>(i, e). (i, e_item e)) (scope_entries (s_items s) sc)
      in case quad_count (env_storage E) (Tiers_get (s_stores s) sc) of
           Inl e \<Rightarrow> Inl (StorageFailed e)
         | Inr n \<Rightarrow> Inr \<lparr>snap_scope = sc, snap_items = items, snap_quad_count = n\<rparr>)"

definition Session_scope_of :: "'st Session \<Rightarrow> ItemId \<Rightarrow> ContextScope option" where
  "Session_scope_of s i = map_option e_scope (bt_get (s_items s) i)"

definition Session_item_count :: "'st Session \<Rightarrow> ContextScope \<Rightarrow> nat" where
  "Session_item_count s sc = length (scope_entries (s_items s) sc)"

end
