(* ===== verification/Session_Spec.thy ===== *)
theory Session_Spec
  imports Session_Model
begin

text \<open>
  The abstract session: what the operations do to the index of items, with no stores.

  An \<open>Index\<close> is the session's state without its stores. The operations below are the
  specification that \<open>Session_Refine\<close> shows the session to implement: a query is answered
  from the items themselves, and the other operations only move, drop and add entries.
  An abstract step that must not be taken (a move of an unknown item, or of an item to
  the scope it is in) is the outcome \<open>Panic\<close>; \<open>Session_Index\<close> shows that no operation
  has that outcome on a well-formed index.
\<close>

record Index =
  ix_settings :: Settings
  ix_items :: "(ItemId, Entry) btree_map"
  ix_next_id :: nat
  ix_stats :: SessionStats

definition index_of :: "'st Session \<Rightarrow> Index" where
  "index_of s = \<lparr>ix_settings = s_settings s, ix_items = s_items s, ix_next_id = s_next_id s,
                 ix_stats = s_stats s\<rparr>"

lemma index_of_sel [simp]:
  "ix_settings (index_of s) = s_settings s" "ix_items (index_of s) = s_items s"
  "ix_next_id (index_of s) = s_next_id s" "ix_stats (index_of s) = s_stats s"
  by (simp_all add: index_of_def)

section \<open>Steps\<close>

definition Entry_moved :: "ContextScope \<Rightarrow> Arrival \<Rightarrow> Entry \<Rightarrow> Entry" where
  "Entry_moved to arrival e =
     e\<lparr>e_scope := to, e_arrival := arrival, e_recent := (if arrival = Demoted then [] else e_recent e)\<rparr>"

definition ix_promoted :: "nat \<Rightarrow> Index \<Rightarrow> Index" where
  "ix_promoted n x = x\<lparr>ix_stats := (ix_stats x)\<lparr>items_promoted := add64 (items_promoted (ix_stats x)) n\<rparr>\<rparr>"

definition ix_demoted :: "nat \<Rightarrow> Index \<Rightarrow> Index" where
  "ix_demoted n x = x\<lparr>ix_stats := (ix_stats x)\<lparr>items_demoted := add64 (items_demoted (ix_stats x)) n\<rparr>\<rparr>"

definition ix_move :: "ItemId \<Rightarrow> ContextScope \<Rightarrow> Arrival \<Rightarrow> (Index, Abort, unit) res_st" where
  "ix_move i to arrival x =
     (case bt_get (ix_items x) i of None \<Rightarrow> (Inl Panic, x)
      | Some e \<Rightarrow> if e_scope e = to then (Inl Panic, x)
          else (Inr (), x\<lparr>ix_items := bt_adjust i (Entry_moved to arrival) (ix_items x)\<rparr>))"

definition ix_drop :: "ItemId \<Rightarrow> (Index, Abort, unit) res_st" where
  "ix_drop i x =
     (case bt_get (ix_items x) i of None \<Rightarrow> (Inl Panic, x)
      | Some e \<Rightarrow> (Inr (), x\<lparr>ix_items := bt_remove i (ix_items x),
           ix_stats := (ix_stats x)\<lparr>items_evicted := add64 (items_evicted (ix_stats x)) 1\<rparr>\<rparr>))"

definition ix_evict_victim :: "ContextScope \<Rightarrow> ItemId \<Rightarrow> (Index, Abort, unit) res_st" where
  "ix_evict_victim sc i x =
     (case demote_target (set_demotion_target (ix_settings x)) sc (bt_get (ix_items x) i) of
        Inl a \<Rightarrow> (Inl a, x)
      | Inr (Some c) \<Rightarrow> try_bind (ix_move i c Demoted) (\<lambda>_. modify (ix_demoted 1)) x
      | Inr None \<Rightarrow> ix_drop i x)"

definition ix_victims :: "F64Ops \<Rightarrow> Instant \<Rightarrow> Index \<Rightarrow> ContextScope \<Rightarrow> nat \<Rightarrow> ItemId list" where
  "ix_victims F now x sc count = victims F (set_eviction_policy (ix_settings x)) now (ix_items x) sc count"

definition ix_enforce_scope :: "F64Ops \<Rightarrow> Instant \<Rightarrow> ContextScope \<Rightarrow> (Index, Abort, unit) res_st" where
  "ix_enforce_scope F now sc x =
     (case ScopeBounds_get (set_bounds (ix_settings x)) sc of
        None \<Rightarrow> (Inr (), x)
      | Some bound \<Rightarrow>
          (let count = length (scope_entries (ix_items x) sc)
           in if bound < count
              then for_each (ix_evict_victim sc) (ix_victims F now x sc (count - bound)) x
              else (Inr (), x)))"

function ix_enforce :: "F64Ops \<Rightarrow> (nat \<Rightarrow> Instant) \<Rightarrow> nat \<Rightarrow> ContextScope \<Rightarrow> (Index, Abort, unit) res_st" where
  "ix_enforce F clk k sc x =
     try_bind (ix_enforce_scope F (clk k) sc)
       (\<lambda>_. case colder sc of None \<Rightarrow> ok () | Some c \<Rightarrow> ix_enforce F clk (Suc k) c) x"
  by pat_completeness auto
termination
  by (relation "measure (\<lambda>(F, clk, k, sc, x). scope_rank sc)")
    (auto dest!: colder_less simp: scope_less_iff)

declare ix_enforce.simps [simp del]

section \<open>Operations\<close>

definition ix_add_batch :: "F64Ops \<Rightarrow> (nat \<Rightarrow> Instant) \<Rightarrow> ContextScope \<Rightarrow> ContextItem list \<Rightarrow>
    (Index, Abort, ItemId list) res_st" where
  "ix_add_batch F clk sc items x =
     (case validate_all (ix_items x) items of Inl e \<Rightarrow> (Inl (Err e), x)
      | Inr _ \<Rightarrow>
         (let first = ix_next_id x; last = first + length items; ids = [first..<last]
          in if 2 ^ 64 \<le> last then (Inl Panic, x)
             else try_bind (modify (\<lambda>x. x\<lparr>ix_next_id := last,
                      ix_items := insert_entries sc (clk 0) (zip ids items) (ix_items x),
                      ix_stats := (ix_stats x)\<lparr>items_added := add64 (items_added (ix_stats x)) (length items)\<rparr>\<rparr>))
                (\<lambda>_. try_bind (ix_enforce F clk 1 sc) (\<lambda>_. ok ids)) x))"

definition ix_remove :: "ContextScope \<Rightarrow> ItemId \<Rightarrow> (Index, Abort, bool) res_st" where
  "ix_remove sc i x =
     (if map_option e_scope (bt_get (ix_items x) i) \<noteq> Some sc then (Inr False, x)
      else (Inr True, x\<lparr>ix_items := bt_remove i (ix_items x)\<rparr>))"

definition ix_move_all :: "ContextScope \<Rightarrow> Arrival \<Rightarrow> ItemId list \<Rightarrow> (Index, Abort, unit) res_st" where
  "ix_move_all to arrival = for_each (\<lambda>i. ix_move i to arrival)"

definition ix_promote :: "F64Ops \<Rightarrow> (nat \<Rightarrow> Instant) \<Rightarrow> ItemId list \<Rightarrow> ContextScope \<Rightarrow> ContextScope \<Rightarrow>
    (Index, Abort, PromotionStats) res_st" where
  "ix_promote F clk ids from to x =
     (if to < from then (Inl (Err (DurabilityViolation from to)), x)
      else (case check_in_scope (ix_items x) ids from of Inl e \<Rightarrow> (Inl (Err e), x)
        | Inr items \<Rightarrow>
            if to = from then (Inr \<lparr>promoted = 0\<rparr>, x)
            else try_bind (ix_move_all to Promoted items)
              (\<lambda>_. try_bind (modify (ix_promoted (length items)))
                (\<lambda>_. try_bind (ix_enforce F clk 0 to) (\<lambda>_. ok \<lparr>promoted = length items\<rparr>))) x))"

definition ix_evict :: "F64Ops \<Rightarrow> (nat \<Rightarrow> Instant) \<Rightarrow> ContextScope \<Rightarrow> EvictionCriteria \<Rightarrow>
    (Index, Abort, nat) res_st" where
  "ix_evict F clk sc criteria x =
     (case criteria of
        Items ids \<Rightarrow>
          (case check_in_scope (ix_items x) ids sc of Inl e \<Rightarrow> (Inl (Err e), x)
           | Inr ids' \<Rightarrow> try_bind (for_each ix_drop ids') (\<lambda>_. ok (length ids')) x)
      | Demote ids to \<Rightarrow>
          (if sc \<le> to then (Inl (Err (DurabilityViolation sc to)), x)
           else (case check_in_scope (ix_items x) ids sc of Inl e \<Rightarrow> (Inl (Err e), x)
             | Inr items \<Rightarrow>
                 try_bind (ix_move_all to Demoted items)
                   (\<lambda>_. try_bind (modify (ix_demoted (length items)))
                     (\<lambda>_. try_bind (ix_enforce F clk 0 to) (\<lambda>_. ok (length items)))) x))
      | Policy count \<Rightarrow>
          (let vs = ix_victims F (clk 0) x sc count
           in try_bind (for_each (ix_evict_victim sc) vs)
                (\<lambda>_. case colder sc of
                    None \<Rightarrow> ok (length vs)
                  | Some c \<Rightarrow> try_bind (ix_enforce F clk 1 c) (\<lambda>_. ok (length vs))) x))"

section \<open>Queries\<close>

text \<open>The triples of an item that match a pattern, each once.\<close>

definition item_matches :: "QuadPattern \<Rightarrow> ContextItem \<Rightarrow> Quad list" where
  "item_matches pat it =
     remdups (filter (\<lambda>q. matches_pattern q (pat_subject pat) (pat_predicate pat) (pat_object pat) None)
       (triples_of it))"

text \<open>
  The items a query finds: scope by scope in the order the query consults them, and by id
  within a scope.
\<close>

definition hits_in :: "QuadPattern \<Rightarrow> (ItemId, Entry) btree_map \<Rightarrow> ContextScope \<Rightarrow> (ItemId \<times> ContextScope) list" where
  "hits_in pat items sc =
     map (\<lambda>(i, e). (i, sc)) (filter (\<lambda>(i, e). item_matches pat (e_item e) \<noteq> []) (scope_entries items sc))"

definition matched_in :: "QuadPattern \<Rightarrow> (ItemId, Entry) btree_map \<Rightarrow> ContextScope \<Rightarrow> nat" where
  "matched_in pat items sc = sum_list (map (\<lambda>(i, e). length (item_matches pat (e_item e))) (scope_entries items sc))"

fun ix_touch :: "F64Ops \<Rightarrow> Instant \<Rightarrow> Duration \<Rightarrow> Duration option \<Rightarrow> (ItemId \<times> ContextScope) list \<Rightarrow>
    (Index, Abort, RankedItem list) res_st" where
  "ix_touch F now window half_life [] x = (Inr [], x)"
| "ix_touch F now window half_life ((i, sc) # hits) x =
     (case bt_get (ix_items x) i of None \<Rightarrow> (Inl Panic, x)
      | Some e \<Rightarrow>
         (case ix_touch F now window half_life hits
                 (x\<lparr>ix_items := bt_adjust i (Entry_touch F now window half_life) (ix_items x)\<rparr>) of
            (Inl a, x') \<Rightarrow> (Inl a, x')
          | (Inr rs, x') \<Rightarrow>
              (Inr (\<lparr>ri_id = i, ri_item = e_item e, ri_score = f64_one, ri_source_scope = sc\<rparr> # rs), x')))"

definition ix_auto_promote :: "F64Ops \<Rightarrow> (nat \<Rightarrow> Instant) \<Rightarrow> nat \<Rightarrow> Instant \<Rightarrow> (Index, Abort, nat) res_st" where
  "ix_auto_promote F clk k now x =
     (let cfg = set_promotion (ix_settings x);
          en = to_enduring cfg (ix_items x);
          ma = to_major cfg now (ix_items x);
          n = length en + length ma
      in try_bind (ix_move_all Enduring Promoted en)
          (\<lambda>_. try_bind (ix_move_all Major Promoted ma)
            (\<lambda>_. try_bind (modify (ix_promoted n))
              (\<lambda>_. try_bind (if en \<noteq> [] then ix_enforce F clk k Enduring
                       else if ma \<noteq> [] then ix_enforce F clk k Major
                       else ok ())
                (\<lambda>_. ok n)))) x)"

definition ix_run_pattern :: "F64Ops \<Rightarrow> (nat \<Rightarrow> Instant) \<Rightarrow> ContextQuery \<Rightarrow> QuadPattern \<Rightarrow>
    (Index, Abort, ContextQueryResult) res_st" where
  "ix_run_pattern F clk query pat x =
     (let scopes = ScopeSelection_scopes (qy_scopes query);
          cfg = set_promotion (ix_settings x);
          now = clk 0;
          hits = concat (map (hits_in pat (ix_items x)) scopes);
          matched = sum_list (map (matched_in pat (ix_items x)) scopes)
      in try_bind (ix_touch F now (minor_window cfg)
                 (policy_half_life (set_eviction_policy (ix_settings x))) (truncate_hits (qy_limit query) hits))
          (\<lambda>items. try_bind (modify (\<lambda>x. x\<lparr>ix_stats :=
                     (ix_stats x)\<lparr>queries_served := add64 (queries_served (ix_stats x)) 1\<rparr>\<rparr>))
            (\<lambda>_. try_bind (if cadence cfg = AfterEachQuery then ix_auto_promote F clk 1 now else ok 0)
              (\<lambda>n. ok \<lparr>res_items = items,
                       res_query_stats = \<lparr>scopes_consulted = length scopes,
                         quads_matched = matched, auto_promoted = n\<rparr>\<rparr>))) x)"

definition ix_query :: "F64Ops \<Rightarrow> (nat \<Rightarrow> Instant) \<Rightarrow> ContextQuery \<Rightarrow> (Index, Abort, ContextQueryResult) res_st" where
  "ix_query F clk query x =
     (case qy_kind query of
        SparqlQuery _ \<Rightarrow> (Inl (Err (nyi Sparql)), x)
      | Similarity _ _ \<Rightarrow> (Inl (Err (nyi AnnIndex)), x)
      | Inference _ \<Rightarrow> (Inl (Err (nyi OwlElReasoner)), x)
      | Pattern p \<Rightarrow>
          if qy_reasoner_hint query \<noteq> None then (Inl (Err (nyi OwlElReasoner)), x)
          else ix_run_pattern F clk query p x)"

end
