(* ===== verification/Session_Index.thy ===== *)
theory Session_Index
  imports Session_Spec
begin

text \<open>
  Correctness of the abstract session of \<open>Session_Spec\<close>: on a well-formed index every
  operation has a defined outcome, keeps the index well-formed and has the documented
  effect on the entries. The effects are stated through \<open>bt_get\<close>, per item.
\<close>

section \<open>Well-formed indices\<close>

definition index_wf :: "Index \<Rightarrow> bool" where
  "index_wf x \<longleftrightarrow> bt_wf (ix_items x) \<and> ix_next_id x < 2 ^ 64
     \<and> (\<forall>(i, e)\<in>set (ix_items x). i < ix_next_id x \<and> storable (e_item e))"

lemma index_wf_items [dest]: "index_wf x \<Longrightarrow> bt_wf (ix_items x)"
  by (simp add: index_wf_def)

lemma index_wf_get:
  "index_wf x \<longleftrightarrow> bt_wf (ix_items x) \<and> ix_next_id x < 2 ^ 64
     \<and> (\<forall>i e. bt_get (ix_items x) i = Some e \<longrightarrow> i < ix_next_id x \<and> storable (e_item e))"
  by (auto simp: index_wf_def bt_get_iff)

lemma index_wf_getD:
  "index_wf x \<Longrightarrow> bt_get (ix_items x) i = Some e \<Longrightarrow> i < ix_next_id x \<and> i < 2 ^ 64 \<and> storable (e_item e)"
  by (fastforce simp: index_wf_get)

lemma index_wf_stats [simp]: "index_wf (x\<lparr>ix_stats := st\<rparr>) = index_wf x"
  by (simp add: index_wf_def)

lemma index_wf_adjust:
  assumes "index_wf x" and "\<And>e. e_item (f e) = e_item e"
  shows "index_wf (x\<lparr>ix_items := bt_adjust i f (ix_items x)\<rparr>)"
  using assms by (auto simp: index_wf_get split: if_splits)

lemma index_wf_remove: "index_wf x \<Longrightarrow> index_wf (x\<lparr>ix_items := bt_remove i (ix_items x)\<rparr>)"
  by (auto simp: index_wf_get split: if_splits)

lemma Entry_moved_sel [simp]:
  "e_item (Entry_moved to arr e) = e_item e" "e_scope (Entry_moved to arr e) = to"
  "e_arrival (Entry_moved to arr e) = arr"
  by (simp_all add: Entry_moved_def)

lemma Entry_touch_sel [simp]:
  "e_item (Entry_touch F now w hl e) = e_item e" "e_scope (Entry_touch F now w hl e) = e_scope e"
  "e_arrival (Entry_touch F now w hl e) = e_arrival e"
  by (simp_all add: Entry_touch_def Let_def split: option.split)

section \<open>Scopes of items\<close>

definition scope_at :: "Index \<Rightarrow> ItemId \<Rightarrow> ContextScope option" where
  "scope_at x i = map_option e_scope (bt_get (ix_items x) i)"

definition in_scope :: "Index \<Rightarrow> ContextScope \<Rightarrow> ItemId set" where
  "in_scope x sc = {i. scope_at x i = Some sc}"

lemma in_scope_iff: "i \<in> in_scope x sc \<longleftrightarrow> (\<exists>e. bt_get (ix_items x) i = Some e \<and> e_scope e = sc)"
  by (auto simp: in_scope_def scope_at_def)

lemma scope_entries_keys:
  assumes "bt_wf (ix_items x)"
  shows "distinct (map fst (scope_entries (ix_items x) sc))"
    and "set (map fst (scope_entries (ix_items x) sc)) = in_scope x sc"
proof -
  show "distinct (map fst (scope_entries (ix_items x) sc))"
    using assms sorted_wrt_filter_map_fst [of "(<)" "ix_items x"]
    by (simp add: scope_entries_def bt_wf_def sorted_wrt_less_distinct)
  show "set (map fst (scope_entries (ix_items x) sc)) = in_scope x sc"
    using assms by (auto simp: scope_entries_def in_scope_iff bt_get_iff image_iff)
qed

lemma scope_count:
  assumes "bt_wf (ix_items x)"
  shows "length (scope_entries (ix_items x) sc) = card (in_scope x sc)"
  using scope_entries_keys [OF assms, of sc] distinct_card by (metis length_map)

lemma finite_in_scope: "bt_wf (ix_items x) \<Longrightarrow> finite (in_scope x sc)"
  using scope_entries_keys(2) [of x sc] by (metis List.finite_set)

section \<open>Victims\<close>

lemma victims_distinct: "bt_wf items \<Longrightarrow> distinct (victims F p now items sc n)"
  by (auto simp: victims_def Let_def scope_entries_def bt_distinct_keys take_map [symmetric]
      sorted_wrt_filter_map_fst sorted_wrt_less_distinct bt_wf_def
      intro!: distinct_take distinct_map_sort_by_key split: EvictionPolicy.split)

lemma victims_subset: "set (victims F p now items sc n) \<subseteq> fst ` set (scope_entries items sc)"
  by (auto simp: victims_def Let_def take_map [symmetric] dest!: in_set_takeD split: EvictionPolicy.splits)

lemma victims_length: "length (victims F p now items sc n) = min n (length (scope_entries items sc))"
  by (auto simp: victims_def Let_def split: EvictionPolicy.split)

lemma ix_victims_live:
  assumes "index_wf x" "i \<in> set (ix_victims F now x sc n)"
  shows "i \<in> in_scope x sc"
  using assms victims_subset [of F "set_eviction_policy (ix_settings x)" now "ix_items x" sc n]
    scope_entries_keys(2) [OF index_wf_items [OF assms(1)], of sc]
  by (auto simp: ix_victims_def)

lemma ix_victims_distinct: "index_wf x \<Longrightarrow> distinct (ix_victims F now x sc n)"
  by (simp add: ix_victims_def index_wf_def victims_distinct)

lemma ix_victims_length:
  "index_wf x \<Longrightarrow> length (ix_victims F now x sc n) = min n (card (in_scope x sc))"
  by (simp add: ix_victims_def victims_length scope_count index_wf_items)

section \<open>Loops of moves and evictions\<close>

text \<open>What stays fixed in every step: settings and the id counter.\<close>

definition same_frame :: "Index \<Rightarrow> Index \<Rightarrow> bool" where
  "same_frame x y \<longleftrightarrow> ix_settings y = ix_settings x \<and> ix_next_id y = ix_next_id x"

lemma same_frame_refl [simp]: "same_frame x x"
  by (simp add: same_frame_def)

lemma same_frame_trans: "same_frame x y \<Longrightarrow> same_frame y z \<Longrightarrow> same_frame x z"
  by (simp add: same_frame_def)

lemma ix_move_all_works:
  assumes "index_wf x" "distinct ids" "\<forall>i\<in>set ids. \<exists>e. bt_get (ix_items x) i = Some e \<and> e_scope e \<noteq> to"
  shows "\<exists>y. ix_move_all to arr ids x = (Inr (), y) \<and> index_wf y \<and> same_frame x y \<and> ix_stats y = ix_stats x
    \<and> (\<forall>j. bt_get (ix_items y) j =
          (if j \<in> set ids then map_option (Entry_moved to arr) (bt_get (ix_items x) j)
           else bt_get (ix_items x) j))"
  using assms
proof (induction ids arbitrary: x)
  case Nil
  then show ?case by (simp add: ix_move_all_def)
next
  case (Cons i ids)
  then obtain e where e: "bt_get (ix_items x) i = Some e" "e_scope e \<noteq> to" by auto
  define x1 where "x1 = x\<lparr>ix_items := bt_adjust i (Entry_moved to arr) (ix_items x)\<rparr>"
  have step: "ix_move i to arr x = (Inr (), x1)" using e by (simp add: ix_move_def x1_def)
  have get1: "bt_get (ix_items x1) j = (if j = i then Some (Entry_moved to arr e) else bt_get (ix_items x) j)" for j
    using e by (simp add: x1_def)
  have wf1: "index_wf x1" unfolding x1_def using Cons.prems(1) by (rule index_wf_adjust) simp
  have live: "\<forall>j\<in>set ids. \<exists>e. bt_get (ix_items x1) j = Some e \<and> e_scope e \<noteq> to"
    using Cons.prems(2,3) by (auto simp: get1)
  obtain y where y: "ix_move_all to arr ids x1 = (Inr (), y)" "index_wf y" "same_frame x1 y" "ix_stats y = ix_stats x1"
    "\<And>j. bt_get (ix_items y) j = (if j \<in> set ids then map_option (Entry_moved to arr) (bt_get (ix_items x1) j)
       else bt_get (ix_items x1) j)"
    using Cons.IH [OF wf1 _ live] Cons.prems(2) by auto
  have "ix_move_all to arr (i # ids) x = (Inr (), y)" using step y(1) by (simp add: ix_move_all_def)
  moreover have "same_frame x y" using y(3) by (simp add: same_frame_def x1_def)
  moreover have "ix_stats y = ix_stats x" using y(4) by (simp add: x1_def)
  ultimately show ?case using y(2) Cons.prems(2) e by (auto simp: y(5) get1)
qed

lemma ix_drop_works:
  assumes "index_wf x" "bt_get (ix_items x) i = Some e"
  shows "\<exists>y. ix_drop i x = (Inr (), y) \<and> index_wf y \<and> same_frame x y
    \<and> ix_items y = bt_remove i (ix_items x)
    \<and> ix_stats y = (ix_stats x)\<lparr>items_evicted := add64 (items_evicted (ix_stats x)) 1\<rparr>"
  using assms index_wf_remove [OF assms(1), of i]
  by (auto simp: ix_drop_def same_frame_def index_wf_def)

lemma ix_drop_all_works:
  assumes "index_wf x" "distinct ids" "\<forall>i\<in>set ids. bt_get (ix_items x) i \<noteq> None"
  shows "\<exists>y. for_each ix_drop ids x = (Inr (), y) \<and> index_wf y \<and> same_frame x y
    \<and> (\<forall>j. bt_get (ix_items y) j = (if j \<in> set ids then None else bt_get (ix_items x) j))"
  using assms
proof (induction ids arbitrary: x)
  case Nil
  then show ?case by simp
next
  case (Cons i ids)
  then obtain e where e: "bt_get (ix_items x) i = Some e" by auto
  obtain x1 where x1: "ix_drop i x = (Inr (), x1)" "index_wf x1" "same_frame x x1"
    "ix_items x1 = bt_remove i (ix_items x)"
    using ix_drop_works [OF Cons.prems(1) e] by auto
  have live: "\<forall>j\<in>set ids. bt_get (ix_items x1) j \<noteq> None" using Cons.prems x1(4) by auto
  obtain y where y: "for_each ix_drop ids x1 = (Inr (), y)" "index_wf y" "same_frame x1 y"
    "\<And>j. bt_get (ix_items y) j = (if j \<in> set ids then None else bt_get (ix_items x1) j)"
    using Cons.IH [OF x1(2) _ live] Cons.prems(2) by auto
  have "same_frame x y" using x1(3) y(3) by (rule same_frame_trans)
  then show ?case using x1 y by auto
qed

text \<open>The entry a victim is left with: moved one scope colder, or gone.\<close>

definition evicted :: "DemotionTarget \<Rightarrow> ContextScope \<Rightarrow> Entry \<Rightarrow> Entry option" where
  "evicted dt sc e =
     (case demote_target dt sc (Some e) of
        Inr (Some c) \<Rightarrow> Some (Entry_moved c Demoted e)
      | _ \<Rightarrow> None)"

lemma evicted_scope:
  "evicted dt sc e = Some e' \<Longrightarrow>
     colder sc = Some (e_scope e') \<and> e_item e' = e_item e \<and> e_arrival e' = Demoted"
  by (auto simp: evicted_def demote_target_def split: DemotionTarget.splits Arrival.splits option.splits)

lemma ix_evict_victim_works:
  assumes "index_wf x" "bt_get (ix_items x) i = Some e" "e_scope e = sc"
  shows "\<exists>y. ix_evict_victim sc i x = (Inr (), y) \<and> index_wf y \<and> same_frame x y
    \<and> (\<forall>j. bt_get (ix_items y) j =
         (if j = i then evicted (set_demotion_target (ix_settings x)) sc e else bt_get (ix_items x) j))"
proof -
  let ?t = "demote_target (set_demotion_target (ix_settings x)) sc (Some e)"
  obtain t where t: "?t = Inr t"
    by (cases "set_demotion_target (ix_settings x)"; cases "e_arrival e") (auto simp: demote_target_def)
  show ?thesis
  proof (cases t)
    case None
    then show ?thesis using ix_drop_works [OF assms(1,2)] t assms
      by (auto simp: ix_evict_victim_def evicted_def)
  next
    case (Some c)
    then have "c < sc" using t
      by (auto simp: demote_target_def dest: colder_less split: DemotionTarget.splits Arrival.splits option.splits)
    then have step: "ix_move i c Demoted x = (Inr (), x\<lparr>ix_items := bt_adjust i (Entry_moved c Demoted) (ix_items x)\<rparr>)"
      using assms by (simp add: ix_move_def)
    have "index_wf (x\<lparr>ix_items := bt_adjust i (Entry_moved c Demoted) (ix_items x)\<rparr>)"
      using assms(1) by (rule index_wf_adjust) simp
    then have wf: "index_wf (ix_demoted 1 (x\<lparr>ix_items := bt_adjust i (Entry_moved c Demoted) (ix_items x)\<rparr>))"
      by (simp add: ix_demoted_def)
    have "ix_evict_victim sc i x
        = (Inr (), ix_demoted 1 (x\<lparr>ix_items := bt_adjust i (Entry_moved c Demoted) (ix_items x)\<rparr>))"
      using t Some step assms by (simp add: ix_evict_victim_def try_bind_def)
    then show ?thesis using wf t Some assms
      by (auto simp: ix_demoted_def same_frame_def evicted_def)
  qed
qed

lemma ix_evict_victims_works:
  assumes "index_wf x" "distinct ids" "set ids \<subseteq> in_scope x sc"
  shows "\<exists>y. for_each (ix_evict_victim sc) ids x = (Inr (), y) \<and> index_wf y \<and> same_frame x y
    \<and> (\<forall>j. bt_get (ix_items y) j =
         (if j \<in> set ids then Option.bind (bt_get (ix_items x) j) (evicted (set_demotion_target (ix_settings x)) sc)
          else bt_get (ix_items x) j))"
  using assms
proof (induction ids arbitrary: x)
  case Nil
  then show ?case by simp
next
  case (Cons i ids)
  then obtain e where e: "bt_get (ix_items x) i = Some e" "e_scope e = sc" by (auto simp: in_scope_iff)
  obtain x1 where x1: "ix_evict_victim sc i x = (Inr (), x1)" "index_wf x1" "same_frame x x1"
    "\<And>j. bt_get (ix_items x1) j =
       (if j = i then evicted (set_demotion_target (ix_settings x)) sc e else bt_get (ix_items x) j)"
    using ix_evict_victim_works [OF Cons.prems(1) e] by auto
  have live: "set ids \<subseteq> in_scope x1 sc" using Cons.prems(2,3) by (auto simp: in_scope_iff x1(4))
  obtain y where y: "for_each (ix_evict_victim sc) ids x1 = (Inr (), y)" "index_wf y" "same_frame x1 y"
    "\<And>j. bt_get (ix_items y) j =
       (if j \<in> set ids then Option.bind (bt_get (ix_items x1) j) (evicted (set_demotion_target (ix_settings x1)) sc)
        else bt_get (ix_items x1) j)"
    using Cons.IH [OF x1(2) _ live] Cons.prems(2) by auto
  have "same_frame x y" using x1(3) y(3) by (rule same_frame_trans)
  moreover have "ix_settings x1 = ix_settings x" using x1(3) by (simp add: same_frame_def)
  ultimately show ?case using x1(1) y(1,2) e Cons.prems(2) by (auto simp: y(4) x1(4))
qed

section \<open>Enforcing the bounds\<close>

definition bounded :: "Index \<Rightarrow> ContextScope \<Rightarrow> bool" where
  "bounded x sc = (case ScopeBounds_get (set_bounds (ix_settings x)) sc of None \<Rightarrow> True
     | Some b \<Rightarrow> card (in_scope x sc) \<le> b)"

text \<open>
  What enforcement from scope \<open>sc\<close> down may do: every item is as before, or it was in
  \<open>sc\<close> or colder and has been dropped or demoted to a colder scope.
\<close>

definition cooled :: "ContextScope \<Rightarrow> Index \<Rightarrow> Index \<Rightarrow> bool" where
  "cooled sc x y \<longleftrightarrow> (\<forall>j. bt_get (ix_items y) j = bt_get (ix_items x) j
     \<or> (\<exists>e. bt_get (ix_items x) j = Some e \<and> e_scope e \<le> sc
         \<and> (case bt_get (ix_items y) j of None \<Rightarrow> True
            | Some e' \<Rightarrow> e_item e' = e_item e \<and> e_scope e' < e_scope e \<and> e_arrival e' = Demoted)))"

lemma cooled_refl [simp]: "cooled sc x x"
  by (simp add: cooled_def)

lemma cooled_trans:
  assumes "cooled sc x y" "cooled c y z" "c \<le> sc"
  shows "cooled sc x z"
  unfolding cooled_def
proof
  fix j
  from assms(1) have xy: "bt_get (ix_items y) j = bt_get (ix_items x) j
     \<or> (\<exists>e. bt_get (ix_items x) j = Some e \<and> e_scope e \<le> sc
         \<and> (case bt_get (ix_items y) j of None \<Rightarrow> True
            | Some e' \<Rightarrow> e_item e' = e_item e \<and> e_scope e' < e_scope e \<and> e_arrival e' = Demoted))"
    by (simp add: cooled_def)
  from assms(2) have yz: "bt_get (ix_items z) j = bt_get (ix_items y) j
     \<or> (\<exists>e. bt_get (ix_items y) j = Some e \<and> e_scope e \<le> c
         \<and> (case bt_get (ix_items z) j of None \<Rightarrow> True
            | Some e' \<Rightarrow> e_item e' = e_item e \<and> e_scope e' < e_scope e \<and> e_arrival e' = Demoted))"
    by (simp add: cooled_def)
  show "bt_get (ix_items z) j = bt_get (ix_items x) j
     \<or> (\<exists>e. bt_get (ix_items x) j = Some e \<and> e_scope e \<le> sc
         \<and> (case bt_get (ix_items z) j of None \<Rightarrow> True
            | Some e' \<Rightarrow> e_item e' = e_item e \<and> e_scope e' < e_scope e \<and> e_arrival e' = Demoted))"
    using xy yz assms(3)
    by (cases "bt_get (ix_items y) j"; cases "bt_get (ix_items z) j") (auto dest: order_trans order_less_trans)
qed

lemma cooled_get:
  assumes "cooled sc x y" "bt_get (ix_items y) j = Some e'"
  shows "\<exists>e. bt_get (ix_items x) j = Some e \<and> e_item e' = e_item e \<and> e_scope e' \<le> e_scope e"
proof -
  have "bt_get (ix_items y) j = bt_get (ix_items x) j
     \<or> (\<exists>e. bt_get (ix_items x) j = Some e \<and> e_scope e \<le> sc
         \<and> (case bt_get (ix_items y) j of None \<Rightarrow> True
            | Some e' \<Rightarrow> e_item e' = e_item e \<and> e_scope e' < e_scope e \<and> e_arrival e' = Demoted))"
    using assms(1) by (simp add: cooled_def)
  then show ?thesis using assms(2) by (cases "bt_get (ix_items x) j") auto
qed

lemma cooled_hotter_get:
  assumes "cooled sc x y" "bt_get (ix_items x) j = Some e" "sc < e_scope e"
  shows "bt_get (ix_items y) j = Some e"
proof -
  have "bt_get (ix_items y) j = bt_get (ix_items x) j
     \<or> (\<exists>e. bt_get (ix_items x) j = Some e \<and> e_scope e \<le> sc)"
    using assms(1) unfolding cooled_def by blast
  then show ?thesis using assms(2,3) by auto
qed

lemma cooled_hotter:
  assumes "cooled sc x y" "sc < c"
  shows "in_scope y c = in_scope x c"
proof (intro set_eqI iffI)
  fix j
  assume "j \<in> in_scope x c"
  then show "j \<in> in_scope y c" using assms by (auto simp: in_scope_iff dest: cooled_hotter_get)
next
  fix j
  assume "j \<in> in_scope y c"
  then obtain e' where e': "bt_get (ix_items y) j = Some e'" "e_scope e' = c" by (auto simp: in_scope_iff)
  from assms(1) have "bt_get (ix_items y) j = bt_get (ix_items x) j
     \<or> (\<exists>e. bt_get (ix_items x) j = Some e \<and> e_scope e \<le> sc
         \<and> (case bt_get (ix_items y) j of None \<Rightarrow> True
            | Some e' \<Rightarrow> e_item e' = e_item e \<and> e_scope e' < e_scope e \<and> e_arrival e' = Demoted))"
    by (simp add: cooled_def)
  then show "j \<in> in_scope x c" using e' assms(2)
    by (cases "bt_get (ix_items x) j") (auto simp: in_scope_iff)
qed

lemma cooled_evicted:
  assumes "\<And>j. bt_get (ix_items y) j =
         (if j \<in> V then Option.bind (bt_get (ix_items x) j) (evicted dt sc) else bt_get (ix_items x) j)"
    and "V \<subseteq> in_scope x sc"
  shows "cooled sc x y" "in_scope y sc = in_scope x sc - V"
proof -
  show "cooled sc x y"
    unfolding cooled_def
  proof
    fix j
    show "bt_get (ix_items y) j = bt_get (ix_items x) j
     \<or> (\<exists>e. bt_get (ix_items x) j = Some e \<and> e_scope e \<le> sc
         \<and> (case bt_get (ix_items y) j of None \<Rightarrow> True
            | Some e' \<Rightarrow> e_item e' = e_item e \<and> e_scope e' < e_scope e \<and> e_arrival e' = Demoted))"
    proof (cases "j \<in> V")
      case True
      then have "j \<in> in_scope x sc" using assms(2) by blast
      then obtain e where e: "bt_get (ix_items x) j = Some e" "e_scope e = sc"
        by (auto simp: in_scope_iff)
      have "e_item e' = e_item e \<and> e_scope e' < e_scope e \<and> e_arrival e' = Demoted"
        if "evicted dt sc e = Some e'" for e'
        using evicted_scope [OF that] e(2) colder_less [of sc "e_scope e'"] by simp
      moreover have "bt_get (ix_items y) j = evicted dt sc e" using True e assms(1) [of j] by simp
      ultimately show ?thesis using e by (cases "evicted dt sc e") simp_all
    qed (simp add: assms(1))
  qed
  show "in_scope y sc = in_scope x sc - V"
  proof (intro set_eqI)
    fix j
    show "j \<in> in_scope y sc \<longleftrightarrow> j \<in> in_scope x sc - V"
    proof (cases "j \<in> V")
      case True
      then show ?thesis using colder_less [of sc sc]
        by (auto simp: in_scope_iff assms(1) bind_eq_Some_conv dest: evicted_scope)
    qed (simp add: in_scope_iff assms(1))
  qed
qed

lemma ix_enforce_scope_works:
  assumes "index_wf x"
  shows "\<exists>y. ix_enforce_scope F now sc x = (Inr (), y) \<and> index_wf y \<and> same_frame x y
    \<and> cooled sc x y \<and> bounded y sc"
proof (cases "ScopeBounds_get (set_bounds (ix_settings x)) sc")
  case None
  then show ?thesis using assms by (simp add: ix_enforce_scope_def bounded_def)
next
  case (Some b)
  let ?n = "card (in_scope x sc)"
  have n: "length (scope_entries (ix_items x) sc) = ?n" using assms by (simp add: scope_count index_wf_items)
  show ?thesis
  proof (cases "b < ?n")
    case False
    then show ?thesis using assms Some n by (simp add: ix_enforce_scope_def bounded_def)
  next
    case True
    let ?V = "ix_victims F now x sc (?n - b)"
    have V: "distinct ?V" "set ?V \<subseteq> in_scope x sc" "length ?V = ?n - b"
      using assms by (auto simp: ix_victims_distinct ix_victims_length dest: ix_victims_live)
    obtain y where y: "for_each (ix_evict_victim sc) ?V x = (Inr (), y)" "index_wf y" "same_frame x y"
      "\<And>j. bt_get (ix_items y) j = (if j \<in> set ?V
         then Option.bind (bt_get (ix_items x) j) (evicted (set_demotion_target (ix_settings x)) sc)
         else bt_get (ix_items x) j)"
      using ix_evict_victims_works [OF assms V(1,2)] by blast
    have c: "cooled sc x y" "in_scope y sc = in_scope x sc - set ?V"
      using cooled_evicted [OF y(4) V(2)] by auto
    have "card (in_scope y sc) = ?n - length ?V"
      using c(2) V assms by (simp add: card_Diff_subset distinct_card)
    then have "bounded y sc" using V(3) True Some y(3) by (simp add: bounded_def same_frame_def)
    then show ?thesis using True Some n y c by (simp add: ix_enforce_scope_def)
  qed
qed

lemma bounded_frame:
  "same_frame x y \<Longrightarrow> in_scope y c = in_scope x c \<Longrightarrow> bounded y c = bounded x c"
  by (auto simp: bounded_def same_frame_def split: option.split)

lemma ix_enforce_works:
  assumes "index_wf x"
  shows "\<exists>y. ix_enforce F clk k sc x = (Inr (), y) \<and> index_wf y \<and> same_frame x y
    \<and> cooled sc x y \<and> (\<forall>c\<le> sc. bounded y c)"
  using assms
proof (induction "scope_rank sc" arbitrary: sc k x rule: less_induct)
  case less
  obtain y where y: "ix_enforce_scope F (clk k) sc x = (Inr (), y)" "index_wf y" "same_frame x y"
    "cooled sc x y" "bounded y sc"
    using ix_enforce_scope_works [OF less.prems] by blast
  show ?case
  proof (cases "colder sc")
    case None
    then have "c \<le> sc \<Longrightarrow> c = sc" for c by (cases c; cases sc) (auto simp: scope_le_iff)
    then show ?thesis using y None by (auto simp: ix_enforce.simps [of F clk k sc] try_bind_def)
  next
    case (Some d)
    then have d: "d < sc" by (rule colder_less)
    obtain z where z: "ix_enforce F clk (Suc k) d y = (Inr (), z)" "index_wf z" "same_frame y z"
      "cooled d y z" "\<forall>c\<le>d. bounded z c"
      using less.hyps [of d y "Suc k"] y(2) d by (auto simp: scope_less_iff)
    have "bounded z sc"
      using y(5) bounded_frame [OF z(3) cooled_hotter [OF z(4) d]] by simp
    moreover have "c \<le> sc \<Longrightarrow> c = sc \<or> c \<le> d" for c
      using colder_next [of c sc] Some by (auto simp: order_le_less)
    ultimately have "\<forall>c\<le> sc. bounded z c" using z(5) by blast
    moreover have "cooled sc x z" using cooled_trans [OF y(4) z(4)] d by simp
    moreover have "same_frame x z" using y(3) z(3) by (rule same_frame_trans)
    ultimately show ?thesis using y(1) z(1,2) Some
      by (auto simp: ix_enforce.simps [of F clk k sc] try_bind_def)
  qed
qed

text \<open>Enforcement does nothing while the bounds hold.\<close>

lemma ix_enforce_idle:
  assumes "index_wf x" "\<forall>c\<le> sc. bounded x c"
  shows "ix_enforce F clk k sc x = (Inr (), x)"
  using assms(2)
proof (induction "scope_rank sc" arbitrary: sc k rule: less_induct)
  case less
  have "bounded x sc" using less.prems by simp
  then have "ix_enforce_scope F (clk k) sc x = (Inr (), x)"
    using assms(1) by (auto simp: ix_enforce_scope_def bounded_def scope_count index_wf_items split: option.split)
  moreover have "ix_enforce F clk (Suc k) d x = (Inr (), x)" if "colder sc = Some d" for d
    using less.hyps [of d "Suc k"] less.prems colder_less [OF that] by (auto simp: scope_less_iff intro: order_trans less_imp_le)
  ultimately show ?case
    by (auto simp: ix_enforce.simps [of F clk k sc] try_bind_def split: option.split)
qed

end
