(* ===== verification/Session_Ops.thy ===== *)
theory Session_Ops
  imports Session_Index
begin

text \<open>
  The public operations of the abstract session: their checks, the outcome of each on a
  well-formed index, and the bounds they leave the scopes in.
\<close>

section \<open>Checks\<close>

lemma validate_graphs_iff:
  "validate_graphs it \<and> validate_embedding it \<longleftrightarrow> storable it"
  by (auto simp: validate_graphs_def validate_embedding_def storable_def list_ex_iff list_all_iff
      split: ContextPayload.split option.split)

lemma validate_Inr:
  "validate items it = Inr u \<longleftrightarrow>
     \<not> trim_is_empty (prov_source (provenance it)) \<and> storable it
   \<and> (\<forall>c\<in>set (derived_from (provenance it)). bt_get items c \<noteq> None)"
  by (auto simp: validate_def find_None_iff find_Some_iff validate_graphs_iff [symmetric] split: option.split)

lemma validate_all_Inr: "validate_all items its = Inr u \<longleftrightarrow> (\<forall>it\<in>set its. validate items it = Inr ())"
  by (induction its) (auto split: sum.split)

lemma check_each_Inr:
  "check_each items sc ids = Inr u \<longleftrightarrow> (\<forall>i\<in>set ids. \<exists>e. bt_get items i = Some e \<and> e_scope e = sc)"
  by (induction ids) (auto split: option.split)

lemma check_in_scope_Inr:
  "check_in_scope items ids sc = Inr us \<longleftrightarrow>
     us = dedup_seen [] ids \<and> (\<forall>i\<in>set ids. \<exists>e. bt_get items i = Some e \<and> e_scope e = sc)"
  by (auto simp: check_in_scope_def Let_def split: sum.split)
    (use check_each_Inr [of items sc "dedup_seen [] ids"] in \<open>auto\<close>)

lemma check_each_Inl:
  "check_each items sc ids = Inl er \<Longrightarrow>
     \<exists>i\<in>set ids. er = UnknownItem i \<and> bt_get items i = None
       \<or> (\<exists>e. bt_get items i = Some e \<and> e_scope e \<noteq> sc \<and> er = ScopeMismatch i sc (e_scope e))"
  by (induction ids) (auto split: option.splits if_splits)

section \<open>Adding\<close>

lemma insert_entries_get:
  assumes "bt_wf items" "\<forall>i\<in>fst ` set items. i < first"
  shows "bt_wf (insert_entries sc now (zip [first..<first + length its] its) items)
    \<and> (\<forall>j. bt_get (insert_entries sc now (zip [first..<first + length its] its) items) j =
       (if first \<le> j \<and> j < first + length its then Some (Entry_new (its ! (j - first)) sc Added now)
        else bt_get items j))"
  using assms
proof (induction its arbitrary: first items)
  case Nil
  then show ?case by auto
next
  case (Cons it its)
  let ?m = "bt_insert first (Entry_new it sc Added now) items"
  have up: "[first..<first + length (it # its)] = first # [Suc first..<Suc first + length its]"
    by (simp add: upt_rec)
  have "\<forall>i\<in>fst ` set ?m. i < Suc first"
    using Cons.prems(2) set_keys_bt_insert [of first "Entry_new it sc Added now" items] by (auto simp: less_Suc_eq)
  then have IH: "bt_wf (insert_entries sc now (zip [Suc first..<Suc first + length its] its) ?m)
    \<and> (\<forall>j. bt_get (insert_entries sc now (zip [Suc first..<Suc first + length its] its) ?m) j =
       (if Suc first \<le> j \<and> j < Suc first + length its then Some (Entry_new (its ! (j - Suc first)) sc Added now)
        else bt_get ?m j))"
    using Cons.IH [of ?m "Suc first"] Cons.prems(1) by simp
  have unfold: "insert_entries sc now (zip [first..<first + length (it # its)] (it # its)) items
      = insert_entries sc now (zip [Suc first..<Suc first + length its] its) ?m"
    by (simp only: up zip_Cons_Cons insert_entries.simps)
  show ?case unfolding unfold using IH Cons.prems(1) by (auto simp: nth_Cons' Suc_le_eq)
qed

definition ix_added :: "(nat \<Rightarrow> Instant) \<Rightarrow> ContextScope \<Rightarrow> ContextItem list \<Rightarrow> Index \<Rightarrow> Index" where
  "ix_added clk sc items x = x\<lparr>ix_next_id := ix_next_id x + length items,
     ix_items := insert_entries sc (clk 0) (zip [ix_next_id x..<ix_next_id x + length items] items) (ix_items x),
     ix_stats := (ix_stats x)\<lparr>items_added := add64 (items_added (ix_stats x)) (length items)\<rparr>\<rparr>"

lemma ix_added_get:
  assumes "index_wf x"
  shows "bt_wf (ix_items (ix_added clk sc items x))"
    and "bt_get (ix_items (ix_added clk sc items x)) j =
       (if ix_next_id x \<le> j \<and> j < ix_next_id x + length items
        then Some (Entry_new (items ! (j - ix_next_id x)) sc Added (clk 0)) else bt_get (ix_items x) j)"
proof -
  have "\<forall>i\<in>fst ` set (ix_items x). i < ix_next_id x" using assms by (auto simp: index_wf_def)
  with assms show "bt_wf (ix_items (ix_added clk sc items x))"
    and "bt_get (ix_items (ix_added clk sc items x)) j =
       (if ix_next_id x \<le> j \<and> j < ix_next_id x + length items
        then Some (Entry_new (items ! (j - ix_next_id x)) sc Added (clk 0)) else bt_get (ix_items x) j)"
    by (auto simp: ix_added_def insert_entries_get index_wf_items)
qed

lemma Entry_new_sel [simp]:
  "e_item (Entry_new it sc arr now) = it" "e_scope (Entry_new it sc arr now) = sc"
  "e_arrival (Entry_new it sc arr now) = arr" "e_accesses (Entry_new it sc arr now) = 0"
  "e_last_touch (Entry_new it sc arr now) = now" "e_recent (Entry_new it sc arr now) = []"
  by (simp_all add: Entry_new_def)

lemma index_wf_added:
  assumes "index_wf x" "validate_all (ix_items x) items = Inr u" "ix_next_id x + length items < 2 ^ 64"
  shows "index_wf (ix_added clk sc items x)"
proof -
  have st: "storable it" if "it \<in> set items" for it
    using assms(2) that by (auto simp: validate_all_Inr validate_Inr)
  have old: "i < ix_next_id x + length items \<and> storable (e_item e)" if "bt_get (ix_items x) i = Some e" for i e
    using index_wf_getD [OF assms(1) that] by simp
  have "ix_next_id (ix_added clk sc items x) = ix_next_id x + length items" by (simp add: ix_added_def)
  then show ?thesis
    using assms(3) old st by (auto simp: index_wf_get ix_added_get [OF assms(1)] split: if_splits)
qed

lemma ix_add_batch_works:
  assumes "index_wf x" "validate_all (ix_items x) items = Inr u" "ix_next_id x + length items < 2 ^ 64"
  shows "\<exists>y. ix_add_batch F clk sc items x = (Inr [ix_next_id x..<ix_next_id x + length items], y)
    \<and> index_wf y \<and> same_frame (ix_added clk sc items x) y
    \<and> cooled sc (ix_added clk sc items x) y \<and> (\<forall>c\<le> sc. bounded y c)"
proof -
  obtain y where "ix_enforce F clk 1 sc (ix_added clk sc items x) = (Inr (), y)" "index_wf y"
    "same_frame (ix_added clk sc items x) y" "cooled sc (ix_added clk sc items x) y" "\<forall>c\<le> sc. bounded y c"
    using ix_enforce_works [OF index_wf_added [OF assms]] by blast
  then show ?thesis using assms
    by (auto simp: ix_add_batch_def ix_added_def Let_def try_bind_def)
qed

section \<open>Promotion and eviction\<close>

definition ix_moved :: "ContextScope \<Rightarrow> Arrival \<Rightarrow> ItemId set \<Rightarrow> Index \<Rightarrow> Index \<Rightarrow> bool" where
  "ix_moved to arr V x y \<longleftrightarrow> index_wf y \<and> same_frame x y
     \<and> (\<forall>j. bt_get (ix_items y) j =
          (if j \<in> V then map_option (Entry_moved to arr) (bt_get (ix_items x) j) else bt_get (ix_items x) j))"

lemma ix_moved_scope:
  assumes "ix_moved to arr V x y" "V \<subseteq> in_scope x from" "from \<noteq> to"
  shows "in_scope y c = (if c = to then in_scope x to \<union> V else in_scope x c - V)"
proof (intro set_eqI)
  fix j
  have "j \<in> V \<Longrightarrow> \<exists>e. bt_get (ix_items x) j = Some e \<and> e_scope e = from"
    using assms(2) in_scope_iff by blast
  then show "j \<in> in_scope y c \<longleftrightarrow> j \<in> (if c = to then in_scope x to \<union> V else in_scope x c - V)"
    using assms(1,3) by (auto simp: ix_moved_def in_scope_iff)
qed

lemma ix_moved_bounded:
  assumes "ix_moved to arr V x y" "V \<subseteq> in_scope x from" "from \<noteq> to" "c \<noteq> to" "index_wf x" "bounded x c"
  shows "bounded y c"
proof -
  have "in_scope y c \<subseteq> in_scope x c" using ix_moved_scope [OF assms(1-3), of c] assms(4) by simp
  then have "card (in_scope y c) \<le> card (in_scope x c)"
    using finite_in_scope [OF index_wf_items [OF assms(5)]] by (rule card_mono [rotated])
  then show ?thesis using assms(1,6)
    by (auto simp: bounded_def ix_moved_def same_frame_def split: option.splits)
qed

lemma ix_promoted_sel [simp]:
  "ix_items (ix_promoted n x) = ix_items x" "ix_settings (ix_promoted n x) = ix_settings x"
  "ix_next_id (ix_promoted n x) = ix_next_id x"
  by (simp_all add: ix_promoted_def)

lemma ix_demoted_sel [simp]:
  "ix_items (ix_demoted n x) = ix_items x" "ix_settings (ix_demoted n x) = ix_settings x"
  "ix_next_id (ix_demoted n x) = ix_next_id x"
  by (simp_all add: ix_demoted_def)

lemma ix_moved_stats [simp]:
  "ix_moved to arr V x (ix_promoted n y) = ix_moved to arr V x y"
  "ix_moved to arr V x (ix_demoted n y) = ix_moved to arr V x y"
  by (simp_all add: ix_moved_def index_wf_def same_frame_def)

lemma ix_move_checked:
  assumes "index_wf x" "check_in_scope (ix_items x) ids from = Inr us" "from \<noteq> to"
  shows "\<exists>y. ix_move_all to arr us x = (Inr (), y) \<and> ix_moved to arr (set ids) x y"
    and "set ids \<subseteq> in_scope x from" "length us = card (set ids)"
proof -
  have us: "us = dedup_seen [] ids" "\<forall>i\<in>set ids. \<exists>e. bt_get (ix_items x) i = Some e \<and> e_scope e = from"
    using assms(2) by (simp_all add: check_in_scope_Inr)
  then have "\<forall>i\<in>set us. \<exists>e. bt_get (ix_items x) i = Some e \<and> e_scope e \<noteq> to" "distinct us"
    using assms(3) by auto
  from ix_move_all_works [OF assms(1) this(2,1), of arr]
  show "\<exists>y. ix_move_all to arr us x = (Inr (), y) \<and> ix_moved to arr (set ids) x y"
    by (auto simp: ix_moved_def us)
  show "set ids \<subseteq> in_scope x from" using us by (auto simp: in_scope_iff)
  show "length us = card (set ids)" using us distinct_card [of us] by simp
qed

lemma ix_promote_works:
  assumes "index_wf x" "check_in_scope (ix_items x) ids from = Inr us" "from < to"
  shows "\<exists>y z. ix_promote F clk ids from to x = (Inr \<lparr>promoted = card (set ids)\<rparr>, z)
    \<and> ix_moved to Promoted (set ids) x y \<and> index_wf z \<and> same_frame x z \<and> cooled to y z
    \<and> (\<forall>c\<le> to. bounded z c)"
proof -
  have ne: "from \<noteq> to" using assms(3) by simp
  obtain y where y: "ix_move_all to Promoted us x = (Inr (), y)" "ix_moved to Promoted (set ids) x y"
    using ix_move_checked(1) [OF assms(1,2) ne] by blast
  have len: "length us = card (set ids)" by (rule ix_move_checked(3) [OF assms(1,2) ne])
  let ?y = "ix_promoted (length us) y"
  have "index_wf ?y" using y(2) by (simp add: ix_moved_def ix_promoted_def)
  then obtain z where z: "ix_enforce F clk 0 to ?y = (Inr (), z)" "index_wf z" "same_frame ?y z"
    "cooled to ?y z" "\<forall>c\<le> to. bounded z c"
    using ix_enforce_works by blast
  have "ix_promote F clk ids from to x = (Inr \<lparr>promoted = card (set ids)\<rparr>, z)"
    using assms y(1) z(1) len ne by (auto simp: ix_promote_def try_bind_def)
  moreover have "ix_moved to Promoted (set ids) x ?y" using y(2) by simp
  moreover have "same_frame x z" using z(3) y(2) by (simp add: ix_moved_def same_frame_def)
  ultimately show ?thesis using z by blast
qed

lemma ix_demote_works:
  assumes "index_wf x" "check_in_scope (ix_items x) ids sc = Inr us" "to < sc"
  shows "\<exists>y z. ix_evict F clk sc (Demote ids to) x = (Inr (card (set ids)), z)
    \<and> ix_moved to Demoted (set ids) x y \<and> index_wf z \<and> same_frame x z \<and> cooled to y z
    \<and> (\<forall>c\<le> to. bounded z c)"
proof -
  have ne: "sc \<noteq> to" using assms(3) by simp
  obtain y where y: "ix_move_all to Demoted us x = (Inr (), y)" "ix_moved to Demoted (set ids) x y"
    using ix_move_checked(1) [OF assms(1,2) ne] by blast
  have len: "length us = card (set ids)" by (rule ix_move_checked(3) [OF assms(1,2) ne])
  let ?y = "ix_demoted (length us) y"
  have "index_wf ?y" using y(2) by (simp add: ix_moved_def ix_demoted_def)
  then obtain z where z: "ix_enforce F clk 0 to ?y = (Inr (), z)" "index_wf z" "same_frame ?y z"
    "cooled to ?y z" "\<forall>c\<le> to. bounded z c"
    using ix_enforce_works by blast
  have "ix_evict F clk sc (Demote ids to) x = (Inr (card (set ids)), z)"
    using assms y(1) z(1) len ne by (auto simp: ix_evict_def try_bind_def)
  moreover have "ix_moved to Demoted (set ids) x ?y" using y(2) by simp
  moreover have "same_frame x z" using z(3) y(2) by (simp add: ix_moved_def same_frame_def)
  ultimately show ?thesis using z by blast
qed

lemma ix_evict_items_works:
  assumes "index_wf x" "check_in_scope (ix_items x) ids sc = Inr us"
  shows "\<exists>y. ix_evict F clk sc (Items ids) x = (Inr (card (set ids)), y) \<and> index_wf y \<and> same_frame x y
    \<and> (\<forall>j. bt_get (ix_items y) j = (if j \<in> set ids then None else bt_get (ix_items x) j))"
proof -
  have us: "us = dedup_seen [] ids" "\<forall>i\<in>set ids. \<exists>e. bt_get (ix_items x) i = Some e \<and> e_scope e = sc"
    using assms(2) by (simp_all add: check_in_scope_Inr)
  then have "\<forall>i\<in>set us. bt_get (ix_items x) i \<noteq> None" "distinct us" by auto
  moreover have "length us = card (set ids)"
    using us distinct_card [of us] by simp
  ultimately show ?thesis using ix_drop_all_works [OF assms(1), of us] assms(2) us(1)
    by (auto simp: ix_evict_def try_bind_def)
qed

text \<open>Eviction by policy: the victims leave, then the colder scopes are brought within bounds.\<close>

definition ix_left :: "ContextScope \<Rightarrow> ItemId set \<Rightarrow> Index \<Rightarrow> Index \<Rightarrow> bool" where
  "ix_left sc V x y \<longleftrightarrow> index_wf y \<and> same_frame x y
     \<and> (\<forall>j. bt_get (ix_items y) j =
         (if j \<in> V then Option.bind (bt_get (ix_items x) j) (evicted (set_demotion_target (ix_settings x)) sc)
          else bt_get (ix_items x) j))"

lemma ix_policy_works:
  fixes F clk sc n
  assumes "index_wf x"
  defines "V \<equiv> ix_victims F (clk 0) x sc n"
  shows "\<exists>y z. ix_evict F clk sc (Policy n) x = (Inr (min n (card (in_scope x sc))), z)
    \<and> ix_left sc (set V) x y \<and> index_wf z \<and> same_frame x z
    \<and> (case colder sc of None \<Rightarrow> z = y | Some c \<Rightarrow> cooled c y z \<and> (\<forall>d\<le> c. bounded z d))"
proof -
  have V: "distinct V" "set V \<subseteq> in_scope x sc" "length V = min n (card (in_scope x sc))"
    using assms(1) by (auto simp: V_def ix_victims_distinct ix_victims_length dest: ix_victims_live)
  obtain y where y: "for_each (ix_evict_victim sc) V x = (Inr (), y)" "ix_left sc (set V) x y"
    using ix_evict_victims_works [OF assms(1) V(1,2)] by (auto simp: ix_left_def)
  show ?thesis
  proof (cases "colder sc")
    case None
    then show ?thesis using y V(3)
      by (auto simp: ix_evict_def V_def [symmetric] Let_def try_bind_def ix_left_def)
  next
    case (Some c)
    obtain z where z: "ix_enforce F clk 1 c y = (Inr (), z)" "index_wf z" "same_frame y z"
      "cooled c y z" "\<forall>d\<le> c. bounded z d"
      using ix_enforce_works [of y F clk 1 c] y(2) by (auto simp: ix_left_def)
    have "same_frame x z" using z(3) y(2) same_frame_trans by (auto simp: ix_left_def)
    then show ?thesis using Some y z V(3)
      by (auto simp: ix_evict_def V_def [symmetric] Let_def try_bind_def)
  qed
qed

section \<open>Auto-promotion\<close>

lemma fold_count: "fold (\<lambda>c m. m(c := Suc (m c))) cs m k = m k + count_list cs k" for m :: "'a \<Rightarrow> nat"
  by (induction cs arbitrary: m) auto

lemma count_list_distinct: "distinct xs \<Longrightarrow> count_list xs k = (if k \<in> set xs then 1 else 0)"
  by (induction xs) auto

text \<open>The reference count of an id is the number of other live items that cite it.\<close>

lemma references_count:
  "references items c =
     length (filter (\<lambda>(i, e). i \<noteq> c \<and> c \<in> set (derived_from (provenance (e_item e)))) items)"
proof -
  have one: "count_list (cited (i, e)) c =
      (if i \<noteq> c \<and> c \<in> set (derived_from (provenance (e_item e))) then 1 else 0)" for i e
    by (auto simp: cited_def count_list_distinct)
  have "fold (\<lambda>p m. fold (\<lambda>c m. m(c := m c + 1)) (cited p) m) items m c =
     m c + length (filter (\<lambda>(i, e). i \<noteq> c \<and> c \<in> set (derived_from (provenance (e_item e)))) items)" for m
    by (induction items arbitrary: m) (auto simp: fold_count one split: if_splits)
  then show ?thesis by (simp add: references_def)
qed

lemma filtered_keys:
  assumes "bt_wf items"
  shows "distinct (map fst (filter P items))"
    and "i \<in> set (map fst (filter P items)) \<longleftrightarrow> (\<exists>e. bt_get items i = Some e \<and> P (i, e))"
proof -
  show "distinct (map fst (filter P items))"
    using assms sorted_wrt_filter_map_fst [of "(<)" items P] by (simp add: bt_wf_def sorted_wrt_less_distinct)
  show "i \<in> set (map fst (filter P items)) \<longleftrightarrow> (\<exists>e. bt_get items i = Some e \<and> P (i, e))"
    using assms by (auto simp: bt_get_iff image_iff)
qed

lemma to_enduring_iff:
  "bt_wf items \<Longrightarrow> i \<in> set (to_enduring cfg items) \<longleftrightarrow>
     (\<exists>e. bt_get items i = Some e \<and> e_scope e = Major \<and> major_to_enduring_references cfg < references items i)"
  unfolding to_enduring_def by (subst filtered_keys(2)) auto

lemma to_major_iff:
  "bt_wf items \<Longrightarrow> i \<in> set (to_major cfg now items) \<longleftrightarrow>
     (\<exists>e. bt_get items i = Some e \<and> e_scope e = Minor \<and> minor_to_major_accesses cfg < in_window cfg now e)"
  unfolding to_major_def by (subst filtered_keys(2)) auto

lemma distinct_to_lists:
  assumes "bt_wf items"
  shows "distinct (to_enduring cfg items)" "distinct (to_major cfg now items)"
  using filtered_keys(1) [OF assms] by (simp_all add: to_enduring_def to_major_def)

definition all_bounded :: "Index \<Rightarrow> bool" where
  "all_bounded x \<longleftrightarrow> (\<forall>c. bounded x c)"

lemma cooled_mono: "cooled c x y \<Longrightarrow> c \<le> d \<Longrightarrow> cooled d x y"
  using cooled_trans [of d x x c y] by simp

text \<open>The index after the moves of an auto-promotion, before the bounds are enforced.\<close>

definition ix_auto_moved :: "PromotionConfig \<Rightarrow> Instant \<Rightarrow> Index \<Rightarrow> Index \<Rightarrow> bool" where
  "ix_auto_moved cfg now x y \<longleftrightarrow> index_wf y \<and> same_frame x y
     \<and> (\<forall>j. bt_get (ix_items y) j =
          (if j \<in> set (to_enduring cfg (ix_items x)) then map_option (Entry_moved Enduring Promoted) (bt_get (ix_items x) j)
           else if j \<in> set (to_major cfg now (ix_items x)) then map_option (Entry_moved Major Promoted) (bt_get (ix_items x) j)
           else bt_get (ix_items x) j))"

lemma ix_auto_moves:
  assumes "index_wf x"
  defines "cfg \<equiv> set_promotion (ix_settings x)"
  shows "\<exists>y1 y. ix_move_all Enduring Promoted (to_enduring cfg (ix_items x)) x = (Inr (), y1)
    \<and> ix_move_all Major Promoted (to_major cfg now (ix_items x)) y1 = (Inr (), y)
    \<and> ix_auto_moved cfg now x y"
proof -
  let ?en = "to_enduring cfg (ix_items x)" and ?ma = "to_major cfg now (ix_items x)"
  have wf: "bt_wf (ix_items x)" using assms(1) by (rule index_wf_items)
  have "\<forall>i\<in>set ?en. \<exists>e. bt_get (ix_items x) i = Some e \<and> e_scope e \<noteq> Enduring"
    by (auto simp: to_enduring_iff [OF wf])
  from ix_move_all_works [OF assms(1) distinct_to_lists(1) [OF wf] this, of Promoted]
  obtain y1 where y1: "ix_move_all Enduring Promoted ?en x = (Inr (), y1)" "index_wf y1" "same_frame x y1"
    "\<And>j. bt_get (ix_items y1) j = (if j \<in> set ?en
       then map_option (Entry_moved Enduring Promoted) (bt_get (ix_items x) j) else bt_get (ix_items x) j)"
    by auto
  have disj: "j \<in> set ?ma \<Longrightarrow> j \<notin> set ?en" for j
    by (auto simp: to_enduring_iff [OF wf] to_major_iff [OF wf])
  have "\<forall>i\<in>set ?ma. \<exists>e. bt_get (ix_items y1) i = Some e \<and> e_scope e \<noteq> Major"
    using disj by (auto simp: y1(4) to_major_iff [OF wf])
  from ix_move_all_works [OF y1(2) distinct_to_lists(2) [OF wf] this, of Promoted]
  obtain y where y: "ix_move_all Major Promoted ?ma y1 = (Inr (), y)" "index_wf y" "same_frame y1 y"
    "\<And>j. bt_get (ix_items y) j = (if j \<in> set ?ma
       then map_option (Entry_moved Major Promoted) (bt_get (ix_items y1) j) else bt_get (ix_items y1) j)"
    by auto
  have "ix_auto_moved cfg now x y"
    using y(2) same_frame_trans [OF y1(3) y(3)] disj by (auto simp: ix_auto_moved_def y(4) y1(4))
  with y1(1) y(1) show ?thesis by blast
qed

lemma ix_auto_moved_stats [simp]: "ix_auto_moved cfg now x (ix_promoted n y) = ix_auto_moved cfg now x y"
  by (simp add: ix_auto_moved_def index_wf_def same_frame_def)

text \<open>Enforcing the major bound, after items of the minor scope became major, keeps what was bounded.\<close>

lemma major_enforced:
  assumes y: "index_wf y" "same_frame x y" "in_scope y Enduring = in_scope x Enduring"
  shows "\<exists>z. ix_enforce F clk k Major y = (Inr (), z) \<and> index_wf z \<and> same_frame x z \<and> cooled Enduring y z
    \<and> (all_bounded x \<longrightarrow> all_bounded z)"
proof -
  obtain z where z: "ix_enforce F clk k Major y = (Inr (), z)" "index_wf z" "same_frame y z"
    "cooled Major y z" "\<forall>c\<le> Major. bounded z c"
    using ix_enforce_works [OF y(1)] by blast
  have "in_scope z Enduring = in_scope x Enduring" using cooled_hotter [OF z(4), of Enduring] y(3) by simp
  moreover have fr: "same_frame x z" using y(2) z(3) by (rule same_frame_trans)
  ultimately have "bounded x Enduring \<Longrightarrow> bounded z Enduring" using bounded_frame by blast
  moreover have "c \<noteq> Enduring \<Longrightarrow> c \<le> Major" for c by (cases c) (auto simp: scope_le_iff)
  ultimately have "all_bounded x \<longrightarrow> all_bounded z" using z(5) by (metis all_bounded_def)
  moreover have "cooled Enduring y z" by (rule cooled_mono [OF z(4)]) (simp add: scope_le_iff)
  ultimately show ?thesis using z(1,2) fr by blast
qed

lemma ix_auto_promote_works:
  assumes "index_wf x"
  defines "cfg \<equiv> set_promotion (ix_settings x)"
  shows "\<exists>y z. ix_auto_promote F clk k now x =
      (Inr (length (to_enduring cfg (ix_items x)) + length (to_major cfg now (ix_items x))), z)
    \<and> ix_auto_moved cfg now x y \<and> index_wf z \<and> same_frame x z \<and> cooled Enduring y z
    \<and> (all_bounded x \<longrightarrow> all_bounded z)"
proof -
  let ?en = "to_enduring cfg (ix_items x)" and ?ma = "to_major cfg now (ix_items x)"
  let ?n = "length ?en + length ?ma"
  have wf: "bt_wf (ix_items x)" using assms(1) by (rule index_wf_items)
  obtain y1 y where y: "ix_move_all Enduring Promoted ?en x = (Inr (), y1)"
    "ix_move_all Major Promoted ?ma y1 = (Inr (), y)" "ix_auto_moved cfg now x y"
    using ix_auto_moves [OF assms(1), of now] by (auto simp: cfg_def)
  let ?y = "ix_promoted ?n y"
  have ywf: "index_wf ?y" "same_frame x ?y" using y(3) by (auto simp: ix_auto_moved_def same_frame_def index_wf_def)
  have yget: "bt_get (ix_items y) j =
      (if j \<in> set ?en then map_option (Entry_moved Enduring Promoted) (bt_get (ix_items x) j)
       else if j \<in> set ?ma then map_option (Entry_moved Major Promoted) (bt_get (ix_items x) j)
       else bt_get (ix_items x) j)" for j
    using y(3) by (simp add: ix_auto_moved_def)
  have all: "c \<le> Enduring" for c by (cases c) (auto simp: scope_le_iff)
  have run: "ix_auto_promote F clk k now x =
      (case (if ?en \<noteq> [] then ix_enforce F clk k Enduring else if ?ma \<noteq> [] then ix_enforce F clk k Major else ok ()) ?y of
         (Inl a, t) \<Rightarrow> (Inl a, t) | (Inr _, t) \<Rightarrow> (Inr ?n, t))"
    using y(1,2) by (auto simp: ix_auto_promote_def cfg_def [symmetric] Let_def try_bind_def split: prod.splits sum.splits)
  show ?thesis
  proof (cases "?en = []")
    case False
    obtain z where "ix_enforce F clk k Enduring ?y = (Inr (), z)" "index_wf z" "same_frame ?y z"
      "cooled Enduring ?y z" "\<forall>c\<le> Enduring. bounded z c"
      using ix_enforce_works [OF ywf(1)] by blast
    then show ?thesis using False run y(3) same_frame_trans [OF ywf(2), of z] all
      by (intro exI [of _ ?y] exI [of _ z]) (simp add: all_bounded_def)
  next
    case en: True
    show ?thesis
    proof (cases "?ma = []")
      case True
      have "in_scope ?y c = in_scope x c" for c by (auto simp: in_scope_iff yget en True)
      then have "all_bounded x \<longrightarrow> all_bounded ?y"
        using bounded_frame [OF ywf(2)] by (simp add: all_bounded_def)
      then show ?thesis using True en run y(3) ywf by (intro exI [of _ ?y]) simp
    next
      case False
      have ma: "\<exists>e. bt_get (ix_items x) i = Some e \<and> e_scope e = Minor" if "i \<in> set ?ma" for i
        using that by (auto simp: to_major_iff [OF wf])
      have "in_scope ?y Enduring = in_scope x Enduring"
      proof (intro set_eqI)
        fix j
        show "j \<in> in_scope ?y Enduring \<longleftrightarrow> j \<in> in_scope x Enduring"
          using ma [of j] by (auto simp: in_scope_iff yget en)
      qed
      then obtain z where "ix_enforce F clk k Major ?y = (Inr (), z)" "index_wf z" "same_frame x z"
        "cooled Enduring ?y z" "all_bounded x \<longrightarrow> all_bounded z"
        using major_enforced [OF ywf] by blast
      then show ?thesis using False en run y(3) by (intro exI [of _ ?y] exI [of _ z]) simp
    qed
  qed
qed

section \<open>Queries\<close>

text \<open>The items a query touches, and the ranked items it returns for them.\<close>

definition query_hits :: "ContextQuery \<Rightarrow> QuadPattern \<Rightarrow> (ItemId, Entry) btree_map \<Rightarrow> (ItemId \<times> ContextScope) list" where
  "query_hits query pat items =
     truncate_hits (qy_limit query) (concat (map (hits_in pat items) (ScopeSelection_scopes (qy_scopes query))))"

definition ranked :: "(ItemId, Entry) btree_map \<Rightarrow> ItemId \<times> ContextScope \<Rightarrow> RankedItem" where
  "ranked items h =
     \<lparr>ri_id = fst h, ri_item = e_item (the (bt_get items (fst h))), ri_score = f64_one, ri_source_scope = snd h\<rparr>"

lemma set_hits_in:
  "bt_wf items \<Longrightarrow> (i, c) \<in> set (hits_in pat items sc) \<longleftrightarrow>
     c = sc \<and> (\<exists>e. bt_get items i = Some e \<and> e_scope e = sc \<and> item_matches pat (e_item e) \<noteq> [])"
  by (auto simp: hits_in_def scope_entries_def bt_get_iff image_iff)

lemma distinct_hits_in: "bt_wf items \<Longrightarrow> distinct (map fst (hits_in pat items sc))"
proof -
  assume "bt_wf items"
  then have "distinct (map fst (filter P (filter Q items)))" for P Q
    using filtered_keys(1) [of items "\<lambda>p. P p \<and> Q p"] by (simp add: conj_commute)
  then show ?thesis
    by (simp add: hits_in_def scope_entries_def comp_def case_prod_unfold)
qed

lemma distinct_all_hits:
  assumes "bt_wf items" "distinct scopes"
  shows "distinct (map fst (concat (map (hits_in pat items) scopes)))"
  using assms(2)
proof (induction scopes)
  case (Cons sc scopes)
  have "fst ` set (hits_in pat items sc) \<inter> fst ` set (concat (map (hits_in pat items) scopes)) = {}"
  proof (rule ccontr)
    assume "\<not> ?thesis"
    then obtain i c1 c2 d where "(i, c1) \<in> set (hits_in pat items sc)" "d \<in> set scopes"
      "(i, c2) \<in> set (hits_in pat items d)" by fastforce
    then have "sc = d" by (auto simp: set_hits_in [OF assms(1)])
    with \<open>d \<in> set scopes\<close> Cons.prems show False by simp
  qed
  then show ?case using Cons distinct_hits_in [OF assms(1)] by simp
qed simp

lemma truncate_hits_sub: "\<exists>ys. xs = truncate_hits n xs @ ys"
  by (cases n) (auto simp: truncate_hits_def, metis append_take_drop_id)

lemma query_hits_distinct:
  assumes "bt_wf items"
  shows "distinct (map fst (query_hits query pat items))"
proof -
  let ?all = "concat (map (hits_in pat items) (ScopeSelection_scopes (qy_scopes query)))"
  obtain ys where "?all = query_hits query pat items @ ys"
    using truncate_hits_sub [of ?all "qy_limit query"] by (auto simp: query_hits_def)
  moreover have "distinct (map fst ?all)" by (rule distinct_all_hits [OF assms]) simp
  ultimately show ?thesis by (metis distinct_append map_append)
qed

lemma query_hits_sub:
  "set (query_hits query pat items)
     \<subseteq> set (concat (map (hits_in pat items) (ScopeSelection_scopes (qy_scopes query))))"
  by (auto simp: query_hits_def truncate_hits_def dest: in_set_takeD split: option.splits)

lemma query_hits_live:
  assumes "bt_wf items" "(i, c) \<in> set (query_hits query pat items)"
  shows "\<exists>e. bt_get items i = Some e \<and> e_scope e = c \<and> item_matches pat (e_item e) \<noteq> []
    \<and> c \<in> set (scopes_listed (qy_scopes query))"
  using assms query_hits_sub [of query pat items] by (fastforce simp: set_hits_in)

lemma ix_touch_works:
  assumes "index_wf x" "distinct (map fst hits)" "\<forall>h\<in>set hits. bt_get (ix_items x) (fst h) \<noteq> None"
  shows "\<exists>y. ix_touch F now w hl hits x = (Inr (map (ranked (ix_items x)) hits), y)
    \<and> index_wf y \<and> same_frame x y \<and> ix_stats y = ix_stats x
    \<and> (\<forall>j. bt_get (ix_items y) j =
         (if j \<in> fst ` set hits then map_option (Entry_touch F now w hl) (bt_get (ix_items x) j)
          else bt_get (ix_items x) j))"
  using assms
proof (induction hits arbitrary: x)
  case Nil
  then show ?case by simp
next
  case (Cons h hits)
  obtain i sc where h: "h = (i, sc)" by (cases h)
  obtain e where e: "bt_get (ix_items x) i = Some e" using Cons.prems(3) h by auto
  define x1 where "x1 = x\<lparr>ix_items := bt_adjust i (Entry_touch F now w hl) (ix_items x)\<rparr>"
  have get1: "bt_get (ix_items x1) j = (if j = i then Some (Entry_touch F now w hl e) else bt_get (ix_items x) j)" for j
    using e by (simp add: x1_def)
  have wf1: "index_wf x1" unfolding x1_def using Cons.prems(1) by (rule index_wf_adjust) simp
  have live: "\<forall>h\<in>set hits. bt_get (ix_items x1) (fst h) \<noteq> None" using Cons.prems(3) by (auto simp: get1)
  obtain y where y: "ix_touch F now w hl hits x1 = (Inr (map (ranked (ix_items x1)) hits), y)" "index_wf y"
    "same_frame x1 y" "ix_stats y = ix_stats x1"
    "\<And>j. bt_get (ix_items y) j = (if j \<in> fst ` set hits
       then map_option (Entry_touch F now w hl) (bt_get (ix_items x1) j) else bt_get (ix_items x1) j)"
    using Cons.IH [OF wf1 _ live] Cons.prems(2) by auto
  have "map (ranked (ix_items x1)) hits = map (ranked (ix_items x)) hits"
    using Cons.prems(2) h by (auto simp: ranked_def get1)
  then have "ix_touch F now w hl (h # hits) x = (Inr (map (ranked (ix_items x)) (h # hits)), y)"
    using y(1) e h by (simp add: x1_def [symmetric] ranked_def)
  moreover have "same_frame x y" "ix_stats y = ix_stats x" using y(3,4) by (simp_all add: same_frame_def x1_def)
  ultimately show ?case using y(2) Cons.prems(2) e h by (auto simp: y(5) get1)
qed

lemma bounded_scopes: "same_frame x y \<Longrightarrow> scope_at y = scope_at x \<Longrightarrow> bounded y c = bounded x c"
  by (rule bounded_frame) (simp_all add: in_scope_def)

text \<open>The index after a query has touched its hits and counted itself.\<close>

definition ix_served :: "F64Ops \<Rightarrow> Instant \<Rightarrow> (ItemId \<times> ContextScope) list \<Rightarrow> Index \<Rightarrow> Index \<Rightarrow> bool" where
  "ix_served F now hits x y \<longleftrightarrow> index_wf y \<and> same_frame x y
     \<and> ix_stats y = (ix_stats x)\<lparr>queries_served := add64 (queries_served (ix_stats x)) 1\<rparr>
     \<and> (\<forall>j. bt_get (ix_items y) j =
          (if j \<in> fst ` set hits
           then map_option (Entry_touch F now (minor_window (set_promotion (ix_settings x)))
                  (policy_half_life (set_eviction_policy (ix_settings x)))) (bt_get (ix_items x) j)
           else bt_get (ix_items x) j))"

lemma ix_served_scope: "ix_served F now hits x y \<Longrightarrow> scope_at y = scope_at x"
  by (rule ext) (simp add: ix_served_def scope_at_def option.map_comp comp_def)

lemma ix_served_bounded: "ix_served F now hits x y \<Longrightarrow> all_bounded y = all_bounded x"
  using bounded_scopes [of x y] ix_served_scope [of F now hits x y]
  by (auto simp: all_bounded_def ix_served_def [of F now hits x y])

lemma ix_run_pattern_works:
  assumes "index_wf x"
  defines "cfg \<equiv> set_promotion (ix_settings x)"
  shows "\<exists>y z n. ix_run_pattern F clk query pat x =
      (Inr \<lparr>res_items = map (ranked (ix_items x)) (query_hits query pat (ix_items x)),
            res_query_stats = \<lparr>scopes_consulted = length (ScopeSelection_scopes (qy_scopes query)),
              quads_matched = sum_list (map (matched_in pat (ix_items x)) (ScopeSelection_scopes (qy_scopes query))),
              auto_promoted = n\<rparr>\<rparr>, z)
    \<and> ix_served F (clk 0) (query_hits query pat (ix_items x)) x y
    \<and> (if cadence cfg = AfterEachQuery then ix_auto_promote F clk 1 (clk 0) y = (Inr n, z) else n = 0 \<and> z = y)
    \<and> index_wf z \<and> same_frame x z \<and> (all_bounded x \<longrightarrow> all_bounded z)"
proof -
  let ?hits = "query_hits query pat (ix_items x)"
  let ?w = "minor_window cfg" and ?hl = "policy_half_life (set_eviction_policy (ix_settings x))"
  have wf: "bt_wf (ix_items x)" using assms(1) by (rule index_wf_items)
  have "\<forall>h\<in>set ?hits. bt_get (ix_items x) (fst h) \<noteq> None"
    using query_hits_live [OF wf] by fastforce
  then obtain y1 where y1: "ix_touch F (clk 0) ?w ?hl ?hits x = (Inr (map (ranked (ix_items x)) ?hits), y1)"
    "index_wf y1" "same_frame x y1" "ix_stats y1 = ix_stats x"
    "\<And>j. bt_get (ix_items y1) j = (if j \<in> fst ` set ?hits
       then map_option (Entry_touch F (clk 0) ?w ?hl) (bt_get (ix_items x) j) else bt_get (ix_items x) j)"
    using ix_touch_works [OF assms(1) query_hits_distinct [OF wf, of query pat], of F "clk 0" ?w ?hl] by auto
  define y where "y = y1\<lparr>ix_stats := (ix_stats y1)\<lparr>queries_served := add64 (queries_served (ix_stats y1)) 1\<rparr>\<rparr>"
  have y: "ix_served F (clk 0) ?hits x y"
    using y1 by (simp add: ix_served_def y_def same_frame_def cfg_def)
  then have yb: "all_bounded x \<longrightarrow> all_bounded y" by (simp add: ix_served_bounded)
  have ywf: "index_wf y" "same_frame x y" using y by (simp_all add: ix_served_def)
  have run: "ix_run_pattern F clk query pat x =
     try_bind (if cadence cfg = AfterEachQuery then ix_auto_promote F clk 1 (clk 0) else ok 0)
       (\<lambda>n. ok \<lparr>res_items = map (ranked (ix_items x)) ?hits,
            res_query_stats = \<lparr>scopes_consulted = length (ScopeSelection_scopes (qy_scopes query)),
              quads_matched = sum_list (map (matched_in pat (ix_items x)) (ScopeSelection_scopes (qy_scopes query))),
              auto_promoted = n\<rparr>\<rparr>) y"
    unfolding y_def using y1(1)
    by (simp add: ix_run_pattern_def Let_def cfg_def [symmetric] query_hits_def [symmetric])
  show ?thesis
  proof (cases "cadence cfg = AfterEachQuery")
    case True
    obtain n z where z: "ix_auto_promote F clk 1 (clk 0) y = (Inr n, z)" "index_wf z" "same_frame y z"
      "all_bounded y \<longrightarrow> all_bounded z"
      using ix_auto_promote_works [OF ywf(1), of F clk 1 "clk 0"] by blast
    have "same_frame x z" using ywf(2) z(3) by (rule same_frame_trans)
    then show ?thesis using True run y z yb by auto
  next
    case False
    then show ?thesis using run y ywf yb by auto
  qed
qed

end
