(* ===== verification/Refinement.thy ===== *)
theory Refinement
  imports Prelude
begin

text \<open>
  A refinement calculus for stateful operations that may fail.

  \<open>refines_at fails undef base good rel absn m g s\<close>: run in a state \<open>s\<close> that satisfies
  \<open>good\<close>, the operation \<open>m\<close> either stops with an error that \<open>fails\<close> admits, in a state
  that satisfies at least \<open>base\<close>, or has the same outcome as the abstract operation \<open>g\<close>
  on \<open>absn s\<close>, ends in a state with the abstract operation's final state as abstraction,
  and re-establishes \<open>good\<close>. In both cases \<open>rel\<close> holds between the initial and the final
  state. Nothing is claimed where the abstract operation stops with an error in \<open>undef\<close>.

  The locale \<open>refinement\<close> has the composition rules, one per construct of the programs.
\<close>

definition refines_at ::
    "('e \<Rightarrow> bool) \<Rightarrow> ('e \<Rightarrow> bool) \<Rightarrow> ('s \<Rightarrow> bool) \<Rightarrow> ('s \<Rightarrow> bool) \<Rightarrow> ('s \<Rightarrow> 's \<Rightarrow> bool) \<Rightarrow> ('s \<Rightarrow> 'x) \<Rightarrow>
     ('s, 'e, 'a) res_st \<Rightarrow> ('x, 'e, 'a) res_st \<Rightarrow> 's \<Rightarrow> bool" where
  "refines_at fails undef base good rel absn m g s \<longleftrightarrow>
     (\<forall>r t. good s \<longrightarrow> m s = (r, t) \<longrightarrow>
        (\<exists>a. fst (g (absn s)) = Inl a \<and> undef a)
      \<or> rel s t \<and> ((\<exists>a. r = Inl a \<and> fails a \<and> base t) \<or> (r, absn t) = g (absn s) \<and> good t))"

lemma refines_at_unfold:
  assumes "refines_at fails undef base good rel absn m' g' s" "m s = m' s" "g (absn s) = g' (absn s)"
  shows "refines_at fails undef base good rel absn m g s"
  using assms by (simp add: refines_at_def)

locale refinement =
  fixes fails undef :: "'e \<Rightarrow> bool"
    and base good :: "'s \<Rightarrow> bool"
    and rel :: "'s \<Rightarrow> 's \<Rightarrow> bool"
    and absn :: "'s \<Rightarrow> 'x"
  assumes rel_refl: "rel s s"
    and rel_trans: "rel s t \<Longrightarrow> rel t u \<Longrightarrow> rel s u"

begin

lemma refines_bind:
  assumes m: "refines_at fails undef base good rel absn m g s"
    and f: "\<And>a t. refines_at fails undef base good rel absn (f a) (h a) t"
  shows "refines_at fails undef base good rel absn (try_bind m f) (try_bind g h) s"
  unfolding refines_at_def
proof (intro allI impI)
  fix r t
  assume good: "good s" and run: "try_bind m f s = (r, t)"
  obtain r1 t1 where m1: "m s = (r1, t1)" by (cases "m s")
  obtain r2 x where g1: "g (absn s) = (r2, x)" by (cases "g (absn s)")
  note step = m [unfolded refines_at_def, rule_format, OF good m1]
  show "(\<exists>a. fst (try_bind g h (absn s)) = Inl a \<and> undef a) \<or>
        rel s t \<and> ((\<exists>a. r = Inl a \<and> fails a \<and> base t) \<or> (r, absn t) = try_bind g h (absn s) \<and> good t)"
  proof (cases "\<exists>a. r2 = Inl a")
    case True
    then show ?thesis using step m1 g1 run by (cases r1) (auto simp: try_bind_def)
  next
    case False
    then obtain b where b: "r2 = Inr b" by (cases r2) auto
    show ?thesis
    proof (cases r1)
      case (Inl a)
      then show ?thesis using step m1 g1 b run by (auto simp: try_bind_def)
    next
      case (Inr a)
      with step g1 b have ab: "a = b" "absn t1 = x" "good t1" "rel s t1" by auto
      have run': "f a t1 = (r, t)" using run m1 Inr by (simp add: try_bind_def)
      have "(\<exists>a'. fst (h a (absn t1)) = Inl a' \<and> undef a') \<or>
        rel t1 t \<and> ((\<exists>a. r = Inl a \<and> fails a \<and> base t) \<or> (r, absn t) = h a (absn t1) \<and> good t)"
        using f [of a t1, unfolded refines_at_def, rule_format, OF ab(3) run'] .
      then show ?thesis using ab g1 b rel_trans [OF ab(4), of t] by (auto simp: try_bind_def)
    qed
  qed
qed

lemma refines_same:
  assumes "good s \<Longrightarrow> m s = (r, s)" and "good s \<Longrightarrow> g (absn s) = (r, absn s)"
  shows "refines_at fails undef base good rel absn m g s"
  using assms by (auto simp: refines_at_def rel_refl)

lemma refines_ok: "refines_at fails undef base good rel absn (ok a) (ok a) s"
  by (rule refines_same) simp_all

lemma refines_throw: "refines_at fails undef base good rel absn (throw e) (throw e) s"
  by (rule refines_same) simp_all

lemma refines_modify:
  assumes "good s \<Longrightarrow> absn (f s) = k (absn s)" and "good s \<Longrightarrow> good (f s)" and "good s \<Longrightarrow> rel s (f s)"
  shows "refines_at fails undef base good rel absn (modify f) (modify k) s"
  using assms by (auto simp: refines_at_def)

lemma refines_undef:
  assumes "good s \<Longrightarrow> \<exists>a x. g (absn s) = (Inl a, x) \<and> undef a"
  shows "refines_at fails undef base good rel absn m g s"
  using assms by (fastforce simp: refines_at_def)

lemma refines_for_each:
  fixes xs :: "'i list"
  assumes "\<And>x t. x \<in> set xs \<Longrightarrow> refines_at fails undef base good rel absn (f x) (g x) t"
  shows "refines_at fails undef base good rel absn (for_each f xs) (for_each g xs) s"
  using assms
proof (induction xs arbitrary: s)
  case Nil
  show ?case by (rule refines_same) simp_all
next
  case (Cons y ys)
  have "for_each f (y # ys) = try_bind (f y) (\<lambda>_. for_each f ys)"
    and "for_each g (y # ys) = try_bind (g y) (\<lambda>_. for_each g ys)"
    by (auto simp: try_bind_def)
  then show ?case using Cons by (simp only:) (rule refines_bind, auto)
qed

text \<open>
  A concrete step with no abstract counterpart, computing a value that the abstract
  operation computes from its state.
\<close>

lemma refines_value:
  assumes step: "\<And>r t. good s \<Longrightarrow> m s = (r, t) \<Longrightarrow>
      rel s t \<and> ((\<exists>a. r = Inl a \<and> fails a \<and> base t) \<or> r = Inr v \<and> absn t = absn s \<and> good t)"
    and rest: "\<And>t. refines_at fails undef base good rel absn (f v) h t"
  shows "refines_at fails undef base good rel absn (try_bind m f) h s"
proof -
  have "refines_at fails undef base good rel absn (try_bind m f) (try_bind (ok v) (\<lambda>_. h)) s"
    unfolding refines_at_def
  proof (intro allI impI)
    fix r t
    assume good: "good s" and run: "try_bind m f s = (r, t)"
    obtain r1 t1 where m1: "m s = (r1, t1)" by (cases "m s")
    have "rel s t1 \<and> ((\<exists>a. r1 = Inl a \<and> fails a \<and> base t1) \<or> r1 = Inr v \<and> absn t1 = absn s \<and> good t1)"
      by (rule step [OF good m1])
    then show "(\<exists>a. fst (try_bind (ok v) (\<lambda>_. h) (absn s)) = Inl a \<and> undef a) \<or>
        rel s t \<and> ((\<exists>a. r = Inl a \<and> fails a \<and> base t)
          \<or> (r, absn t) = try_bind (ok v) (\<lambda>_. h) (absn s) \<and> good t)"
    proof (elim conjE disjE exE)
      fix a
      assume "rel s t1" "r1 = Inl a" "fails a" "base t1"
      then show ?thesis using run m1 by (auto simp: try_bind_def)
    next
      assume v: "rel s t1" "r1 = Inr v" "absn t1 = absn s" "good t1"
      have run': "f v t1 = (r, t)" using run m1 v by (simp add: try_bind_def)
      have "(\<exists>a'. fst (h (absn t1)) = Inl a' \<and> undef a') \<or>
        rel t1 t \<and> ((\<exists>a. r = Inl a \<and> fails a \<and> base t) \<or> (r, absn t) = h (absn t1) \<and> good t)"
        using rest [of t1, unfolded refines_at_def, rule_format, OF v(4) run'] .
      then show ?thesis using v rel_trans [OF v(1), of t] by (auto simp: try_bind_def)
    qed
  qed
  then show ?thesis by (simp add: refines_at_def try_bind_def)
qed

end

end
