(* ===== verification/Session_Refine.thy ===== *)
theory Session_Refine
  imports Session_Ops Refinement
begin

text \<open>
  The session of \<open>Session_Model\<close> implements the abstract session of \<open>Session_Spec\<close> over any
  store that satisfies the storage contract.

  Two invariants relate the index and the stores. \<open>mirrored\<close>: each store holds exactly
  the encoded quads of the items that are live in its scope (next to quads that are not
  the session's own, which it never touches). \<open>covered\<close>: the same for the scope an item
  lives in, while other stores may hold left-over copies, as an operation that fails
  half-way leaves them. Every operation keeps \<open>covered\<close> whatever its outcome, and
  re-establishes \<open>mirrored\<close> unless a store failed.
\<close>

section \<open>Invariants\<close>

text \<open>The quads of item \<open>i\<close> in the store of scope \<open>sc\<close>, and the quads that belong to no item.\<close>

definition part :: "('st \<Rightarrow> Quad set) \<Rightarrow> 'st Session \<Rightarrow> ContextScope \<Rightarrow> ItemId \<Rightarrow> Quad set" where
  "part quads_of s sc i = {q \<in> quads_of (Tiers_get (s_stores s) sc). owned i q}"

definition unowned :: "Quad \<Rightarrow> bool" where
  "unowned q \<longleftrightarrow> (\<forall>i<2 ^ 64. \<not> owned i q)"

definition foreign :: "('st \<Rightarrow> Quad set) \<Rightarrow> 'st Session \<Rightarrow> ContextScope \<Rightarrow> Quad set" where
  "foreign quads_of s sc = {q \<in> quads_of (Tiers_get (s_stores s) sc). unowned q}"

definition session_wf :: "('st \<Rightarrow> bool) \<Rightarrow> (Quad \<Rightarrow> bool) \<Rightarrow> JsonOps \<Rightarrow> 'st Session \<Rightarrow> bool" where
  "session_wf st_ok accepts J s \<longleftrightarrow>
     (\<forall>sc. st_ok (Tiers_get (s_stores s) sc)) \<and> index_wf (index_of s)
   \<and> (\<forall>i e. bt_get (s_items s) i = Some e \<longrightarrow> (\<forall>q\<in>set (encode J i (e_item e)). accepts q))"

text \<open>
  \<open>part_ok strict accepts J next i entry sc Q\<close>: the quads \<open>Q\<close> of item \<open>i\<close> in the store of \<open>sc\<close>
  agree with the item's index entry. In the scope it lives in, an item has exactly its
  encoded quads. Elsewhere it has none (\<open>strict\<close>), or a left-over copy. An id that is not
  live has none (\<open>strict\<close>), or the left-over copy of an item that used it before. A left-over
  copy is complete, since items are written and deleted in one transaction, and its quads
  are as acceptable as those of a live item.
\<close>

definition part_ok :: "bool \<Rightarrow> (Quad \<Rightarrow> bool) \<Rightarrow> JsonOps \<Rightarrow> nat \<Rightarrow> ItemId \<Rightarrow> Entry option \<Rightarrow> ContextScope \<Rightarrow> Quad set \<Rightarrow> bool" where
  "part_ok strict accepts J next i entry sc Q \<longleftrightarrow>
     (case entry of
        Some e \<Rightarrow> Q = set (encode J i (e_item e)) \<and> (sc = e_scope e \<or> \<not> strict) \<or> Q = {} \<and> sc \<noteq> e_scope e
      | None \<Rightarrow> Q = {} \<or> \<not> strict \<and> i < next \<and> (\<exists>it. storable it \<and> Q = set (encode J i it) \<and> (\<forall>q\<in>Q. accepts q)))"

definition part_inv :: "bool \<Rightarrow> (Quad \<Rightarrow> bool) \<Rightarrow> JsonOps \<Rightarrow> (ItemId, Entry) btree_map \<Rightarrow> nat \<Rightarrow>
    (ContextScope \<Rightarrow> ItemId \<Rightarrow> Quad set) \<Rightarrow> bool" where
  "part_inv strict accepts J items next P \<longleftrightarrow>
     (\<forall>i<2 ^ 64. \<forall>sc. part_ok strict accepts J next i (bt_get items i) sc (P sc i))"

definition session_inv :: "bool \<Rightarrow> ('st \<Rightarrow> Quad set) \<Rightarrow> ('st \<Rightarrow> bool) \<Rightarrow> (Quad \<Rightarrow> bool) \<Rightarrow> JsonOps \<Rightarrow>
    'st Session \<Rightarrow> bool" where
  "session_inv strict quads_of st_ok accepts J s \<longleftrightarrow> session_wf st_ok accepts J s
     \<and> part_inv strict accepts J (s_items s) (s_next_id s) (part quads_of s)"

definition mirrored :: "('st \<Rightarrow> Quad set) \<Rightarrow> ('st \<Rightarrow> bool) \<Rightarrow> (Quad \<Rightarrow> bool) \<Rightarrow> JsonOps \<Rightarrow> 'st Session \<Rightarrow> bool" where
  "mirrored = session_inv True"

definition covered :: "('st \<Rightarrow> Quad set) \<Rightarrow> ('st \<Rightarrow> bool) \<Rightarrow> (Quad \<Rightarrow> bool) \<Rightarrow> JsonOps \<Rightarrow> 'st Session \<Rightarrow> bool" where
  "covered = session_inv False"

definition session_rel :: "('st \<Rightarrow> Quad set) \<Rightarrow> 'st Session \<Rightarrow> 'st Session \<Rightarrow> bool" where
  "session_rel quads_of s t \<longleftrightarrow> s_settings t = s_settings s \<and> s_next_id s \<le> s_next_id t
     \<and> foreign quads_of t = foreign quads_of s"

lemma part_ok_weaken: "part_ok strict accepts J next i entry sc Q \<Longrightarrow> part_ok False accepts J next i entry sc Q"
  by (auto simp: part_ok_def split: option.splits if_splits)

lemma part_inv_weaken: "part_inv strict accepts J items next P \<Longrightarrow> part_inv False accepts J items next P"
  unfolding part_inv_def using part_ok_weaken by blast

lemma session_inv_covered:
  "session_inv strict quads_of st_ok accepts J s \<Longrightarrow> covered quads_of st_ok accepts J s"
  by (auto simp: covered_def session_inv_def intro: part_inv_weaken)

lemma Tiers_get_put [simp]: "Tiers_get (Tiers_put t sc st) c = (if c = sc then st else Tiers_get t c)"
  by (cases sc; cases c) simp_all

definition storage_failure :: "Abort \<Rightarrow> bool" where
  "storage_failure a \<longleftrightarrow> (\<exists>e. a = Err (StorageFailed e))"

section \<open>The invariant under the steps\<close>

lemma part_invD:
  "part_inv strict accepts J items next P \<Longrightarrow> i < 2 ^ 64 \<Longrightarrow> part_ok strict accepts J next i (bt_get items i) sc (P sc i)"
  unfolding part_inv_def by blast

lemma part_inv_change:
  assumes "part_inv strict accepts J items next P"
    and "\<And>sc. part_ok strict' accepts J next i (bt_get items' i) sc (P' sc i)"
    and "\<And>sc j. j < 2 ^ 64 \<Longrightarrow> j \<noteq> i \<Longrightarrow> P' sc j = P sc j"
    and "\<And>j. j \<noteq> i \<Longrightarrow> bt_get items' j = bt_get items j"
    and "strict' \<longrightarrow> strict"
  shows "part_inv strict' accepts J items' next P'"
  unfolding part_inv_def
proof (intro allI impI)
  fix j sc
  assume j: "j < (2::nat) ^ 64"
  show "part_ok strict' accepts J next j (bt_get items' j) sc (P' sc j)"
  proof (cases "j = i")
    case False
    then show ?thesis using part_invD [OF assms(1) j, of sc] part_ok_weaken assms(3-5) j
      by (cases strict') auto
  qed (simp add: assms(2))
qed

lemma part_inv_copy:
  assumes inv: "part_inv strict accepts J items next P" and i: "bt_get items i = Some e" "i < 2 ^ 64"
    and P': "\<And>c j. j < 2 ^ 64 \<Longrightarrow> P' c j = (if c = to \<and> j = i then P to i \<union> set (encode J i (e_item e)) else P c j)"
  shows "part_inv False accepts J items next P'"
proof (rule part_inv_change [OF inv, of False i])
  fix sc
  show "part_ok False accepts J next i (bt_get items i) sc (P' sc i)"
    using part_ok_weaken [OF part_invD [OF inv i(2), of sc]] i
    by (auto simp: P' part_ok_def split: if_splits)
qed (simp_all add: P')

lemma part_inv_move:
  assumes inv: "part_inv strict accepts J items next P" and i: "bt_get items i = Some e" "i < 2 ^ 64" "e_scope e \<noteq> to"
    and P': "\<And>c j. j < 2 ^ 64 \<Longrightarrow> P' c j =
      (if j = i \<and> c = to then P to i \<union> set (encode J i (e_item e)) else if j = i \<and> c = e_scope e then {} else P c j)"
  shows "part_inv strict accepts J (bt_adjust i (Entry_moved to arr) items) next P'"
proof (rule part_inv_change [OF inv, of strict i])
  fix sc
  have "part_ok strict accepts J next i (Some e) sc (P sc i)" using part_invD [OF inv i(2), of sc] i(1) by simp
  then show "part_ok strict accepts J next i (bt_get (bt_adjust i (Entry_moved to arr) items) i) sc (P' sc i)"
    using i by (auto simp: P' part_ok_def split: if_splits)
qed (simp_all add: P')

lemma part_inv_delete:
  assumes inv: "part_inv strict accepts J items next P" and i: "bt_get items i = Some e" "i < 2 ^ 64" "i < next" "storable (e_item e)"
      "\<forall>q\<in>set (encode J i (e_item e)). accepts q"
    and P': "\<And>c j. j < 2 ^ 64 \<Longrightarrow> P' c j = (if j = i \<and> c = e_scope e then {} else P c j)"
  shows "part_inv strict accepts J (bt_remove i items) next P'"
proof (rule part_inv_change [OF inv, of strict i])
  fix sc
  have "part_ok strict accepts J next i (Some e) sc (P sc i)" using part_invD [OF inv i(2), of sc] i(1) by simp
  then show "part_ok strict accepts J next i (bt_get (bt_remove i items) i) sc (P' sc i)"
    using i by (auto simp: P' part_ok_def split: if_splits)
qed (simp_all add: P')

lemma part_inv_touch:
  assumes inv: "part_inv strict accepts J items next P" and f: "\<And>e. e_item (f e) = e_item e" "\<And>e. e_scope (f e) = e_scope e"
  shows "part_inv strict accepts J (bt_adjust i f items) next P"
  unfolding part_inv_def
proof (intro allI impI)
  fix j sc
  assume "j < (2::nat) ^ 64"
  from part_invD [OF inv this, of sc]
  show "part_ok strict accepts J next j (bt_get (bt_adjust i f items) j) sc (P sc j)"
    using f by (cases "j = i"; cases "bt_get items j") (simp_all add: part_ok_def)
qed

lemma part_inv_add:
  assumes inv: "part_inv strict accepts J items next P" and next': "next \<le> next'"
    and get: "\<And>j. bt_get items' j = (if next \<le> j \<and> j < next' then Some (f j) else bt_get items j)"
    and f: "\<And>j. next \<le> j \<Longrightarrow> j < next' \<Longrightarrow> e_scope (f j) = sc \<and> bt_get items j = None"
    and P': "\<And>c j. j < 2 ^ 64 \<Longrightarrow> P' c j =
      P c j \<union> (if c = sc \<and> next \<le> j \<and> j < next' then set (encode J j (e_item (f j))) else {})"
  shows "part_inv strict accepts J items' next' P'"
  unfolding part_inv_def
proof (intro allI impI)
  fix j c
  assume j: "j < (2::nat) ^ 64"
  have old: "part_ok strict accepts J next j (bt_get items j) c (P c j)" by (rule part_invD [OF inv j])
  show "part_ok strict accepts J next' j (bt_get items' j) c (P' c j)"
  proof (cases "next \<le> j \<and> j < next'")
    case True
    then show ?thesis using old f [of j]
      by (cases "c = sc") (simp_all add: part_ok_def get P' [OF j])
  next
    case False
    then have "P' c j = P c j" "bt_get items' j = bt_get items j" by (auto simp: get P' [OF j])
    then show ?thesis using old next'
      by (cases "bt_get items j") (auto simp: part_ok_def)
  qed
qed

section \<open>Transactions\<close>

text \<open>
  A session environment over a store that satisfies the contract. \<open>flaky\<close> tells whether
  the store's methods may fail; when they may not, \<open>accepts\<close> are the quads it stores.
\<close>

locale session_env =
  storage_contract "env_storage E" quads_of view st_ok tx_ok writable
  for E :: "('st, 'tx) Env"
    and quads_of :: "'st \<Rightarrow> Quad set"
    and view :: "'st \<Rightarrow> 'tx \<Rightarrow> Quad set"
    and st_ok :: "'st \<Rightarrow> bool"
    and tx_ok :: "'st \<Rightarrow> 'tx \<Rightarrow> bool"
    and writable :: "'tx \<Rightarrow> bool" +
  fixes accepts :: "Quad \<Rightarrow> bool" and flaky :: bool
  assumes reliable: "\<not> flaky \<Longrightarrow> reliable_storage (env_storage E) quads_of view st_ok tx_ok writable accepts"

begin

lemmas insert_each_sure = reliable_storage.insert_each_total [OF reliable]
lemmas remove_each_sure = reliable_storage.remove_each_total [OF reliable]
lemmas begin_write_sure = reliable_storage.begin_write_total [OF reliable]
lemmas begin_read_sure = reliable_storage.begin_read_total [OF reliable]
lemmas commit_sure = reliable_storage.commit_total [OF reliable]
lemmas rollback_sure = reliable_storage.rollback_total [OF reliable]
lemmas pattern_sure = reliable_storage.pattern_total [OF reliable]

text \<open>
  The transaction rule: a body whose success leaves the quads \<open>Q\<close> and whose failure is a
  storage failure commits \<open>Q\<close> or leaves the store's quads alone.
\<close>

lemma with_write_rule:
  assumes st: "st_ok st" and run: "with_write (env_storage E) f st = (r, st')"
    and f: "\<And>tx r tx'. tx_ok st tx \<Longrightarrow> writable tx \<Longrightarrow> view st tx = quads_of st \<Longrightarrow> f st tx = (r, tx') \<Longrightarrow>
      tx_ok st tx' \<and> writable tx' \<and> (case r of Inl e \<Rightarrow> flaky \<and> (\<exists>x. e = StorageFailed x) | Inr v \<Rightarrow> view st tx' = Q)"
  shows "st_ok st' \<and> (case r of Inl e \<Rightarrow> flaky \<and> (\<exists>x. e = StorageFailed x) \<and> quads_of st' = quads_of st
    | Inr v \<Rightarrow> quads_of st' = Q)"
proof (cases "begin_write (env_storage E) st")
  case (Inl e)
  have "flaky" using begin_write_sure [OF _ st] Inl by auto
  then show ?thesis using Inl st run by (auto simp: with_write_def)
next
  case (Inr tx)
  note tx = begin_write_ok [OF st Inr]
  obtain r1 tx1 where body: "f st tx = (r1, tx1)" by (cases "f st tx")
  note f1 = f [OF _ _ _ body]
  show ?thesis
  proof (cases r1)
    case Inl1: (Inl e)
    obtain r2 st2 where rb: "tx_rollback (env_storage E) tx1 st = (r2, st2)"
      by (cases "tx_rollback (env_storage E) tx1 st")
    then show ?thesis using run Inr body Inl1 f1 tx rollback_ok [OF st _ rb] by (auto simp: with_write_def)
  next
    case Inr1: (Inr v)
    obtain r2 st2 where cm: "tx_commit (env_storage E) tx1 st = (r2, st2)"
      by (cases "tx_commit (env_storage E) tx1 st")
    have tx1: "tx_ok st tx1" "writable tx1" "view st tx1 = Q" using f1 tx Inr1 by auto
    show ?thesis
    proof (cases r2)
      case (Inl e)
      have "flaky" using commit_sure [OF _ st tx1(1)] cm Inl by auto
      then show ?thesis using run Inr body Inr1 cm Inl commit_err [OF st tx1(1)] by (auto simp: with_write_def)
    next
      case Inr2: (Inr u)
      then show ?thesis using run Inr body Inr1 cm commit_ok [OF st tx1(1)] tx1 by (auto simp: with_write_def)
    qed
  qed
qed

lemma insert_all_body:
  assumes "st_ok st" "tx_ok st tx" "writable tx" "\<forall>q\<in>set qs. accepts q"
    and run: "insert_all (env_storage E) st qs tx = (r, tx')"
  shows "tx_ok st tx' \<and> writable tx' \<and>
    (case r of Inl e \<Rightarrow> flaky \<and> (\<exists>x. e = StorageFailed x) | Inr v \<Rightarrow> view st tx' = view st tx \<union> set qs)"
proof -
  obtain r1 where ins: "insert_each (env_storage E) st qs tx = (r1, tx')" "r = map_err StorageFailed r1"
    using run by (auto simp: insert_all_def split: prod.splits)
  have "r1 = Inl e \<Longrightarrow> flaky" for e
    using insert_each_sure [OF _ assms(1-4)] ins(1) by auto
  then show ?thesis
    using ins insert_each_keeps [OF assms(1,2) ins(1)] insert_each_Inr [OF assms(1,2)] assms(3)
    by (cases r1) auto
qed

lemma copy_rule:
  assumes "st_ok st" "\<forall>q\<in>set qs. accepts q"
    and "with_write (env_storage E) (\<lambda>st. insert_all (env_storage E) st qs) st = (r, st')"
  shows "st_ok st' \<and> (case r of Inl e \<Rightarrow> flaky \<and> (\<exists>x. e = StorageFailed x) \<and> quads_of st' = quads_of st
    | Inr v \<Rightarrow> quads_of st' = quads_of st \<union> set qs)"
proof (rule with_write_rule [OF assms(1,3)])
  fix tx r tx'
  assume "tx_ok st tx" "writable tx" "view st tx = quads_of st" "insert_all (env_storage E) st qs tx = (r, tx')"
  with insert_all_body [OF assms(1) _ _ assms(2), of tx r tx']
  show "tx_ok st tx' \<and> writable tx' \<and> (case r of Inl e \<Rightarrow> flaky \<and> (\<exists>x. e = StorageFailed x)
    | Inr v \<Rightarrow> view st tx' = quads_of st \<union> set qs)"
    by (cases r) simp_all
qed

lemma write_batch_body:
  assumes "st_ok st" "tx_ok st tx" "writable tx"
    and "\<forall>(i, it)\<in>set ps. \<forall>q\<in>set (encode (env_json E) i it). accepts q"
    and "write_batch E st ps tx = (r, tx')"
  shows "tx_ok st tx' \<and> writable tx' \<and>
    (case r of Inl e \<Rightarrow> flaky \<and> (\<exists>x. e = StorageFailed x)
     | Inr v \<Rightarrow> view st tx' = view st tx \<union> (\<Union>(i, it)\<in>set ps. set (encode (env_json E) i it)))"
  using assms(2-5)
proof (induction ps arbitrary: tx)
  case Nil
  then show ?case by (auto simp: write_batch_def)
next
  case (Cons p ps)
  obtain i it where p: "p = (i, it)" by (cases p)
  obtain r1 tx1 where ins: "insert_all (env_storage E) st (encode (env_json E) i it) tx = (r1, tx1)"
    by (cases "insert_all (env_storage E) st (encode (env_json E) i it) tx")
  have step: "tx_ok st tx1 \<and> writable tx1 \<and> (case r1 of Inl e \<Rightarrow> flaky \<and> (\<exists>x. e = StorageFailed x)
      | Inr v \<Rightarrow> view st tx1 = view st tx \<union> set (encode (env_json E) i it))"
    by (rule insert_all_body [OF assms(1) _ _ _ ins]) (use Cons.prems p in auto)
  show ?case
  proof (cases r1)
    case (Inl e)
    then show ?thesis using Cons.prems(4) ins step p by (auto simp: write_batch_def)
  next
    case (Inr v)
    then have "write_batch E st ps tx1 = (r, tx')" using Cons.prems(4) ins p by (simp add: write_batch_def)
    with Cons.IH [of tx1] step Cons.prems(3) Inr p show ?thesis by (cases r) (auto simp: Un_assoc)
  qed
qed

lemma batch_rule:
  assumes "st_ok st" "\<forall>(i, it)\<in>set ps. \<forall>q\<in>set (encode (env_json E) i it). accepts q"
    and "with_write (env_storage E) (\<lambda>st. write_batch E st ps) st = (r, st')"
  shows "st_ok st' \<and> (case r of Inl e \<Rightarrow> flaky \<and> (\<exists>x. e = StorageFailed x) \<and> quads_of st' = quads_of st
    | Inr v \<Rightarrow> quads_of st' = quads_of st \<union> (\<Union>(i, it)\<in>set ps. set (encode (env_json E) i it)))"
proof (rule with_write_rule [OF assms(1,3)])
  fix tx r tx'
  assume "tx_ok st tx" "writable tx" "view st tx = quads_of st" "write_batch E st ps tx = (r, tx')"
  with write_batch_body [OF assms(1) _ _ assms(2), of tx r tx']
  show "tx_ok st tx' \<and> writable tx' \<and> (case r of Inl e \<Rightarrow> flaky \<and> (\<exists>x. e = StorageFailed x)
    | Inr v \<Rightarrow> view st tx' = quads_of st \<union> (\<Union>(i, it)\<in>set ps. set (encode (env_json E) i it)))"
    by (cases r) simp_all
qed

lemma collect_pattern:
  assumes "st_ok st" "tx_ok st tx"
  shows "case collect (tx_quads_for_pattern (env_storage E) st tx s p obj g) of
     Inl e \<Rightarrow> flaky \<and> (\<exists>x. e = StorageFailed x)
   | Inr qs \<Rightarrow> set qs = {q \<in> view st tx. matches_pattern q s p obj g}"
proof (cases "collect_results (tx_quads_for_pattern (env_storage E) st tx s p obj g)")
  case (Inl e)
  then show ?thesis using pattern_sure [OF _ assms, of s p obj g] by (auto simp: collect_def)
next
  case (Inr qs)
  then show ?thesis using pattern_ok [OF assms Inr] by (simp add: collect_def)
qed

lemma delete_rule:
  assumes "st_ok st" "delete (env_storage E) i st = (r, st')"
  shows "st_ok st' \<and> (case r of Inl e \<Rightarrow> flaky \<and> (\<exists>x. e = StorageFailed x) \<and> quads_of st' = quads_of st
    | Inr v \<Rightarrow> quads_of st' = {q \<in> quads_of st. \<not> owned i q})"
proof (rule with_write_rule [OF assms(1) assms(2) [unfolded delete_def]])
  fix tx r tx'
  assume tx: "tx_ok st tx" "writable tx" "view st tx = quads_of st"
  let ?p1 = "tx_quads_for_pattern (env_storage E) st tx None None None (Some (GNamed (item_graph i)))"
  let ?p2 = "tx_quads_for_pattern (env_storage E) st tx (Some (NbNamed (item_graph i)))
      (Some record_predicate) None (Some meta_graph)"
  assume body: "(case collect ?p1 of Inl e \<Rightarrow> (Inl e, tx)
     | Inr quads \<Rightarrow> (case collect ?p2 of Inl e \<Rightarrow> (Inl e, tx)
        | Inr meta \<Rightarrow> (case remove_each (env_storage E) st (quads @ meta) tx of
             (r, tx') \<Rightarrow> (map_err StorageFailed r, tx')))) = (r, tx')"
  note c1 = collect_pattern [OF assms(1) tx(1), of None None None "Some (GNamed (item_graph i))"]
  note c2 = collect_pattern [OF assms(1) tx(1), of "Some (NbNamed (item_graph i))" "Some record_predicate"
      None "Some meta_graph"]
  show "tx_ok st tx' \<and> writable tx' \<and> (case r of Inl e \<Rightarrow> flaky \<and> (\<exists>x. e = StorageFailed x)
    | Inr v \<Rightarrow> view st tx' = {q \<in> quads_of st. \<not> owned i q})"
  proof (cases "\<exists>quads meta. collect ?p1 = Inr quads \<and> collect ?p2 = Inr meta")
    case False
    then show ?thesis using body tx c1 c2 by (auto split: sum.splits)
  next
    case True
    then obtain quads meta where q: "collect ?p1 = Inr quads" "collect ?p2 = Inr meta" by blast
    then have all: "set (quads @ meta) = {q \<in> quads_of st. owned i q}"
      using c1 c2 tx(3) by (auto simp: owned_def matches_pattern_def)
    obtain r1 where rm: "remove_each (env_storage E) st (quads @ meta) tx = (r1, tx')" "r = map_err StorageFailed r1"
      using body q by (auto split: prod.splits)
    have "r1 = Inl e \<Longrightarrow> flaky" for e
      using remove_each_sure [OF _ assms(1) tx(1,2), of "quads @ meta"] rm(1) by auto
    moreover have "quads_of st - {q \<in> quads_of st. owned i q} = {q \<in> quads_of st. \<not> owned i q}" by blast
    ultimately show ?thesis
      using rm remove_each_keeps [OF assms(1) tx(1) rm(1)] remove_each_Inr [OF assms(1) tx(1)] tx all
      by (cases r1) auto
  qed
qed

end

end
