(* ===== verification/Session_Sim.thy ===== *)
theory Session_Sim
  imports Session_Refine
begin

text \<open>
  The simulation: every operation of the session refines the operation of the abstract
  session, for \<open>covered\<close> (\<open>strict\<close> false) and for \<open>mirrored\<close> (\<open>strict\<close> true).
\<close>

section \<open>Parts of updated stores\<close>

lemma part_encode:
  assumes "i < 2 ^ 64" "j < 2 ^ 64"
  shows "{q. (q \<in> A \<or> q \<in> set (encode J i it)) \<and> owned j q}
    = {q \<in> A. owned j q} \<union> (if j = i then set (encode J i it) else {})"
  using encode_owned [of _ J i it] owned_unique [OF _ _ assms(1,2)] by auto

lemma part_deleted:
  assumes "i < 2 ^ 64" "j < 2 ^ 64"
  shows "{q \<in> A. \<not> owned i q \<and> owned j q} = (if j = i then {} else {q \<in> A. owned j q})"
  using owned_unique [OF _ _ assms(1,2)] by auto

lemma foreign_encode:
  assumes "i < 2 ^ 64"
  shows "{q. (q \<in> A \<or> q \<in> set (encode J i it)) \<and> unowned q} = {q \<in> A. unowned q}"
  using encode_owned [of _ J i it] assms by (auto simp: unowned_def)

lemma foreign_deleted:
  assumes "i < 2 ^ 64"
  shows "{q \<in> A. \<not> owned i q \<and> unowned q} = {q \<in> A. unowned q}"
  using assms by (auto simp: unowned_def)

lemma set_zip_upt:
  "(i, it) \<in> set (zip [n..<n + length items] items) \<longleftrightarrow> n \<le> i \<and> i < n + length items \<and> it = items ! (i - n)"
proof
  assume "n \<le> i \<and> i < n + length items \<and> it = items ! (i - n)"
  then show "(i, it) \<in> set (zip [n..<n + length items] items)"
    by (auto simp: set_zip intro!: exI [of _ "i - n"])
qed (auto simp: set_zip)

definition batch_quads :: "JsonOps \<Rightarrow> nat \<Rightarrow> ContextItem list \<Rightarrow> Quad set" where
  "batch_quads J n items = (\<Union>(i, it)\<in>set (zip [n..<n + length items] items). set (encode J i it))"

lemma batch_quads_iff:
  "q \<in> batch_quads J n items \<longleftrightarrow> (\<exists>i. n \<le> i \<and> i < n + length items \<and> q \<in> set (encode J i (items ! (i - n))))"
  by (auto simp: batch_quads_def set_zip_upt)

lemma part_batch:
  assumes "n + length items < 2 ^ 64" "j < 2 ^ 64"
  shows "{q. (q \<in> A \<or> q \<in> batch_quads J n items) \<and> owned j q}
    = {q \<in> A. owned j q} \<union> (if n \<le> j \<and> j < n + length items then set (encode J j (items ! (j - n))) else {})"
proof -
  have "i = j" if "q \<in> set (encode J i it)" "i < n + length items" "owned j q" for q i it
    using owned_unique [OF encode_owned [OF that(1)] that(3)] that(2) assms by linarith
  then show ?thesis by (auto simp: batch_quads_iff intro: encode_owned)
qed

lemma foreign_batch:
  assumes "n + length items < 2 ^ 64"
  shows "{q. (q \<in> A \<or> q \<in> batch_quads J n items) \<and> unowned q} = {q \<in> A. unowned q}"
proof -
  have "\<not> unowned q" if q: "q \<in> batch_quads J n items" for q
  proof -
    obtain i where i: "i < n + length items" "q \<in> set (encode J i (items ! (i - n)))"
      using q by (auto simp: batch_quads_iff)
    have "i < 2 ^ 64" using assms i(1) by linarith
    with encode_owned [OF i(2)] show ?thesis unfolding unowned_def by blast
  qed
  then show ?thesis by blast
qed

definition acceptable :: "(Quad \<Rightarrow> bool) \<Rightarrow> JsonOps \<Rightarrow> ContextItem \<Rightarrow> bool" where
  "acceptable accepts J it \<longleftrightarrow> (\<forall>i<2 ^ 64. \<forall>q\<in>set (encode J i it). accepts q)"

lemma at_storeE:
  assumes "at_store sc f s = (r, t)"
  obtains r' st' where "f (Tiers_get (s_stores s) sc) = (r', st')" "r = map_err Err r'"
    "t = s\<lparr>s_stores := Tiers_put (s_stores s) sc st'\<rparr>"
  using assms by (auto simp: at_store_def split: prod.splits)

text \<open>A session whose stores have changed representation but not content.\<close>

lemma same_content:
  assumes "session_inv strict quads_of st_ok accepts J s"
    and "\<And>c. st_ok (Tiers_get T c)" "\<And>c. quads_of (Tiers_get T c) = quads_of (Tiers_get (s_stores s) c)"
  shows "session_inv strict quads_of st_ok accepts J (s\<lparr>s_stores := T\<rparr>)"
    and "session_rel quads_of s (s\<lparr>s_stores := T\<rparr>)"
    and "index_of (s\<lparr>s_stores := T\<rparr>) = index_of s"
proof -
  have "part quads_of (s\<lparr>s_stores := T\<rparr>) = part quads_of s"
    by (intro ext) (simp add: part_def assms(3))
  then show "session_inv strict quads_of st_ok accepts J (s\<lparr>s_stores := T\<rparr>)"
    using assms(1,2) by (simp add: session_inv_def session_wf_def index_of_def)
  show "session_rel quads_of s (s\<lparr>s_stores := T\<rparr>)"
    by (simp add: session_rel_def foreign_def fun_eq_iff assms(3))
qed (simp add: index_of_def)

lemma session_wfD:
  assumes "session_inv strict quads_of st_ok accepts J s"
  shows "st_ok (Tiers_get (s_stores s) c)" "index_wf (index_of s)"
    and "bt_get (s_items s) i = Some e \<Longrightarrow> i < s_next_id s \<and> i < 2 ^ 64 \<and> storable (e_item e)"
    and "bt_get (s_items s) i = Some e \<Longrightarrow> q \<in> set (encode J i (e_item e)) \<Longrightarrow> accepts q"
    and "part_inv strict accepts J (s_items s) (s_next_id s) (part quads_of s)"
  using assms index_wf_getD [of "index_of s" i e]
  by (auto simp: session_inv_def session_wf_def)

locale session_sim = session_env E quads_of view st_ok tx_ok writable accepts flaky
  for E :: "('st, 'tx) Env" and quads_of view st_ok tx_ok writable accepts flaky +
  fixes strict :: bool

sublocale session_sim \<subseteq> sim: refinement "\<lambda>a. flaky \<and> storage_failure a" "\<lambda>a. a = Panic"
    "covered quads_of st_ok accepts (env_json E)" "session_inv strict quads_of st_ok accepts (env_json E)"
    "session_rel quads_of" index_of
  by unfold_locales (auto simp: session_rel_def)

context session_sim
begin

abbreviation implements :: "('st Session, Abort, 'a) res_st \<Rightarrow> (Index, Abort, 'a) res_st \<Rightarrow> 'st Session \<Rightarrow> bool" where
  "implements \<equiv> refines_at (\<lambda>a. flaky \<and> storage_failure a) (\<lambda>a. a = Panic)
     (covered quads_of st_ok accepts (env_json E)) (session_inv strict quads_of st_ok accepts (env_json E))
     (session_rel quads_of) index_of"

lemma move_item_cases:
  assumes inv: "session_inv strict quads_of st_ok accepts (env_json E) s"
    and e: "bt_get (s_items s) i = Some e" "e_scope e \<noteq> to"
    and run: "move_item E i to arr s = (r, t)"
  shows "(\<exists>T. (\<forall>c. st_ok (Tiers_get T c)) \<and>
     ((\<exists>x. r = Inl (Err (StorageFailed x)) \<and> flaky \<and> t = s\<lparr>s_stores := T\<rparr>
        \<and> ((\<forall>c. quads_of (Tiers_get T c) = quads_of (Tiers_get (s_stores s) c))
          \<or> (\<forall>c. quads_of (Tiers_get T c) = (if c = to
               then quads_of (Tiers_get (s_stores s) to) \<union> set (encode (env_json E) i (e_item e))
               else quads_of (Tiers_get (s_stores s) c)))))
     \<or> r = Inr () \<and> t = s\<lparr>s_stores := T, s_items := bt_adjust i (Entry_moved to arr) (s_items s)\<rparr>
        \<and> (\<forall>c. quads_of (Tiers_get T c) =
             (if c = to then quads_of (Tiers_get (s_stores s) to) \<union> set (encode (env_json E) i (e_item e))
              else if c = e_scope e then {q \<in> quads_of (Tiers_get (s_stores s) c). \<not> owned i q}
              else quads_of (Tiers_get (s_stores s) c)))))"
proof -
  let ?st = "Tiers_get (s_stores s)"
  let ?enc = "encode (env_json E) i (e_item e)"
  have ok: "st_ok (?st c)" for c by (rule session_wfD(1) [OF inv])
  have acc: "\<forall>q\<in>set ?enc. accepts q" using session_wfD(4) [OF inv e(1)] by blast
  obtain r1 st1 where copy: "with_write (env_storage E) (\<lambda>st. insert_all (env_storage E) st ?enc) (?st to) = (r1, st1)"
    by (cases "with_write (env_storage E) (\<lambda>st. insert_all (env_storage E) st ?enc) (?st to)")
  note c1 = copy_rule [OF ok acc copy]
  let ?s1 = "s\<lparr>s_stores := Tiers_put (s_stores s) to st1\<rparr>"
  have at1: "at_store to (with_write (env_storage E) (\<lambda>st. insert_all (env_storage E) st ?enc)) s = (map_err Err r1, ?s1)"
    using copy by (simp add: at_store_def)
  show ?thesis
  proof (cases r1)
    case (Inl e1)
    then have "r = Inl (Err e1)" "t = ?s1" using run e at1 by (simp_all add: move_item_def try_bind_def)
    then show ?thesis using c1 Inl ok
      by (intro exI [of _ "Tiers_put (s_stores s) to st1"]) auto
  next
    case (Inr u)
    obtain r2 st2 where del: "delete (env_storage E) i (?st (e_scope e)) = (r2, st2)"
      by (cases "delete (env_storage E) i (?st (e_scope e))")
    note c2 = delete_rule [OF ok del]
    let ?T = "Tiers_put (Tiers_put (s_stores s) to st1) (e_scope e) st2"
    have at2: "at_store (e_scope e) (delete (env_storage E) i) ?s1 = (map_err Err r2, ?s1\<lparr>s_stores := ?T\<rparr>)"
      using del e(2) by (simp add: at_store_def)
    show ?thesis
    proof (cases r2)
      case Inl2: (Inl e2)
      then have "r = Inl (Err e2)" "t = s\<lparr>s_stores := ?T\<rparr>"
        using run e at1 at2 Inr by (simp_all add: move_item_def try_bind_def)
      then show ?thesis using c1 c2 Inl2 Inr ok e(2) by (intro exI [of _ ?T]) auto
    next
      case Inr2: (Inr u2)
      then have "r = Inr ()" "t = s\<lparr>s_stores := ?T, s_items := bt_adjust i (Entry_moved to arr) (s_items s)\<rparr>"
        using run e at1 at2 Inr by (simp_all add: move_item_def try_bind_def Entry_moved_def [abs_def])
      then show ?thesis using c1 c2 Inr2 Inr ok e(2) by (intro exI [of _ ?T]) auto
    qed
  qed
qed

text \<open>What a move leaves behind when it fails after the copy was written, and when it succeeds.\<close>

lemma move_copied:
  assumes inv: "session_inv strict quads_of st_ok accepts (env_json E) s"
    and e: "bt_get (s_items s) i = Some e" and T: "\<And>c. st_ok (Tiers_get T c)"
    and q: "\<forall>c. quads_of (Tiers_get T c) = (if c = to then quads_of (Tiers_get (s_stores s) to) \<union> set (encode (env_json E) i (e_item e))
      else quads_of (Tiers_get (s_stores s) c))"
  shows "covered quads_of st_ok accepts (env_json E) (s\<lparr>s_stores := T\<rparr>) \<and> session_rel quads_of s (s\<lparr>s_stores := T\<rparr>)"
proof -
  let ?t = "s\<lparr>s_stores := T\<rparr>"
  have i: "i < 2 ^ 64" using session_wfD(3) [OF inv e] by blast
  have "part_inv False accepts (env_json E) (s_items s) (s_next_id s) (part quads_of ?t)"
    by (rule part_inv_copy [OF session_wfD(5) [OF inv] e i]) (auto simp: q part_def part_encode [OF i])
  moreover have "foreign quads_of ?t = foreign quads_of s"
    by (rule ext) (simp add: q foreign_def foreign_encode [OF i])
  ultimately show ?thesis using T inv
    by (auto simp: covered_def session_inv_def session_wf_def session_rel_def index_of_def)
qed

lemma move_done:
  assumes inv: "session_inv strict quads_of st_ok accepts (env_json E) s"
    and e: "bt_get (s_items s) i = Some e" "e_scope e \<noteq> to" and T: "\<And>c. st_ok (Tiers_get T c)"
    and t: "t = s\<lparr>s_stores := T, s_items := bt_adjust i (Entry_moved to arr) (s_items s)\<rparr>"
    and q: "\<forall>c. quads_of (Tiers_get T c) = (if c = to then quads_of (Tiers_get (s_stores s) to) \<union> set (encode (env_json E) i (e_item e))
      else if c = e_scope e then {q \<in> quads_of (Tiers_get (s_stores s) c). \<not> owned i q} else quads_of (Tiers_get (s_stores s) c))"
  shows "session_rel quads_of s t \<and> ix_move i to arr (index_of s) = (Inr (), index_of t)
    \<and> session_inv strict quads_of st_ok accepts (env_json E) t"
proof -
  have i: "i < 2 ^ 64" using session_wfD(3) [OF inv e(1)] by blast
  have "part_inv strict accepts (env_json E) (s_items t) (s_next_id t) (part quads_of t)"
    unfolding t using e(2)
    by (simp, intro part_inv_move [OF session_wfD(5) [OF inv] e(1) i e(2)])
      (auto simp: q part_def part_encode [OF i] part_deleted [OF i])
  moreover have "foreign quads_of t = foreign quads_of s"
    by (rule ext) (simp add: t q foreign_def foreign_encode [OF i] foreign_deleted [OF i])
  moreover have ix: "index_of t = (index_of s)\<lparr>ix_items := bt_adjust i (Entry_moved to arr) (ix_items (index_of s))\<rparr>"
    by (simp add: t index_of_def)
  moreover have "index_wf (index_of t)"
    unfolding ix by (rule index_wf_adjust) (use session_wfD(2) [OF inv] in simp_all)
  moreover have "ix_move i to arr (index_of s) = (Inr (), index_of t)"
    using e ix by (simp add: ix_move_def)
  moreover have "\<forall>j e'. bt_get (s_items t) j = Some e' \<longrightarrow> (\<forall>q\<in>set (encode (env_json E) j (e_item e')). accepts q)"
    using session_wfD(4) [OF inv] by (auto simp: t split: if_splits)
  ultimately show ?thesis using t T by (simp add: session_inv_def session_wf_def session_rel_def)
qed

lemma move_item_implements: "implements (move_item E i to arr) (ix_move i to arr) s"
  unfolding refines_at_def
proof (intro allI impI)
  fix r t
  assume inv: "session_inv strict quads_of st_ok accepts (env_json E) s" and run: "move_item E i to arr s = (r, t)"
  let ?J = "env_json E" and ?st = "\<lambda>c. quads_of (Tiers_get (s_stores s) c)"
  show "(\<exists>a. fst (ix_move i to arr (index_of s)) = Inl a \<and> a = Panic) \<or> session_rel quads_of s t \<and>
     ((\<exists>a. r = Inl a \<and> (flaky \<and> storage_failure a) \<and> covered quads_of st_ok accepts ?J t)
      \<or> (r, index_of t) = ix_move i to arr (index_of s) \<and> session_inv strict quads_of st_ok accepts ?J t)"
  proof (cases "\<exists>e. bt_get (s_items s) i = Some e \<and> e_scope e \<noteq> to")
    case False
    then show ?thesis by (cases "bt_get (s_items s) i") (simp_all add: ix_move_def)
  next
    case True
    then obtain e where e: "bt_get (s_items s) i = Some e" "e_scope e \<noteq> to" by blast
    let ?enc = "set (encode ?J i (e_item e))"
    obtain T where T: "\<And>c. st_ok (Tiers_get T c)"
      and out: "(\<exists>x. r = Inl (Err (StorageFailed x)) \<and> flaky \<and> t = s\<lparr>s_stores := T\<rparr>
        \<and> ((\<forall>c. quads_of (Tiers_get T c) = ?st c)
          \<or> (\<forall>c. quads_of (Tiers_get T c) = (if c = to then ?st to \<union> ?enc else ?st c))))
     \<or> r = Inr () \<and> t = s\<lparr>s_stores := T, s_items := bt_adjust i (Entry_moved to arr) (s_items s)\<rparr>
        \<and> (\<forall>c. quads_of (Tiers_get T c) =
             (if c = to then ?st to \<union> ?enc
              else if c = e_scope e then {q \<in> ?st c. \<not> owned i q} else ?st c))"
      using move_item_cases [OF inv e run] by blast
    from out consider x where "r = Inl (Err (StorageFailed x))" "flaky" "t = s\<lparr>s_stores := T\<rparr>" "\<forall>c. quads_of (Tiers_get T c) = ?st c"
      | x where "r = Inl (Err (StorageFailed x))" "flaky" "t = s\<lparr>s_stores := T\<rparr>"
        "\<forall>c. quads_of (Tiers_get T c) = (if c = to then ?st to \<union> ?enc else ?st c)"
      | "r = Inr ()" "session_rel quads_of s t \<and> ix_move i to arr (index_of s) = (Inr (), index_of t)
          \<and> session_inv strict quads_of st_ok accepts ?J t"
      using move_done [OF inv e T] by blast
    then show ?thesis
    proof cases
      case 1
      then show ?thesis using same_content [OF inv T] session_inv_covered by (auto simp: storage_failure_def)
    next
      case 2
      then show ?thesis using move_copied [OF inv e(1) T] by (auto simp: storage_failure_def)
    next
      case 3
      then show ?thesis by simp
    qed
  qed
qed

lemma delete_cases:
  assumes inv: "session_inv strict quads_of st_ok accepts (env_json E) s"
    and e: "bt_get (s_items s) i = Some e"
    and run: "at_store (e_scope e) (delete (env_storage E) i) s = (r, t)"
  shows "(\<exists>x. r = Inl (Err (StorageFailed x)) \<and> flaky \<and> session_rel quads_of s t
      \<and> covered quads_of st_ok accepts (env_json E) t)
    \<or> r = Inr () \<and> session_rel quads_of s t \<and> index_of t = index_of s
      \<and> session_inv strict quads_of st_ok accepts (env_json E) (t\<lparr>s_items := bt_remove i (s_items t)\<rparr>)"
proof -
  let ?J = "env_json E" and ?st = "\<lambda>c. quads_of (Tiers_get (s_stores s) c)"
  have i: "i < s_next_id s" "i < 2 ^ 64" and stb: "storable (e_item e)" using session_wfD(3) [OF inv e(1)] by blast+
  note P = session_wfD(5) [OF inv]
  have ok: "st_ok (Tiers_get (s_stores s) c)" for c by (rule session_wfD(1) [OF inv])
  obtain r1 st1 where del: "delete (env_storage E) i (Tiers_get (s_stores s) (e_scope e)) = (r1, st1)"
    and r: "r = map_err Err r1" and t: "t = s\<lparr>s_stores := Tiers_put (s_stores s) (e_scope e) st1\<rparr>"
    using run by (rule at_storeE)
  note c1 = delete_rule [OF ok del]
  show ?thesis
  proof (cases r1)
    case (Inl x)
    have "session_inv strict quads_of st_ok accepts ?J t" "session_rel quads_of s t"
      unfolding t by (rule same_content [OF inv]; use c1 Inl ok in auto)+
    then show ?thesis using c1 Inl r session_inv_covered by auto
  next
    case (Inr u)
    let ?t = "t\<lparr>s_items := bt_remove i (s_items t)\<rparr>"
    have acc: "\<forall>q\<in>set (encode ?J i (e_item e)). accepts q" using session_wfD(4) [OF inv e] by blast
    have "part_inv strict accepts ?J (bt_remove i (s_items s)) (s_next_id s) (part quads_of ?t)"
      by (rule part_inv_delete [OF P e i(2,1) stb acc]) (use c1 Inr in \<open>auto simp: t part_def part_deleted [OF i(2)]\<close>)
    moreover have "foreign quads_of t = foreign quads_of s"
      by (rule ext) (use c1 Inr in \<open>simp add: t foreign_def foreign_deleted [OF i(2)]\<close>)
    moreover have "index_of ?t = (index_of s)\<lparr>ix_items := bt_remove i (ix_items (index_of s))\<rparr>"
      by (simp add: t index_of_def)
    moreover have "index_wf ((index_of s)\<lparr>ix_items := bt_remove i (ix_items (index_of s))\<rparr>)"
      by (rule index_wf_remove) (rule session_wfD(2) [OF inv])
    moreover have "\<forall>j e'. bt_get (bt_remove i (s_items s)) j = Some e' \<longrightarrow> (\<forall>q\<in>set (encode ?J j (e_item e')). accepts q)"
      using session_wfD(4) [OF inv] by (auto split: if_splits)
    ultimately show ?thesis using r Inr c1 ok
      by (auto simp: t session_inv_def session_wf_def session_rel_def index_of_def)
  qed
qed

lemma stats_implements:
  "implements (modify (\<lambda>s. s\<lparr>s_stats := f (s_stats s)\<rparr>)) (modify (\<lambda>x. x\<lparr>ix_stats := f (ix_stats x)\<rparr>)) s"
proof (rule sim.refines_modify)
  let ?t = "s\<lparr>s_stats := f (s_stats s)\<rparr>"
  assume inv: "session_inv strict quads_of st_ok accepts (env_json E) s"
  show ix: "index_of ?t = (index_of s)\<lparr>ix_stats := f (ix_stats (index_of s))\<rparr>" by (simp add: index_of_def)
  have "part quads_of ?t = part quads_of s" by (intro ext) (simp add: part_def)
  then show "session_inv strict quads_of st_ok accepts (env_json E) ?t"
    using inv by (simp add: session_inv_def session_wf_def ix)
qed (simp add: session_rel_def foreign_def fun_eq_iff)

lemma promoted_implements: "implements (modify (add_promoted n)) (modify (ix_promoted n)) s"
  by (rule refines_at_unfold [OF stats_implements [of "\<lambda>st. st\<lparr>items_promoted := add64 (items_promoted st) n\<rparr>" s]])
    (simp_all add: add_promoted_def ix_promoted_def)

lemma demoted_implements: "implements (modify (add_demoted n)) (modify (ix_demoted n)) s"
  by (rule refines_at_unfold [OF stats_implements [of "\<lambda>st. st\<lparr>items_demoted := add64 (items_demoted st) n\<rparr>" s]])
    (simp_all add: add_demoted_def ix_demoted_def)

lemma delete_entry_implements:
  assumes "bt_get (s_items s) i = Some e"
  shows "implements (try_bind (at_store (e_scope e) (delete (env_storage E) i))
      (\<lambda>_. modify (\<lambda>s. s\<lparr>s_items := bt_remove i (s_items s)\<rparr>)))
    (modify (\<lambda>x. x\<lparr>ix_items := bt_remove i (ix_items x)\<rparr>)) s"
  unfolding refines_at_def
proof (intro allI impI)
  let ?remove = "modify (\<lambda>x. x\<lparr>ix_items := bt_remove i (ix_items x)\<rparr>) :: (Index, Abort, unit) res_st"
  fix r t
  assume inv: "session_inv strict quads_of st_ok accepts (env_json E) s"
    and run: "try_bind (at_store (e_scope e) (delete (env_storage E) i))
        (\<lambda>_. modify (\<lambda>s. s\<lparr>s_items := bt_remove i (s_items s)\<rparr>)) s = (r, t)"
  obtain r1 t1 where d: "at_store (e_scope e) (delete (env_storage E) i) s = (r1, t1)"
    by (cases "at_store (e_scope e) (delete (env_storage E) i) s")
  have rel: "session_rel quads_of s t1 \<Longrightarrow> session_rel quads_of s (t1\<lparr>s_items := bt_remove i (s_items t1)\<rparr>)"
    by (simp add: session_rel_def foreign_def fun_eq_iff)
  show "(\<exists>a. fst (?remove (index_of s)) = Inl a \<and> a = Panic) \<or> session_rel quads_of s t \<and>
     ((\<exists>a. r = Inl a \<and> (flaky \<and> storage_failure a) \<and> covered quads_of st_ok accepts (env_json E) t)
      \<or> (r, index_of t) = ?remove (index_of s) \<and> session_inv strict quads_of st_ok accepts (env_json E) t)"
    using delete_cases [OF inv assms d] run d rel
    by (auto simp: try_bind_def storage_failure_def index_of_def)
qed

lemma drop_item_implements: "implements (drop_item E i) (ix_drop i) s"
proof (cases "bt_get (s_items s) i")
  case None
  then show ?thesis by (intro sim.refines_undef) (simp add: ix_drop_def)
next
  case (Some e)
  show ?thesis
    by (rule refines_at_unfold [OF sim.refines_bind [OF delete_entry_implements [OF Some]
          stats_implements [of "\<lambda>st. st\<lparr>items_evicted := add64 (items_evicted st) 1\<rparr>"]]])
      (use Some in \<open>auto simp: drop_item_def ix_drop_def try_bind_def split: prod.splits sum.splits\<close>)
qed

lemma remove_implements: "implements (Session_remove E sc i) (ix_remove sc i) s"
proof (cases "\<exists>e. bt_get (s_items s) i = Some e \<and> e_scope e = sc")
  case False
  then show ?thesis by (intro sim.refines_same) (auto simp: Session_remove_def ix_remove_def)
next
  case True
  then obtain e where e: "bt_get (s_items s) i = Some e" "e_scope e = sc" by blast
  show ?thesis
    by (rule refines_at_unfold [OF sim.refines_bind [OF delete_entry_implements [OF e(1)] sim.refines_ok [of True]]])
      (use e in \<open>auto simp: Session_remove_def ix_remove_def try_bind_def split: prod.splits sum.splits\<close>)
qed

lemma evict_victim_implements: "implements (evict_victim E sc i) (ix_evict_victim sc i) s"
proof (cases "demote_target (set_demotion_target (s_settings s)) sc (bt_get (s_items s) i)")
  case (Inl a)
  then have "a = Panic" by (auto simp: demote_target_def split: DemotionTarget.splits option.splits Arrival.splits)
  with Inl show ?thesis by (intro sim.refines_undef) (simp add: ix_evict_victim_def)
next
  case (Inr target)
  show ?thesis
  proof (cases target)
    case None
    show ?thesis
      by (rule refines_at_unfold [OF drop_item_implements [of i s]])
        (simp_all add: evict_victim_def ix_evict_victim_def Inr None)
  next
    case (Some c)
    show ?thesis
      by (rule refines_at_unfold [OF sim.refines_bind
            [OF move_item_implements [of i c Demoted s] demoted_implements [of 1]]])
        (simp_all add: evict_victim_def ix_evict_victim_def Inr Some)
  qed
qed

lemma evict_victims_implements:
  "implements (evict_victims E sc ids) (for_each (ix_evict_victim sc) ids) s"
  unfolding evict_victims_def by (rule sim.refines_for_each) (rule evict_victim_implements)

lemma enforce_scope_implements:
  "implements (enforce_scope E now sc) (ix_enforce_scope (env_f64 E) now sc) s"
proof (cases "\<exists>b. ScopeBounds_get (set_bounds (s_settings s)) sc = Some b
    \<and> b < length (scope_entries (s_items s) sc)")
  case True
  then obtain b where b: "ScopeBounds_get (set_bounds (s_settings s)) sc = Some b"
    "b < length (scope_entries (s_items s) sc)" by blast
  show ?thesis
    by (rule refines_at_unfold [OF evict_victims_implements
          [of sc "Session_victims E now s sc (length (scope_entries (s_items s) sc) - b)" s]])
      (simp_all add: enforce_scope_def ix_enforce_scope_def b Session_victims_def ix_victims_def)
next
  case False
  then show ?thesis
    by (intro sim.refines_same) (auto simp: enforce_scope_def ix_enforce_scope_def Let_def split: option.split)
qed

lemma enforce_bounds_implements:
  "implements (enforce_bounds E clk k sc) (ix_enforce (env_f64 E) clk k sc) s"
proof (induction "scope_rank sc" arbitrary: sc k s rule: less_induct)
  case less
  have rest: "implements (case colder sc of None \<Rightarrow> ok () | Some c \<Rightarrow> enforce_bounds E clk (Suc k) c)
      (case colder sc of None \<Rightarrow> ok () | Some c \<Rightarrow> ix_enforce (env_f64 E) clk (Suc k) c) t" for t
  proof (cases "colder sc")
    case None
    then show ?thesis by (simp add: sim.refines_ok)
  next
    case (Some c)
    then have "scope_rank c < scope_rank sc" using colder_less by (simp add: scope_less_iff)
    then show ?thesis using less.hyps Some by simp
  qed
  show ?case
    by (rule refines_at_unfold [OF sim.refines_bind [OF enforce_scope_implements rest]])
      (auto simp: enforce_bounds.simps [of E clk k sc] ix_enforce.simps [of "env_f64 E" clk k sc] try_bind_def
        split: prod.splits sum.splits option.splits)
qed

lemma move_items_implements: "implements (move_items E to arr ids) (ix_move_all to arr ids) s"
  unfolding move_items_def ix_move_all_def by (rule sim.refines_for_each) (rule move_item_implements)

lemma promote_implements:
  "implements (Session_promote E clk ids from to) (ix_promote (env_f64 E) clk ids from to) s"
proof (cases "from < to \<and> (\<exists>us. check_in_scope (s_items s) ids from = Inr us)")
  case False
  then show ?thesis
    by (intro sim.refines_same [where r = "fst (Session_promote E clk ids from to s)"])
      (auto simp: Session_promote_def ix_promote_def split: sum.split)
next
  case True
  then obtain us where us: "check_in_scope (s_items s) ids from = Inr us" "from < to" by blast
  have rest: "implements (try_bind (modify (add_promoted (length us)))
        (\<lambda>_. try_bind (enforce_bounds E clk 0 to) (\<lambda>_. ok \<lparr>promoted = length us\<rparr>)))
      (try_bind (modify (ix_promoted (length us)))
        (\<lambda>_. try_bind (ix_enforce (env_f64 E) clk 0 to) (\<lambda>_. ok \<lparr>promoted = length us\<rparr>))) t" for t
    by (intro sim.refines_bind promoted_implements enforce_bounds_implements sim.refines_ok)
  show ?thesis
    by (rule refines_at_unfold [OF sim.refines_bind [OF move_items_implements [of to Promoted us s] rest]])
      (use us in \<open>auto simp: Session_promote_def ix_promote_def\<close>)
qed

lemma evict_implements:
  "implements (Session_evict E clk sc criteria) (ix_evict (env_f64 E) clk sc criteria) s"
proof (cases criteria)
  case (Items ids)
  show ?thesis
  proof (cases "check_in_scope (s_items s) ids sc")
    case (Inl e)
    then show ?thesis by (intro sim.refines_same) (simp_all add: Items Session_evict_def ix_evict_def)
  next
    case (Inr us)
    have "implements (for_each (drop_item E) us) (for_each ix_drop us) s"
      by (rule sim.refines_for_each) (rule drop_item_implements)
    from refines_at_unfold [OF sim.refines_bind [OF this sim.refines_ok [of "length us"]]]
    show ?thesis by (simp add: Items Inr Session_evict_def ix_evict_def)
  qed
next
  case (Demote ids to)
  show ?thesis
  proof (cases "to < sc \<and> (\<exists>us. check_in_scope (s_items s) ids sc = Inr us)")
    case False
    then show ?thesis
      by (intro sim.refines_same [where r = "fst (Session_evict E clk sc criteria s)"])
        (auto simp: Demote Session_evict_def ix_evict_def split: sum.split)
  next
    case True
    then obtain us where us: "check_in_scope (s_items s) ids sc = Inr us" "to < sc" by blast
    have rest: "implements (try_bind (modify (add_demoted (length us)))
        (\<lambda>_. try_bind (enforce_bounds E clk 0 to) (\<lambda>_. ok (length us))))
      (try_bind (modify (ix_demoted (length us)))
        (\<lambda>_. try_bind (ix_enforce (env_f64 E) clk 0 to) (\<lambda>_. ok (length us)))) t" for t
      by (intro sim.refines_bind demoted_implements enforce_bounds_implements sim.refines_ok)
    show ?thesis
      by (rule refines_at_unfold [OF sim.refines_bind [OF move_items_implements [of to Demoted us s] rest]])
        (use us in \<open>auto simp: Demote Session_evict_def ix_evict_def\<close>)
  qed
next
  case (Policy n)
  let ?vs = "Session_victims E (clk 0) s sc n"
  have vs: "ix_victims (env_f64 E) (clk 0) (index_of s) sc n = ?vs"
    by (simp add: Session_victims_def ix_victims_def)
  have rest: "implements
      (case colder sc of None \<Rightarrow> ok (length ?vs) | Some c \<Rightarrow> try_bind (enforce_bounds E clk 1 c) (\<lambda>_. ok (length ?vs)))
      (case colder sc of None \<Rightarrow> ok (length ?vs)
       | Some c \<Rightarrow> try_bind (ix_enforce (env_f64 E) clk 1 c) (\<lambda>_. ok (length ?vs))) t" for t
    by (cases "colder sc") (auto intro!: sim.refines_bind enforce_bounds_implements sim.refines_ok)
  show ?thesis
    by (rule refines_at_unfold [OF sim.refines_bind [OF evict_victims_implements [of sc ?vs s] rest]])
      (simp_all add: Policy Session_evict_def ix_evict_def Let_def vs)
qed

lemma auto_promote_implements:
  "implements (auto_promote E clk k now) (ix_auto_promote (env_f64 E) clk k now) s"
proof -
  let ?cfg = "set_promotion (s_settings s)"
  let ?en = "to_enduring ?cfg (s_items s)" and ?ma = "to_major ?cfg now (s_items s)"
  let ?n = "length ?en + length ?ma"
  have "implements (try_bind (move_items E Enduring Promoted ?en)
          (\<lambda>_. try_bind (move_items E Major Promoted ?ma)
            (\<lambda>_. try_bind (modify (add_promoted ?n))
              (\<lambda>_. try_bind (if ?en \<noteq> [] then enforce_bounds E clk k Enduring
                       else if ?ma \<noteq> [] then enforce_bounds E clk k Major else ok ())
                (\<lambda>_. ok ?n)))))
      (try_bind (ix_move_all Enduring Promoted ?en)
          (\<lambda>_. try_bind (ix_move_all Major Promoted ?ma)
            (\<lambda>_. try_bind (modify (ix_promoted ?n))
              (\<lambda>_. try_bind (if ?en \<noteq> [] then ix_enforce (env_f64 E) clk k Enduring
                       else if ?ma \<noteq> [] then ix_enforce (env_f64 E) clk k Major else ok ())
                (\<lambda>_. ok ?n))))) s"
    by (intro sim.refines_bind move_items_implements promoted_implements sim.refines_ok)
      (simp add: enforce_bounds_implements sim.refines_ok)
  then show ?thesis
    by (rule refines_at_unfold) (simp_all add: auto_promote_def ix_auto_promote_def Let_def)
qed

section \<open>Adding\<close>

text \<open>A batch that has been committed, and is then indexed.\<close>

lemma batch_added:
  assumes inv: "session_inv strict quads_of st_ok accepts (env_json E) s"
    and val: "validate_all (s_items s) items = Inr u" and lim: "s_next_id s + length items < 2 ^ 64"
    and acc: "\<And>i q. s_next_id s \<le> i \<Longrightarrow> i < s_next_id s + length items \<Longrightarrow>
      q \<in> set (encode (env_json E) i (items ! (i - s_next_id s))) \<Longrightarrow> accepts q"
    and st: "st_ok st1" "quads_of st1 = quads_of (Tiers_get (s_stores s) sc) \<union> batch_quads (env_json E) (s_next_id s) items"
    and t: "t = s\<lparr>s_stores := Tiers_put (s_stores s) sc st1, s_next_id := s_next_id s + length items,
      s_items := insert_entries sc (clk 0) (zip [s_next_id s..<s_next_id s + length items] items) (s_items s),
      s_stats := (s_stats s)\<lparr>items_added := add64 (items_added (s_stats s)) (length items)\<rparr>\<rparr>"
  shows "session_rel quads_of s t \<and> index_of t = ix_added clk sc items (index_of s)
    \<and> session_inv strict quads_of st_ok accepts (env_json E) t"
proof -
  let ?J = "env_json E" and ?n = "s_next_id s"
  have ix: "index_of t = ix_added clk sc items (index_of s)"
    by (simp add: t index_of_def ix_added_def)
  note iwf = session_wfD(2) [OF inv]
  have get: "bt_get (s_items t) j = (if ?n \<le> j \<and> j < ?n + length items
      then Some (Entry_new (items ! (j - ?n)) sc Added (clk 0)) else bt_get (s_items s) j)" for j
    using ix_added_get(2) [OF iwf, of clk sc items j] ix [symmetric] by simp
  have new: "bt_get (s_items s) j = None" if "?n \<le> j" for j
    using index_wf_getD [OF iwf, of j] that by (cases "bt_get (s_items s) j") auto
  have "part_inv strict accepts ?J (s_items t) (?n + length items) (part quads_of t)"
    by (rule part_inv_add [OF session_wfD(5) [OF inv], of "?n + length items" "s_items t"
          "\<lambda>j. Entry_new (items ! (j - ?n)) sc Added (clk 0)" sc])
      (use st(2) get new part_batch [OF lim] in \<open>auto simp: t part_def\<close>)
  moreover have "foreign quads_of t = foreign quads_of s"
    by (rule ext) (use st(2) foreign_batch [OF lim] in \<open>simp add: t foreign_def\<close>)
  moreover have "index_wf (index_of t)" unfolding ix by (rule index_wf_added [OF iwf]) (use val lim in simp_all)
  moreover have "accepts q" if "bt_get (s_items t) j = Some e" "q \<in> set (encode ?J j (e_item e))" for j e q
    using that session_wfD(4) [OF inv, of j e] acc [of j] by (auto simp: get split: if_splits)
  moreover have "s_next_id t = ?n + length items" "s_settings t = s_settings s" by (simp_all add: t)
  moreover have "st_ok (Tiers_get (s_stores t) c)" for c using st(1) session_wfD(1) [OF inv] by (simp add: t)
  ultimately show ?thesis using ix by (simp add: session_inv_def session_wf_def session_rel_def)
qed

lemma add_entries_implements:
  assumes val: "validate_all (s_items s) items = Inr u" and lim: "s_next_id s + length items < 2 ^ 64"
    and acc: "\<forall>it\<in>set items. acceptable accepts (env_json E) it"
  defines "ids \<equiv> [s_next_id s..<s_next_id s + length items]"
  shows "implements
     (try_bind (at_store sc (with_write (env_storage E) (\<lambda>st. write_batch E st (zip ids items))))
       (\<lambda>_. modify (\<lambda>s'. s'\<lparr>s_next_id := s_next_id s + length items,
              s_items := insert_entries sc (clk 0) (zip ids items) (s_items s'),
              s_stats := (s_stats s')\<lparr>items_added := add64 (items_added (s_stats s')) (length items)\<rparr>\<rparr>)))
     (modify (ix_added clk sc items)) s"
  unfolding refines_at_def
proof (intro allI impI)
  let ?J = "env_json E" and ?n = "s_next_id s" and ?g = "modify (ix_added clk sc items) :: (Index, Abort, unit) res_st"
  let ?W = "with_write (env_storage E) (\<lambda>st. write_batch E st (zip ids items))"
  let ?add = "\<lambda>s'. s'\<lparr>s_next_id := ?n + length items,
      s_items := insert_entries sc (clk 0) (zip ids items) (s_items s'),
      s_stats := (s_stats s')\<lparr>items_added := add64 (items_added (s_stats s')) (length items)\<rparr>\<rparr>"
  fix r t
  assume inv: "session_inv strict quads_of st_ok accepts ?J s"
    and run: "try_bind (at_store sc ?W) (\<lambda>_. modify ?add) s = (r, t)"
  have ok: "st_ok (Tiers_get (s_stores s) c)" for c by (rule session_wfD(1) [OF inv])
  have acc': "accepts q" if "?n \<le> i" "i < ?n + length items" "q \<in> set (encode ?J i (items ! (i - ?n)))" for i q
  proof -
    have "items ! (i - ?n) \<in> set items" using that(1,2) by simp
    then show ?thesis using acc that lim unfolding acceptable_def by (meson order_less_trans)
  qed
  have "\<forall>(i, it)\<in>set (zip ids items). \<forall>q\<in>set (encode ?J i it). accepts q"
    unfolding ids_def using acc' by (auto simp: set_zip_upt)
  moreover obtain r1 st1 where w: "?W (Tiers_get (s_stores s) sc) = (r1, st1)"
    by (cases "?W (Tiers_get (s_stores s) sc)")
  ultimately have c1: "st_ok st1 \<and> (case r1 of
      Inl e \<Rightarrow> flaky \<and> (\<exists>x. e = StorageFailed x) \<and> quads_of st1 = quads_of (Tiers_get (s_stores s) sc)
    | Inr v \<Rightarrow> quads_of st1 = quads_of (Tiers_get (s_stores s) sc) \<union> batch_quads ?J ?n items)"
    using batch_rule [OF ok _ w] unfolding batch_quads_def ids_def by blast
  let ?s1 = "s\<lparr>s_stores := Tiers_put (s_stores s) sc st1\<rparr>"
  have at1: "at_store sc ?W s = (map_err Err r1, ?s1)" using w by (simp add: at_store_def)
  show "(\<exists>a. fst (?g (index_of s)) = Inl a \<and> a = Panic) \<or> session_rel quads_of s t \<and>
     ((\<exists>a. r = Inl a \<and> (flaky \<and> storage_failure a) \<and> covered quads_of st_ok accepts ?J t)
      \<or> (r, index_of t) = ?g (index_of s) \<and> session_inv strict quads_of st_ok accepts ?J t)"
  proof (cases r1)
    case (Inl e)
    have "session_inv strict quads_of st_ok accepts ?J ?s1" "session_rel quads_of s ?s1"
      by (rule same_content [OF inv]; use c1 Inl ok in auto)+
    moreover from this(1) have "covered quads_of st_ok accepts ?J ?s1" by (rule session_inv_covered)
    ultimately show ?thesis using run at1 Inl c1 by (auto simp: storage_failure_def try_bind_def)
  next
    case (Inr v)
    then have r: "r = Inr ()" and t: "t = ?add ?s1" using run at1 by (simp_all add: try_bind_def)
    have "session_rel quads_of s t \<and> index_of t = ix_added clk sc items (index_of s)
        \<and> session_inv strict quads_of st_ok accepts ?J t"
      by (rule batch_added [OF inv val lim acc', where ?st1.0 = st1 and sc = sc and clk = clk]) (use c1 Inr in \<open>simp_all add: t ids_def\<close>)
    then show ?thesis using r by simp
  qed
qed

lemma add_batch_implements:
  assumes "\<forall>it\<in>set items. acceptable accepts (env_json E) it"
  shows "implements (Session_add_batch E clk sc items) (ix_add_batch (env_f64 E) clk sc items) s"
proof (cases "validate_all (s_items s) items")
  case (Inl e)
  then show ?thesis
    by (intro sim.refines_same) (simp_all add: Session_add_batch_def ix_add_batch_def)
next
  case (Inr u)
  show ?thesis
  proof (cases "s_next_id s + length items < 2 ^ 64")
    case False
    then show ?thesis using Inr by (intro sim.refines_undef) (auto simp: ix_add_batch_def Let_def)
  next
    case True
    let ?ids = "[s_next_id s..<s_next_id s + length items]"
    have rest: "implements (try_bind (enforce_bounds E clk 1 sc) (\<lambda>_. ok ?ids))
        (try_bind (ix_enforce (env_f64 E) clk 1 sc) (\<lambda>_. ok ?ids)) t" for t
      by (intro sim.refines_bind enforce_bounds_implements sim.refines_ok)
    show ?thesis
      by (rule refines_at_unfold [OF sim.refines_bind [OF add_entries_implements [OF Inr True assms, of sc clk] rest]])
        (use Inr True in \<open>auto simp: Session_add_batch_def ix_add_batch_def ix_added_def [abs_def] Let_def try_bind_def
            add64_small split: prod.splits sum.splits\<close>)
  qed
qed

end

end
