(* ===== verification/Session_Query.thy ===== *)
theory Session_Query
  imports Session_Sim
begin

text \<open>
  Pattern queries: the scan of the stores finds exactly the items that match, in the order
  the abstract query lists them, and the query operation refines the abstract one.
\<close>

section \<open>The scan of one scope\<close>

definition live_id :: "(ItemId, Entry) btree_map \<Rightarrow> ContextScope \<Rightarrow> Quad \<Rightarrow> ItemId option" where
  "live_id items sc q =
     (case q_graph q of GDefault \<Rightarrow> None
      | GNamed g \<Rightarrow> (case parse_item_graph g of None \<Rightarrow> None
        | Some i \<Rightarrow> if (case bt_get items i of None \<Rightarrow> False | Some e \<Rightarrow> e_scope e = sc) then Some i else None))"

lemma live_id_Some:
  "live_id items sc q = Some i \<longleftrightarrow>
     q_graph q = GNamed (item_graph i) \<and> i < 2 ^ 64 \<and> (\<exists>e. bt_get items i = Some e \<and> e_scope e = sc)"
proof (cases "q_graph q")
  case (GNamed g)
  show ?thesis
  proof (cases "parse_item_graph g")
    case None
    then show ?thesis using GNamed parse_item_graph_item_graph [of i] by (auto simp: live_id_def)
  next
    case (Some j)
    then have g: "g = item_graph j" "j < 2 ^ 64" by (simp_all add: parse_item_graph_Some)
    have "live_id items sc q = (if \<exists>e. bt_get items j = Some e \<and> e_scope e = sc then Some j else None)"
      using GNamed Some by (simp add: live_id_def split: option.split)
    moreover have "i < 2 ^ 64 \<Longrightarrow> item_graph j = item_graph i \<longleftrightarrow> j = i" using item_graph_inj [OF g(2)] .
    ultimately show ?thesis using GNamed g by auto
  qed
qed (simp add: live_id_def)

lemma scan_collected:
  "collect_results rs = Inr qs \<Longrightarrow> scan items sc rs n found =
     Inr (n + length (List.map_filter (live_id items sc) qs), fold insort_insert (List.map_filter (live_id items sc) qs) found)"
  unfolding collect_results_Inr
proof (induction qs arbitrary: rs n found)
  case Nil
  then show ?case by (simp add: List.map_filter_simps)
next
  case (Cons q qs)
  from Cons.prems obtain rs' where rs: "rs = Inr q # rs'" "rs' = map Inr qs" by auto
  have split: "scan items sc (Inr q # rs') n found =
      (case live_id items sc q of None \<Rightarrow> scan items sc rs' n found
       | Some i \<Rightarrow> scan items sc rs' (Suc n) (insort_insert i found))"
    by (simp add: live_id_def split: NamedOrDefault.split option.split)
  show ?case unfolding rs(1) split
    by (cases "live_id items sc q") (simp_all add: Cons.IH [OF rs(2)] List.map_filter_simps)
qed

lemma scan_error: "collect_results rs = Inl e \<Longrightarrow> scan items sc rs n found = Inl (StorageFailed e)"
  by (induction rs arbitrary: n found) (auto split: sum.splits NamedOrDefault.splits option.splits)

lemma sorted_distinct_insorts:
  "sorted xs \<Longrightarrow> distinct xs \<Longrightarrow>
     sorted (fold insort_insert ys xs) \<and> distinct (fold insort_insert ys xs) \<and> set (fold insort_insert ys xs) = set xs \<union> set ys"
  for xs :: "'a::linorder list"
  by (induction ys arbitrary: xs) (auto simp: sorted_insort_insert distinct_insort_insert set_insort_insert)

text \<open>
  A store that holds exactly the encoded quads of the items of a scope (as far as item
  graphs go) answers a pattern with the item matches.
\<close>

lemma item_matches_graph:
  assumes "storable it"
  shows "{q \<in> set (encode J i it). matches_pattern q (pat_subject p) (pat_predicate p) (pat_object p) None
      \<and> q_graph q = GNamed (item_graph i)} = in_graph (item_graph i) ` set (item_matches p it)"
    and "inj_on (in_graph (item_graph i)) (set (item_matches p it))"
proof -
  show "{q \<in> set (encode J i it). matches_pattern q (pat_subject p) (pat_predicate p) (pat_object p) None
      \<and> q_graph q = GNamed (item_graph i)} = in_graph (item_graph i) ` set (item_matches p it)"
    by (auto simp: set_encode item_matches_def matches_pattern_def)
  have "q_graph q = GDefault" if "q \<in> set (item_matches p it)" for q
    using assms that by (auto simp: item_matches_def storable_def triples_of_def list_all_iff split: ContextPayload.splits)
  then show "inj_on (in_graph (item_graph i)) (set (item_matches p it))"
    by (auto simp: inj_on_def Quad_eq_iff)
qed

lemma length_map_filter: "distinct qs \<Longrightarrow> length (List.map_filter f qs) = card {q \<in> set qs. f q \<noteq> None}"
proof -
  assume "distinct qs"
  then have "card {q \<in> set qs. f q \<noteq> None} = length (filter (\<lambda>q. f q \<noteq> None) qs)"
    by (metis distinct_card distinct_filter set_filter)
  then show ?thesis by (simp add: List.map_filter_def comp_def)
qed

lemma scope_entries_iff: "bt_wf items \<Longrightarrow> (i, e) \<in> set (scope_entries items sc) \<longleftrightarrow> bt_get items i = Some e \<and> e_scope e = sc"
  by (auto simp: scope_entries_def bt_get_iff)

lemma live_id_entry: "bt_wf items \<Longrightarrow> live_id items sc q = Some i \<Longrightarrow> \<exists>e. (i, e) \<in> set (scope_entries items sc)"
  by (auto simp: live_id_Some scope_entries_iff)

text \<open>The answers in the graph of an item of the scope are its matching triples.\<close>

lemma scan_graph:
  assumes wf: "bt_wf items" and ids: "\<And>i e. bt_get items i = Some e \<Longrightarrow> i < 2 ^ 64 \<and> storable (e_item e)"
    and part: "\<And>i e. bt_get items i = Some e \<Longrightarrow> e_scope e = sc \<Longrightarrow>
      {q \<in> V. owned i q} = set (encode J i (e_item e))"
    and qs: "set qs = {q \<in> V. matches_pattern q (pat_subject p) (pat_predicate p) (pat_object p) None}"
    and e: "(i, e) \<in> set (scope_entries items sc)"
  shows "{q \<in> set qs. live_id items sc q = Some i} = in_graph (item_graph i) ` set (item_matches p (e_item e))"
proof -
  have i: "bt_get items i = Some e" "e_scope e = sc" "i < 2 ^ 64" "storable (e_item e)"
    using e ids [of i e] by (auto simp: scope_entries_iff [OF wf])
  have "{q \<in> set qs. live_id items sc q = Some i} = {q \<in> {q \<in> V. owned i q}.
     matches_pattern q (pat_subject p) (pat_predicate p) (pat_object p) None \<and> q_graph q = GNamed (item_graph i)}"
    unfolding qs using i by (auto simp: live_id_Some owned_def)
  also have "\<dots> = in_graph (item_graph i) ` set (item_matches p (e_item e))"
    unfolding part [OF i(1,2)] using item_matches_graph(1) [OF i(4)] by simp
  finally show ?thesis .
qed

text \<open>The matching triples of different items are different quads.\<close>

lemma card_matches:
  assumes wf: "bt_wf items" and ids: "\<And>i e. bt_get items i = Some e \<Longrightarrow> i < 2 ^ 64 \<and> storable (e_item e)"
  shows "card (\<Union>x\<in>set (scope_entries items sc). in_graph (item_graph (fst x)) ` set (item_matches p (e_item (snd x))))
    = matched_in p items sc"
proof -
  let ?L = "scope_entries items sc" and ?G = "\<lambda>x. in_graph (item_graph (fst x)) ` set (item_matches p (e_item (snd x)))"
  note L = scope_entries_iff [OF wf]
  have dL: "distinct ?L" using filtered_keys(1) [OF wf] by (simp add: scope_entries_def distinct_map)
  have "card (\<Union>x\<in>set ?L. ?G x) = (\<Sum>x\<in>set ?L. card (?G x))"
  proof (rule card_UN_disjoint)
    show "\<forall>x\<in>set ?L. \<forall>y\<in>set ?L. x \<noteq> y \<longrightarrow> ?G x \<inter> ?G y = {}"
    proof (intro ballI impI)
      fix x y
      assume xy: "x \<in> set ?L" "y \<in> set ?L" "x \<noteq> y"
      obtain i e j d where v: "x = (i, e)" "y = (j, d)" by (metis surj_pair)
      have "i \<noteq> j" using xy v by (auto simp: L)
      moreover have "i < 2 ^ 64" "j < 2 ^ 64" using ids xy v by (auto simp: L)
      ultimately show "?G x \<inter> ?G y = {}" using item_graph_inj by (auto simp: v Quad_eq_iff)
    qed
  qed auto
  also have "\<dots> = (\<Sum>x\<in>set ?L. length (item_matches p (e_item (snd x))))"
  proof (rule sum.cong)
    fix x
    assume "x \<in> set ?L"
    then have "bt_get items (fst x) = Some (snd x)" using L [of "fst x" "snd x"] by simp
    then have "storable (e_item (snd x))" using ids by blast
    then have "card (?G x) = card (set (item_matches p (e_item (snd x))))"
      using item_matches_graph(2) by (auto simp: card_image)
    also have "\<dots> = length (item_matches p (e_item (snd x)))"
      unfolding item_matches_def by (rule distinct_card) (rule distinct_remdups)
    finally show "card (?G x) = length (item_matches p (e_item (snd x)))" .
  qed simp
  also have "\<dots> = matched_in p items sc"
    using sum_list_distinct_conv_sum_set [OF dL, of "\<lambda>x. length (item_matches p (e_item (snd x)))"]
    by (simp add: matched_in_def case_prod_unfold)
  finally show ?thesis .
qed

lemma sorted_hits_in: "bt_wf items \<Longrightarrow> sorted (map fst (hits_in p items sc))"
proof -
  assume "bt_wf items"
  then have "sorted_wrt (<) (map fst (filter P (filter Q items)))" for P Q
    using sorted_wrt_filter_map_fst by (auto simp: bt_wf_def)
  then have "sorted_wrt (<) (map fst (hits_in p items sc))"
    by (simp add: hits_in_def scope_entries_def comp_def case_prod_unfold)
  then show ?thesis by (rule sorted_wrt_mono_rel [rotated]) simp
qed

lemma scan_matches:
  assumes wf: "bt_wf items" and ids: "\<And>i e. bt_get items i = Some e \<Longrightarrow> i < 2 ^ 64 \<and> storable (e_item e)"
    and part: "\<And>i e. bt_get items i = Some e \<Longrightarrow> e_scope e = sc \<Longrightarrow>
      {q \<in> V. owned i q} = set (encode J i (e_item e))"
    and qs: "distinct qs"
      "set qs = {q \<in> V. matches_pattern q (pat_subject p) (pat_predicate p) (pat_object p) None}"
  shows "length (List.map_filter (live_id items sc) qs) = matched_in p items sc"
    and "fold insort_insert (List.map_filter (live_id items sc) qs) [] = map fst (hits_in p items sc)"
proof -
  let ?L = "scope_entries items sc" and ?found = "List.map_filter (live_id items sc) qs"
  note L = scope_entries_iff [OF wf] and live = live_id_entry [OF wf]
  have graph: "{q \<in> set qs. live_id items sc q = Some i} = in_graph (item_graph i) ` set (item_matches p (e_item e))"
    if "(i, e) \<in> set ?L" for i e
    by (rule scan_graph [OF wf _ _ qs(2) that]) (use ids part in auto)
  have "{q \<in> set qs. live_id items sc q \<noteq> None} = (\<Union>x\<in>set ?L. {q \<in> set qs. live_id items sc q = Some (fst x)})"
    using live by force
  also have "\<dots> = (\<Union>x\<in>set ?L. in_graph (item_graph (fst x)) ` set (item_matches p (e_item (snd x))))"
    using graph by (intro SUP_cong) auto
  finally show "length ?found = matched_in p items sc"
    using length_map_filter [OF qs(1), of "live_id items sc"] card_matches [OF wf ids] by simp
  have "set ?found = fst ` set (hits_in p items sc)"
  proof (intro set_eqI iffI)
    fix i
    assume "i \<in> set ?found"
    then obtain q where q: "q \<in> set qs" "live_id items sc q = Some i" by (auto simp: List.map_filter_def)
    then obtain e where e: "(i, e) \<in> set ?L" using live by blast
    then have "item_matches p (e_item e) \<noteq> []" using graph [OF e] q by auto
    then have "(i, sc) \<in> set (hits_in p items sc)" using e by (auto simp: set_hits_in [OF wf] L)
    then show "i \<in> fst ` set (hits_in p items sc)" by force
  next
    fix i
    assume "i \<in> fst ` set (hits_in p items sc)"
    then obtain e where e: "(i, e) \<in> set ?L" "item_matches p (e_item e) \<noteq> []"
      by (auto simp: set_hits_in [OF wf] L)
    then have "{q \<in> set qs. live_id items sc q = Some i} \<noteq> {}" using graph [OF e(1)] by simp
    then show "i \<in> set ?found" by (force simp: List.map_filter_def)
  qed
  then have "set (fold insort_insert ?found []) = set (map fst (hits_in p items sc))"
    using sorted_distinct_insorts [of "[] :: ItemId list" ?found] by simp
  then show "fold insort_insert ?found [] = map fst (hits_in p items sc)"
    using sorted_distinct_insorts [of "[] :: ItemId list" ?found] sorted_hits_in [OF wf]
      distinct_hits_in [OF wf, of p sc] by (intro sorted_distinct_set_unique) simp_all
qed

section \<open>Refinement\<close>

context session_sim
begin

lemma query_scope_rule:
  assumes inv: "session_inv strict quads_of st_ok accepts (env_json E) s"
    and run: "query_scope (env_storage E) (s_items s) p sc n (Tiers_get (s_stores s) sc) = (r, st')"
  shows "st_ok st' \<and> quads_of st' = quads_of (Tiers_get (s_stores s) sc)
    \<and> (case r of Inl e \<Rightarrow> flaky \<and> (\<exists>x. e = StorageFailed x)
       | Inr v \<Rightarrow> v = (n + matched_in p (s_items s) sc, map fst (hits_in p (s_items s) sc)))"
proof -
  let ?st = "Tiers_get (s_stores s) sc"
  have st: "st_ok ?st" by (rule session_wfD(1) [OF inv])
  show ?thesis
  proof (cases "begin_read (env_storage E) ?st")
    case (Inl e)
    have flaky using begin_read_sure [OF _ st] Inl by auto
    then show ?thesis using Inl run st by (auto simp: query_scope_def)
  next
    case (Inr tx)
    note tx = begin_read_ok [OF st Inr]
    let ?rs = "tx_quads_for_pattern (env_storage E) ?st tx (pat_subject p) (pat_predicate p) (pat_object p) None"
    show ?thesis
    proof (cases "collect_results ?rs")
      case Inl1: (Inl e)
      have flaky using pattern_sure [OF _ st, of tx "pat_subject p" "pat_predicate p" "pat_object p" None] tx Inl1 by auto
      then show ?thesis using Inl1 Inr run st by (auto simp: query_scope_def scan_error)
    next
      case Inr1: (Inr qs)
      have qs: "distinct qs" "set qs = {q \<in> quads_of ?st.
          matches_pattern q (pat_subject p) (pat_predicate p) (pat_object p) None}"
        using pattern_ok [OF st _ Inr1] tx by auto
      have wf: "bt_wf (s_items s)" using session_wfD(2) [OF inv] index_wf_items by fastforce
      have part: "{q \<in> quads_of ?st. owned i q} = set (encode (env_json E) i (e_item e))"
        if "bt_get (s_items s) i = Some e" "e_scope e = sc" for i e
      proof -
        have "i < 2 ^ 64" using session_wfD(3) [OF inv that(1)] by blast
        from part_invD [OF session_wfD(5) [OF inv] this, of sc] that
        show ?thesis by (simp add: part_ok_def part_def)
      qed
      have ids: "i < 2 ^ 64 \<and> storable (e_item e)" if "bt_get (s_items s) i = Some e" for i e
        using session_wfD(3) [OF inv that] by blast
      have scan: "scan (s_items s) sc ?rs n [] = Inr (n + matched_in p (s_items s) sc, map fst (hits_in p (s_items s) sc))"
        using scan_collected [OF Inr1] scan_matches [OF wf ids part qs] by simp
      obtain r2 st2 where rb: "tx_rollback (env_storage E) tx ?st = (r2, st2)"
        by (cases "tx_rollback (env_storage E) tx ?st")
      have "r2 = Inl e \<Longrightarrow> flaky" for e using rollback_sure [OF _ st, of tx] tx rb by auto
      moreover have "(r, st') = (case r2 of Inl e \<Rightarrow> (Inl (StorageFailed e), st2)
          | Inr _ \<Rightarrow> (Inr (n + matched_in p (s_items s) sc, map fst (hits_in p (s_items s) sc)), st2))"
        using run by (simp add: query_scope_def Inr scan rb split: sum.split)
      ultimately show ?thesis using rollback_ok [OF st _ rb] tx by (cases r2) auto
    qed
  qed
qed

lemma query_scopes_rule:
  assumes "session_inv strict quads_of st_ok accepts (env_json E) s"
    and "query_scopes E p scs n hits s = (r, t)"
  shows "session_rel quads_of s t \<and> index_of t = index_of s \<and> session_inv strict quads_of st_ok accepts (env_json E) t
    \<and> (case r of Inl a \<Rightarrow> flaky \<and> storage_failure a
       | Inr v \<Rightarrow> v = (n + sum_list (map (matched_in p (s_items s)) scs), hits @ concat (map (hits_in p (s_items s)) scs)))"
  using assms
proof (induction scs arbitrary: n hits s)
  case Nil
  then show ?case by (auto simp: session_rel_def)
next
  case (Cons sc scs)
  note inv = Cons.prems(1)
  obtain r1 t1 where q: "at_store sc (query_scope (env_storage E) (s_items s) p sc n) s = (r1, t1)"
    by (cases "at_store sc (query_scope (env_storage E) (s_items s) p sc n) s")
  then obtain r' st' where q': "query_scope (env_storage E) (s_items s) p sc n (Tiers_get (s_stores s) sc) = (r', st')"
    and r1: "r1 = map_err Err r'" and t1: "t1 = s\<lparr>s_stores := Tiers_put (s_stores s) sc st'\<rparr>"
    by (rule at_storeE)
  note res = query_scope_rule [OF inv q']
  have t1': "session_inv strict quads_of st_ok accepts (env_json E) t1" "session_rel quads_of s t1" "index_of t1 = index_of s"
    unfolding t1 by (rule same_content [OF inv]; use res session_wfD(1) [OF inv] in auto)+
  show ?case
  proof (cases r')
    case (Inl e)
    then show ?thesis using Cons.prems(2) q r1 t1' res by (auto simp: storage_failure_def)
  next
    case (Inr v)
    then have v: "r1 = Inr (n + matched_in p (s_items s) sc, map fst (hits_in p (s_items s) sc))" using r1 res by auto
    have pairs: "map (\<lambda>i. (i, sc)) (map fst (hits_in p (s_items s) sc)) = hits_in p (s_items s) sc"
      by (simp add: hits_in_def comp_def case_prod_unfold)
    have items: "s_items t1 = s_items s" by (simp add: t1)
    have run: "query_scopes E p scs (n + matched_in p (s_items s) sc) (hits @ hits_in p (s_items s) sc) t1 = (r, t)"
      using Cons.prems(2) q v pairs by (simp add: comp_def)
    from Cons.IH [OF t1'(1) run] t1'(2,3) items show ?thesis
      by (cases r) (auto simp: session_rel_def add.assoc)
  qed
qed

lemma touch_hits_implements:
  "implements (touch_hits F now w hl hits) (ix_touch F now w hl hits) s"
proof (induction hits arbitrary: s)
  case Nil
  show ?case by (rule sim.refines_same) simp_all
next
  case (Cons h hits)
  obtain i sc where h: "h = (i, sc)" by (cases h)
  show ?case
  proof (cases "bt_get (s_items s) i")
    case None
    then show ?thesis by (intro sim.refines_undef) (simp add: h)
  next
    case (Some e)
    let ?f = "Entry_touch F now w hl"
    let ?ri = "\<lparr>ri_id = i, ri_item = e_item e, ri_score = f64_one, ri_source_scope = sc\<rparr>"
    have touch: "implements (modify (\<lambda>s. s\<lparr>s_items := bt_adjust i ?f (s_items s)\<rparr>))
        (modify (\<lambda>x. x\<lparr>ix_items := bt_adjust i ?f (ix_items x)\<rparr>)) s"
    proof (rule sim.refines_modify)
      let ?t = "s\<lparr>s_items := bt_adjust i ?f (s_items s)\<rparr>"
      assume inv: "session_inv strict quads_of st_ok accepts (env_json E) s"
      show ix: "index_of ?t = (index_of s)\<lparr>ix_items := bt_adjust i ?f (ix_items (index_of s))\<rparr>"
        by (simp add: index_of_def)
      have "part quads_of ?t = part quads_of s" by (intro ext) (simp add: part_def)
      moreover have "index_wf (index_of ?t)"
        unfolding ix by (rule index_wf_adjust [OF session_wfD(2) [OF inv]]) simp
      moreover have "part_inv strict accepts (env_json E) (bt_adjust i ?f (s_items s)) (s_next_id s) (part quads_of s)"
        by (rule part_inv_touch [OF session_wfD(5) [OF inv]]) simp_all
      ultimately show "session_inv strict quads_of st_ok accepts (env_json E) ?t"
        using session_wfD(1,4) [OF inv] by (auto simp: session_inv_def session_wf_def split: if_splits)
    qed (simp add: session_rel_def foreign_def fun_eq_iff)
    have "implements (try_bind (touch_hits F now w hl hits) (\<lambda>rs. ok (?ri # rs)))
        (try_bind (ix_touch F now w hl hits) (\<lambda>rs. ok (?ri # rs))) t" for t
      by (intro sim.refines_bind Cons.IH sim.refines_ok)
    from refines_at_unfold [OF sim.refines_bind [OF touch this]]
    show ?thesis using Some h
      by (auto simp: try_bind_def split: prod.splits sum.splits)
  qed
qed

lemma query_implements:
  "implements (Session_query E clk query) (ix_query (env_f64 E) clk query) s"
proof (cases "\<exists>p. qy_kind query = Pattern p \<and> qy_reasoner_hint query = None")
  case False
  then show ?thesis
    by (intro sim.refines_same [where r = "fst (Session_query E clk query s)"])
      (auto simp: Session_query_def ix_query_def split: ContextQueryKind.splits)
next
  case True
  then obtain p where p: "qy_kind query = Pattern p" "qy_reasoner_hint query = None" by blast
  let ?scs = "ScopeSelection_scopes (qy_scopes query)" and ?cfg = "set_promotion (s_settings s)"
  let ?hl = "policy_half_life (set_eviction_policy (s_settings s))"
  let ?v = "(sum_list (map (matched_in p (s_items s)) ?scs), concat (map (hits_in p (s_items s)) ?scs))"
  let ?served = "\<lambda>st. st\<lparr>queries_served := add64 (queries_served st) 1\<rparr>"
  let ?res = "\<lambda>m items n. ok \<lparr>res_items = items, res_query_stats =
      \<lparr>scopes_consulted = length ?scs, quads_matched = m, auto_promoted = n\<rparr>\<rparr>"
  let ?f = "\<lambda>(m, hits). try_bind (touch_hits (env_f64 E) (clk 0) (minor_window ?cfg) ?hl (truncate_hits (qy_limit query) hits))
      (\<lambda>items. try_bind (modify (\<lambda>s. s\<lparr>s_stats := ?served (s_stats s)\<rparr>))
        (\<lambda>_. try_bind (if cadence ?cfg = AfterEachQuery then auto_promote E clk 1 (clk 0) else ok 0) (?res m items)))"
  let ?h = "\<lambda>(m, hits). try_bind (ix_touch (env_f64 E) (clk 0) (minor_window ?cfg) ?hl (truncate_hits (qy_limit query) hits))
      (\<lambda>items. try_bind (modify (\<lambda>s. s\<lparr>ix_stats := ?served (ix_stats s)\<rparr>))
        (\<lambda>_. try_bind (if cadence ?cfg = AfterEachQuery then ix_auto_promote (env_f64 E) clk 1 (clk 0) else ok 0) (?res m items)))"
  have rest: "implements (?f ?v) (?h ?v) t" for t
    unfolding prod.case
    by (intro sim.refines_bind touch_hits_implements stats_implements sim.refines_ok)
      (simp add: auto_promote_implements sim.refines_ok)
  have "implements (try_bind (query_scopes E p ?scs 0 []) ?f) (?h ?v) s"
  proof (rule sim.refines_value [where v = ?v and f = ?f])
    show "implements (?f ?v) (?h ?v) t" for t by (rule rest)
    fix r t
    assume inv: "session_inv strict quads_of st_ok accepts (env_json E) s" and run: "query_scopes E p ?scs 0 [] s = (r, t)"
    from query_scopes_rule [OF inv run] session_inv_covered
    show "session_rel quads_of s t \<and> ((\<exists>a. r = Inl a \<and> (flaky \<and> storage_failure a) \<and> covered quads_of st_ok accepts (env_json E) t)
        \<or> r = Inr ?v \<and> index_of t = index_of s \<and> session_inv strict quads_of st_ok accepts (env_json E) t)"
      by (cases r) auto
  qed
  then show ?thesis
    by (rule refines_at_unfold)
      (simp_all add: p Session_query_def ix_query_def run_pattern_def ix_run_pattern_def Let_def)
qed

end

end
