(* ===== verification/Session_Props.thy ===== *)
theory Session_Props
  imports Session_Query Mem_Store
begin

text \<open>
  The properties of the session. Operations are gathered in the type \<open>SessionOp\<close>, so that
  the invariants are statements about all of them and about every sequence of them. A
  store is any store that satisfies the storage contract; the witnesses use the reference
  store of the test kit.
\<close>

section \<open>Operations and runs\<close>

datatype SessionOp =
    OpAdd ContextScope ContextItem
  | OpAddBatch ContextScope "ContextItem list"
  | OpRemove ContextScope ItemId
  | OpQuery ContextQuery
  | OpPromote "ItemId list" ContextScope ContextScope
  | OpEvict ContextScope EvictionCriteria

datatype OpResult =
    ResId ItemId | ResIds "ItemId list" | ResRemoved bool | ResQuery ContextQueryResult
  | ResPromoted PromotionStats | ResEvicted nat

definition map_res :: "('a \<Rightarrow> 'b) \<Rightarrow> ('s, 'e, 'a) res_st \<Rightarrow> ('s, 'e, 'b) res_st" where
  "map_res f m = try_bind m (\<lambda>a. ok (f a))"

fun run_op :: "('st, 'tx) Env \<Rightarrow> (nat \<Rightarrow> Instant) \<Rightarrow> SessionOp \<Rightarrow> ('st Session, Abort, OpResult) res_st" where
  "run_op E clk (OpAdd sc it) = map_res ResId (Session_add E clk sc it)"
| "run_op E clk (OpAddBatch sc items) = map_res ResIds (Session_add_batch E clk sc items)"
| "run_op E clk (OpRemove sc i) = map_res ResRemoved (Session_remove E sc i)"
| "run_op E clk (OpQuery q) = map_res ResQuery (Session_query E clk q)"
| "run_op E clk (OpPromote ids from to) = map_res ResPromoted (Session_promote E clk ids from to)"
| "run_op E clk (OpEvict sc crit) = map_res ResEvicted (Session_evict E clk sc crit)"

definition ix_add :: "F64Ops \<Rightarrow> (nat \<Rightarrow> Instant) \<Rightarrow> ContextScope \<Rightarrow> ContextItem \<Rightarrow> (Index, Abort, ItemId) res_st" where
  "ix_add F clk sc it =
     try_bind (ix_add_batch F clk sc [it]) (\<lambda>ids. case ids of [] \<Rightarrow> throw Panic | i # _ \<Rightarrow> ok i)"

fun ix_run_op :: "F64Ops \<Rightarrow> (nat \<Rightarrow> Instant) \<Rightarrow> SessionOp \<Rightarrow> (Index, Abort, OpResult) res_st" where
  "ix_run_op F clk (OpAdd sc it) = map_res ResId (ix_add F clk sc it)"
| "ix_run_op F clk (OpAddBatch sc items) = map_res ResIds (ix_add_batch F clk sc items)"
| "ix_run_op F clk (OpRemove sc i) = map_res ResRemoved (ix_remove sc i)"
| "ix_run_op F clk (OpQuery q) = map_res ResQuery (ix_query F clk q)"
| "ix_run_op F clk (OpPromote ids from to) = map_res ResPromoted (ix_promote F clk ids from to)"
| "ix_run_op F clk (OpEvict sc crit) = map_res ResEvicted (ix_evict F clk sc crit)"

fun op_items :: "SessionOp \<Rightarrow> ContextItem list" where
  "op_items (OpAdd sc it) = [it]"
| "op_items (OpAddBatch sc items) = items"
| "op_items _ = []"

text \<open>The ids an operation may use are not exhausted.\<close>

definition id_room :: "nat \<Rightarrow> SessionOp \<Rightarrow> bool" where
  "id_room n oper \<longleftrightarrow> n + length (op_items oper) < 2 ^ 64"

text \<open>
  One operation on a session, whatever its outcome, and sequences of operations. The
  operations share one session, which a mutex protects for the whole of each.
\<close>

inductive session_step :: "('st, 'tx) Env \<Rightarrow> (Quad \<Rightarrow> bool) \<Rightarrow> 'st Session \<Rightarrow> 'st Session \<Rightarrow> bool"
  for E accepts where
  step: "id_room (s_next_id s) oper \<Longrightarrow> \<forall>it\<in>set (op_items oper). acceptable accepts (env_json E) it \<Longrightarrow>
    run_op E clk oper s = (r, t) \<Longrightarrow> session_step E accepts s t"

inductive session_run :: "('st, 'tx) Env \<Rightarrow> (Quad \<Rightarrow> bool) \<Rightarrow> 'st Session \<Rightarrow> 'st Session \<Rightarrow> bool"
  for E accepts where
  refl: "session_run E accepts s s"
| trans: "session_run E accepts s t \<Longrightarrow> session_step E accepts t u \<Longrightarrow> session_run E accepts s u"

inductive_cases session_stepE: "session_step E accepts s t"

section \<open>The abstract operations are defined\<close>

text \<open>A defined outcome that keeps the index well-formed, and within its bounds.\<close>

definition sound_outcome :: "Index \<Rightarrow> (Abort + 'a) \<times> Index \<Rightarrow> bool" where
  "sound_outcome x res \<longleftrightarrow> fst res \<noteq> Inl Panic \<and> index_wf (snd res) \<and> (all_bounded x \<longrightarrow> all_bounded (snd res))"

lemma bounded_cong:
  "ix_settings y = ix_settings x \<Longrightarrow> in_scope y c = in_scope x c \<Longrightarrow> bounded y c = bounded x c"
  by (auto simp: bounded_def split: option.split)

lemma ix_add_batch_total:
  assumes "index_wf x" "ix_next_id x + length items < 2 ^ 64"
  shows "sound_outcome x (ix_add_batch F clk sc items x)
    \<and> (\<forall>ids y. ix_add_batch F clk sc items x = (Inr ids, y) \<longrightarrow> length ids = length items)"
proof (cases "validate_all (ix_items x) items")
  case (Inl e)
  then show ?thesis using assms by (simp add: ix_add_batch_def sound_outcome_def)
next
  case (Inr u)
  obtain y where y: "ix_add_batch F clk sc items x = (Inr [ix_next_id x..<ix_next_id x + length items], y)"
    "index_wf y" "same_frame (ix_added clk sc items x) y" "cooled sc (ix_added clk sc items x) y" "\<forall>c\<le> sc. bounded y c"
    using ix_add_batch_works [OF assms(1) Inr assms(2)] by blast
  have "bounded y c" if "bounded x c" "sc < c" for c
  proof -
    have "in_scope (ix_added clk sc items x) c = in_scope x c"
    proof (intro set_eqI)
      fix j
      have "bt_get (ix_items x) j = None" if "ix_next_id x \<le> j"
        using index_wf_getD [OF assms(1), of j] that by (cases "bt_get (ix_items x) j") auto
      then show "j \<in> in_scope (ix_added clk sc items x) c \<longleftrightarrow> j \<in> in_scope x c"
        using \<open>sc < c\<close> by (auto simp: in_scope_iff ix_added_get [OF assms(1)])
    qed
    then have "in_scope y c = in_scope x c" using cooled_hotter [OF y(4) that(2)] by simp
    moreover have "ix_settings y = ix_settings x" using y(3) by (simp add: same_frame_def ix_added_def)
    ultimately show ?thesis using that(1) bounded_cong [of y x c] by simp
  qed
  then have "all_bounded x \<longrightarrow> all_bounded y"
    using y(5) by (metis all_bounded_def linorder_not_less)
  then show ?thesis using y(1,2) by (simp add: sound_outcome_def)
qed

lemma ix_promote_total:
  assumes "index_wf x"
  shows "sound_outcome x (ix_promote F clk ids from to x)"
proof (cases "from < to \<and> (\<exists>us. check_in_scope (ix_items x) ids from = Inr us)")
  case False
  then show ?thesis using assms by (auto simp: ix_promote_def sound_outcome_def split: sum.split)
next
  case True
  then obtain us where us: "check_in_scope (ix_items x) ids from = Inr us" "from < to" by blast
  then have ne: "from \<noteq> to" by simp
  obtain y z where z: "ix_promote F clk ids from to x = (Inr \<lparr>promoted = card (set ids)\<rparr>, z)"
    "ix_moved to Promoted (set ids) x y" "index_wf z" "same_frame x z" "cooled to y z" "\<forall>c\<le> to. bounded z c"
    using ix_promote_works [OF assms us] by blast
  have "bounded z c" if "bounded x c" "to < c" for c
  proof -
    have "bounded y c" using ix_moved_bounded [OF z(2) ix_move_checked(2) [OF assms us(1) ne] ne _ assms that(1)] that(2) by simp
    moreover have "in_scope z c = in_scope y c" using z(5) that(2) by (rule cooled_hotter)
    moreover have "ix_settings z = ix_settings y" using z(2,4) by (simp add: ix_moved_def same_frame_def)
    ultimately show ?thesis using bounded_cong [of z y c] by simp
  qed
  then have "all_bounded x \<longrightarrow> all_bounded z" using z(6) by (metis all_bounded_def linorder_not_less)
  then show ?thesis using z(1,3) by (simp add: sound_outcome_def)
qed

lemma fewer_bounded:
  assumes "index_wf x" "same_frame x y" "in_scope y c \<subseteq> in_scope x c" "bounded x c"
  shows "bounded y c"
proof -
  have "card (in_scope y c) \<le> card (in_scope x c)"
    using finite_in_scope [OF index_wf_items [OF assms(1)]] assms(3) by (rule card_mono)
  then show ?thesis using assms(2,4) by (auto simp: bounded_def same_frame_def split: option.splits)
qed

lemma evict_items_total:
  assumes "index_wf x"
  shows "sound_outcome x (ix_evict F clk sc (Items ids) x)"
proof (cases "check_in_scope (ix_items x) ids sc")
  case (Inl e)
  then show ?thesis using assms by (simp add: ix_evict_def sound_outcome_def)
next
  case (Inr us)
  obtain y where y: "ix_evict F clk sc (Items ids) x = (Inr (card (set ids)), y)" "index_wf y" "same_frame x y"
    "\<And>j. bt_get (ix_items y) j = (if j \<in> set ids then None else bt_get (ix_items x) j)"
    using ix_evict_items_works [OF assms Inr] by blast
  have "in_scope y c \<subseteq> in_scope x c" for c by (auto simp: in_scope_iff y(4) split: if_splits)
  then have "all_bounded x \<longrightarrow> all_bounded y" using fewer_bounded [OF assms y(3)] by (simp add: all_bounded_def)
  then show ?thesis using y by (simp add: sound_outcome_def)
qed

lemma evict_demote_total:
  assumes "index_wf x"
  shows "sound_outcome x (ix_evict F clk sc (Demote ids to) x)"
proof (cases "to < sc \<and> (\<exists>us. check_in_scope (ix_items x) ids sc = Inr us)")
  case False
  then show ?thesis using assms by (auto simp: ix_evict_def sound_outcome_def split: sum.split)
next
  case True
  then obtain us where us: "check_in_scope (ix_items x) ids sc = Inr us" "to < sc" by blast
  then have ne: "sc \<noteq> to" by simp
  obtain y z where z: "ix_evict F clk sc (Demote ids to) x = (Inr (card (set ids)), z)"
    "ix_moved to Demoted (set ids) x y" "index_wf z" "same_frame x z" "cooled to y z" "\<forall>c\<le> to. bounded z c"
    using ix_demote_works [OF assms us] by blast
  have "bounded z c" if "bounded x c" "to < c" for c
  proof -
    have "bounded y c" using ix_moved_bounded [OF z(2) ix_move_checked(2) [OF assms us(1) ne] ne _ assms that(1)] that(2) by simp
    moreover have "in_scope z c = in_scope y c" using z(5) that(2) by (rule cooled_hotter)
    moreover have "ix_settings z = ix_settings y" using z(2,4) by (simp add: ix_moved_def same_frame_def)
    ultimately show ?thesis using bounded_cong [of z y c] by simp
  qed
  then have "all_bounded x \<longrightarrow> all_bounded z" using z(6) by (metis all_bounded_def linorder_not_less)
  then show ?thesis using z(1,3) by (simp add: sound_outcome_def)
qed

lemma evict_policy_total:
  assumes "index_wf x"
  shows "sound_outcome x (ix_evict F clk sc (Policy n) x)"
proof -
  let ?V = "set (ix_victims F (clk 0) x sc n)"
  obtain y z where z: "ix_evict F clk sc (Policy n) x = (Inr (min n (card (in_scope x sc))), z)"
    "ix_left sc ?V x y" "index_wf z" "same_frame x z"
    "case colder sc of None \<Rightarrow> z = y | Some c \<Rightarrow> cooled c y z \<and> (\<forall>d\<le> c. bounded z d)"
    using ix_policy_works [OF assms, of F clk sc n] by blast
  have V: "?V \<subseteq> in_scope x sc" using ix_victims_live [OF assms] by blast
  have y: "cooled sc x y" "in_scope y sc = in_scope x sc - ?V" "same_frame x y"
    using cooled_evicted [of y ?V x "set_demotion_target (ix_settings x)" sc] z(2) V by (auto simp: ix_left_def)
  have hot: "in_scope z c = in_scope y c" if "sc \<le> c" for c
  proof (cases "colder sc")
    case (Some d)
    then have "d < c" using colder_less [OF Some] that by simp
    then show ?thesis using z(5) Some cooled_hotter [of d y z c] by simp
  qed (use z(5) in simp)
  have sub: "in_scope z c \<subseteq> in_scope x c" if "sc \<le> c" for c
    using hot [OF that] y(2) cooled_hotter [OF y(1), of c] that by (cases "c = sc") auto
  have "bounded z c" if "all_bounded x" for c
  proof (cases "sc \<le> c")
    case True
    then show ?thesis using fewer_bounded [OF assms z(4) sub] that by (simp add: all_bounded_def)
  next
    case False
    then have "c < sc" by simp
    then obtain d where "colder sc = Some d" "c \<le> d" using colder_next by blast
    then show ?thesis using z(5) by simp
  qed
  then show ?thesis using z(1,3) by (auto simp: all_bounded_def sound_outcome_def)
qed

lemma ix_evict_total: "index_wf x \<Longrightarrow> sound_outcome x (ix_evict F clk sc crit x)"
  by (cases crit) (simp_all add: evict_items_total evict_demote_total evict_policy_total)

lemma ix_query_total:
  assumes "index_wf x"
  shows "sound_outcome x (ix_query F clk q x)"
proof (cases "\<exists>p. qy_kind q = Pattern p \<and> qy_reasoner_hint q = None")
  case False
  then show ?thesis using assms by (auto simp: ix_query_def sound_outcome_def split: ContextQueryKind.splits)
next
  case True
  then obtain p where p: "qy_kind q = Pattern p" "qy_reasoner_hint q = None" by blast
  obtain y z n where "ix_run_pattern F clk q p x =
      (Inr \<lparr>res_items = map (ranked (ix_items x)) (query_hits q p (ix_items x)),
            res_query_stats = \<lparr>scopes_consulted = length (ScopeSelection_scopes (qy_scopes q)),
              quads_matched = sum_list (map (matched_in p (ix_items x)) (ScopeSelection_scopes (qy_scopes q))),
              auto_promoted = n\<rparr>\<rparr>, z)" "index_wf z" "all_bounded x \<longrightarrow> all_bounded z"
    using ix_run_pattern_works [OF assms, of F clk q p] by blast
  then show ?thesis by (simp add: ix_query_def p sound_outcome_def)
qed

lemma ix_remove_total:
  assumes "index_wf x"
  shows "sound_outcome x (ix_remove sc i x)"
proof -
  let ?y = "x\<lparr>ix_items := bt_remove i (ix_items x)\<rparr>"
  have "in_scope ?y c \<subseteq> in_scope x c" for c by (auto simp: in_scope_iff split: if_splits)
  then have "all_bounded x \<longrightarrow> all_bounded ?y"
    using fewer_bounded [OF assms, of ?y] by (simp add: all_bounded_def same_frame_def)
  then show ?thesis using assms index_wf_remove [OF assms] by (simp add: ix_remove_def sound_outcome_def)
qed

lemma map_res_sound: "sound_outcome x (m x) \<Longrightarrow> sound_outcome x (map_res f m x)"
  by (cases "m x"; cases "fst (m x)") (auto simp: sound_outcome_def map_res_def try_bind_def)

lemma ix_add_sound:
  assumes "index_wf x" "ix_next_id x + 1 < 2 ^ 64"
  shows "sound_outcome x (ix_add F clk sc it x)"
proof -
  obtain r y where "ix_add_batch F clk sc [it] x = (r, y)" by (cases "ix_add_batch F clk sc [it] x")
  then show ?thesis using ix_add_batch_total [OF assms(1), of "[it]" F clk sc] assms(2)
    by (cases r) (auto simp: ix_add_def try_bind_def sound_outcome_def split: list.splits)
qed

lemma ix_run_op_total:
  assumes "index_wf x" and "id_room (ix_next_id x) oper"
  shows "sound_outcome x (ix_run_op F clk oper x)"
  using assms ix_add_batch_total [OF assms(1)]
  by (cases oper) (auto intro!: map_res_sound ix_add_sound ix_remove_total ix_query_total ix_promote_total
      ix_evict_total simp: id_room_def)

section \<open>Operations implement abstract operations\<close>

context session_sim
begin

lemma map_res_implements: "implements m g s \<Longrightarrow> implements (map_res f m) (map_res f g) s"
  unfolding map_res_def by (erule sim.refines_bind) (rule sim.refines_ok)

lemma add_implements:
  assumes "acceptable accepts (env_json E) it"
  shows "implements (Session_add E clk sc it) (ix_add (env_f64 E) clk sc it) s"
  unfolding Session_add_def ix_add_def
proof (rule sim.refines_bind)
  show "implements (Session_add_batch E clk sc [it]) (ix_add_batch (env_f64 E) clk sc [it]) s"
    by (rule add_batch_implements) (simp add: assms)
  show "implements (case ids of [] \<Rightarrow> throw Panic | i # _ \<Rightarrow> ok i) (case ids of [] \<Rightarrow> throw Panic | i # _ \<Rightarrow> ok i) t"
    for ids :: "ItemId list" and t
    by (cases ids) (simp_all add: sim.refines_ok sim.refines_throw)
qed

lemma run_op_implements:
  assumes "\<forall>it\<in>set (op_items oper). acceptable accepts (env_json E) it"
  shows "implements (run_op E clk oper) (ix_run_op (env_f64 E) clk oper) s"
  using assms
  by (cases oper) (auto intro!: map_res_implements add_implements add_batch_implements remove_implements
      query_implements promote_implements evict_implements)

lemma run_op_outcome:
  assumes inv: "session_inv strict quads_of st_ok accepts (env_json E) s"
    and acc: "\<forall>it\<in>set (op_items oper). acceptable accepts (env_json E) it"
    and room: "id_room (s_next_id s) oper" and run: "run_op E clk oper s = (r, t)"
  shows "session_rel quads_of s t \<and>
    ((\<exists>e. flaky \<and> r = Inl (Err (StorageFailed e)) \<and> covered quads_of st_ok accepts (env_json E) t)
     \<or> (r, index_of t) = ix_run_op (env_f64 E) clk oper (index_of s)
        \<and> session_inv strict quads_of st_ok accepts (env_json E) t)"
proof -
  have "fst (ix_run_op (env_f64 E) clk oper (index_of s)) \<noteq> Inl Panic"
    using ix_run_op_total [OF session_wfD(2) [OF inv], of oper "env_f64 E" clk] room by (simp add: sound_outcome_def)
  then show ?thesis
    using run_op_implements [OF acc, of clk s, unfolded refines_at_def, rule_format, OF inv run]
    by (auto simp: storage_failure_def)
qed

end

lemma contract_session_sim:
  assumes "storage_contract (env_storage E) quads_of view st_ok tx_ok writable"
  shows "session_sim E quads_of view st_ok tx_ok writable accepts True"
  unfolding session_sim_def session_env_def session_env_axioms_def using assms by simp

lemma reliable_session_sim:
  assumes "reliable_storage (env_storage E) quads_of view st_ok tx_ok writable accepts"
  shows "session_sim E quads_of view st_ok tx_ok writable accepts False"
  unfolding session_sim_def session_env_def session_env_axioms_def using assms
  by (simp add: reliable_storage_def)

end
