(* ===== verification/Session_Trace.thy ===== *)
theory Session_Trace
  imports Session_Props
begin

text \<open>
  Runs of a session with their operations, and what becomes of an item in the course of one.
  The argument is about the index alone: a step keeps an item if it keeps it in every outcome,
  so nothing about the store is needed, and storage errors at any point are included.
\<close>

section \<open>Traces\<close>

text \<open>One operation of a run: the session it finds, the clock it reads, its call and its outcome.\<close>

record 'st Event =
  ev_before :: "'st Session"
  ev_clock :: "nat \<Rightarrow> Instant"
  ev_op :: SessionOp
  ev_outcome :: "Abort + OpResult"

inductive session_trace :: "('st, 'tx) Env \<Rightarrow> (Quad \<Rightarrow> bool) \<Rightarrow> 'st Session \<Rightarrow> 'st Event list \<Rightarrow> 'st Session \<Rightarrow> bool"
  for E accepts s where
  trace_nil: "session_trace E accepts s [] s"
| trace_snoc: "session_trace E accepts s evs t \<Longrightarrow> id_room (s_next_id t) oper \<Longrightarrow>
    \<forall>it\<in>set (op_items oper). acceptable accepts (env_json E) it \<Longrightarrow> run_op E clk oper t = (r, u) \<Longrightarrow>
    session_trace E accepts s (evs @ [\<lparr>ev_before = t, ev_clock = clk, ev_op = oper, ev_outcome = r\<rparr>]) u"

lemma trace_run: "session_trace E accepts s evs t \<Longrightarrow> session_run E accepts s t"
proof (induction rule: session_trace.induct)
  case trace_nil
  then show ?case by (rule session_run.refl)
next
  case (trace_snoc evs t oper clk r u)
  then show ?case by (blast intro: session_run.trans session_step.intros)
qed

lemma run_trace: "session_run E accepts s t \<Longrightarrow> \<exists>evs. session_trace E accepts s evs t"
proof (induction rule: session_run.induct)
  case (refl s)
  then show ?case by (blast intro: trace_nil)
next
  case (trans s t u)
  then obtain evs where evs: "session_trace E accepts s evs t" by blast
  obtain oper clk r where "id_room (s_next_id t) oper" "\<forall>it\<in>set (op_items oper). acceptable accepts (env_json E) it"
    "run_op E clk oper t = (r, u)"
    using trans.hyps(2) by (auto elim: session_stepE)
  with trace_snoc [OF evs] show ?case by blast
qed

section \<open>Steps that keep an item\<close>

definition keeps :: "('s \<Rightarrow> bool) \<Rightarrow> ('s, 'e, 'a) res_st \<Rightarrow> bool" where
  "keeps I m \<longleftrightarrow> (\<forall>s. I s \<longrightarrow> I (snd (m s)))"

lemma keepsI: "(\<And>s. I s \<Longrightarrow> I (snd (m s))) \<Longrightarrow> keeps I m"
  by (simp add: keeps_def)

lemma keepsD: "keeps I m \<Longrightarrow> I s \<Longrightarrow> I (snd (m s))"
  by (simp add: keeps_def)

lemma keeps_ok [intro!]: "keeps I (ok v)" and keeps_throw [intro!]: "keeps I (throw a)"
  by (simp_all add: keeps_def ok_def throw_def)

lemma bind_keeps_at:
  assumes "I (snd (m s))" "\<And>a t. m s = (Inr a, t) \<Longrightarrow> I t \<Longrightarrow> I (snd (f a t))"
  shows "I (snd (try_bind m f s))"
  using assms by (cases "m s"; cases "fst (m s)") (auto simp: try_bind_def)

lemma keeps_bind: "keeps I m \<Longrightarrow> (\<And>a. keeps I (f a)) \<Longrightarrow> keeps I (try_bind m f)"
  by (rule keepsI, rule bind_keeps_at) (simp_all add: keepsD)

lemma keeps_for_each: "(\<And>x. x \<in> set xs \<Longrightarrow> keeps I (f x)) \<Longrightarrow> keeps I (for_each f xs)"
  by (rule keepsI, rule for_each_keeps) (auto simp: keeps_def, metis snd_conv)

lemma keeps_modify: "(\<And>s. I s \<Longrightarrow> I (g s)) \<Longrightarrow> keeps I (modify g)"
  by (simp add: keeps_def)

text \<open>
  \<open>kept st i it floor s\<close>: item \<open>i\<close> is live with the content \<open>it\<close>, in \<open>floor\<close> or a more
  durable scope if a floor is given.
\<close>

definition kept :: "Settings \<Rightarrow> ItemId \<Rightarrow> ContextItem \<Rightarrow> ContextScope option \<Rightarrow> 'st Session \<Rightarrow> bool" where
  "kept st i it floor s \<longleftrightarrow> s_settings s = st \<and> i < s_next_id s \<and> bt_wf (s_items s)
     \<and> (\<exists>e. bt_get (s_items s) i = Some e \<and> e_item e = it \<and> (\<forall>c. floor = Some c \<longrightarrow> c \<le> e_scope e))"

lemma kept_cong:
  "s_settings t = s_settings s \<Longrightarrow> s_next_id t = s_next_id s \<Longrightarrow> s_items t = s_items s \<Longrightarrow>
     kept st i it floor t = kept st i it floor s"
  by (simp add: kept_def)

lemma keeps_at_store: "keeps (kept st i it floor) (at_store sc f)"
  by (rule keepsI) (simp add: at_store_def kept_def split: prod.split)

lemma keeps_stats:
  "keeps (kept st i it floor) (modify (add_promoted n))" "keeps (kept st i it floor) (modify (add_demoted n))"
  "keeps (kept st i it floor) (modify (\<lambda>s. s\<lparr>s_stats := f (s_stats s)\<rparr>))"
  by (rule keeps_modify; simp add: kept_def add_promoted_def add_demoted_def)+

lemma kept_adjust:
  assumes "kept st i it floor s" and f: "\<And>e. e_item (f e) = e_item e"
    and "\<And>c e. j = i \<Longrightarrow> floor = Some c \<Longrightarrow> c \<le> e_scope e \<Longrightarrow> c \<le> e_scope (f e)"
  shows "kept st i it floor (s\<lparr>s_items := bt_adjust j f (s_items s)\<rparr>)"
proof -
  obtain e where "bt_get (s_items s) i = Some e" "e_item e = it" "\<forall>c. floor = Some c \<longrightarrow> c \<le> e_scope e"
    using assms(1) by (auto simp: kept_def)
  then show ?thesis using assms by (cases "j = i") (simp_all add: kept_def)
qed

lemma keeps_move_item:
  assumes "j = i \<Longrightarrow> \<forall>c. floor = Some c \<longrightarrow> c \<le> to"
  shows "keeps (kept st i it floor) (move_item E j to arr)"
proof (rule keepsI)
  fix s :: "'a Session"
  assume s: "kept st i it floor s"
  have adjust: "keeps (kept st i it floor) (modify (\<lambda>s. s\<lparr>s_items := bt_adjust j
      (\<lambda>e. e\<lparr>e_scope := to, e_arrival := arr, e_recent := (if arr = Demoted then [] else e_recent e)\<rparr>) (s_items s)\<rparr>))"
    by (rule keeps_modify, erule kept_adjust) (use assms in simp_all)
  show "kept st i it floor (snd (move_item E j to arr s))"
  proof (cases "bt_get (s_items s) j")
    case None
    then show ?thesis using s by (simp add: move_item_def)
  next
    case (Some e)
    show ?thesis unfolding move_item_def using s
      by (simp add: Some, intro keepsD [OF keeps_bind [OF keeps_at_store keeps_bind [OF keeps_at_store adjust]]])
  qed
qed

lemma keeps_drop_item:
  assumes "j \<noteq> i"
  shows "keeps (kept st i it floor) (drop_item E j)"
proof (rule keepsI)
  fix s :: "'a Session"
  assume s: "kept st i it floor s"
  have remove: "keeps (kept st i it floor) (modify (\<lambda>s. s\<lparr>s_items := bt_remove j (s_items s),
      s_stats := (s_stats s)\<lparr>items_evicted := add64 (items_evicted (s_stats s)) 1\<rparr>\<rparr>))"
    by (rule keeps_modify) (use assms in \<open>auto simp: kept_def\<close>)
  show "kept st i it floor (snd (drop_item E j s))"
    using s keepsD [OF keeps_bind [OF keeps_at_store remove] s, of "e_scope e" "delete (env_storage E) j" for e]
    by (cases "bt_get (s_items s) j") (simp_all add: drop_item_def)
qed

lemma keeps_evict_victim:
  assumes "j \<noteq> i"
  shows "keeps (kept st i it floor) (evict_victim E sc j)"
proof (rule keepsI)
  fix s :: "'a Session"
  assume s: "kept st i it floor s"
  have move: "keeps (kept st i it floor) (try_bind (move_item E j c Demoted) (\<lambda>_. modify (add_demoted 1)))" for c
    by (rule keeps_bind [OF keeps_move_item keeps_stats(2)]) (use assms in simp)
  show "kept st i it floor (snd (evict_victim E sc j s))"
    using s keepsD [OF move s] keepsD [OF keeps_drop_item [OF assms, where E = E] s]
    by (simp add: evict_victim_def split: sum.split option.split)
qed

lemma keeps_evict_victims: "i \<notin> set ids \<Longrightarrow> keeps (kept st i it floor) (evict_victims E sc ids)"
  unfolding evict_victims_def by (rule keeps_for_each) (auto intro!: keeps_evict_victim)

text \<open>
  Bounds are harmless to an item with a floor if they are on colder scopes only, and to any
  item if there are none.
\<close>

definition bounds_below :: "Settings \<Rightarrow> ContextScope option \<Rightarrow> bool" where
  "bounds_below st floor \<longleftrightarrow> (\<forall>c b. ScopeBounds_get (set_bounds st) c = Some b \<longrightarrow> (\<exists>f. floor = Some f \<and> c < f))"

lemma victims_in_scope:
  assumes "bt_wf items" "j \<in> set (victims F policy now items sc n)"
  shows "\<exists>e. bt_get items j = Some e \<and> e_scope e = sc"
proof -
  obtain p where "p \<in> set items" "e_scope (snd p) = sc" "j = fst p"
    using victims_subset [of F policy now items sc n] assms(2) by (auto simp: scope_entries_def)
  then show ?thesis using assms(1) by (intro exI [of _ "snd p"]) (simp add: bt_get_iff)
qed

lemma keeps_enforce_scope:
  assumes "bounds_below st floor"
  shows "keeps (kept st i it floor) (enforce_scope E now sc)"
proof (rule keepsI)
  fix s :: "'a Session"
  assume s: "kept st i it floor s"
  show "kept st i it floor (snd (enforce_scope E now sc s))"
  proof (cases "ScopeBounds_get (set_bounds (s_settings s)) sc")
    case None
    then show ?thesis using s by (simp add: enforce_scope_def)
  next
    case (Some b)
    then obtain f where f: "floor = Some f" "sc < f" using assms s by (auto simp: bounds_below_def kept_def)
    have "i \<notin> set (Session_victims E now s sc n)" for n
      using s f victims_in_scope [of "s_items s" i] by (fastforce simp: kept_def Session_victims_def)
    then show ?thesis using s Some by (simp add: enforce_scope_def Let_def keepsD [OF keeps_evict_victims [where E = E]])
  qed
qed

lemma keeps_enforce_bounds:
  assumes "bounds_below st floor"
  shows "keeps (kept st i it floor) (enforce_bounds E clk k sc)"
proof (induction "scope_rank sc" arbitrary: sc k rule: less_induct)
  case less
  have rest: "keeps (kept st i it floor) (case colder sc of None \<Rightarrow> ok () | Some c \<Rightarrow> enforce_bounds E clk (Suc k) c)"
    using less.hyps colder_less by (auto simp: scope_less_iff split: option.split)
  have "enforce_bounds E clk k sc s = try_bind (enforce_scope E (clk k) sc)
      (\<lambda>_. case colder sc of None \<Rightarrow> ok () | Some c \<Rightarrow> enforce_bounds E clk (Suc k) c) s" for s
    by (auto simp: enforce_bounds.simps [of E clk k sc] try_bind_def split: prod.split sum.split option.split)
  then show ?case
    using keeps_bind [OF keeps_enforce_scope [OF assms] rest] by (simp add: keeps_def)
qed

lemma keeps_move_items:
  "(i \<in> set ids \<Longrightarrow> \<forall>c. floor = Some c \<longrightarrow> c \<le> to) \<Longrightarrow> keeps (kept st i it floor) (move_items E to arr ids)"
  unfolding move_items_def by (rule keeps_for_each) (auto intro!: keeps_move_item)

section \<open>Operations that keep an item\<close>

text \<open>
  The events that may take an item out of the index or to a colder scope on their own: it is
  removed, evicted or demoted by name, or is among the victims of an eviction by policy.
  \<open>demotes\<close> are those that only move it.
\<close>

definition removes :: "('st, 'tx) Env \<Rightarrow> ItemId \<Rightarrow> 'st Event \<Rightarrow> bool" where
  "removes E i ev = (case ev_op ev of
       OpRemove sc j \<Rightarrow> j = i \<and> ev_outcome ev = Inr (ResRemoved True)
     | OpEvict sc (Items ids) \<Rightarrow> List.member ids i
     | OpEvict sc (Policy n) \<Rightarrow> List.member (Session_victims E (ev_clock ev 0) (ev_before ev) sc n) i
     | _ \<Rightarrow> False)"

definition demotes :: "ItemId \<Rightarrow> 'st Event \<Rightarrow> bool" where
  "demotes i ev = (case ev_op ev of OpEvict sc (Demote ids to) \<Rightarrow> List.member ids i | _ \<Rightarrow> False)"

lemma insert_entries_other:
  "bt_wf items \<Longrightarrow> i \<notin> fst ` set ps \<Longrightarrow> bt_get (insert_entries sc now ps items) i = bt_get items i"
  by (induction ps arbitrary: items) auto

lemma insert_entries_wf: "bt_wf items \<Longrightarrow> bt_wf (insert_entries sc now ps items)"
  by (induction ps arbitrary: items) auto

lemma add_batch_keeps:
  assumes s: "kept st i it floor s" and room: "s_next_id s + length items < 2 ^ 64" and st: "bounds_below st floor"
  shows "kept st i it floor (snd (Session_add_batch E clk sc items s))"
proof (cases "validate_all (s_items s) items")
  case (Inl e)
  then show ?thesis using s by (simp add: Session_add_batch_def)
next
  case (Inr u)
  let ?ids = "[s_next_id s..<s_next_id s + length items]"
  have "i \<notin> fst ` set (zip ?ids items)" using s by (auto simp: kept_def dest: set_zip_leftD)
  then have added: "kept st i it floor (t\<lparr>s_next_id := s_next_id s + length items,
      s_items := insert_entries sc (clk 0) (zip ?ids items) (s_items t), s_stats := f t\<rparr>)"
    if "kept st i it floor t" for t :: "'a Session" and f
    using that s by (auto simp: kept_def insert_entries_other insert_entries_wf)
  have "keeps (kept st i it floor) (try_bind (at_store sc (with_write (env_storage E) (\<lambda>st. write_batch E st (zip ?ids items))))
      (\<lambda>_. try_bind (modify (\<lambda>t. t\<lparr>s_next_id := s_next_id s + length items,
              s_items := insert_entries sc (clk 0) (zip ?ids items) (s_items t),
              s_stats := (s_stats t)\<lparr>items_added := add64 (items_added (s_stats t)) (length items)\<rparr>\<rparr>))
        (\<lambda>_. try_bind (enforce_bounds E clk 1 sc) (\<lambda>_. ok ?ids))))"
    by (intro keeps_bind keeps_at_store keeps_modify keeps_enforce_bounds [OF st] keeps_ok added)
  from keepsD [OF this s] show ?thesis using Inr room by (simp add: Session_add_batch_def Let_def add64_small)
qed

lemma removal_keeps:
  assumes s: "kept st i it floor s" and "j = i \<Longrightarrow> fst (Session_remove E sc j s) \<noteq> Inr True"
  shows "kept st i it floor (snd (Session_remove E sc j s))"
proof (cases "map_option e_scope (bt_get (s_items s) j) = Some sc")
  case False
  then show ?thesis using s by (simp add: Session_remove_def)
next
  case True
  obtain r t where del: "at_store sc (delete (env_storage E) j) s = (r, t)" by fastforce
  have t: "kept st i it floor t" using keepsD [OF keeps_at_store s, of sc "delete (env_storage E) j"] del by simp
  then show ?thesis using True assms(2) del
    by (cases r; cases "j = i") (auto simp: Session_remove_def try_bind_def kept_def)
qed

lemma promote_keeps:
  assumes s: "kept st i it floor s" and st: "bounds_below st floor"
  shows "kept st i it floor (snd (Session_promote E clk ids from to s))"
proof (cases "from < to \<and> (\<exists>us. check_in_scope (s_items s) ids from = Inr us)")
  case False
  then show ?thesis using s by (auto simp: Session_promote_def split: sum.split)
next
  case True
  then obtain us where us: "check_in_scope (s_items s) ids from = Inr us" "from < to" by blast
  have "\<forall>c. floor = Some c \<longrightarrow> c \<le> to" if "i \<in> set us"
    using that us s by (auto simp: check_in_scope_Inr kept_def)
  then have "keeps (kept st i it floor) (try_bind (move_items E to Promoted us)
      (\<lambda>_. try_bind (modify (add_promoted (length us)))
        (\<lambda>_. try_bind (enforce_bounds E clk 0 to) (\<lambda>_. ok \<lparr>promoted = length us\<rparr>))))"
    by (intro keeps_bind keeps_move_items keeps_stats keeps_enforce_bounds [OF st] keeps_ok)
  from keepsD [OF this s] us show ?thesis by (auto simp: Session_promote_def)
qed

lemma evict_keeps:
  assumes s: "kept st i it floor s" and st: "bounds_below st floor"
    and "case crit of Items ids \<Rightarrow> i \<notin> set ids | Demote ids to \<Rightarrow> floor = None \<or> i \<notin> set ids
      | Policy n \<Rightarrow> i \<notin> set (Session_victims E (clk 0) s sc n)"
  shows "kept st i it floor (snd (Session_evict E clk sc crit s))"
proof (cases crit)
  case (Items ids)
  have "keeps (kept st i it floor) (try_bind (for_each (drop_item E) us) (\<lambda>_. ok (length us)))" if "i \<notin> set us" for us
    using that by (intro keeps_bind keeps_for_each keeps_drop_item keeps_ok) auto
  from keepsD [OF this s] show ?thesis using s assms(3) Items
    by (auto simp: Session_evict_def check_in_scope_Inr split: sum.split)
next
  case (Demote ids to)
  have "keeps (kept st i it floor) (try_bind (move_items E to Demoted us)
      (\<lambda>_. try_bind (modify (add_demoted (length us)))
        (\<lambda>_. try_bind (enforce_bounds E clk 0 to) (\<lambda>_. ok (length us)))))" if "floor = None \<or> i \<notin> set us" for us
    using that by (intro keeps_bind keeps_move_items keeps_stats keeps_enforce_bounds [OF st] keeps_ok) auto
  from keepsD [OF this s] show ?thesis using s assms(3) Demote
    by (auto simp: Session_evict_def check_in_scope_Inr split: sum.split)
next
  case (Policy n)
  let ?vs = "Session_victims E (clk 0) s sc n"
  have "keeps (kept st i it floor) (try_bind (evict_victims E sc ?vs)
      (\<lambda>_. case colder sc of None \<Rightarrow> ok (length ?vs)
        | Some c \<Rightarrow> try_bind (enforce_bounds E clk 1 c) (\<lambda>_. ok (length ?vs))))"
    by (intro keeps_bind keeps_evict_victims)
      (use assms(3) Policy in \<open>auto intro!: keeps_bind keeps_enforce_bounds [OF st] split: option.split\<close>)
  from keepsD [OF this s] Policy show ?thesis by (simp add: Session_evict_def Let_def)
qed

lemma auto_promote_keeps:
  assumes s: "kept st i it floor s" and st: "bounds_below st floor"
  shows "kept st i it floor (snd (auto_promote E clk k now s))"
proof -
  let ?cfg = "set_promotion (s_settings s)"
  let ?en = "to_enduring ?cfg (s_items s)" and ?ma = "to_major ?cfg now (s_items s)"
  let ?n = "length ?en + length ?ma"
  have "c \<le> Enduring" for c by (cases c) (simp_all add: scope_le_iff)
  moreover have "\<forall>c. floor = Some c \<longrightarrow> c \<le> Major" if ma: "i \<in> set ?ma"
  proof -
    obtain p where "p \<in> set (s_items s)" "e_scope (snd p) = Minor" "i = fst p"
      using ma by (force simp: to_major_def)
    then have "(i, snd p) \<in> set (s_items s)" by simp
    then have "bt_get (s_items s) i = Some (snd p)" using s by (simp add: kept_def bt_get_iff)
    moreover have "c \<le> Minor \<Longrightarrow> c \<le> Major" for c by (cases c) (simp_all add: scope_le_iff)
    ultimately show ?thesis using s \<open>e_scope (snd p) = Minor\<close> by (auto simp: kept_def)
  qed
  ultimately have "keeps (kept st i it floor) (try_bind (move_items E Enduring Promoted ?en)
      (\<lambda>_. try_bind (move_items E Major Promoted ?ma)
        (\<lambda>_. try_bind (modify (add_promoted ?n))
          (\<lambda>_. try_bind (if ?en \<noteq> [] then enforce_bounds E clk k Enduring
                   else if ?ma \<noteq> [] then enforce_bounds E clk k Major else ok ())
            (\<lambda>_. ok ?n)))))"
    by (intro keeps_bind keeps_move_items keeps_stats keeps_ok) (auto intro: keeps_enforce_bounds [OF st])
  from keepsD [OF this s] show ?thesis by (simp add: auto_promote_def Let_def)
qed

lemma query_scopes_keeps: "kept st i it floor s \<Longrightarrow> kept st i it floor (snd (query_scopes E pat scs matched hits s))"
proof (induction scs arbitrary: matched hits s)
  case (Cons sc scs)
  obtain r t where q: "at_store sc (query_scope (env_storage E) (s_items s) pat sc matched) s = (r, t)" by fastforce
  then have "kept st i it floor t"
    using keepsD [OF keeps_at_store Cons.prems, of sc "query_scope (env_storage E) (s_items s) pat sc matched"] by simp
  then show ?case using q Cons.IH by (cases r) auto
qed simp

lemma touch_item: "e_item (Entry_touch F now w hl e) = e_item e" "e_scope (Entry_touch F now w hl e) = e_scope e"
  by (simp_all add: Entry_touch_def Let_def split: option.split)

lemma touch_hits_keeps: "kept st i it floor s \<Longrightarrow> kept st i it floor (snd (touch_hits F now w hl hits s))"
proof (induction hits arbitrary: s)
  case (Cons h hits)
  obtain j sc where h: "h = (j, sc)" by fastforce
  let ?t = "s\<lparr>s_items := bt_adjust j (Entry_touch F now w hl) (s_items s)\<rparr>"
  have "kept st i it floor ?t" using Cons.prems by (rule kept_adjust) (simp_all add: touch_item)
  with Cons.IH [OF this] Cons.prems show ?case
    by (auto simp: h split: option.split prod.splits sum.splits)
qed simp

lemma query_keeps:
  assumes s: "kept st i it floor s" and st: "bounds_below st floor"
  shows "kept st i it floor (snd (Session_query E clk q s))"
proof -
  have served: "keeps (kept st i it floor) (try_bind (modify (\<lambda>s. s\<lparr>s_stats :=
        (s_stats s)\<lparr>queries_served := add64 (queries_served (s_stats s)) 1\<rparr>\<rparr>))
      (\<lambda>_. try_bind (if auto then auto_promote E clk 1 now else ok 0) (\<lambda>n. ok (res n))))" for auto now res
    by (intro keeps_bind keeps_stats keeps_ok) (simp add: keeps_def auto_promote_keeps [OF _ st])
  have touched: "keeps (kept st i it floor) (touch_hits F now w hl hits)" for F now w hl hits
    by (simp add: keeps_def touch_hits_keeps)
  have "kept st i it floor (snd (run_pattern E clk q p s))" for p
    unfolding run_pattern_def Let_def
  proof (rule bind_keeps_at [where I = "kept st i it floor"], rule query_scopes_keeps [OF s])
    fix a :: "nat \<times> (ItemId \<times> ContextScope) list" and t :: "'a Session"
    assume t: "kept st i it floor t"
    obtain n hits where a: "a = (n, hits)" by fastforce
    show "kept st i it floor (snd ((case a of (matched, hits) \<Rightarrow>
        try_bind (touch_hits (env_f64 E) (clk 0) (minor_window (set_promotion (s_settings s)))
            (policy_half_life (set_eviction_policy (s_settings s))) (truncate_hits (qy_limit q) hits))
          (\<lambda>items. try_bind (modify (\<lambda>s. s\<lparr>s_stats := (s_stats s)\<lparr>queries_served := add64 (queries_served (s_stats s)) 1\<rparr>\<rparr>))
            (\<lambda>_. try_bind (if cadence (set_promotion (s_settings s)) = AfterEachQuery then auto_promote E clk 1 (clk 0) else ok 0)
              (\<lambda>n. ok \<lparr>res_items = items, res_query_stats = \<lparr>scopes_consulted = length (ScopeSelection_scopes (qy_scopes q)),
                quads_matched = matched, auto_promoted = n\<rparr>\<rparr>)))) t))"
      unfolding a prod.case by (rule keepsD [OF keeps_bind [OF touched served] t])
  qed
  then show ?thesis using s by (simp add: Session_query_def split: ContextQueryKind.split)
qed

lemma run_op_keeps:
  assumes s: "kept st i it floor s" and st: "bounds_below st floor" and room: "id_room (s_next_id s) oper"
    and run: "run_op E clk oper s = (r, t)"
    and ev: "ev = \<lparr>ev_before = s, ev_clock = clk, ev_op = oper, ev_outcome = r\<rparr>"
    and "\<not> removes E i ev" "floor \<noteq> None \<Longrightarrow> \<not> demotes i ev"
  shows "kept st i it floor t"
proof -
  have map_res: "snd (map_res f m s) = snd (m s)" for f :: "'x \<Rightarrow> 'y" and m :: "('a Session, Abort, 'x) res_st"
    by (simp add: map_res_def try_bind_def split: prod.split sum.split)
  have t: "t = snd (run_op E clk oper s)" using run by simp
  show ?thesis
  proof (cases oper)
    case (OpAdd sc x)
    have "snd (Session_add E clk sc x s) = snd (Session_add_batch E clk sc [x] s)"
      by (auto simp: Session_add_def try_bind_def split: prod.split sum.split list.split)
    then show ?thesis using add_batch_keeps [OF s _ st, of "[x]"] room by (simp add: t OpAdd map_res id_room_def)
  next
    case (OpRemove sc j)
    have "fst (Session_remove E sc j s) \<noteq> Inr True" if "j = i"
    proof
      assume "fst (Session_remove E sc j s) = Inr True"
      then have "r = Inr (ResRemoved True)"
        using run OpRemove by (cases "Session_remove E sc j s") (auto simp: map_res_def)
      then show False using assms(6) that OpRemove by (simp add: removes_def ev)
    qed
    then show ?thesis using removal_keeps [OF s, where E = E] by (simp add: t OpRemove map_res)
  next
    case (OpEvict sc crit)
    have "floor = None \<or> \<not> demotes i ev" using assms(7) by blast
    with OpEvict show ?thesis using evict_keeps [OF s st, where E = E and clk = clk and sc = sc and crit = crit] assms(6)
      by (cases crit) (auto simp: t map_res removes_def demotes_def ev)
  qed (use room in \<open>simp_all add: t map_res id_room_def add_batch_keeps [OF s _ st] promote_keeps [OF s st] query_keeps [OF s st]\<close>)
qed

lemma trace_keeps:
  assumes "session_trace E accepts s evs t" "kept st i it floor s" "bounds_below st floor"
    and "\<forall>ev\<in>set evs. \<not> removes E i ev" "floor \<noteq> None \<longrightarrow> (\<forall>ev\<in>set evs. \<not> demotes i ev)"
  shows "kept st i it floor t"
  using assms
proof (induction rule: session_trace.induct)
  case (trace_snoc evs t oper clk r u)
  then have "kept st i it floor t" by auto
  from run_op_keeps [OF this trace_snoc.prems(2) trace_snoc.hyps(2,4) HOL.refl] trace_snoc.prems(3,4)
  show ?case by auto
qed

end
