(* ===== verification/Session_Laws.thy ===== *)
theory Session_Laws
  imports Session_Trace
begin

text \<open>
  The laws of the session: what a caller may rely on. Each holds over every store that
  satisfies the storage contract, or, where it says that an operation succeeds, over every
  store whose methods do not fail. Each witness runs the operation on a session over the
  reference store of the test kit.
\<close>

section \<open>A concrete session\<close>

definition w_json :: JsonOps where
  "w_json = \<lparr>json_to_string = (\<lambda>r. rec_source r), json_from_str = (\<lambda>s. Inl ''unreadable'')\<rparr>"

definition w_f64 :: F64Ops where
  "w_f64 = \<lparr>f_add = (+), f_mul = (\<lambda>a b. a), f_div = (\<lambda>a b. a), f_powf = (\<lambda>a b. a), f_max = max, f_as_secs = of_nat\<rparr>"

definition w_env :: "(MemStore, MemTx) Env" where
  "w_env = \<lparr>env_storage = MemStore_storage, env_json = w_json, env_f64 = w_f64\<rparr>"

definition w_settings :: Settings where
  "w_settings = \<lparr>set_bounds = \<lparr>enduring_max_items = None, major_max_items = Some 1, minor_max_items = Some 2\<rparr>,
     set_eviction_policy = Lru, set_demotion_target = OneStepThenDrop, set_promotion = PromotionConfig_default\<rparr>"

definition w_fresh :: "MemStore Session" where
  "w_fresh = \<lparr>s_stores = \<lparr>t_enduring = MemStore_new, t_major = MemStore_new, t_minor = MemStore_new\<rparr>,
     s_settings = w_settings, s_items = [], s_next_id = 0, s_stats = SessionStats_default\<rparr>"

definition w_quad :: Quad where
  "w_quad = Quad_triple (NbNamed (NamedNode ''ex:a'')) (NamedNode ''ex:knows'') (TNamed (NamedNode ''ex:b''))"

definition w_item :: ContextItem where
  "w_item = ContextItem_triples [w_quad] (Provenance_new ''doc'')"

lemmas eval_item = w_item_def ContextItem_triples_def ContextItem_new_def Provenance_new_def
  w_quad_def Quad_triple_def Quad_new_def

lemmas eval_session = Session_add_def Session_add_batch_def Session_remove_def Session_promote_def Session_evict_def
  validate_def trim_is_empty_def ascii_space_def space2_def space3_def validate_graphs_def validate_embedding_def
  try_bind_def at_store_def with_write_def write_batch_def insert_all_def encode_def triples_of_def
  add64_def enforce_bounds.simps enforce_scope_def scope_entries_def Entry_new_def Let_def

lemmas eval_mem = mem_defs MemStore_new_def hs_insert_def hs_remove_def

lemmas eval_fresh = w_fresh_def w_settings_def w_env_def

lemma w_env_sel [simp]: "env_storage w_env = MemStore_storage" "env_json w_env = w_json" "env_f64 w_env = w_f64"
  by (simp_all add: w_env_def)

lemma w_contract:
  "storage_contract (env_storage w_env) mem_quads mem_view mem_st_ok mem_tx_ok mt_writable"
  by (simp add: mem.storage_contract_axioms)

lemma w_reliable:
  "reliable_storage (env_storage w_env) mem_quads mem_view mem_st_ok mem_tx_ok mt_writable (\<lambda>_. True)"
  by (simp add: mem.reliable_storage_axioms)

lemma w_fresh_stores [simp]: "Tiers_get (s_stores w_fresh) sc = MemStore_new"
  by (cases sc) (simp_all add: w_fresh_def)

lemma w_fresh_inv: "session_inv strict mem_quads mem_st_ok accepts J w_fresh"
proof -
  have "part mem_quads w_fresh = (\<lambda>sc i. {})"
    by (intro ext) (simp add: part_def mem_quads_def MemStore_new_def)
  moreover have "index_wf (index_of w_fresh)" by (simp add: index_wf_def index_of_def w_fresh_def)
  ultimately show ?thesis
    by (simp add: session_inv_def session_wf_def part_inv_def part_ok_def mem_st_ok_def MemStore_new_def)
      (simp add: w_fresh_def)
qed

lemma w_fresh_mirrored: "mirrored mem_quads mem_st_ok accepts w_json w_fresh"
  and w_fresh_covered: "covered mem_quads mem_st_ok accepts w_json w_fresh"
  by (simp_all add: mirrored_def covered_def w_fresh_inv)

interpretation mem_session: session_sim w_env mem_quads mem_view mem_st_ok mem_tx_ok mt_writable "\<lambda>_. True" False strict
  for strict
  by (rule reliable_session_sim [OF w_reliable])

section \<open>Refinement\<close>

text \<open>
  C1. Every session operation implements the abstract operation. On a session whose stores
  mirror its index, an operation either stops with a storage error, in a state in which
  every live item is still stored in full, or it has exactly the outcome and the effect on
  the index that the specification \<open>ix_run_op\<close> gives, and the stores mirror the index
  again. In both cases quads that are not the session's own are untouched.
\<close>

theorem op_refines:
  assumes "storage_contract (env_storage E) quads_of view st_ok tx_ok writable"
    and "mirrored quads_of st_ok (\<lambda>_. True) (env_json E) s"
    and "id_room (s_next_id s) oper"
    and "run_op E clk oper s = (r, t)"
  shows "session_rel quads_of s t \<and>
    ((\<exists>e. r = Inl (Err (StorageFailed e)) \<and> covered quads_of st_ok (\<lambda>_. True) (env_json E) t)
     \<or> (r, index_of t) = ix_run_op (env_f64 E) clk oper (index_of s)
        \<and> mirrored quads_of st_ok (\<lambda>_. True) (env_json E) t)"
proof -
  from session_sim.run_op_outcome [OF contract_session_sim [OF assms(1)], of True "\<lambda>_. True" s oper clk r t]
  show ?thesis using assms(2-4) by (auto simp: mirrored_def acceptable_def)
qed

theorem op_refines_witness:
  "fst (run_op w_env (\<lambda>k. k) (OpAdd Minor w_item) w_fresh) = Inr (ResId 0)
   \<and> mirrored mem_quads mem_st_ok (\<lambda>_. True) w_json (snd (run_op w_env (\<lambda>k. k) (OpAdd Minor w_item) w_fresh))"
proof -
  let ?run = "run_op w_env (\<lambda>k. k) (OpAdd Minor w_item) w_fresh"
  have r: "fst ?run = Inr (ResId 0)"
    by (simp add: map_res_def eval_fresh eval_item eval_session eval_mem)
  have room: "id_room (s_next_id w_fresh) (OpAdd Minor w_item)" by (simp add: id_room_def w_fresh_def)
  have "?run = (fst ?run, snd ?run)" by simp
  from op_refines [OF w_contract _ room this] w_fresh_mirrored r show ?thesis by auto
qed

text \<open>
  C2. Over a store whose methods do not fail, every operation succeeds exactly when the
  specification does: its outcome, value or error, is the one the specification gives, the
  index changes as the specification says, and the stores mirror the index afterwards.
\<close>

theorem op_refines_reliable:
  assumes "reliable_storage (env_storage E) quads_of view st_ok tx_ok writable accepts"
    and "mirrored quads_of st_ok accepts (env_json E) s"
    and "\<forall>it\<in>set (op_items oper). acceptable accepts (env_json E) it"
    and "id_room (s_next_id s) oper"
    and "run_op E clk oper s = (r, t)"
  shows "(r, index_of t) = ix_run_op (env_f64 E) clk oper (index_of s)
    \<and> mirrored quads_of st_ok accepts (env_json E) t"
proof -
  from session_sim.run_op_outcome [OF reliable_session_sim [OF assms(1)], of True s oper clk r t]
  show ?thesis using assms(2-5) by (auto simp: mirrored_def)
qed

theorem op_refines_reliable_witness:
  "fst (run_op w_env (\<lambda>k. k) (OpRemove Minor 7) w_fresh) = Inr (ResRemoved False)
   \<and> mirrored mem_quads mem_st_ok (\<lambda>_. True) w_json (snd (run_op w_env (\<lambda>k. k) (OpRemove Minor 7) w_fresh))"
proof -
  let ?run = "run_op w_env (\<lambda>k. k) (OpRemove Minor 7) w_fresh"
  have r: "fst ?run = Inr (ResRemoved False)"
    by (simp add: map_res_def eval_fresh eval_session)
  have room: "id_room (s_next_id w_fresh) (OpRemove Minor 7)" by (simp add: id_room_def w_fresh_def)
  have "?run = (fst ?run, snd ?run)" by simp
  from op_refines_reliable [OF w_reliable _ _ room this] w_fresh_mirrored r show ?thesis by simp
qed

section \<open>Sequences of operations\<close>

lemma step_covered:
  assumes "storage_contract (env_storage E) quads_of view st_ok tx_ok writable"
    and "session_step E accepts s t" and "covered quads_of st_ok accepts (env_json E) s"
  shows "covered quads_of st_ok accepts (env_json E) t \<and> session_rel quads_of s t"
proof -
  obtain oper clk r where "id_room (s_next_id s) oper" "\<forall>it\<in>set (op_items oper). acceptable accepts (env_json E) it"
    "run_op E clk oper s = (r, t)"
    using assms(2) by (auto elim: session_stepE)
  with session_sim.run_op_outcome [OF contract_session_sim [OF assms(1)], of False accepts s oper clk r t] assms(3)
  show ?thesis by (auto simp: covered_def)
qed

lemma run_covered:
  assumes "storage_contract (env_storage E) quads_of view st_ok tx_ok writable"
    and "session_run E accepts s t" and "covered quads_of st_ok accepts (env_json E) s"
  shows "covered quads_of st_ok accepts (env_json E) t \<and> session_rel quads_of s t"
  using assms(2,3)
proof (induction rule: session_run.induct)
  case (trans s t u)
  then show ?case using step_covered [OF assms(1)] by (fastforce simp: session_rel_def)
qed (simp add: session_rel_def)

lemma covered_stored:
  assumes "covered quads_of st_ok accepts J s" "bt_get (s_items s) i = Some e"
  shows "{q \<in> quads_of (Tiers_get (s_stores s) (e_scope e)). owned i q} = set (encode J i (e_item e))"
proof -
  have inv: "session_inv False quads_of st_ok accepts J s" using assms(1) by (simp add: covered_def)
  have "i < 2 ^ 64" using session_wfD(3) [OF inv assms(2)] by blast
  from part_invD [OF session_wfD(5) [OF inv] this, of "e_scope e"] assms(2)
  show ?thesis by (simp add: part_ok_def part_def)
qed

text \<open>
  C3. No sequence of operations loses a live item, whatever fails on the way. From a session
  in which every live item is stored in full, a run, with storage errors at any point of any
  operation, ends in such a session: the store of the scope an item lives in holds exactly
  the item's quads, so a crash at that point leaves it readable. And an item that was live at
  the start is live at the end, with the same content, unless an operation of the run removed
  it or evicted it, by name or as a victim of the policy, or bounds may have pushed it out;
  it is in the scope it was in or a more durable one, unless it was demoted by name. Bounds
  cannot push an item out of a scope that is more durable than every bounded one.
\<close>

theorem run_never_loses_items:
  assumes "storage_contract (env_storage E) quads_of view st_ok tx_ok writable"
    and "session_trace E (\<lambda>_. True) s evs t"
    and "covered quads_of st_ok (\<lambda>_. True) (env_json E) s"
  shows "covered quads_of st_ok (\<lambda>_. True) (env_json E) t
    \<and> (\<forall>i e. bt_get (s_items t) i = Some e \<longrightarrow>
        {q \<in> quads_of (Tiers_get (s_stores t) (e_scope e)). owned i q} = set (encode (env_json E) i (e_item e)))
    \<and> (\<forall>i e. bt_get (s_items s) i = Some e \<longrightarrow> (\<forall>ev\<in>set evs. \<not> removes E i ev) \<longrightarrow>
        (\<forall>c b. ScopeBounds_get (set_bounds (s_settings s)) c = Some b \<longrightarrow> c < e_scope e \<and> (\<forall>ev\<in>set evs. \<not> demotes i ev)) \<longrightarrow>
        (\<exists>e'. bt_get (s_items t) i = Some e' \<and> e_item e' = e_item e
           \<and> ((\<forall>ev\<in>set evs. \<not> demotes i ev) \<longrightarrow> e_scope e \<le> e_scope e')))"
proof -
  have t: "covered quads_of st_ok (\<lambda>_. True) (env_json E) t"
    using run_covered [OF assms(1) trace_run [OF assms(2)] assms(3)] by simp
  have inv: "session_inv False quads_of st_ok (\<lambda>_. True) (env_json E) s" using assms(3) by (simp add: covered_def)
  have wf: "bt_wf (s_items s)" using index_wf_items [OF session_wfD(2) [OF inv]] by simp
  have live: "\<exists>e'. bt_get (s_items t) i = Some e' \<and> e_item e' = e_item e \<and> (\<forall>c. floor = Some c \<longrightarrow> c \<le> e_scope e')"
    if "bt_get (s_items s) i = Some e" "\<forall>ev\<in>set evs. \<not> removes E i ev" "bounds_below (s_settings s) floor"
      "\<forall>c. floor = Some c \<longrightarrow> c \<le> e_scope e \<and> (\<forall>ev\<in>set evs. \<not> demotes i ev)" for i e floor
  proof -
    have "kept (s_settings s) i (e_item e) floor s"
      using that(1,4) wf session_wfD(3) [OF inv that(1)] by (auto simp: kept_def)
    from trace_keeps [OF assms(2) this that(3,2)] that(4) show ?thesis by (auto simp: kept_def)
  qed
  have "\<exists>e'. bt_get (s_items t) i = Some e' \<and> e_item e' = e_item e
      \<and> ((\<forall>ev\<in>set evs. \<not> demotes i ev) \<longrightarrow> e_scope e \<le> e_scope e')"
    if "bt_get (s_items s) i = Some e" "\<forall>ev\<in>set evs. \<not> removes E i ev"
      "\<forall>c b. ScopeBounds_get (set_bounds (s_settings s)) c = Some b \<longrightarrow> c < e_scope e \<and> (\<forall>ev\<in>set evs. \<not> demotes i ev)" for i e
  proof (cases "\<forall>ev\<in>set evs. \<not> demotes i ev")
    case True
    have "bounds_below (s_settings s) (Some (e_scope e))" using that(3) by (auto simp: bounds_below_def)
    from live [OF that(1,2) this] True show ?thesis by auto
  next
    case False
    have "bounds_below (s_settings s) None" unfolding bounds_below_def using that(3) False by blast
    from live [OF that(1,2) this] False show ?thesis by auto
  qed
  with t covered_stored [OF t] show ?thesis by blast
qed

definition w_one :: "MemStore Session" where
  "w_one = snd (run_op w_env (\<lambda>k. k) (OpAdd Minor w_item) w_fresh)"

lemma w_run: "session_run w_env (\<lambda>_. True) w_fresh w_one"
proof -
  let ?run = "run_op w_env (\<lambda>k. k) (OpAdd Minor w_item) w_fresh"
  have "id_room (s_next_id w_fresh) (OpAdd Minor w_item)" by (simp add: id_room_def w_fresh_def)
  moreover have "?run = (fst ?run, w_one)" by (simp add: w_one_def)
  ultimately have "session_step w_env (\<lambda>_. True) w_fresh w_one"
    by (intro session_step.intros [where oper = "OpAdd Minor w_item"]) (auto simp: acceptable_def)
  then show ?thesis by (rule session_run.trans [OF session_run.refl])
qed

lemma w_one_items: "s_items w_one = [(0, Entry_new w_item Minor Added 0)]"
  and w_one_next: "s_next_id w_one = 1" and w_one_settings: "s_settings w_one = w_settings"
  by (simp_all add: w_one_def map_res_def eval_fresh eval_item eval_session eval_mem)

definition w_high :: "MemStore Session" where
  "w_high = snd (run_op w_env (\<lambda>k. k) (OpAdd Enduring w_item) w_fresh)"

lemma w_high_items: "s_items w_high = [(0, Entry_new w_item Enduring Added 0)]"
  and w_high_next: "s_next_id w_high = 1" and w_high_settings: "s_settings w_high = w_settings"
  by (simp_all add: w_high_def map_res_def eval_fresh eval_item eval_session eval_mem)

lemma w_high_covered: "covered mem_quads mem_st_ok (\<lambda>_. True) w_json w_high"
proof -
  let ?run = "run_op w_env (\<lambda>k. k) (OpAdd Enduring w_item) w_fresh"
  have "session_step w_env (\<lambda>_. True) w_fresh w_high"
    by (intro session_step.intros [where oper = "OpAdd Enduring w_item" and r = "fst ?run"])
      (simp_all add: acceptable_def id_room_def w_fresh_def w_high_def)
  from step_covered [OF w_contract this] w_fresh_covered show ?thesis by simp
qed

theorem run_never_loses_items_witness:
  "\<exists>e. bt_get (s_items (snd (run_op w_env (\<lambda>k. k) (OpAdd Minor w_item) w_high))) 0 = Some e
     \<and> e_item e = w_item \<and> Enduring \<le> e_scope e"
proof -
  let ?run = "run_op w_env (\<lambda>k. k) (OpAdd Minor w_item) w_high"
  let ?ev = "\<lparr>ev_before = w_high, ev_clock = \<lambda>k. k, ev_op = OpAdd Minor w_item, ev_outcome = fst ?run\<rparr>"
  have "session_trace w_env (\<lambda>_. True) w_high ([] @ [?ev]) (snd ?run)"
    by (rule trace_snoc [OF trace_nil]) (simp_all add: id_room_def w_high_next acceptable_def)
  from run_never_loses_items [OF w_contract this] w_high_covered
  have "\<forall>i e. bt_get (s_items w_high) i = Some e \<longrightarrow> (\<forall>ev\<in>set [?ev]. \<not> removes w_env i ev) \<longrightarrow>
      (\<forall>c b. ScopeBounds_get (set_bounds (s_settings w_high)) c = Some b \<longrightarrow> c < e_scope e \<and> (\<forall>ev\<in>set [?ev]. \<not> demotes i ev)) \<longrightarrow>
      (\<exists>e'. bt_get (s_items (snd ?run)) i = Some e' \<and> e_item e' = e_item e
         \<and> ((\<forall>ev\<in>set [?ev]. \<not> demotes i ev) \<longrightarrow> e_scope e \<le> e_scope e'))" by simp
  moreover have "bt_get (s_items w_high) 0 = Some (Entry_new w_item Enduring Added 0)" by (simp add: w_high_items bt_get_def)
  moreover have "c < Enduring" if "ScopeBounds_get (set_bounds (s_settings w_high)) c = Some b" for c b
    using that by (cases c) (simp_all add: w_high_settings w_settings_def scope_less_iff)
  ultimately show ?thesis by (fastforce simp: Entry_new_def removes_def demotes_def)
qed

text \<open>
  C4. A session never touches quads that are not its own: any run leaves the quads of the
  three stores that belong to no item as they were.
\<close>

theorem run_keeps_foreign_quads:
  assumes "storage_contract (env_storage E) quads_of view st_ok tx_ok writable"
    and "session_run E (\<lambda>_. True) s t"
    and "covered quads_of st_ok (\<lambda>_. True) (env_json E) s"
  shows "foreign quads_of t sc = foreign quads_of s sc"
  using run_covered [OF assms] by (simp add: session_rel_def)

theorem run_keeps_foreign_quads_witness: "foreign mem_quads w_one Minor = foreign mem_quads w_fresh Minor"
  by (rule run_keeps_foreign_quads [OF w_contract w_run]) (simp add: w_fresh_covered)

text \<open>
  C5. No operation panics while ids remain: the \<open>expect\<close>s and indexings on item ids that
  the code relies on cannot fail, in any session in which every live item is stored.
\<close>

theorem op_never_panics:
  assumes "storage_contract (env_storage E) quads_of view st_ok tx_ok writable"
    and "covered quads_of st_ok (\<lambda>_. True) (env_json E) s"
    and "id_room (s_next_id s) oper"
  shows "fst (run_op E clk oper s) \<noteq> Inl Panic"
proof -
  obtain r t where run: "run_op E clk oper s = (r, t)" by (cases "run_op E clk oper s")
  have inv: "session_inv False quads_of st_ok (\<lambda>_. True) (env_json E) s" using assms(2) by (simp add: covered_def)
  have "fst (ix_run_op (env_f64 E) clk oper (index_of s)) \<noteq> Inl Panic"
    using ix_run_op_total [OF session_wfD(2) [OF inv], of oper "env_f64 E" clk] assms(3) by (simp add: sound_outcome_def)
  with session_sim.run_op_outcome [OF contract_session_sim [OF assms(1)], of False "\<lambda>_. True" s oper clk r t] run inv assms(3)
  show ?thesis by (auto simp: acceptable_def) (metis fst_conv)
qed

theorem op_never_panics_witness: "fst (run_op w_env (\<lambda>k. k) (OpEvict Major (Policy 3)) w_fresh) \<noteq> Inl Panic"
proof (rule op_never_panics [OF w_contract])
  show "id_room (s_next_id w_fresh) (OpEvict Major (Policy 3))" by (simp add: id_room_def w_fresh_def)
qed (simp add: w_fresh_covered)

section \<open>Bounds\<close>

definition within_bounds :: "'st Session \<Rightarrow> bool" where
  "within_bounds s \<longleftrightarrow> (\<forall>sc b. ScopeBounds_get (set_bounds (s_settings s)) sc = Some b \<longrightarrow> Session_item_count s sc \<le> b)"

lemma within_bounds_index: "bt_wf (s_items s) \<Longrightarrow> within_bounds s = all_bounded (index_of s)"
  using scope_count [of "index_of s"]
  by (auto simp: within_bounds_def all_bounded_def bounded_def Session_item_count_def split: option.split)

text \<open>
  C6. The bounds are an invariant: a session whose scopes are within their configured
  bounds is within them after every operation that no storage error interrupts, whether
  the operation returns a value or an error.
\<close>

theorem op_keeps_bounds:
  assumes "storage_contract (env_storage E) quads_of view st_ok tx_ok writable"
    and "covered quads_of st_ok (\<lambda>_. True) (env_json E) s"
    and "id_room (s_next_id s) oper"
    and "run_op E clk oper s = (r, t)"
    and "\<forall>e. r \<noteq> Inl (Err (StorageFailed e))"
    and "within_bounds s"
  shows "within_bounds t"
proof -
  have inv: "session_inv False quads_of st_ok (\<lambda>_. True) (env_json E) s" using assms(2) by (simp add: covered_def)
  have ix: "(r, index_of t) = ix_run_op (env_f64 E) clk oper (index_of s)"
    and inv_t: "session_inv False quads_of st_ok (\<lambda>_. True) (env_json E) t"
    using session_sim.run_op_outcome [OF contract_session_sim [OF assms(1)], of False "\<lambda>_. True" s oper clk r t] inv assms(3-5)
    by (auto simp: acceptable_def)
  have wf: "bt_wf (s_items s)" "bt_wf (s_items t)"
    using index_wf_items [OF session_wfD(2) [OF inv]] index_wf_items [OF session_wfD(2) [OF inv_t]] by simp_all
  have "sound_outcome (index_of s) (r, index_of t)"
    unfolding ix by (rule ix_run_op_total [OF session_wfD(2) [OF inv]]) (simp add: assms(3))
  then show ?thesis using assms(6) within_bounds_index [OF wf(1)] within_bounds_index [OF wf(2)]
    by (simp add: sound_outcome_def)
qed

theorem op_keeps_bounds_witness: "within_bounds w_one"
proof -
  let ?run = "run_op w_env (\<lambda>k. k) (OpAdd Minor w_item) w_fresh"
  have r: "fst ?run = Inr (ResId 0)"
    by (simp add: map_res_def eval_fresh eval_item eval_session eval_mem)
  have run: "?run = (Inr (ResId 0), w_one)" using r by (metis prod.collapse w_one_def)
  have "within_bounds w_fresh" by (simp add: within_bounds_def w_fresh_def Session_item_count_def scope_entries_def)
  then show ?thesis
    using op_keeps_bounds [OF w_contract _ _ run] w_fresh_covered by (simp add: id_room_def w_fresh_def)
qed

end
