(* ===== verification/Session_Behaviour.thy ===== *)
theory Session_Behaviour
  imports Session_Laws
begin

text \<open>
  What the individual operations do, on each of their branches: the result, the entries
  before and after, and the errors with the state they leave.
\<close>

section \<open>Outcomes of the abstract operations\<close>

context session_sim
begin

lemma value_outcome:
  assumes "implements m g s" "session_inv strict quads_of st_ok accepts (env_json E) s"
    and "fst (g (index_of s)) \<noteq> Inl Panic" "m s = (Inr v, t)"
  shows "g (index_of s) = (Inr v, index_of t) \<and> session_inv strict quads_of st_ok accepts (env_json E) t"
  using assms by (fastforce simp: refines_at_def)

end

text \<open>The same for each operation, over any store that satisfies the contract.\<close>

lemma add_batch_value:
  assumes "storage_contract (env_storage E) quads_of view st_ok tx_ok writable"
    and "covered quads_of st_ok (\<lambda>_. True) (env_json E) s" "s_next_id s + length items < 2 ^ 64"
    and "Session_add_batch E clk sc items s = (Inr ids, t)"
  shows "ix_add_batch (env_f64 E) clk sc items (index_of s) = (Inr ids, index_of t)"
proof -
  have inv: "session_inv False quads_of st_ok (\<lambda>_. True) (env_json E) s" using assms(2) by (simp add: covered_def)
  have "fst (ix_add_batch (env_f64 E) clk sc items (index_of s)) \<noteq> Inl Panic"
    using ix_add_batch_total [OF session_wfD(2) [OF inv]] assms(3) by (auto simp: sound_outcome_def)
  from session_sim.value_outcome [OF contract_session_sim [OF assms(1)]
      session_sim.add_batch_implements [OF contract_session_sim [OF assms(1)]] inv this assms(4)]
  show ?thesis by (simp add: acceptable_def)
qed

lemma promote_value:
  assumes "storage_contract (env_storage E) quads_of view st_ok tx_ok writable"
    and "covered quads_of st_ok (\<lambda>_. True) (env_json E) s"
    and "Session_promote E clk ids from to s = (Inr st, t)"
  shows "ix_promote (env_f64 E) clk ids from to (index_of s) = (Inr st, index_of t)"
proof -
  have inv: "session_inv False quads_of st_ok (\<lambda>_. True) (env_json E) s" using assms(2) by (simp add: covered_def)
  have "fst (ix_promote (env_f64 E) clk ids from to (index_of s)) \<noteq> Inl Panic"
    using ix_promote_total [OF session_wfD(2) [OF inv]] by (auto simp: sound_outcome_def)
  from session_sim.value_outcome [OF contract_session_sim [OF assms(1)]
      session_sim.promote_implements [OF contract_session_sim [OF assms(1)]] inv this assms(3)]
  show ?thesis by simp
qed

lemma evict_value:
  assumes "storage_contract (env_storage E) quads_of view st_ok tx_ok writable"
    and "covered quads_of st_ok (\<lambda>_. True) (env_json E) s"
    and "Session_evict E clk sc crit s = (Inr n, t)"
  shows "ix_evict (env_f64 E) clk sc crit (index_of s) = (Inr n, index_of t)"
proof -
  have inv: "session_inv False quads_of st_ok (\<lambda>_. True) (env_json E) s" using assms(2) by (simp add: covered_def)
  have "fst (ix_evict (env_f64 E) clk sc crit (index_of s)) \<noteq> Inl Panic"
    using ix_evict_total [OF session_wfD(2) [OF inv]] by (auto simp: sound_outcome_def)
  from session_sim.value_outcome [OF contract_session_sim [OF assms(1)]
      session_sim.evict_implements [OF contract_session_sim [OF assms(1)]] inv this assms(3)]
  show ?thesis by simp
qed

lemma query_value:
  assumes "storage_contract (env_storage E) quads_of view st_ok tx_ok writable"
    and "covered quads_of st_ok (\<lambda>_. True) (env_json E) s"
    and "Session_query E clk q s = (Inr res, t)"
  shows "ix_query (env_f64 E) clk q (index_of s) = (Inr res, index_of t)"
proof -
  have inv: "session_inv False quads_of st_ok (\<lambda>_. True) (env_json E) s" using assms(2) by (simp add: covered_def)
  have "fst (ix_query (env_f64 E) clk q (index_of s)) \<noteq> Inl Panic"
    using ix_query_total [OF session_wfD(2) [OF inv]] by (auto simp: sound_outcome_def)
  from session_sim.value_outcome [OF contract_session_sim [OF assms(1)]
      session_sim.query_implements [OF contract_session_sim [OF assms(1)]] inv this assms(3)]
  show ?thesis by simp
qed

lemma covered_index_wf: "covered quads_of st_ok accepts J s \<Longrightarrow> index_wf (index_of s)"
  using session_wfD(2) unfolding covered_def by blast

section \<open>Room\<close>

text \<open>Adding \<open>n\<close> items to \<open>sc\<close> leaves \<open>sc\<close> and the colder scopes within their bounds.\<close>

definition room_for :: "'st Session \<Rightarrow> ContextScope \<Rightarrow> nat \<Rightarrow> bool" where
  "room_for s sc n \<longleftrightarrow> (\<forall>c b. c \<le> sc \<longrightarrow> ScopeBounds_get (set_bounds (s_settings s)) c = Some b \<longrightarrow>
     Session_item_count s c + (if c = sc then n else 0) \<le> b)"

lemma item_count_in_scope: "bt_wf (s_items s) \<Longrightarrow> Session_item_count s c = card (in_scope (index_of s) c)"
  using scope_count [of "index_of s" c] by (simp add: Session_item_count_def)

lemma room_bounded:
  assumes "room_for s sc n" "bt_wf (s_items s)" "ix_settings y = s_settings s"
    and "card (in_scope y sc) \<le> card (in_scope (index_of s) sc) + n"
    and "\<And>c. c < sc \<Longrightarrow> in_scope y c \<subseteq> in_scope (index_of s) c"
  shows "\<forall>c\<le> sc. bounded y c"
proof (intro allI impI)
  fix c
  assume c: "c \<le> sc"
  have "card (in_scope y c) \<le> card (in_scope (index_of s) c) + (if c = sc then n else 0)"
  proof (cases "c = sc")
    case False
    then have "in_scope y c \<subseteq> in_scope (index_of s) c" using c assms(5) by simp
    moreover have "finite (in_scope (index_of s) c)" using assms(2) by (intro finite_in_scope) simp
    ultimately show ?thesis using False by (simp add: card_mono)
  qed (use assms(4) in simp)
  then show "bounded y c" using assms(1-3) c
    by (auto simp: bounded_def room_for_def item_count_in_scope split: option.split)
qed

section \<open>Adding\<close>

text \<open>
  \<open>batch_written\<close>: what the transaction and the index update of \<open>add_batch\<close> make of a session.
  Every item of the batch has an entry under a fresh id, in the order of the batch, and the
  store of the scope holds the quads of all of them; every other entry and store is as before.
\<close>

definition batch_written :: "('st \<Rightarrow> Quad set) \<Rightarrow> JsonOps \<Rightarrow> Instant \<Rightarrow> ContextScope \<Rightarrow> ContextItem list \<Rightarrow>
    'st Session \<Rightarrow> 'st Session \<Rightarrow> bool" where
  "batch_written quads_of J now sc items s u \<longleftrightarrow>
     s_settings u = s_settings s \<and> s_next_id u = s_next_id s + length items
   \<and> (\<forall>j. bt_get (s_items u) j =
        (if s_next_id s \<le> j \<and> j < s_next_id s + length items
         then Some (Entry_new (items ! (j - s_next_id s)) sc Added now) else bt_get (s_items s) j))
   \<and> (\<forall>c. quads_of (Tiers_get (s_stores u) c) = quads_of (Tiers_get (s_stores s) c)
        \<union> (if c = sc then batch_quads J (s_next_id s) items else {}))"

lemma add_batch_written:
  assumes "storage_contract (env_storage E) quads_of view st_ok tx_ok writable"
    and "covered quads_of st_ok (\<lambda>_. True) (env_json E) s"
    and "s_next_id s + length items < 2 ^ 64"
    and "Session_add_batch E clk sc items s = (r, t)"
  shows "(\<exists>e. r = Inl (Err e)) \<and> index_of t = index_of s
       \<and> (\<forall>c. quads_of (Tiers_get (s_stores t) c) = quads_of (Tiers_get (s_stores s) c))
    \<or> (\<exists>u r'. batch_written quads_of (env_json E) (clk 0) sc items s u \<and> index_of u = ix_added clk sc items (index_of s)
         \<and> enforce_bounds E clk 1 sc u = (r', t)
         \<and> r = (case r' of Inl a \<Rightarrow> Inl a | Inr _ \<Rightarrow> Inr [s_next_id s..<s_next_id s + length items]))"
proof (cases "validate_all (s_items s) items")
  case (Inl e)
  then show ?thesis using assms(4) by (auto simp: Session_add_batch_def)
next
  case (Inr v)
  let ?ids = "[s_next_id s..<s_next_id s + length items]"
  let ?W = "with_write (env_storage E) (\<lambda>st. write_batch E st (zip ?ids items))"
  have last: "add64 (s_next_id s) (length items) = s_next_id s + length items" using assms(3) by (rule add64_small)
  obtain r1 st1 where w: "?W (Tiers_get (s_stores s) sc) = (r1, st1)" by (cases "?W (Tiers_get (s_stores s) sc)")
  let ?s1 = "s\<lparr>s_stores := Tiers_put (s_stores s) sc st1\<rparr>"
  have at1: "at_store sc ?W s = (map_err Err r1, ?s1)" using w by (simp add: at_store_def)
  have env: "session_env E quads_of view st_ok tx_ok writable (\<lambda>_. True) True"
    using contract_session_sim [OF assms(1), of "\<lambda>_. True"] by (simp add: session_sim_def)
  have ok: "st_ok (Tiers_get (s_stores s) sc)"
    using session_wfD(1) assms(2) unfolding covered_def by blast
  have rule: "st_ok st1 \<and> (case r1 of Inl e \<Rightarrow> True \<and> (\<exists>x. e = StorageFailed x) \<and> quads_of st1 = quads_of (Tiers_get (s_stores s) sc)
      | Inr v \<Rightarrow> quads_of st1 = quads_of (Tiers_get (s_stores s) sc) \<union> batch_quads (env_json E) (s_next_id s) items)"
    using session_env.batch_rule [OF env ok _ w] unfolding batch_quads_def by (simp add: case_prod_unfold)
  show ?thesis
  proof (cases r1)
    case Inl1: (Inl e)
    moreover have "r = Inl (Err e)" "t = ?s1"
      using assms(4) Inr last at1 Inl1 by (simp_all add: Session_add_batch_def Let_def try_bind_def)
    ultimately show ?thesis using rule by (auto simp: index_of_def)
  next
    case Inr1: (Inr w)
    let ?s2 = "?s1\<lparr>s_next_id := s_next_id s + length items,
        s_items := insert_entries sc (clk 0) (zip ?ids items) (s_items s),
        s_stats := (s_stats s)\<lparr>items_added := add64 (items_added (s_stats s)) (length items)\<rparr>\<rparr>"
    obtain r' t' where enf: "enforce_bounds E clk 1 sc ?s2 = (r', t')" by fastforce
    then have "t' = t" "r = (case r' of Inl a \<Rightarrow> Inl a | Inr _ \<Rightarrow> Inr ?ids)"
      using assms(4) Inr last at1 Inr1
      by (auto simp: Session_add_batch_def Let_def try_bind_def split: sum.splits)
    moreover have ix: "index_of ?s2 = ix_added clk sc items (index_of s)" by (simp add: index_of_def ix_added_def)
    moreover have "batch_written quads_of (env_json E) (clk 0) sc items s ?s2"
      using ix_added_get(2) [OF covered_index_wf [OF assms(2)], of clk sc items] rule Inr1
      by (simp add: batch_written_def ix [symmetric])
    ultimately show ?thesis using enf by blast
  qed
qed

text \<open>
  With room in the scope, \<open>add_batch\<close> changes nothing else: the new entries are exactly
  the given items, in the requested scope, and every other entry is as before.
\<close>

lemma add_batch_with_room:
  assumes "storage_contract (env_storage E) quads_of view st_ok tx_ok writable"
    and "covered quads_of st_ok (\<lambda>_. True) (env_json E) s"
    and "s_next_id s + length items < 2 ^ 64"
    and "Session_add_batch E clk sc items s = (Inr ids, t)"
    and "room_for s sc (length items)"
  shows "bt_get (s_items t) j =
    (if j \<in> set ids then Some (Entry_new (items ! (j - s_next_id s)) sc Added (clk 0)) else bt_get (s_items s) j)"
proof -
  let ?x = "index_of s" and ?y = "ix_added clk sc items (index_of s)"
  have wf: "index_wf ?x" using assms(2) by (rule covered_index_wf)
  have ix: "ix_add_batch (env_f64 E) clk sc items ?x = (Inr ids, index_of t)" by (rule add_batch_value [OF assms(1-4)])
  then obtain u where val: "validate_all (s_items s) items = Inr u"
    by (cases "validate_all (s_items s) items") (auto simp: ix_add_batch_def)
  have ywf: "index_wf ?y" by (rule index_wf_added [OF wf]) (use val assms(3) in simp_all)
  note get = ix_added_get(2) [OF wf, of clk sc items]
  have none: "bt_get (s_items s) j = None" if "s_next_id s \<le> j" for j
    using index_wf_getD [OF wf, of j] that by (cases "bt_get (s_items s) j") auto
  have "in_scope ?y sc = in_scope ?x sc \<union> {s_next_id s..<s_next_id s + length items}"
    using none by (auto simp: in_scope_iff get)
  then have "card (in_scope ?y sc) \<le> card (in_scope ?x sc) + length items"
    using card_Un_le [of "in_scope ?x sc" "{s_next_id s..<s_next_id s + length items}"] by simp
  moreover have "in_scope ?y c \<subseteq> in_scope ?x c" if "c < sc" for c
    using that by (auto simp: in_scope_iff get split: if_splits)
  ultimately have "\<forall>c\<le> sc. bounded ?y c"
    using room_bounded [OF assms(5), of ?y] index_wf_items [OF wf] by (simp add: ix_added_def)
  then have "ix_enforce (env_f64 E) clk 1 sc ?y = (Inr (), ?y)" by (rule ix_enforce_idle [OF ywf])
  then have "index_of t = ?y" "ids = [s_next_id s..<s_next_id s + length items]"
    using ix val assms(3) by (auto simp: ix_add_batch_def ix_added_def Let_def try_bind_def)
  then show ?thesis using get [of j] by (metis atLeastLessThan_iff index_of_sel(2,3) set_upt)
qed

text \<open>
  C13. A successful \<open>add_batch\<close> assigns consecutive fresh ids in the order of the items, and
  every item passed validation. It writes the whole batch, so that every new id has the entry
  of its item and every other entry is as before, and then enforces the bounds from the scope
  downwards. If there is room in that scope and the colder ones, that changes nothing more.
  In any case no item changes its content or becomes more durable, and items in more durable
  scopes are untouched.
\<close>

theorem add_batch_result:
  assumes "storage_contract (env_storage E) quads_of view st_ok tx_ok writable"
    and "covered quads_of st_ok (\<lambda>_. True) (env_json E) s"
    and "s_next_id s + length items < 2 ^ 64"
    and "Session_add_batch E clk sc items s = (Inr ids, t)"
  shows "ids = [s_next_id s..<s_next_id s + length items] \<and> s_next_id t = s_next_id s + length items
    \<and> (\<forall>it\<in>set items. validate (s_items s) it = Inr ())
    \<and> (\<exists>u. batch_written quads_of (env_json E) (clk 0) sc items s u \<and> enforce_bounds E clk 1 sc u = (Inr (), t))
    \<and> (room_for s sc (length items) \<longrightarrow> (\<forall>j. bt_get (s_items t) j =
         (if j \<in> set ids then Some (Entry_new (items ! (j - s_next_id s)) sc Added (clk 0)) else bt_get (s_items s) j)))
    \<and> (\<forall>j e. bt_get (s_items t) j = Some e \<longrightarrow>
         (if j \<in> set ids then e_item e = items ! (j - s_next_id s) \<and> e_scope e \<le> sc
          else \<exists>e0. bt_get (s_items s) j = Some e0 \<and> e_item e = e_item e0 \<and> e_scope e \<le> e_scope e0))
    \<and> (\<forall>j e. bt_get (s_items s) j = Some e \<longrightarrow> sc < e_scope e \<longrightarrow> bt_get (s_items t) j = Some e)"
proof -
  let ?x = "index_of s" and ?y = "ix_added clk sc items (index_of s)"
  have wf: "index_wf ?x" using assms(2) by (rule covered_index_wf)
  have ix: "ix_add_batch (env_f64 E) clk sc items ?x = (Inr ids, index_of t)" by (rule add_batch_value [OF assms])
  then obtain v where val: "validate_all (s_items s) items = Inr v"
    by (cases "validate_all (s_items s) items") (auto simp: ix_add_batch_def)
  then obtain y where "ix_add_batch (env_f64 E) clk sc items ?x = (Inr [s_next_id s..<s_next_id s + length items], y)"
    "same_frame ?y y" "cooled sc ?y y"
    using ix_add_batch_works [OF wf, of items v "env_f64 E" clk sc] assms(3) by auto
  with ix have ids: "ids = [s_next_id s..<s_next_id s + length items]"
    and fr: "same_frame ?y (index_of t)" and c: "cooled sc ?y (index_of t)"
    by auto
  have nid: "s_next_id t = s_next_id s + length items" using fr by (simp add: same_frame_def ix_added_def)
  have written: "\<exists>u. batch_written quads_of (env_json E) (clk 0) sc items s u \<and> enforce_bounds E clk 1 sc u = (Inr (), t)"
    (is "\<exists>u. ?written u \<and> ?enforced u")
  proof -
    obtain u r' where "?written u" "enforce_bounds E clk 1 sc u = (r', t)"
      "Inr ids = (case r' of Inl a \<Rightarrow> Inl a | Inr _ \<Rightarrow> Inr [s_next_id s..<s_next_id s + length items])"
      using add_batch_written [OF assms] by blast
    then show ?thesis by (cases r') auto
  qed
  note get = ix_added_get(2) [OF wf, of clk sc items]
  have roomy: "bt_get (s_items t) j =
      (if j \<in> set ids then Some (Entry_new (items ! (j - s_next_id s)) sc Added (clk 0)) else bt_get (s_items s) j)"
    if "room_for s sc (length items)" for j
    using add_batch_with_room [OF assms that] .
  have after: "if j \<in> set ids then e_item e = items ! (j - s_next_id s) \<and> e_scope e \<le> sc
      else \<exists>e0. bt_get (s_items s) j = Some e0 \<and> e_item e = e_item e0 \<and> e_scope e \<le> e_scope e0"
    if "bt_get (s_items t) j = Some e" for j e
    using cooled_get [OF c, of j e] that by (auto simp: get ids)
  have hot: "bt_get (s_items t) j = Some e" if "bt_get (s_items s) j = Some e" "sc < e_scope e" for j e
  proof -
    have "j < s_next_id s" using index_wf_getD [OF wf, of j e] that(1) by simp
    then have "bt_get (ix_items ?y) j = Some e" using that(1) by (simp add: get)
    from cooled_hotter_get [OF c this that(2)] show ?thesis by simp
  qed
  have "\<forall>it\<in>set items. validate (s_items s) it = Inr ()" using val by (simp add: validate_all_Inr)
  with ids nid written roomy after hot show ?thesis by blast
qed

lemma w_add_two:
  "fst (Session_add_batch w_env (\<lambda>k. k) Minor [w_item, w_item] w_fresh) = Inr [0, 1]"
  by (simp add: eval_fresh eval_item eval_session eval_mem upt_rec)

theorem add_batch_result_witness:
  "s_next_id (snd (Session_add_batch w_env (\<lambda>k. k) Minor [w_item, w_item] w_fresh)) = 2
   \<and> bt_get (s_items (snd (Session_add_batch w_env (\<lambda>k. k) Minor [w_item, w_item] w_fresh))) 1
     = Some (Entry_new w_item Minor Added 0)"
proof -
  let ?run = "Session_add_batch w_env (\<lambda>k. k) Minor [w_item, w_item] w_fresh"
  have run: "?run = (Inr [0, 1], snd ?run)" using w_add_two by (metis prod.collapse)
  have n: "s_next_id w_fresh = 0" by (simp add: w_fresh_def)
  have "room_for w_fresh Minor (length [w_item, w_item])"
    by (auto simp: room_for_def Session_item_count_def w_fresh_def w_settings_def scope_entries_def scope_le_iff)
  with add_batch_result [OF w_contract _ _ run] show ?thesis using w_fresh_covered n by simp
qed

text \<open>The id counter is only advanced by \<open>add_batch\<close> itself.\<close>

lemma at_store_next: "s_next_id (snd (at_store sc f s)) = s_next_id s"
  by (simp add: at_store_def split: prod.split)

lemma move_item_next: "s_next_id (snd (move_item E i to arr s)) = s_next_id s"
  by (auto simp: move_item_def try_bind_def at_store_def split: option.split prod.splits sum.splits)

lemma drop_item_next: "s_next_id (snd (drop_item E i s)) = s_next_id s"
  by (auto simp: drop_item_def try_bind_def at_store_def split: option.split prod.splits sum.splits)

lemma evict_victim_next: "s_next_id (snd (evict_victim E sc i s)) = s_next_id s"
proof -
  have "s_next_id (snd (try_bind (move_item E i c Demoted) (\<lambda>_. modify (add_demoted 1)) s)) = s_next_id s" for c
    using move_item_next [of E i c Demoted s] by (auto simp: try_bind_def add_demoted_def split: prod.splits sum.splits)
  then show ?thesis by (simp add: evict_victim_def drop_item_next split: sum.split option.split)
qed

lemma enforce_scope_next: "s_next_id (snd (enforce_scope E now sc s)) = s_next_id s"
proof -
  have "s_next_id (snd (evict_victims E sc ids s)) = s_next_id s" for ids
    unfolding evict_victims_def
    by (rule for_each_keeps [where I = "\<lambda>t. s_next_id t = s_next_id s"]) (simp, metis evict_victim_next snd_conv)
  then show ?thesis by (simp add: enforce_scope_def Let_def split: option.split)
qed

lemma enforce_bounds_next: "s_next_id (snd (enforce_bounds E clk k sc s)) = s_next_id s"
proof (induction "scope_rank sc" arbitrary: sc k s rule: less_induct)
  case less
  obtain r t where st: "enforce_scope E (clk k) sc s = (r, t)" by (cases "enforce_scope E (clk k) sc s")
  then have t: "s_next_id t = s_next_id s" using enforce_scope_next [of E "clk k" sc s] by simp
  have "s_next_id (snd (enforce_bounds E clk (Suc k) c t)) = s_next_id s" if "colder sc = Some c" for c
    using less.hyps [of c "Suc k" t] colder_less [OF that] t by (simp add: scope_less_iff)
  then show ?case using st t by (auto simp: enforce_bounds.simps [of E clk k sc s] split: sum.split option.split)
qed

text \<open>
  C14. \<open>add_batch\<close> is all or nothing, whatever its outcome: either it is an error that leaves
  the index and the content of every store as they were, or the whole batch was written in one
  transaction, every item with an entry and all its quads, and what followed was only the
  enforcing of the bounds, which gives the outcome. (An error of the second kind comes from
  there, after the batch was committed.)
\<close>

theorem add_batch_atomic:
  assumes "storage_contract (env_storage E) quads_of view st_ok tx_ok writable"
    and "covered quads_of st_ok (\<lambda>_. True) (env_json E) s"
    and "s_next_id s + length items < 2 ^ 64"
    and "Session_add_batch E clk sc items s = (r, t)"
  shows "(\<exists>e. r = Inl (Err e)) \<and> index_of t = index_of s
       \<and> (\<forall>c. quads_of (Tiers_get (s_stores t) c) = quads_of (Tiers_get (s_stores s) c))
    \<or> (\<exists>u r'. batch_written quads_of (env_json E) (clk 0) sc items s u \<and> enforce_bounds E clk 1 sc u = (r', t)
         \<and> r = (case r' of Inl a \<Rightarrow> Inl a | Inr _ \<Rightarrow> Inr [s_next_id s..<s_next_id s + length items])
         \<and> s_next_id t = s_next_id s + length items)"
  using add_batch_written [OF assms]
proof
  assume "\<exists>u r'. batch_written quads_of (env_json E) (clk 0) sc items s u \<and> index_of u = ix_added clk sc items (index_of s)
      \<and> enforce_bounds E clk 1 sc u = (r', t)
      \<and> r = (case r' of Inl a \<Rightarrow> Inl a | Inr _ \<Rightarrow> Inr [s_next_id s..<s_next_id s + length items])"
  then obtain u r' where u: "batch_written quads_of (env_json E) (clk 0) sc items s u" "enforce_bounds E clk 1 sc u = (r', t)"
    "r = (case r' of Inl a \<Rightarrow> Inl a | Inr _ \<Rightarrow> Inr [s_next_id s..<s_next_id s + length items])" by blast
  have "s_next_id t = s_next_id s + length items"
    using enforce_bounds_next [of E clk 1 sc u] u(1,2) by (simp add: batch_written_def)
  with u show ?thesis by blast
qed blast

theorem add_batch_atomic_witness:
  "index_of (snd (Session_add_batch w_env (\<lambda>k. k) Minor [w_item, ContextItem_chunk ''t'' ''text'' (Provenance_new '' '')] w_fresh))
    = index_of w_fresh"
proof -
  let ?items = "[w_item, ContextItem_chunk ''t'' ''text'' (Provenance_new '' '')]"
  let ?run = "Session_add_batch w_env (\<lambda>k. k) Minor ?items w_fresh"
  have run: "?run = (Inl (Err MissingProvenance), snd ?run)"
    by (simp add: eval_fresh eval_item eval_session ContextItem_chunk_def ContextItem_new_def Provenance_new_def)
  have n: "s_next_id w_fresh = 0" by (simp add: w_fresh_def)
  have "s_next_id (snd ?run) = 0"
    by (simp add: eval_fresh eval_item eval_session ContextItem_chunk_def ContextItem_new_def Provenance_new_def)
  with add_batch_atomic [OF w_contract _ _ run] show ?thesis using w_fresh_covered n by simp
qed

section \<open>Promotion\<close>

text \<open>
  C15. A successful \<open>promote\<close> to a more durable scope with room moves exactly the listed
  items, each once however often it is listed, and counts them; every other entry is as
  before. All of them were in the scope named.
\<close>

theorem promote_with_room:
  assumes "storage_contract (env_storage E) quads_of view st_ok tx_ok writable"
    and "covered quads_of st_ok (\<lambda>_. True) (env_json E) s"
    and "Session_promote E clk ids from to s = (Inr st, t)"
    and "from < to" and "room_for s to (card (set ids))"
  shows "promoted st = card (set ids) \<and> (\<forall>i\<in>set ids. Session_scope_of s i = Some from)
    \<and> (\<forall>j. bt_get (s_items t) j =
        (if j \<in> set ids then map_option (Entry_moved to Promoted) (bt_get (s_items s) j) else bt_get (s_items s) j))"
proof -
  let ?x = "index_of s"
  have wf: "index_wf ?x" using assms(2) by (rule covered_index_wf)
  have ix: "ix_promote (env_f64 E) clk ids from to ?x = (Inr st, index_of t)" by (rule promote_value [OF assms(1-3)])
  have ne: "from \<noteq> to" "\<not> to < from" using assms(4) by auto
  obtain us where us: "check_in_scope (s_items s) ids from = Inr us"
    using ix ne by (cases "check_in_scope (s_items s) ids from") (auto simp: ix_promote_def)
  have chk: "check_in_scope (ix_items ?x) ids from = Inr us" using us by simp
  obtain y where y: "ix_move_all to Promoted us ?x = (Inr (), y)" "ix_moved to Promoted (set ids) ?x y"
    using ix_move_checked(1) [OF wf chk ne(1)] by blast
  have sub: "set ids \<subseteq> in_scope ?x from" and len: "length us = card (set ids)"
    using ix_move_checked(2,3) [OF wf chk ne(1)] by blast+
  let ?y = "ix_promoted (length us) y"
  have ym: "ix_moved to Promoted (set ids) ?x ?y" using y(2) by simp
  have "card (in_scope ?y to) \<le> card (in_scope ?x to) + card (set ids)"
    unfolding ix_moved_scope [OF ym sub ne(1), of to] by (simp add: card_Un_le)
  moreover have "in_scope ?y c \<subseteq> in_scope ?x c" if "c < to" for c
    using ix_moved_scope [OF ym sub ne(1), of c] that by auto
  ultimately have "\<forall>c\<le> to. bounded ?y c"
    using room_bounded [OF assms(5), of ?y] index_wf_items [OF wf] ym by (simp add: ix_moved_def same_frame_def)
  then have "ix_enforce (env_f64 E) clk 0 to ?y = (Inr (), ?y)"
    by (rule ix_enforce_idle [rotated]) (use ym in \<open>simp add: ix_moved_def\<close>)
  then have t: "st = \<lparr>promoted = length us\<rparr>" "index_of t = ?y"
    using ix us y(1) ne by (auto simp: ix_promote_def try_bind_def)
  have "\<forall>j. bt_get (ix_items (index_of t)) j =
      (if j \<in> set ids then map_option (Entry_moved to Promoted) (bt_get (ix_items ?x) j) else bt_get (ix_items ?x) j)"
    unfolding t(2) using ym by (simp add: ix_moved_def)
  moreover have "\<forall>i\<in>set ids. Session_scope_of s i = Some from"
    using us by (auto simp: check_in_scope_Inr Session_scope_of_def)
  ultimately show ?thesis using t(1) len by simp
qed

lemma w_one_covered: "covered mem_quads mem_st_ok (\<lambda>_. True) w_json w_one"
  using run_covered [OF w_contract w_run] w_fresh_covered by simp

text \<open>On the concrete store an operation has the outcome of the abstract operation.\<close>

lemma w_step:
  assumes "session_inv True mem_quads mem_st_ok (\<lambda>_. True) w_json s" "id_room (s_next_id s) oper"
  shows "fst (run_op w_env clk oper s) = fst (ix_run_op w_f64 clk oper (index_of s))"
    and "index_of (snd (run_op w_env clk oper s)) = snd (ix_run_op w_f64 clk oper (index_of s))"
    and "session_inv True mem_quads mem_st_ok (\<lambda>_. True) w_json (snd (run_op w_env clk oper s))"
proof -
  let ?run = "run_op w_env clk oper s"
  have run: "?run = (fst ?run, snd ?run)" by simp
  have "(fst ?run, index_of (snd ?run)) = ix_run_op w_f64 clk oper (index_of s)
      \<and> session_inv True mem_quads mem_st_ok (\<lambda>_. True) w_json (snd ?run)"
    using mem_session.run_op_outcome [OF _ _ assms(2) run, of True] assms(1) by (simp add: acceptable_def)
  then show "fst ?run = fst (ix_run_op w_f64 clk oper (index_of s))"
    and "index_of (snd ?run) = snd (ix_run_op w_f64 clk oper (index_of s))"
    and "session_inv True mem_quads mem_st_ok (\<lambda>_. True) w_json (snd ?run)" by (simp_all add: prod_eq_iff)
qed

lemma w_one_inv: "session_inv True mem_quads mem_st_ok (\<lambda>_. True) w_json w_one"
  unfolding w_one_def by (rule w_step(3) [OF w_fresh_inv]) (simp add: id_room_def w_fresh_def)

lemma w_one_index:
  "index_of w_one = \<lparr>ix_settings = w_settings, ix_items = [(0, Entry_new w_item Minor Added 0)], ix_next_id = 1,
     ix_stats = SessionStats_default\<lparr>items_added := 1\<rparr>\<rparr>"
  by (simp add: w_one_def index_of_def map_res_def eval_fresh eval_item eval_session eval_mem SessionStats_default_def)

lemma w_outcome:
  assumes "mem_session.implements True m g s" "fst (g (index_of s)) = Inr v"
    and "session_inv True mem_quads mem_st_ok (\<lambda>_. True) w_json s"
  shows "m s = (Inr v, snd (m s))"
proof -
  obtain r t where m: "m s = (r, t)" by (cases "m s")
  obtain y where "g (index_of s) = (Inr v, y)" using assms(2) by (cases "g (index_of s)") simp
  with assms(1,3) m show ?thesis by (fastforce simp: refines_at_def)
qed

lemmas eval_index = w_one_index w_settings_def Entry_new_def bt_get_def bt_adjust_def check_in_scope_def
  try_bind_def ix_promote_def ix_evict_def ix_move_all_def ix_move_def ix_drop_def ix_enforce.simps ix_enforce_scope_def
  scope_entries_def add64_def Let_def scope_less_iff scope_le_iff

theorem promote_with_room_witness:
  "bt_get (s_items (snd (Session_promote w_env (\<lambda>k. k) [0, 0] Minor Major w_one))) 0
    = Some (Entry_moved Major Promoted (Entry_new w_item Minor Added 0))"
proof -
  let ?run = "Session_promote w_env (\<lambda>k. k) [0, 0] Minor Major"
  have "fst (ix_promote w_f64 (\<lambda>k. k) [0, 0] Minor Major (index_of w_one)) = Inr \<lparr>promoted = 1\<rparr>"
    by (simp add: eval_index)
  then have run: "?run w_one = (Inr \<lparr>promoted = 1\<rparr>, snd (?run w_one))"
    by (intro w_outcome [OF mem_session.promote_implements _ w_one_inv]) simp
  have room: "room_for w_one Major (card (set [0, 0 :: nat]))"
    by (auto simp: room_for_def Session_item_count_def w_one_items w_one_settings w_settings_def scope_entries_def
        Entry_new_def scope_le_iff split: if_splits)
  from promote_with_room [OF w_contract _ run _ room] w_one_covered show ?thesis
    by (simp add: w_one_items bt_get_def)
qed

definition bad_id :: "'st Session \<Rightarrow> ContextScope \<Rightarrow> ItemId \<Rightarrow> SessionError" where
  "bad_id s sc i = (case Session_scope_of s i of None \<Rightarrow> UnknownItem i | Some c \<Rightarrow> ScopeMismatch i sc c)"

lemma check_each_first:
  assumes "\<forall>j\<in>set pre. \<exists>e. bt_get items j = Some e \<and> e_scope e = sc" "map_option e_scope (bt_get items i) \<noteq> Some sc"
  shows "check_each items sc (pre @ i # post) =
    Inl (case bt_get items i of None \<Rightarrow> UnknownItem i | Some e \<Rightarrow> ScopeMismatch i sc (e_scope e))"
  using assms by (induction pre) (auto split: option.split)

lemma dedup_seen_first:
  "i \<notin> set seen \<union> set pre \<Longrightarrow>
     \<exists>pre' post'. dedup_seen seen (pre @ i # post) = pre' @ i # post' \<and> set pre' \<subseteq> set pre"
proof (induction pre arbitrary: seen)
  case Nil
  then show ?case by (intro exI [of _ "[]"] exI [of _ "dedup_seen (i # seen) post"]) simp
next
  case (Cons a pre)
  then have "i \<notin> set (if a \<in> set seen then seen else a # seen) \<union> set pre" by auto
  from Cons.IH [OF this] obtain pre' post' where
    "dedup_seen (if a \<in> set seen then seen else a # seen) (pre @ i # post) = pre' @ i # post'" "set pre' \<subseteq> set pre"
    by blast
  then show ?case
    by (intro exI [of _ "if a \<in> set seen then pre' else a # pre'"] exI [of _ post']) auto
qed

lemma check_in_scope_first:
  assumes "\<forall>j\<in>set pre. Session_scope_of s j = Some sc" "Session_scope_of s i \<noteq> Some sc"
  shows "check_in_scope (s_items s) (pre @ i # post) sc = Inl (bad_id s sc i)"
proof -
  have live: "\<forall>j\<in>set pre. \<exists>e. bt_get (s_items s) j = Some e \<and> e_scope e = sc"
    using assms(1) by (auto simp: Session_scope_of_def)
  have "i \<notin> set pre" using assms by auto
  then obtain pre' post' where d: "dedup_seen [] (pre @ i # post) = pre' @ i # post'" "set pre' \<subseteq> set pre"
    using dedup_seen_first [of i "[]" pre post] by auto
  have "\<forall>j\<in>set pre'. \<exists>e. bt_get (s_items s) j = Some e \<and> e_scope e = sc" using live d(2) by blast
  from check_each_first [OF this, of i post'] assms(2)
  have "check_each (s_items s) sc (pre' @ i # post') = Inl (bad_id s sc i)"
    by (auto simp: bad_id_def Session_scope_of_def split: option.split)
  then show ?thesis by (simp add: check_in_scope_def d(1))
qed

text \<open>
  C16. Ids that do not name items of the given scope are rejected before anything is
  changed: the error is about the first such id, and the session is untouched. A target
  on the wrong side of the source is rejected first.
\<close>

theorem bad_ids_rejected:
  assumes "\<forall>j\<in>set pre. Session_scope_of s j = Some sc" "Session_scope_of s i \<noteq> Some sc"
  shows "Session_promote E clk (pre @ i # post) sc to s =
      (Inl (Err (if to < sc then DurabilityViolation sc to else bad_id s sc i)), s)
    \<and> Session_evict E clk sc (Demote (pre @ i # post) to) s =
      (Inl (Err (if sc \<le> to then DurabilityViolation sc to else bad_id s sc i)), s)
    \<and> Session_evict E clk sc (Items (pre @ i # post)) s = (Inl (Err (bad_id s sc i)), s)"
  using check_in_scope_first [OF assms] by (simp add: Session_promote_def Session_evict_def)

theorem bad_ids_rejected_witness:
  "Session_evict w_env (\<lambda>k. k) Minor (Items [0, 0, 5, 6]) w_one = (Inl (Err (UnknownItem 5)), w_one)"
proof -
  have "\<forall>j\<in>set [0, 0]. Session_scope_of w_one j = Some Minor" "Session_scope_of w_one 5 \<noteq> Some Minor"
    and "bad_id w_one Minor 5 = UnknownItem 5"
    by (simp_all add: Session_scope_of_def bad_id_def w_one_items bt_get_def Entry_new_def)
  with bad_ids_rejected [of "[0, 0]" w_one Minor 5 w_env "\<lambda>k. k" "[6]"] show ?thesis by simp
qed

section \<open>Eviction\<close>

text \<open>
  A successful \<open>evict\<close> with an explicit list drops exactly the listed items, each
  counted once, all of them items of the scope named.
\<close>

theorem evict_items_result:
  assumes "storage_contract (env_storage E) quads_of view st_ok tx_ok writable"
    and "covered quads_of st_ok (\<lambda>_. True) (env_json E) s"
    and "Session_evict E clk sc (Items ids) s = (Inr n, t)"
  shows "n = card (set ids) \<and> (\<forall>i\<in>set ids. Session_scope_of s i = Some sc)
    \<and> (\<forall>j. bt_get (s_items t) j = (if j \<in> set ids then None else bt_get (s_items s) j))"
proof -
  let ?x = "index_of s"
  have wf: "index_wf ?x" using assms(2) by (rule covered_index_wf)
  have ix: "ix_evict (env_f64 E) clk sc (Items ids) ?x = (Inr n, index_of t)" by (rule evict_value [OF assms])
  obtain us where us: "check_in_scope (ix_items ?x) ids sc = Inr us"
    using ix by (cases "check_in_scope (s_items s) ids sc") (auto simp: ix_evict_def)
  have "n = card (set ids) \<and> (\<forall>j. bt_get (ix_items (index_of t)) j = (if j \<in> set ids then None else bt_get (ix_items ?x) j))"
    using ix_evict_items_works [OF wf us, of "env_f64 E" clk] ix by auto
  then show ?thesis using us by (auto simp: check_in_scope_Inr Session_scope_of_def)
qed

theorem evict_items_result_witness:
  "bt_get (s_items (snd (Session_evict w_env (\<lambda>k. k) Minor (Items [0]) w_one))) 0 = None"
proof -
  let ?run = "Session_evict w_env (\<lambda>k. k) Minor (Items [0])"
  have "fst (ix_evict w_f64 (\<lambda>k. k) Minor (Items [0]) (index_of w_one)) = Inr 1" by (simp add: eval_index)
  then have run: "?run w_one = (Inr 1, snd (?run w_one))"
    by (intro w_outcome [OF mem_session.evict_implements _ w_one_inv]) simp
  from evict_items_result [OF w_contract _ run] w_one_covered show ?thesis by simp
qed

text \<open>What \<open>evict\<close> does after its checks when it demotes: the moves, and then the bounds.\<close>

lemma demote_moved:
  assumes contract: "storage_contract (env_storage E) quads_of view st_ok tx_ok writable"
    and cov: "covered quads_of st_ok (\<lambda>_. True) (env_json E) s"
    and run: "Session_evict E clk sc (Demote ids to) s = (Inr n, t)"
  shows "to < sc \<and> n = card (set ids) \<and> (\<forall>i\<in>set ids. Session_scope_of s i = Some sc)
    \<and> (\<exists>u. covered quads_of st_ok (\<lambda>_. True) (env_json E) u \<and> s_settings u = s_settings s
         \<and> ix_moved to Demoted (set ids) (index_of s) (index_of u) \<and> enforce_bounds E clk 0 to u = (Inr (), t))"
proof -
  let ?x = "index_of s"
  have wf: "index_wf ?x" using cov by (rule covered_index_wf)
  have inv: "session_inv False quads_of st_ok (\<lambda>_. True) (env_json E) s" using cov by (simp add: covered_def)
  have lt: "to < sc" using run by (auto simp: Session_evict_def not_le split: if_splits)
  then have ne: "sc \<noteq> to" "\<not> sc \<le> to" by auto
  obtain us where us: "check_in_scope (s_items s) ids sc = Inr us"
    using run ne by (cases "check_in_scope (s_items s) ids sc") (auto simp: Session_evict_def)
  have chk: "check_in_scope (ix_items ?x) ids sc = Inr us" using us by simp
  have len: "length us = card (set ids)" by (rule ix_move_checked(3) [OF wf chk ne(1)])
  obtain u1 where moved: "move_items E to Demoted us s = (Inr (), u1)"
    and enf: "enforce_bounds E clk 0 to (add_demoted (length us) u1) = (Inr (), t)" and n: "n = length us"
    using run us ne by (auto simp: Session_evict_def try_bind_Inr)
  obtain y where y: "ix_move_all to Demoted us ?x = (Inr (), y)" "ix_moved to Demoted (set ids) ?x y"
    using ix_move_checked(1) [OF wf chk ne(1)] by blast
  note sim = contract_session_sim [OF contract, of "\<lambda>_. True"]
  have u1: "index_of u1 = y" "session_inv False quads_of st_ok (\<lambda>_. True) (env_json E) u1"
    using session_sim.value_outcome [OF sim session_sim.move_items_implements [OF sim] inv _ moved] y(1) by simp_all
  let ?u = "add_demoted (length us) u1"
  have ixu: "index_of ?u = ix_demoted (length us) y" using u1(1) by (auto simp: index_of_def add_demoted_def ix_demoted_def)
  have "covered quads_of st_ok (\<lambda>_. True) (env_json E) ?u"
    using session_sim.value_outcome [OF sim session_sim.demoted_implements [OF sim, where n = "length us"] u1(2)] by (simp add: covered_def)
  moreover have "ix_moved to Demoted (set ids) ?x (index_of ?u)" unfolding ixu using y(2) by simp
  moreover from this have "s_settings ?u = s_settings s" by (simp add: ix_moved_def same_frame_def)
  moreover have "\<forall>i\<in>set ids. Session_scope_of s i = Some sc" using us by (auto simp: check_in_scope_Inr Session_scope_of_def)
  ultimately show ?thesis using lt n len enf by blast
qed

text \<open>
  C19. A successful demotion moves the listed items, all of the scope named, to the target
  scope, each once and marked as demoted, and then enforces the bounds from the target
  downwards; it counts the items. With room in the target and the colder scopes that is all,
  and every other entry is as before. In any case items in scopes more durable than the
  target are otherwise untouched, and no item changes its content or becomes more durable.
\<close>

theorem evict_demote_result:
  assumes "storage_contract (env_storage E) quads_of view st_ok tx_ok writable"
    and "covered quads_of st_ok (\<lambda>_. True) (env_json E) s"
    and "Session_evict E clk sc (Demote ids to) s = (Inr n, t)"
  shows "to < sc \<and> n = card (set ids) \<and> (\<forall>i\<in>set ids. Session_scope_of s i = Some sc)
    \<and> (\<exists>u. covered quads_of st_ok (\<lambda>_. True) (env_json E) u \<and> s_settings u = s_settings s
         \<and> (\<forall>j. bt_get (s_items u) j =
              (if j \<in> set ids then map_option (Entry_moved to Demoted) (bt_get (s_items s) j) else bt_get (s_items s) j))
         \<and> enforce_bounds E clk 0 to u = (Inr (), t))
    \<and> (room_for s to (card (set ids)) \<longrightarrow> (\<forall>j. bt_get (s_items t) j =
         (if j \<in> set ids then map_option (Entry_moved to Demoted) (bt_get (s_items s) j) else bt_get (s_items s) j)))
    \<and> (\<forall>j e'. bt_get (s_items t) j = Some e' \<longrightarrow>
         (\<exists>e. bt_get (s_items s) j = Some e \<and> e_item e' = e_item e
            \<and> (if j \<in> set ids then e_scope e' \<le> to \<and> e_arrival e' = Demoted else e' = e \<or> e_scope e' < e_scope e)))
    \<and> (\<forall>j e. bt_get (s_items s) j = Some e \<longrightarrow> j \<notin> set ids \<longrightarrow> to < e_scope e \<longrightarrow> bt_get (s_items t) j = Some e)"
proof -
  let ?x = "index_of s"
  have wf: "index_wf ?x" using assms(2) by (rule covered_index_wf)
  obtain u where lt: "to < sc" and n: "n = card (set ids)" and scope: "\<forall>i\<in>set ids. Session_scope_of s i = Some sc"
    and cov: "covered quads_of st_ok (\<lambda>_. True) (env_json E) u" and set: "s_settings u = s_settings s"
    and y: "ix_moved to Demoted (set ids) ?x (index_of u)" and enf: "enforce_bounds E clk 0 to u = (Inr (), t)"
    using demote_moved [OF assms] by blast
  have ywf: "index_wf (index_of u)" using cov by (rule covered_index_wf)
  have inv_u: "session_inv False quads_of st_ok (\<lambda>_. True) (env_json E) u" using cov by (simp add: covered_def)
  have get: "bt_get (s_items u) j = (if j \<in> set ids then map_option (Entry_moved to Demoted) (bt_get (s_items s) j)
      else bt_get (s_items s) j)" for j using y by (simp add: ix_moved_def)
  note sim = contract_session_sim [OF assms(1), of "\<lambda>_. True"]
  obtain z where z: "ix_enforce (env_f64 E) clk 0 to (index_of u) = (Inr (), z)" "cooled to (index_of u) z"
    using ix_enforce_works [OF ywf] by blast
  have c: "cooled to (index_of u) (index_of t)"
    using session_sim.value_outcome [OF sim session_sim.enforce_bounds_implements [OF sim] inv_u _ enf] z by simp
  have sub: "set ids \<subseteq> in_scope ?x sc" using scope by (auto simp: in_scope_iff Session_scope_of_def)
  have ne: "sc \<noteq> to" using lt by simp
  have roomy: "bt_get (s_items t) j = bt_get (s_items u) j" if room: "room_for s to (card (set ids))" for j
  proof -
    have "card (in_scope (index_of u) to) \<le> card (in_scope ?x to) + card (set ids)"
      unfolding ix_moved_scope [OF y sub ne, of to] by (simp add: card_Un_le)
    moreover have "in_scope (index_of u) d \<subseteq> in_scope ?x d" if "d < to" for d
      using ix_moved_scope [OF y sub ne, of d] that by auto
    ultimately have "\<forall>d\<le> to. bounded (index_of u) d"
      using room_bounded [OF room, of "index_of u"] index_wf_items [OF wf] set by simp
    from ix_enforce_idle [OF ywf this] session_sim.value_outcome [OF sim session_sim.enforce_bounds_implements [OF sim] inv_u _ enf]
    have "index_of t = index_of u" by simp
    then show ?thesis by (metis index_of_sel(2))
  qed
  have after: "\<exists>e. bt_get (s_items s) j = Some e \<and> e_item e' = e_item e
      \<and> (if j \<in> set ids then e_scope e' \<le> to \<and> e_arrival e' = Demoted else e' = e \<or> e_scope e' < e_scope e)"
    if "bt_get (s_items t) j = Some e'" for j e'
    using c [unfolded cooled_def, rule_format, of j] that by (cases "bt_get (s_items s) j") (auto simp: get split: if_splits)
  have hot: "bt_get (s_items t) j = Some e"
    if "bt_get (s_items s) j = Some e" "j \<notin> set ids" "to < e_scope e" for j e
    using cooled_hotter_get [OF c, of j e] that by (simp add: get)
  have moved: "\<exists>u. covered quads_of st_ok (\<lambda>_. True) (env_json E) u \<and> s_settings u = s_settings s
      \<and> (\<forall>j. bt_get (s_items u) j =
           (if j \<in> set ids then map_option (Entry_moved to Demoted) (bt_get (s_items s) j) else bt_get (s_items s) j))
      \<and> enforce_bounds E clk 0 to u = (Inr (), t)"
    using cov set get enf by blast
  have exact: "bt_get (s_items t) j =
      (if j \<in> set ids then map_option (Entry_moved to Demoted) (bt_get (s_items s) j) else bt_get (s_items s) j)"
    if "room_for s to (card (set ids))" for j unfolding roomy [OF that] by (rule get)
  from lt n scope moved exact after hot show ?thesis by blast
qed

text \<open>The concrete session with its item in the enduring scope.\<close>

definition w_top :: "MemStore Session" where
  "w_top = snd (run_op w_env (\<lambda>k. k) (OpPromote [0] Minor Enduring) w_one)"

lemma w_top_index:
  "index_of w_top = \<lparr>ix_settings = w_settings, ix_items = [(0, Entry_moved Enduring Promoted (Entry_new w_item Minor Added 0))],
     ix_next_id = 1, ix_stats = SessionStats_default\<lparr>items_added := 1, items_promoted := 1\<rparr>\<rparr>"
  and w_top_inv: "session_inv True mem_quads mem_st_ok (\<lambda>_. True) w_json w_top"
proof -
  have room: "id_room (s_next_id w_one) (OpPromote [0] Minor Enduring)" by (simp add: id_room_def w_one_next)
  show "session_inv True mem_quads mem_st_ok (\<lambda>_. True) w_json w_top"
    unfolding w_top_def by (rule w_step(3) [OF w_one_inv room])
  show "index_of w_top = \<lparr>ix_settings = w_settings, ix_items = [(0, Entry_moved Enduring Promoted (Entry_new w_item Minor Added 0))],
     ix_next_id = 1, ix_stats = SessionStats_default\<lparr>items_added := 1, items_promoted := 1\<rparr>\<rparr>"
    unfolding w_top_def w_step(2) [OF w_one_inv room]
    by (simp add: map_res_def eval_index ix_promoted_def SessionStats_default_def)
qed

lemma w_top_covered: "covered mem_quads mem_st_ok (\<lambda>_. True) w_json w_top"
  using w_top_inv by (rule session_inv_covered)

lemma w_top_items: "s_items w_top = [(0, Entry_moved Enduring Promoted (Entry_new w_item Minor Added 0))]"
  and w_top_settings: "s_settings w_top = w_settings"
  using arg_cong [OF w_top_index, of ix_items] arg_cong [OF w_top_index, of ix_settings] by simp_all

theorem evict_demote_result_witness:
  "bt_get (s_items (snd (Session_evict w_env (\<lambda>k. k) Enduring (Demote [0] Major) w_top))) 0
     = Some (Entry_moved Major Demoted (Entry_moved Enduring Promoted (Entry_new w_item Minor Added 0)))"
proof -
  let ?run = "Session_evict w_env (\<lambda>k. k) Enduring (Demote [0] Major)"
  have "fst (ix_evict w_f64 (\<lambda>k. k) Enduring (Demote [0] Major) (index_of w_top)) = Inr 1"
    by (simp add: eval_index w_top_index)
  then have run: "?run w_top = (Inr 1, snd (?run w_top))"
    by (intro w_outcome [OF mem_session.evict_implements _ w_top_inv]) simp
  have "room_for w_top Major (card (set [0]))"
    by (auto simp: room_for_def Session_item_count_def w_top_items w_top_settings w_settings_def scope_entries_def scope_le_iff
        Entry_moved_def Entry_new_def)
  moreover have "bt_get (s_items w_top) 0 = Some (Entry_moved Enduring Promoted (Entry_new w_item Minor Added 0))"
    by (simp add: w_top_items bt_get_def)
  ultimately show ?thesis using evict_demote_result [OF w_contract _ run] w_top_covered by simp
qed

text \<open>
  The eviction order: under the policy an item goes before another if its key is smaller,
  and on equal keys if its id is, so that eviction is deterministic.
\<close>

definition evicted_before :: "F64Ops \<Rightarrow> EvictionPolicy \<Rightarrow> Instant \<Rightarrow> ItemId \<times> Entry \<Rightarrow> ItemId \<times> Entry \<Rightarrow> bool" where
  "evicted_before F policy now p q =
     (case policy of
        Lru \<Rightarrow> e_last_touch (snd p) < e_last_touch (snd q)
          \<or> e_last_touch (snd p) = e_last_touch (snd q) \<and> fst p < fst q
      | Lfu \<Rightarrow> e_accesses (snd p) < e_accesses (snd q) \<or> e_accesses (snd p) = e_accesses (snd q) \<and> fst p < fst q
      | RecencyWeighted hl \<Rightarrow>
          (let wp = f64_total_key (Entry_weight_at F (snd p) now hl); wq = f64_total_key (Entry_weight_at F (snd q) now hl)
           in wp < wq \<or> wp = wq \<and> fst p < fst q))"

lemma insort_key_lex:
  "sorted_wrt (\<lambda>p q. f p < f q \<or> f p = f q \<and> fst p < fst q) ys \<Longrightarrow> \<forall>y\<in>set ys. fst x < fst y \<Longrightarrow>
     sorted_wrt (\<lambda>p q. f p < f q \<or> f p = f q \<and> fst p < fst q) (insort_key f x ys)"
  for f :: "'k::linorder \<times> 'v \<Rightarrow> 'b::linorder"
  by (induction ys) (auto simp: set_insort_key)

lemma sort_by_key_lex:
  "sorted_wrt (<) (map fst xs) \<Longrightarrow> sorted_wrt (\<lambda>p q. f p < f q \<or> f p = f q \<and> fst p < fst q) (sort_by_key f xs)"
  for f :: "'k::linorder \<times> 'v \<Rightarrow> 'b::linorder"
  by (induction xs) (auto simp: sort_by_key_def intro!: insort_key_lex)

lemma sorted_take_split:
  "sorted_wrt R xs \<Longrightarrow> p \<in> set (take n xs) \<Longrightarrow> q \<in> set xs - set (take n xs) \<Longrightarrow> R p q"
  by (metis Diff_iff UnE append_take_drop_id set_append sorted_wrt_append)

lemma victims_ordered:
  assumes "bt_wf items"
  shows "\<exists>xs. victims F policy now items sc n = map fst (take n xs) \<and> set xs = set (scope_entries items sc)
    \<and> sorted_wrt (evicted_before F policy now) xs"
proof -
  have srt: "sorted_wrt (<) (map fst (scope_entries items sc))"
    using assms sorted_wrt_filter_map_fst [of "(<)" items] by (simp add: scope_entries_def bt_wf_def)
  show ?thesis
  proof (cases policy)
    case Lru
    then show ?thesis using sort_by_key_lex [OF srt, of "\<lambda>p. e_last_touch (snd p)"]
      by (intro exI [of _ "sort_by_key (\<lambda>p. e_last_touch (snd p)) (scope_entries items sc)"])
        (simp add: victims_def evicted_before_def [abs_def])
  next
    case Lfu
    then show ?thesis using sort_by_key_lex [OF srt, of "\<lambda>p. e_accesses (snd p)"]
      by (intro exI [of _ "sort_by_key (\<lambda>p. e_accesses (snd p)) (scope_entries items sc)"])
        (simp add: victims_def evicted_before_def [abs_def])
  next
    case (RecencyWeighted hl)
    then show ?thesis using sort_by_key_lex [OF srt, of "\<lambda>p. f64_total_key (Entry_weight_at F (snd p) now hl)"]
      by (intro exI [of _ "sort_by_key (\<lambda>p. f64_total_key (Entry_weight_at F (snd p) now hl)) (scope_entries items sc)"])
        (simp add: victims_def evicted_before_def [abs_def] Let_def)
  qed
qed

text \<open>
  C17. The items a policy chooses to evict from a scope come first in the eviction order:
  every item of the scope that is spared comes after every victim, ties going by id. As
  many items are chosen as were asked for, or all of them if there are fewer.
\<close>

theorem victims_come_first:
  assumes "covered quads_of st_ok accepts (env_json E) s"
    and "bt_get (s_items s) i = Some e" "i \<in> set (Session_victims E now s sc n)"
    and "bt_get (s_items s) j = Some e'" "e_scope e' = sc" "j \<notin> set (Session_victims E now s sc n)"
  shows "evicted_before (env_f64 E) (set_eviction_policy (s_settings s)) now (i, e) (j, e')
    \<and> length (Session_victims E now s sc n) = min n (Session_item_count s sc)"
proof -
  let ?F = "env_f64 E" and ?pol = "set_eviction_policy (s_settings s)"
  have wf: "bt_wf (s_items s)" using index_wf_items [OF covered_index_wf [OF assms(1)]] by simp
  obtain xs where xs: "Session_victims E now s sc n = map fst (take n xs)"
    "set xs = set (scope_entries (s_items s) sc)" "sorted_wrt (evicted_before ?F ?pol now) xs"
    using victims_ordered [OF wf, of ?F ?pol now sc n] by (auto simp: Session_victims_def)
  obtain e0 where i: "(i, e0) \<in> set (take n xs)" using assms(3) by (auto simp: xs(1))
  have "(i, e0) \<in> set (s_items s)" using in_set_takeD [OF i] xs(2) by (simp add: scope_entries_def)
  then have "(i, e) \<in> set (take n xs)" using i assms(2) wf by (simp add: bt_get_iff [symmetric])
  moreover have "(j, e') \<in> set xs" using assms(4,5) wf xs(2) by (simp add: scope_entries_def bt_get_iff)
  moreover have "(j, e') \<notin> set (take n xs)" using assms(6) by (force simp: xs(1))
  ultimately show ?thesis using sorted_take_split [OF xs(3)]
    by (simp add: victims_length Session_victims_def Session_item_count_def)
qed

text \<open>A concrete session with two items.\<close>

definition w_two :: "MemStore Session" where
  "w_two = snd (run_op w_env (\<lambda>k. k) (OpAdd Minor w_item) w_one)"

lemma w_two_items: "s_items w_two = [(0, Entry_new w_item Minor Added 0), (1, Entry_new w_item Minor Added 0)]"
  and w_two_settings: "s_settings w_two = w_settings" and w_two_next: "s_next_id w_two = 2"
  and w_two_inv: "session_inv True mem_quads mem_st_ok (\<lambda>_. True) w_json w_two"
proof -
  have room: "id_room (s_next_id w_one) (OpAdd Minor w_item)" by (simp add: id_room_def w_one_next)
  show "session_inv True mem_quads mem_st_ok (\<lambda>_. True) w_json w_two"
    unfolding w_two_def by (rule w_step(3) [OF w_one_inv room])
  have "index_of w_two = snd (ix_run_op w_f64 (\<lambda>k. k) (OpAdd Minor w_item) (index_of w_one))"
    unfolding w_two_def by (rule w_step(2) [OF w_one_inv room])
  then have "index_of w_two = \<lparr>ix_settings = w_settings, ix_items = [(0, Entry_new w_item Minor Added 0), (1, Entry_new w_item Minor Added 0)],
     ix_next_id = 2, ix_stats = SessionStats_default\<lparr>items_added := 2\<rparr>\<rparr>"
    by (simp add: map_res_def eval_index eval_item eval_session ix_add_def ix_add_batch_def SessionStats_default_def)
  then show "s_items w_two = [(0, Entry_new w_item Minor Added 0), (1, Entry_new w_item Minor Added 0)]"
    "s_settings w_two = w_settings" "s_next_id w_two = 2" by (simp_all add: index_of_def)
qed

lemma w_two_covered: "covered mem_quads mem_st_ok (\<lambda>_. True) w_json w_two"
  using w_two_inv by (rule session_inv_covered)

lemma w_two_victims: "Session_victims w_env now w_two Minor (Suc 0) = [0]"
  by (simp add: Session_victims_def victims_def w_two_items w_two_settings w_settings_def scope_entries_def Entry_new_def
      sort_by_key_def)

theorem victims_come_first_witness:
  "evicted_before w_f64 Lru 9 (0, Entry_new w_item Minor Added 0) (1, Entry_new w_item Minor Added 0)"
proof -
  have "bt_get (s_items w_two) 0 = Some (Entry_new w_item Minor Added 0)"
    "bt_get (s_items w_two) 1 = Some (Entry_new w_item Minor Added 0)"
    "e_scope (Entry_new w_item Minor Added 0) = Minor" by (simp_all add: w_two_items bt_get_def Entry_new_def)
  from victims_come_first [where E = w_env and s = w_two and now = 9 and sc = Minor and n = 1, OF _ this(1) _ this(2,3)]
  show ?thesis using w_two_covered by (simp add: w_two_victims w_two_settings w_settings_def)
qed

text \<open>
  C18. A successful \<open>evict\<close> by policy evicts the first items of the eviction order: the
  result is their number, each of them leaves the scope, and the other items of the scope
  and those of more durable scopes are as before.
\<close>

theorem evict_policy_result:
  assumes "storage_contract (env_storage E) quads_of view st_ok tx_ok writable"
    and "covered quads_of st_ok (\<lambda>_. True) (env_json E) s"
    and "Session_evict E clk sc (Policy k) s = (Inr n, t)"
  shows "n = min k (Session_item_count s sc)
    \<and> (\<forall>j\<in>set (Session_victims E (clk 0) s sc k). \<exists>e. bt_get (s_items s) j = Some e \<and> e_scope e = sc
         \<and> (\<forall>e'. bt_get (s_items t) j = Some e' \<longrightarrow> e_item e' = e_item e \<and> e_scope e' < sc \<and> e_arrival e' = Demoted))
    \<and> (\<forall>j e. bt_get (s_items s) j = Some e \<longrightarrow> sc \<le> e_scope e \<longrightarrow> j \<notin> set (Session_victims E (clk 0) s sc k) \<longrightarrow>
         bt_get (s_items t) j = Some e)"
proof -
  let ?x = "index_of s" and ?V = "Session_victims E (clk 0) s sc k" and ?dt = "set_demotion_target (s_settings s)"
  have V: "ix_victims (env_f64 E) (clk 0) ?x sc k = ?V" by (simp add: ix_victims_def Session_victims_def)
  have wf: "index_wf ?x" using assms(2) by (rule covered_index_wf)
  have ix: "ix_evict (env_f64 E) clk sc (Policy k) ?x = (Inr n, index_of t)" by (rule evict_value [OF assms])
  obtain y where n: "n = min k (card (in_scope ?x sc))" and left: "ix_left sc (set ?V) ?x y"
    and after: "case colder sc of None \<Rightarrow> index_of t = y | Some c \<Rightarrow> cooled c y (index_of t)"
    using ix_policy_works [OF wf, of "env_f64 E" clk sc k] ix unfolding V
    by (auto split: option.splits)
  have get: "bt_get (ix_items y) j = (if j \<in> set ?V then Option.bind (bt_get (s_items s) j) (evicted ?dt sc)
      else bt_get (s_items s) j)" for j using left by (simp add: ix_left_def)
  have V_in: "\<exists>e. bt_get (s_items s) j = Some e \<and> e_scope e = sc" if "j \<in> set ?V" for j
    using ix_victims_live [OF wf, of j "env_f64 E" "clk 0" sc k] that by (simp add: V in_scope_iff)
  have victim: "e_item e' = e_item e \<and> e_scope e' < sc \<and> e_arrival e' = Demoted"
    if "j \<in> set ?V" "bt_get (s_items s) j = Some e" "bt_get (s_items t) j = Some e'" for j e e'
  proof -
    have "\<exists>e1. bt_get (ix_items y) j = Some e1 \<and> e_item e' = e_item e1 \<and> (e' = e1 \<or> e_scope e' < e_scope e1 \<and> e_arrival e' = Demoted)"
      using after that(3) by (auto simp: cooled_def split: option.splits) (metis option.inject)
    then show ?thesis using that(1,2) evicted_scope colder_less by (fastforce simp: get)
  qed
  have spared: "bt_get (s_items t) j = Some e"
    if "bt_get (s_items s) j = Some e" "sc \<le> e_scope e" "j \<notin> set ?V" for j e
  proof (cases "colder sc")
    case (Some c)
    then have "c < e_scope e" using colder_less that(2) by fastforce
    then show ?thesis using cooled_hotter_get [of c y "index_of t" j e] after Some that by (simp add: get)
  qed (use after that get [of j] in auto)
  from n V_in victim spared show ?thesis
    using item_count_in_scope [of s sc] index_wf_items [OF wf] by simp (metis)
qed

lemma w_two_policy:
  "Session_evict w_env (\<lambda>k. k) Minor (Policy 1) w_two
    = (Inr 1, snd (Session_evict w_env (\<lambda>k. k) Minor (Policy 1) w_two))"
proof (rule w_outcome [OF mem_session.evict_implements _ w_two_inv])
  have "ix_victims w_f64 0 (index_of w_two) Minor 1 = [0]"
    using w_two_victims [of 0] by (simp add: ix_victims_def Session_victims_def)
  then show "fst (ix_evict (env_f64 w_env) (\<lambda>k. k) Minor (Policy 1) (index_of w_two)) = Inr 1"
    by (simp add: ix_evict_def ix_evict_victim_def demote_target_def ix_drop_def try_bind_def w_two_items w_two_settings
        w_settings_def bt_get_def Entry_new_def)
qed

theorem evict_policy_result_witness:
  "bt_get (s_items (snd (Session_evict w_env (\<lambda>k. k) Minor (Policy 1) w_two))) 1 = Some (Entry_new w_item Minor Added 0)"
proof -
  have e: "bt_get (s_items w_two) 1 = Some (Entry_new w_item Minor Added 0)" "Minor \<le> e_scope (Entry_new w_item Minor Added 0)"
    "1 \<notin> set (Session_victims w_env ((\<lambda>k. k) 0) w_two Minor 1)"
    by (simp_all add: w_two_items bt_get_def Entry_new_def w_two_victims)
  from evict_policy_result [OF w_contract _ w_two_policy] w_two_covered e show ?thesis by (metis w_env_sel(2))
qed

definition after_eviction :: "DemotionTarget \<Rightarrow> ContextScope \<Rightarrow> Entry \<Rightarrow> Entry option" where
  "after_eviction dt sc e =
     (if dt = Drop \<or> dt = OneStepThenDrop \<and> e_arrival e \<noteq> Promoted then None
      else case sc of Minor \<Rightarrow> None | Major \<Rightarrow> Some (Entry_moved Minor Demoted e) | Enduring \<Rightarrow> Some (Entry_moved Major Demoted e))"

lemma evicted_after: "evicted dt sc e = after_eviction dt sc e"
  by (cases dt; cases sc; cases "e_arrival e") (simp_all add: evicted_def after_eviction_def demote_target_def)

text \<open>
  Where a victim goes. With no bounds on the colder scopes, eviction by policy leaves
  every item that is not a victim alone, and treats a victim as the configured demotion
  target says: \<open>Drop\<close> removes it, \<open>NextColder\<close> moves it to the next colder scope, and
  \<open>OneStepThenDrop\<close> does so only for an item that came to its scope by promotion and removes
  any other, so that a demoted item is removed when its turn comes again. From the coldest
  scope every victim is removed.
\<close>

theorem evict_policy_targets:
  assumes "storage_contract (env_storage E) quads_of view st_ok tx_ok writable"
    and "covered quads_of st_ok (\<lambda>_. True) (env_json E) s"
    and "Session_evict E clk sc (Policy k) s = (Inr n, t)"
    and "\<forall>c. c < sc \<longrightarrow> ScopeBounds_get (set_bounds (s_settings s)) c = None"
  shows "bt_get (s_items t) j =
    (if j \<in> set (Session_victims E (clk 0) s sc k)
     then Option.bind (bt_get (s_items s) j) (after_eviction (set_demotion_target (s_settings s)) sc)
     else bt_get (s_items s) j)"
proof -
  let ?x = "index_of s" and ?V = "Session_victims E (clk 0) s sc k"
  have V: "ix_victims (env_f64 E) (clk 0) ?x sc k = ?V" by (simp add: ix_victims_def Session_victims_def)
  have wf: "index_wf ?x" using assms(2) by (rule covered_index_wf)
  have ix: "ix_evict (env_f64 E) clk sc (Policy k) ?x = (Inr n, index_of t)" by (rule evict_value [OF assms(1-3)])
  have dist: "distinct ?V" "set ?V \<subseteq> in_scope ?x sc"
    using ix_victims_distinct [OF wf] ix_victims_live [OF wf] V by (metis, metis subsetI)
  obtain y where y: "for_each (ix_evict_victim sc) ?V ?x = (Inr (), y)" "index_wf y" "same_frame ?x y"
    "\<And>j. bt_get (ix_items y) j = (if j \<in> set ?V then Option.bind (bt_get (s_items s) j)
        (after_eviction (set_demotion_target (s_settings s)) sc) else bt_get (s_items s) j)"
    using ix_evict_victims_works [OF wf dist] unfolding evicted_after [abs_def] index_of_sel by blast
  have "ix_enforce (env_f64 E) clk 1 c y = (Inr (), y)" if "colder sc = Some c" for c
  proof (rule ix_enforce_idle [OF y(2)])
    have "d < sc" if "d \<le> c" for d using colder_less [OF \<open>colder sc = Some c\<close>] that by simp
    then show "\<forall>d\<le> c. bounded y d" using assms(4) y(3) by (simp add: bounded_def same_frame_def)
  qed
  then have "index_of t = y" using ix y(1) V
    by (cases "colder sc") (simp_all add: ix_evict_def try_bind_def Let_def)
  then show ?thesis using y(4) [of j] by (metis index_of_sel(2))
qed

theorem evict_policy_targets_witness:
  "bt_get (s_items (snd (Session_evict w_env (\<lambda>k. k) Minor (Policy 1) w_two))) 0 = None"
proof -
  let ?run = "Session_evict w_env (\<lambda>k. k) Minor (Policy 1)"
  have run: "?run w_two = (Inr 1, snd (?run w_two))" by (rule w_two_policy)
  have "\<forall>c. c < Minor \<longrightarrow> ScopeBounds_get (set_bounds (s_settings w_two)) c = None" by (simp add: scope_less_iff)
  from evict_policy_targets [OF w_contract _ run this, of 0] w_two_covered show ?thesis
    by (simp add: w_two_victims w_two_items bt_get_def after_eviction_def)
qed

end
