(* ===== verification/Session_Answers.thy ===== *)
theory Session_Answers
  imports Session_Behaviour
begin

text \<open>
  What a pattern query answers, which entries it touches and which items it promotes.
\<close>

section \<open>Answers\<close>

text \<open>The ids of the items of the queried scopes that have a triple matching the pattern.\<close>

definition answer_ids :: "'st Session \<Rightarrow> ContextQuery \<Rightarrow> QuadPattern \<Rightarrow> ItemId set" where
  "answer_ids s query p = {i. \<exists>e. bt_get (s_items s) i = Some e \<and> e_scope e \<in> set (scopes_listed (qy_scopes query))
     \<and> (\<exists>t\<in>set (triples_of (e_item e)). matches_pattern t (pat_subject p) (pat_predicate p) (pat_object p) None)}"

text \<open>The order of the answer: by scope, in the order the query names them, then by id.\<close>

definition scope_pos :: "ContextScope list \<Rightarrow> ContextScope \<Rightarrow> nat" where
  "scope_pos scopes c = length (takeWhile (\<lambda>d. d \<noteq> c) scopes)"

definition hit_before :: "ContextScope list \<Rightarrow> ItemId \<times> ContextScope \<Rightarrow> ItemId \<times> ContextScope \<Rightarrow> bool" where
  "hit_before scopes a b \<longleftrightarrow> scope_pos scopes (snd a) < scope_pos scopes (snd b) \<or> snd a = snd b \<and> fst a < fst b"

lemma item_matches_ne:
  "item_matches p it \<noteq> [] \<longleftrightarrow> (\<exists>t\<in>set (triples_of it). matches_pattern t (pat_subject p) (pat_predicate p) (pat_object p) None)"
  by (auto simp: item_matches_def filter_empty_conv)

lemma all_hits_ids:
  assumes "bt_wf (s_items s)"
  shows "fst ` set (concat (map (hits_in p (s_items s)) (ScopeSelection_scopes (qy_scopes query)))) = answer_ids s query p"
proof (intro set_eqI)
  fix i
  have "i \<in> fst ` set (concat (map (hits_in p (s_items s)) (ScopeSelection_scopes (qy_scopes query)))) \<longleftrightarrow>
      (\<exists>sc\<in>set (scopes_listed (qy_scopes query)). \<exists>c. (i, c) \<in> set (hits_in p (s_items s) sc))" by force
  also have "\<dots> \<longleftrightarrow> i \<in> answer_ids s query p"
    by (auto simp: set_hits_in [OF assms] answer_ids_def item_matches_ne)
  finally show "i \<in> fst ` set (concat (map (hits_in p (s_items s)) (ScopeSelection_scopes (qy_scopes query)))) \<longleftrightarrow>
      i \<in> answer_ids s query p" .
qed

lemma hits_in_scope: "h \<in> set (hits_in p items sc) \<Longrightarrow> snd h = sc"
  by (auto simp: hits_in_def)

lemma hits_in_sorted:
  "bt_wf items \<Longrightarrow> sorted_wrt (\<lambda>a b. snd a = snd b \<and> fst a < fst b) (hits_in p items sc)"
  by (auto simp: hits_in_def scope_entries_def bt_wf_def sorted_wrt_map sorted_wrt_filter case_prod_unfold)

lemma scope_pos_skip: "c \<noteq> d \<Longrightarrow> scope_pos (d # scs) c = Suc (scope_pos scs c)"
  by (simp add: scope_pos_def)

lemma hits_sorted:
  assumes "bt_wf items" "distinct scs"
  shows "sorted_wrt (hit_before scs) (concat (map (hits_in p items) scs))"
  using assms(2)
proof (induction scs)
  case (Cons sc scs)
  let ?rest = "concat (map (hits_in p items) scs)"
  have rest: "snd b \<in> set scs" if "b \<in> set ?rest" for b
    using that hits_in_scope by fastforce
  have "sorted_wrt (hit_before (sc # scs)) ?rest"
  proof (rule sorted_wrt_mono_rel [rotated])
    show "sorted_wrt (hit_before scs) ?rest" using Cons by simp
    fix a b
    assume ab: "a \<in> set ?rest" "b \<in> set ?rest" "hit_before scs a b"
    have "snd a \<noteq> sc" "snd b \<noteq> sc" using rest [OF ab(1)] rest [OF ab(2)] Cons.prems by auto
    then show "hit_before (sc # scs) a b" using ab(3) by (auto simp: hit_before_def scope_pos_skip)
  qed
  moreover have "sorted_wrt (hit_before (sc # scs)) (hits_in p items sc)"
    using hits_in_sorted [OF assms(1)] by (rule sorted_wrt_mono_rel [rotated]) (simp add: hit_before_def)
  moreover have "hit_before (sc # scs) a b" if "a \<in> set (hits_in p items sc)" "b \<in> set ?rest" for a b
  proof -
    have "snd a = sc" using that(1) by (rule hits_in_scope)
    moreover have "snd b \<noteq> sc" using rest [OF that(2)] Cons.prems by auto
    ultimately show ?thesis by (simp add: hit_before_def scope_pos_def)
  qed
  ultimately show ?case by (simp add: sorted_wrt_append)
qed simp

lemma query_hits_sorted:
  assumes "bt_wf items"
  shows "sorted_wrt (hit_before (ScopeSelection_scopes (qy_scopes query))) (query_hits query p items)"
  using hits_sorted [OF assms scopes_distinct]
  by (auto simp: query_hits_def truncate_hits_def sorted_wrt_take split: option.split)

lemma query_hits_length:
  assumes "bt_wf (s_items s)"
  shows "length (query_hits query p (s_items s)) =
    (case qy_limit query of None \<Rightarrow> card (answer_ids s query p) | Some n \<Rightarrow> min n (card (answer_ids s query p)))"
proof -
  let ?all = "concat (map (hits_in p (s_items s)) (ScopeSelection_scopes (qy_scopes query)))"
  have "length ?all = card (answer_ids s query p)"
    using distinct_card [OF distinct_all_hits [OF assms scopes_distinct]] all_hits_ids [OF assms, of p query]
    by (metis length_map set_map)
  then show ?thesis by (auto simp: query_hits_def truncate_hits_def min.commute split: option.split)
qed

lemma query_result_split:
  assumes "storage_contract (env_storage E) quads_of view st_ok tx_ok writable"
    and "covered quads_of st_ok (\<lambda>_. True) (env_json E) s"
    and "Session_query E clk query s = (Inr res, t)" "qy_kind query = Pattern p"
  shows "\<exists>y n. res = \<lparr>res_items = map (ranked (s_items s)) (query_hits query p (s_items s)),
            res_query_stats = \<lparr>scopes_consulted = length (ScopeSelection_scopes (qy_scopes query)),
              quads_matched = sum_list (map (matched_in p (s_items s)) (ScopeSelection_scopes (qy_scopes query))),
              auto_promoted = n\<rparr>\<rparr>
    \<and> ix_served (env_f64 E) (clk 0) (query_hits query p (s_items s)) (index_of s) y
    \<and> (if cadence (set_promotion (s_settings s)) = AfterEachQuery
       then ix_auto_promote (env_f64 E) clk 1 (clk 0) y = (Inr n, index_of t) else n = 0 \<and> index_of t = y)"
proof -
  have wf: "index_wf (index_of s)" using assms(2) by (rule covered_index_wf)
  have q: "ix_query (env_f64 E) clk query (index_of s) = (Inr res, index_of t)" by (rule query_value [OF assms(1-3)])
  then have "qy_reasoner_hint query = None" using assms(4) by (auto simp: ix_query_def split: if_splits)
  then have "ix_run_pattern (env_f64 E) clk query p (index_of s) = (Inr res, index_of t)"
    using q assms(4) by (simp add: ix_query_def)
  with ix_run_pattern_works [OF wf, of "env_f64 E" clk query p] show ?thesis
    unfolding index_of_sel by (elim exE conjE) (metis (no_types, lifting) Pair_inject sum.inject(2))
qed

lemma ranked_sel:
  "ri_id (ranked items h) = fst h" "ri_source_scope (ranked items h) = snd h"
  "ri_item (ranked items h) = e_item (the (bt_get items (fst h)))"
  by (simp_all add: ranked_def)

text \<open>
  C12. A pattern query answers with the items of the queried scopes that have a matching
  triple, each once, with the scope it is in: all of them, or as many as the limit allows,
  ordered by scope in the order the query names them and then by id.
\<close>

theorem query_answers:
  assumes "storage_contract (env_storage E) quads_of view st_ok tx_ok writable"
    and "covered quads_of st_ok (\<lambda>_. True) (env_json E) s"
    and "Session_query E clk query s = (Inr res, t)" "qy_kind query = Pattern p"
  shows "(\<forall>r\<in>set (res_items res). ri_id r \<in> answer_ids s query p
        \<and> (\<exists>e. bt_get (s_items s) (ri_id r) = Some e \<and> ri_item r = e_item e \<and> ri_source_scope r = e_scope e))
    \<and> length (res_items res) =
        (case qy_limit query of None \<Rightarrow> card (answer_ids s query p) | Some n \<Rightarrow> min n (card (answer_ids s query p)))
    \<and> sorted_wrt (hit_before (ScopeSelection_scopes (qy_scopes query)))
        (map (\<lambda>r. (ri_id r, ri_source_scope r)) (res_items res))
    \<and> distinct (map ri_id (res_items res))"
proof -
  let ?hits = "query_hits query p (s_items s)"
  have wf: "bt_wf (s_items s)" using index_wf_items [OF covered_index_wf [OF assms(2)]] by simp
  have items: "res_items res = map (ranked (s_items s)) ?hits" using query_result_split [OF assms] by auto
  have each: "ri_id r \<in> answer_ids s query p
      \<and> (\<exists>e. bt_get (s_items s) (ri_id r) = Some e \<and> ri_item r = e_item e \<and> ri_source_scope r = e_scope e)"
    if r: "r \<in> set (res_items res)" for r
  proof -
    obtain i c where ic: "(i, c) \<in> set ?hits" "r = ranked (s_items s) (i, c)" using r items by auto
    then show ?thesis using query_hits_live [OF wf ic(1)]
      by (auto simp: ranked_sel answer_ids_def item_matches_ne)
  qed
  have "map (\<lambda>r. (ri_id r, ri_source_scope r)) (res_items res) = ?hits" "map ri_id (res_items res) = map fst ?hits"
    by (simp_all add: items ranked_sel comp_def)
  moreover have "length (res_items res) = length ?hits" by (simp add: items)
  ultimately show ?thesis
    using each query_hits_sorted [OF wf, of query p] query_hits_distinct [OF wf, of query p]
      query_hits_length [OF wf, of query p] by (intro conjI) (simp_all only: simp_thms ball_simps, blast)
qed

definition w_pat :: QuadPattern where
  "w_pat = \<lparr>pat_subject = Some (NbNamed (NamedNode ''ex:a'')), pat_predicate = None, pat_object = None\<rparr>"

definition w_query :: ContextQuery where
  "w_query = ContextQuery_new All (Pattern w_pat)"

lemma w_query_kind:
  "qy_kind w_query = Pattern w_pat"
  "qy_limit w_query = None" "qy_reasoner_hint w_query = None" "qy_scopes w_query = All"
  by (simp_all add: w_query_def ContextQuery_new_def)

lemma w_query_runs:
  assumes "session_inv True mem_quads mem_st_ok (\<lambda>_. True) w_json s"
  shows "\<exists>res. Session_query w_env (\<lambda>k. k) w_query s = (Inr res, snd (Session_query w_env (\<lambda>k. k) w_query s))"
proof -
  have "index_wf (index_of s)" using assms by (rule covered_index_wf [OF session_inv_covered])
  from ix_run_pattern_works [OF this, of w_f64 "\<lambda>k. k" w_query w_pat] obtain res z where
    "ix_query w_f64 (\<lambda>k. k) w_query (index_of s) = (Inr res, z)" by (auto simp: ix_query_def w_query_kind)
  then have "Session_query w_env (\<lambda>k. k) w_query s = (Inr res, snd (Session_query w_env (\<lambda>k. k) w_query s))"
    by (intro w_outcome [OF mem_session.query_implements _ assms]) simp
  then show ?thesis ..
qed

lemma w_answer_ids:
  "answer_ids w_two w_query w_pat = {0, 1}"
  by (auto simp: answer_ids_def w_two_items bt_get_def Entry_new_def w_query_kind scopes_listed_def ContextScope_ALL_def
      triples_of_def eval_item matches_pattern_def w_pat_def split: if_splits)

theorem query_answers_witness:
  "\<exists>res. fst (Session_query w_env (\<lambda>k. k) w_query w_two) = Inr res \<and> length (res_items res) = 2"
proof -
  obtain res where run: "Session_query w_env (\<lambda>k. k) w_query w_two = (Inr res, snd (Session_query w_env (\<lambda>k. k) w_query w_two))"
    using w_query_runs [OF w_two_inv] by blast
  from query_answers [OF w_contract _ run w_query_kind(1)] w_two_covered have "length (res_items res) = 2"
    by (simp add: w_query_kind w_answer_ids)
  then show ?thesis using run by (metis fst_conv)
qed

definition item_triples :: "'st Session \<Rightarrow> QuadPattern \<Rightarrow> ItemId \<Rightarrow> Quad set" where
  "item_triples s p i = {t. \<exists>e. bt_get (s_items s) i = Some e \<and> t \<in> set (triples_of (e_item e))
     \<and> matches_pattern t (pat_subject p) (pat_predicate p) (pat_object p) None}"

lemma item_matches_card:
  "bt_get (s_items s) i = Some e \<Longrightarrow> length (item_matches p (e_item e)) = card (item_triples s p i)"
  using distinct_card [of "item_matches p (e_item e)"]
  by (simp add: item_matches_def item_triples_def)

lemma matched_in_sum:
  assumes "bt_wf (s_items s)"
  shows "matched_in p (s_items s) sc = (\<Sum>i\<in>in_scope (index_of s) sc. card (item_triples s p i))"
proof -
  let ?es = "scope_entries (s_items s) sc"
  have keys: "distinct (map fst ?es)" "set (map fst ?es) = in_scope (index_of s) sc"
    using scope_entries_keys [of "index_of s" sc] assms by simp_all
  have "map (\<lambda>(i, e). length (item_matches p (e_item e))) ?es = map (\<lambda>i. card (item_triples s p i)) (map fst ?es)"
    using assms by (auto simp: scope_entries_def bt_get_iff [symmetric] item_matches_card)
  then have "matched_in p (s_items s) sc = sum_list (map (\<lambda>i. card (item_triples s p i)) (map fst ?es))"
    by (simp only: matched_in_def)
  also have "\<dots> = (\<Sum>i\<in>in_scope (index_of s) sc. card (item_triples s p i))"
    by (simp only: sum_list_distinct_conv_sum_set [OF keys(1)] keys(2))
  finally show ?thesis .
qed

text \<open>
  The statistics of a query: the number of scopes consulted, each counted once, and
  the number of matching triples over all matching items, whatever the limit. A triple an
  item lists twice is stored once and counts once.
\<close>

theorem query_counts:
  assumes "storage_contract (env_storage E) quads_of view st_ok tx_ok writable"
    and "covered quads_of st_ok (\<lambda>_. True) (env_json E) s"
    and "Session_query E clk query s = (Inr res, t)" "qy_kind query = Pattern p"
  shows "scopes_consulted (res_query_stats res) = card (set (scopes_listed (qy_scopes query)))
    \<and> quads_matched (res_query_stats res) = (\<Sum>i\<in>answer_ids s query p. card (item_triples s p i))"
proof -
  let ?scs = "ScopeSelection_scopes (qy_scopes query)" and ?f = "\<lambda>i. card (item_triples s p i)"
  have wf: "bt_wf (s_items s)" using index_wf_items [OF covered_index_wf [OF assms(2)]] by simp
  have st: "scopes_consulted (res_query_stats res) = length ?scs"
    "quads_matched (res_query_stats res) = sum_list (map (matched_in p (s_items s)) ?scs)"
    using query_result_split [OF assms] by auto
  have fin: "finite (in_scope (index_of s) sc)" for sc using wf by (intro finite_in_scope) simp
  have "sum_list (map (matched_in p (s_items s)) ?scs) = (\<Sum>sc\<in>set ?scs. \<Sum>i\<in>in_scope (index_of s) sc. ?f i)"
    using sum_list_distinct_conv_sum_set [OF scopes_distinct, of "matched_in p (s_items s)"]
    by (simp add: matched_in_sum [OF wf])
  also have "\<dots> = (\<Sum>i\<in>(\<Union>sc\<in>set ?scs. in_scope (index_of s) sc). ?f i)"
    using fin by (subst sum.UNION_disjoint) (auto simp: in_scope_iff)
  also have "\<dots> = (\<Sum>i\<in>answer_ids s query p. ?f i)"
    using fin by (intro sum.mono_neutral_right) (auto simp: answer_ids_def in_scope_iff item_triples_def card_gt_0_iff, blast)
  finally show ?thesis using st distinct_card [OF scopes_distinct, of "qy_scopes query"] by simp
qed

theorem query_counts_witness:
  "\<exists>res. fst (Session_query w_env (\<lambda>k. k) w_query w_two) = Inr res \<and> scopes_consulted (res_query_stats res) = 3"
proof -
  obtain res where run: "Session_query w_env (\<lambda>k. k) w_query w_two = (Inr res, snd (Session_query w_env (\<lambda>k. k) w_query w_two))"
    using w_query_runs [OF w_two_inv] by blast
  from query_counts [OF w_contract _ run w_query_kind(1)] w_two_covered have "scopes_consulted (res_query_stats res) = 3"
    by (simp add: w_query_kind scopes_listed_def ContextScope_ALL_def)
  then show ?thesis using run by (metis fst_conv)
qed

section \<open>Effects\<close>

definition touched :: "('st, 'tx) Env \<Rightarrow> Instant \<Rightarrow> 'st Session \<Rightarrow> RankedItem list \<Rightarrow> ItemId \<Rightarrow> Entry option" where
  "touched E now s answer j =
     (if j \<in> ri_id ` set answer
      then map_option (Entry_touch (env_f64 E) now (minor_window (set_promotion (s_settings s)))
             (policy_half_life (set_eviction_policy (s_settings s)))) (bt_get (s_items s) j)
      else bt_get (s_items s) j)"

lemma served_touched:
  assumes "ix_served (env_f64 E) now (query_hits query p (s_items s)) (index_of s) y"
    and "answer = map (ranked (s_items s)) (query_hits query p (s_items s))"
  shows "bt_get (ix_items y) j = touched E now s answer j"
proof -
  have "ri_id ` set answer = fst ` set (query_hits query p (s_items s))"
    by (simp add: assms(2) image_image ranked_sel)
  then show ?thesis using assms(1) by (simp add: ix_served_def touched_def)
qed

text \<open>
  A query counts as an access to exactly the items it returns: with automatic
  promotion off, their access data are updated, every other entry is as before, the
  statistics count one more query, and nothing else of the index changes.
\<close>

theorem query_touches:
  assumes "storage_contract (env_storage E) quads_of view st_ok tx_ok writable"
    and "covered quads_of st_ok (\<lambda>_. True) (env_json E) s"
    and "Session_query E clk query s = (Inr res, t)" "qy_kind query = Pattern p"
    and "cadence (set_promotion (s_settings s)) \<noteq> AfterEachQuery"
  shows "(\<forall>j. bt_get (s_items t) j = touched E (clk 0) s (res_items res) j)
    \<and> s_stats t = (s_stats s)\<lparr>queries_served := add64 (queries_served (s_stats s)) 1\<rparr>
    \<and> s_next_id t = s_next_id s \<and> s_settings t = s_settings s
    \<and> auto_promoted (res_query_stats res) = 0"
proof -
  obtain y where y: "res_items res = map (ranked (s_items s)) (query_hits query p (s_items s))"
    "auto_promoted (res_query_stats res) = 0" "index_of t = y"
    "ix_served (env_f64 E) (clk 0) (query_hits query p (s_items s)) (index_of s) y"
    using query_result_split [OF assms(1-4)] assms(5) by auto
  have "\<forall>j. bt_get (ix_items (index_of t)) j = touched E (clk 0) s (res_items res) j"
    using served_touched [OF y(4) y(1)] y(3) by simp
  moreover have "ix_stats (index_of t) = (s_stats s)\<lparr>queries_served := add64 (queries_served (s_stats s)) 1\<rparr>
      \<and> ix_next_id (index_of t) = s_next_id s \<and> ix_settings (index_of t) = s_settings s"
    using y(3,4) by (simp add: ix_served_def same_frame_def)
  ultimately show ?thesis using y(2) by simp
qed

lemma session_inv_settings [simp]:
  "session_inv strict quads_of st_ok accepts J (s\<lparr>s_settings := x\<rparr>) = session_inv strict quads_of st_ok accepts J s"
  by (simp add: session_inv_def session_wf_def index_wf_def part_def [abs_def])

definition w_quiet :: "MemStore Session" where
  "w_quiet = w_two\<lparr>s_settings := w_settings\<lparr>set_promotion := PromotionConfig_default\<lparr>cadence := Never\<rparr>\<rparr>\<rparr>"

theorem query_touches_witness: "s_next_id (snd (Session_query w_env (\<lambda>k. k) w_query w_quiet)) = 2"
proof -
  let ?run = "Session_query w_env (\<lambda>k. k) w_query w_quiet"
  have inv: "session_inv True mem_quads mem_st_ok (\<lambda>_. True) w_json w_quiet" by (simp add: w_quiet_def w_two_inv)
  then obtain res where run: "?run = (Inr res, snd ?run)" using w_query_runs by blast
  have "cadence (set_promotion (s_settings w_quiet)) \<noteq> AfterEachQuery" by (simp add: w_quiet_def)
  from query_touches [OF w_contract _ run w_query_kind(1) this] session_inv_covered [OF inv]
  show ?thesis by (simp add: w_quiet_def w_two_next)
qed

section \<open>Automatic promotion\<close>

text \<open>The number of other live items that cite an item as a source.\<close>

definition citations :: "'st Session \<Rightarrow> ItemId \<Rightarrow> nat" where
  "citations s j = card {i. i \<noteq> j \<and> (\<exists>e. bt_get (s_items s) i = Some e \<and> j \<in> set (derived_from (provenance (e_item e))))}"

lemma references_citations:
  assumes "bt_wf items" "\<And>i. map_option e_item (bt_get items i) = map_option e_item (bt_get (s_items s) i)"
  shows "references items j = citations s j"
proof -
  let ?P = "\<lambda>(i, e). i \<noteq> j \<and> j \<in> set (derived_from (provenance (e_item e)))"
  have "references items j = length (map fst (filter ?P items))" by (simp add: references_count)
  also have "\<dots> = card (set (map fst (filter ?P items)))" using filtered_keys(1) [OF assms(1)] by (rule distinct_card [symmetric])
  also have "set (map fst (filter ?P items)) =
      {i. i \<noteq> j \<and> (\<exists>e. bt_get (s_items s) i = Some e \<and> j \<in> set (derived_from (provenance (e_item e))))}"
  proof (intro set_eqI)
    fix i
    have "(\<exists>e. bt_get items i = Some e \<and> ?P (i, e)) \<longleftrightarrow> (\<exists>e. bt_get (s_items s) i = Some e \<and> ?P (i, e))"
      using assms(2) [of i] by (cases "bt_get items i"; cases "bt_get (s_items s) i") auto
    then show "i \<in> set (map fst (filter ?P items)) \<longleftrightarrow>
        i \<in> {i. i \<noteq> j \<and> (\<exists>e. bt_get (s_items s) i = Some e \<and> j \<in> set (derived_from (provenance (e_item e))))}"
      unfolding filtered_keys(2) [OF assms(1)] by auto
  qed
  finally show ?thesis by (simp add: citations_def)
qed

text \<open>Where automatic promotion puts an entry: one scope up if its threshold is passed.\<close>

definition promotion :: "PromotionConfig \<Rightarrow> Instant \<Rightarrow> nat \<Rightarrow> Entry \<Rightarrow> Entry" where
  "promotion cfg now cites e =
     (if e_scope e = Major \<and> major_to_enduring_references cfg < cites then Entry_moved Enduring Promoted e
      else if e_scope e = Minor \<and> minor_to_major_accesses cfg < in_window cfg now e then Entry_moved Major Promoted e
      else e)"

lemma auto_moved_promotion:
  assumes "ix_auto_moved cfg now x y" "bt_wf (ix_items x)"
  shows "bt_get (ix_items y) j = map_option (promotion cfg now (references (ix_items x) j)) (bt_get (ix_items x) j)"
  using assms by (cases "bt_get (ix_items x) j")
    (auto simp: ix_auto_moved_def promotion_def to_enduring_iff to_major_iff)

lemma auto_promote_unbounded:
  assumes "index_wf x" "\<forall>c. ScopeBounds_get (set_bounds (ix_settings x)) c = None"
  shows "\<exists>y. ix_auto_promote F clk k now x =
      (Inr (length (to_enduring (set_promotion (ix_settings x)) (ix_items x))
          + length (to_major (set_promotion (ix_settings x)) now (ix_items x))), y)
    \<and> ix_auto_moved (set_promotion (ix_settings x)) now x y"
proof -
  let ?cfg = "set_promotion (ix_settings x)"
  let ?en = "to_enduring ?cfg (ix_items x)" and ?ma = "to_major ?cfg now (ix_items x)"
  obtain y1 y where y: "ix_move_all Enduring Promoted ?en x = (Inr (), y1)"
    "ix_move_all Major Promoted ?ma y1 = (Inr (), y)" "ix_auto_moved ?cfg now x y"
    using ix_auto_moves [OF assms(1)] by blast
  let ?y = "ix_promoted (length ?en + length ?ma) y"
  have ym: "ix_auto_moved ?cfg now x (ix_promoted n y)" for n using y(3) by simp
  then have ywf: "index_wf (ix_promoted n y)" and b: "\<forall>c. bounded (ix_promoted n y) c" for n
    using assms(2) by (auto simp: ix_auto_moved_def bounded_def same_frame_def)
  have "ix_enforce F clk k c (ix_promoted n y) = (Inr (), ix_promoted n y)" for c n
    by (rule ix_enforce_idle [OF ywf]) (use b in blast)
  then have "ix_auto_promote F clk k now x = (Inr (length ?en + length ?ma), ?y)"
    using y(1,2) by (simp add: ix_auto_promote_def Let_def try_bind_def)
  then show ?thesis using ym by blast
qed

text \<open>
  C20. Automatic promotion after a query. With no bounds configured, an item of the major
  scope moves to the enduring one exactly if more live items cite it than the threshold
  says, an item of the minor scope moves to the major one exactly if it was accessed more
  often within the window than its threshold says, the query's own access included, and
  every other entry is only touched. An item moves by one scope at a time.
\<close>

theorem auto_promotion_thresholds:
  assumes "storage_contract (env_storage E) quads_of view st_ok tx_ok writable"
    and "covered quads_of st_ok (\<lambda>_. True) (env_json E) s"
    and "Session_query E clk query s = (Inr res, t)" "qy_kind query = Pattern p"
    and "cadence (set_promotion (s_settings s)) = AfterEachQuery"
    and "\<forall>c. ScopeBounds_get (set_bounds (s_settings s)) c = None"
  shows "bt_get (s_items t) j = map_option (promotion (set_promotion (s_settings s)) (clk 0) (citations s j))
           (touched E (clk 0) s (res_items res) j)"
proof -
  let ?cfg = "set_promotion (s_settings s)"
  obtain y n where y: "res_items res = map (ranked (s_items s)) (query_hits query p (s_items s))"
    "ix_served (env_f64 E) (clk 0) (query_hits query p (s_items s)) (index_of s) y"
    "ix_auto_promote (env_f64 E) clk 1 (clk 0) y = (Inr n, index_of t)"
    using query_result_split [OF assms(1-4)] assms(5) by auto
  have fr: "index_wf y" "ix_settings y = s_settings s" using y(2) by (simp_all add: ix_served_def same_frame_def)
  have get: "bt_get (ix_items y) i = touched E (clk 0) s (res_items res) i" for i
    by (rule served_touched [OF y(2,1)])
  have "map_option e_item (bt_get (ix_items y) i) = map_option e_item (bt_get (s_items s) i)" for i
    by (cases "bt_get (s_items s) i") (simp_all add: get touched_def)
  then have refs: "references (ix_items y) j = citations s j" using fr(1) by (intro references_citations) auto
  have "ix_auto_moved ?cfg (clk 0) y (index_of t)"
    using auto_promote_unbounded [OF fr(1), of "env_f64 E" clk 1 "clk 0"] y(3) assms(6) by (auto simp: fr(2))
  from auto_moved_promotion [OF this, of j] show ?thesis using fr(1) get refs by auto
qed

definition w_free :: "MemStore Session" where
  "w_free = w_two\<lparr>s_settings := w_settings\<lparr>set_bounds := \<lparr>enduring_max_items = None, major_max_items = None, minor_max_items = None\<rparr>,
     set_promotion := PromotionConfig_default\<lparr>minor_to_major_accesses := 0\<rparr>\<rparr>\<rparr>"

lemma unlimited_answer_ids:
  assumes "storage_contract (env_storage E) quads_of view st_ok tx_ok writable"
    and "covered quads_of st_ok (\<lambda>_. True) (env_json E) s"
    and "Session_query E clk query s = (Inr res, t)" "qy_kind query = Pattern p" "qy_limit query = None"
  shows "ri_id ` set (res_items res) = answer_ids s query p"
proof -
  have wf: "bt_wf (s_items s)" using index_wf_items [OF covered_index_wf [OF assms(2)]] by simp
  have "res_items res = map (ranked (s_items s)) (query_hits query p (s_items s))"
    using query_result_split [OF assms(1-4)] by auto
  then have "ri_id ` set (res_items res) = fst ` set (query_hits query p (s_items s))"
    by (simp add: image_image ranked_sel)
  then show ?thesis using all_hits_ids [OF wf, of p query] assms(5) by (simp add: query_hits_def truncate_hits_def)
qed

theorem auto_promotion_thresholds_witness:
  "map_option e_scope (bt_get (s_items (snd (Session_query w_env (\<lambda>k. k) w_query w_free))) 0) = Some Major"
proof -
  let ?run = "Session_query w_env (\<lambda>k. k) w_query w_free"
  have inv: "session_inv True mem_quads mem_st_ok (\<lambda>_. True) w_json w_free" by (simp add: w_free_def w_two_inv)
  note cov = session_inv_covered [OF inv]
  obtain res where run: "?run = (Inr res, snd ?run)" using inv w_query_runs by blast
  have cfg: "cadence (set_promotion (s_settings w_free)) = AfterEachQuery"
    "\<forall>c. ScopeBounds_get (set_bounds (s_settings w_free)) c = None"
    by (simp add: w_free_def PromotionConfig_default_def)
      (rule allI, rename_tac c, case_tac c, simp_all add: w_free_def)
  have "answer_ids w_free w_query w_pat = {0, 1}" using w_answer_ids by (simp add: answer_ids_def w_free_def)
  then have ids: "ri_id ` set (res_items res) = {0, 1}"
    using unlimited_answer_ids [OF w_contract _ run w_query_kind(1,2)] cov by simp
  from auto_promotion_thresholds [OF w_contract _ run w_query_kind(1) cfg, of 0] cov
  show ?thesis by (simp add: touched_def ids)
    (simp add: w_free_def w_two_items bt_get_def promotion_def in_window_def Entry_touch_def Entry_new_def w_settings_def
      PromotionConfig_default_def policy_half_life_def Duration_from_secs_def)
qed

end
