(* ===== verification/Session_Reopen.thy ===== *)
theory Session_Reopen
  imports Session_Answers "HOL-Library.Countable"
begin

text \<open>
  Closing and reopening: what \<open>Session::open\<close> reads back from the stores a session left
  behind, after a regular end and after operations that failed half-way.
\<close>

section \<open>The records in a store\<close>

text \<open>
  \<open>stored J Q M\<close>: the store content \<open>Q\<close> holds exactly the items \<open>M\<close>, whose records read
  back. Quads that are no metadata records may be there as well.
\<close>

definition is_record :: "Quad \<Rightarrow> bool" where
  "is_record q \<longleftrightarrow> q_predicate q = record_predicate \<and> q_graph q = meta_graph"

definition stored :: "JsonOps \<Rightarrow> Quad set \<Rightarrow> (ItemId \<rightharpoonup> ContextItem) \<Rightarrow> bool" where
  "stored J Q M \<longleftrightarrow>
     (\<forall>q\<in>Q. is_record q \<longrightarrow> (\<exists>i it. M i = Some it \<and> q = meta_quad J i it))
   \<and> (\<forall>i it. M i = Some it \<longrightarrow> i < 2 ^ 64 \<and> storable it \<and> reads_back J it
      \<and> {q \<in> Q. owned i q} = set (encode J i it))"

lemma record_id_meta: "i < 2 ^ 64 \<Longrightarrow> record_id (meta_quad J i it) = Some i"
  by (simp add: record_id_def parse_item_graph_item_graph)

lemma item_graph_quads:
  assumes "{q \<in> Q. owned i q} = set (encode J i it)"
  shows "{q \<in> Q. matches_pattern q None None None (Some (GNamed (item_graph i)))} = in_graph (item_graph i) ` set (triples_of it)"
proof -
  have "{q \<in> Q. q_graph q = GNamed (item_graph i)} = {q \<in> {q \<in> Q. owned i q}. q_graph q = GNamed (item_graph i)}"
    by (auto simp: owned_def)
  also have "\<dots> = in_graph (item_graph i) ` set (triples_of it)" unfolding assms set_encode by auto
  finally show ?thesis by (simp add: matches_pattern_def)
qed

context session_env
begin

lemma load_records_rule:
  assumes "st_ok st" "tx_ok st tx" "stored (env_json E) (view st tx) M"
    and "\<forall>q\<in>set qs. q \<in> view st tx \<and> is_record q"
  shows "case load_records (env_storage E) (env_json E) st tx qs of
      Inl e \<Rightarrow> flaky \<and> (\<exists>x. e = StorageFailed x)
    | Inr out \<Rightarrow> fst ` set out = {i. \<exists>it. M i = Some it \<and> meta_quad (env_json E) i it \<in> set qs}
        \<and> (\<forall>(i, it')\<in>set out. \<exists>it. M i = Some it \<and> same_item it' it)"
  using assms(4)
proof (induction qs)
  case (Cons q qs)
  let ?J = "env_json E"
  obtain i it where q: "M i = Some it" "q = meta_quad ?J i it" using assms(3) Cons.prems by (auto simp: stored_def)
  then have i: "i < 2 ^ 64" "storable it" "{q \<in> view st tx. owned i q} = set (encode ?J i it)" "reads_back ?J it"
    using assms(3) by (auto simp: stored_def)
  have uniq: "j = i" if "M j = Some jt" "meta_quad ?J j jt = q" for j jt
  proof -
    have "j < 2 ^ 64" using that(1) assms(3) by (auto simp: stored_def)
    then show ?thesis using that(2) q(2) record_id_meta [of j ?J jt] record_id_meta [OF i(1), of ?J it] by simp
  qed
  note c = collect_pattern [OF assms(1,2), of None None None "Some (GNamed (item_graph i))"]
  show ?case
  proof (cases "collect (tx_quads_for_pattern (env_storage E) st tx None None None (Some (GNamed (item_graph i))))")
    case (Inl e)
    then show ?thesis using c by (simp add: q(2) record_id_meta [OF i(1)])
  next
    case (Inr gqs)
    then have "set gqs = in_graph (item_graph i) ` set (triples_of it)" using c item_graph_quads [OF i(3)] by simp
    from decode_encoded [OF i(4,2) this] obtain it' where
      d: "decode ?J i (json_to_string ?J (record_of it)) gqs = Inr it'" "same_item it' it" by blast
    have IH: "case load_records (env_storage E) ?J st tx qs of Inl e \<Rightarrow> flaky \<and> (\<exists>x. e = StorageFailed x)
      | Inr out \<Rightarrow> fst ` set out = {i. \<exists>it. M i = Some it \<and> meta_quad ?J i it \<in> set qs}
        \<and> (\<forall>(i, it')\<in>set out. \<exists>it. M i = Some it \<and> same_item it' it)"
      using Cons by simp
    have "{j. \<exists>jt. M j = Some jt \<and> meta_quad ?J j jt \<in> set (q # qs)}
        = insert i {j. \<exists>jt. M j = Some jt \<and> meta_quad ?J j jt \<in> set qs}"
      using uniq q by auto
    then show ?thesis using IH Inr d q(1)
      by (cases "load_records (env_storage E) ?J st tx qs")
        (auto simp: q(2) record_id_meta [OF i(1)])
  qed
qed simp

lemma load_rule:
  assumes "st_ok st" "stored (env_json E) (quads_of st) M"
    and "load (env_storage E) (env_json E) st = (r, st')"
  shows "case r of Inl e \<Rightarrow> flaky \<and> (\<exists>x. e = StorageFailed x)
    | Inr out \<Rightarrow> st_ok st' \<and> quads_of st' = quads_of st \<and> fst ` set out = dom M
        \<and> (\<forall>(i, it')\<in>set out. \<exists>it. M i = Some it \<and> same_item it' it)"
proof (cases "begin_read (env_storage E) st")
  case (Inl e)
  then have "flaky" using begin_read_sure [OF _ assms(1)] by auto
  then show ?thesis using assms(3) Inl by (auto simp: load_def)
next
  case (Inr tx)
  note tx = begin_read_ok [OF assms(1) Inr]
  let ?p = "tx_quads_for_pattern (env_storage E) st tx None (Some record_predicate) None (Some meta_graph)"
  have c: "case collect ?p of Inl e \<Rightarrow> flaky \<and> (\<exists>x. e = StorageFailed x) | Inr qs \<Rightarrow> set qs = {q \<in> quads_of st. is_record q}"
    using collect_pattern [OF assms(1), of tx None "Some record_predicate" None "Some meta_graph"] tx
    by (cases "collect ?p") (auto simp: matches_pattern_def is_record_def)
  show ?thesis
  proof (cases "collect ?p")
    case Inl1: (Inl e)
    then show ?thesis using assms(3) Inr c by (auto simp: load_def)
  next
    case Inr1: (Inr qs)
    then have qs: "set qs = {q \<in> quads_of st. is_record q}" using c by simp
    have recs: "case load_records (env_storage E) (env_json E) st tx qs of Inl e \<Rightarrow> flaky \<and> (\<exists>x. e = StorageFailed x)
      | Inr out \<Rightarrow> fst ` set out = {i. \<exists>it. M i = Some it \<and> meta_quad (env_json E) i it \<in> set qs}
        \<and> (\<forall>(i, it')\<in>set out. \<exists>it. M i = Some it \<and> same_item it' it)"
      by (rule load_records_rule) (use assms tx qs in auto)
    have "meta_quad (env_json E) i it \<in> set qs" if "M i = Some it" for i it
      using assms(2) that unfolding qs by (auto simp: stored_def set_encode is_record_def)
    then have "{i. \<exists>it. M i = Some it \<and> meta_quad (env_json E) i it \<in> set qs} = dom M" by auto
    moreover obtain r2 st2 where rb: "tx_rollback (env_storage E) tx st = (r2, st2)" by fastforce
    moreover have "st_ok st2 \<and> quads_of st2 = quads_of st" using rollback_ok [OF assms(1) _ rb] tx by simp
    moreover have "flaky" if "r2 = Inl x" for x using rollback_sure [OF _ assms(1), of tx] tx rb that by auto
    ultimately show ?thesis using assms(3) Inr Inr1 recs
      by (cases "load_records (env_storage E) (env_json E) st tx qs"; cases r2; cases r) (simp_all add: load_def)
  qed
qed

end

section \<open>Loading the scopes\<close>

lemma load_items_get:
  assumes "bt_wf items"
  shows "bt_wf (load_items sc now out items) \<and> bt_get (load_items sc now out items) j =
    (case bt_get items j of Some e \<Rightarrow> Some e | None \<Rightarrow> map_option (\<lambda>it. Entry_new it sc Added now) (map_of out j))"
  using assms
proof (induction out arbitrary: items)
  case (Cons p out)
  obtain i it where p: "p = (i, it)" by (cases p)
  then show ?case using Cons.IH [of "bt_or_insert i (Entry_new it sc Added now) items"] Cons.prems
    by (auto simp: bt_get_or_insert split: option.split)
qed (simp split: option.split)

text \<open>
  What loading the scopes \<open>scs\<close> adds to the index: an id that is not there yet is found in
  the first scope that has a copy.
\<close>

definition first_copy :: "(ContextScope \<Rightarrow> ItemId \<rightharpoonup> ContextItem) \<Rightarrow> ContextScope list \<Rightarrow> ItemId \<Rightarrow> ContextScope option" where
  "first_copy M scs i = List.find (\<lambda>sc. M sc i \<noteq> None) scs"

definition restored :: "(ContextScope \<Rightarrow> ItemId \<rightharpoonup> ContextItem) \<Rightarrow> ContextScope list \<Rightarrow> (ItemId, Entry) btree_map \<Rightarrow>
    (ItemId, Entry) btree_map \<Rightarrow> bool" where
  "restored M scs items items' \<longleftrightarrow> (\<forall>i. case bt_get items i of Some e \<Rightarrow> bt_get items' i = Some e
     | None \<Rightarrow> (case first_copy M scs i of None \<Rightarrow> bt_get items' i = None
        | Some sc \<Rightarrow> (\<exists>e. bt_get items' i = Some e \<and> e_scope e = sc \<and> (\<exists>it. M sc i = Some it \<and> same_item (e_item e) it))))"

lemma restored_step:
  assumes "bt_wf items" "fst ` set out = dom (M sc)" "\<forall>(i, it')\<in>set out. \<exists>it. M sc i = Some it \<and> same_item it' it"
    and "restored M scs (load_items sc now out items) items'"
  shows "restored M (sc # scs) items items'"
  unfolding restored_def
proof
  fix i
  let ?items1 = "load_items sc now out items"
  note get = load_items_get [OF assms(1), of sc now out i]
  have later: "case bt_get ?items1 i of Some e \<Rightarrow> bt_get items' i = Some e
     | None \<Rightarrow> (case first_copy M scs i of None \<Rightarrow> bt_get items' i = None
        | Some sc \<Rightarrow> (\<exists>e. bt_get items' i = Some e \<and> e_scope e = sc \<and> (\<exists>it. M sc i = Some it \<and> same_item (e_item e) it)))"
    using assms(4) by (simp add: restored_def)
  have none: "map_of out i = None \<longleftrightarrow> M sc i = None" using assms(2) by (auto simp: map_of_eq_None_iff)
  have some: "\<exists>it. M sc i = Some it \<and> same_item it' it" if "map_of out i = Some it'" for it'
    using assms(3) map_of_SomeD [OF that] by fastforce
  show "case bt_get items i of Some e \<Rightarrow> bt_get items' i = Some e
     | None \<Rightarrow> (case first_copy M (sc # scs) i of None \<Rightarrow> bt_get items' i = None
        | Some sc \<Rightarrow> (\<exists>e. bt_get items' i = Some e \<and> e_scope e = sc \<and> (\<exists>it. M sc i = Some it \<and> same_item (e_item e) it)))"
  proof (cases "bt_get items i")
    case None
    then show ?thesis using get later none some
      by (cases "map_of out i") (auto simp: first_copy_def Entry_new_def)
  qed (use get later in simp)
qed

context session_env
begin

lemma load_scopes_rule:
  assumes "\<forall>sc. st_ok (Tiers_get stores sc) \<and> stored (env_json E) (quads_of (Tiers_get stores sc)) (M sc)" "bt_wf items"
  shows "case load_scopes E now scs (stores, items) of Inl e \<Rightarrow> flaky \<and> (\<exists>x. e = StorageFailed x)
    | Inr (stores', items') \<Rightarrow> (\<forall>sc. st_ok (Tiers_get stores' sc) \<and> quads_of (Tiers_get stores' sc) = quads_of (Tiers_get stores sc))
        \<and> bt_wf items' \<and> restored M scs items items'"
  using assms
proof (induction scs arbitrary: stores items)
  case Nil
  then show ?case by (simp add: restored_def first_copy_def split: option.split)
next
  case (Cons sc scs)
  obtain r st1 where ld: "load (env_storage E) (env_json E) (Tiers_get stores sc) = (r, st1)" by fastforce
  have rule: "case r of Inl e \<Rightarrow> flaky \<and> (\<exists>x. e = StorageFailed x)
    | Inr out \<Rightarrow> st_ok st1 \<and> quads_of st1 = quads_of (Tiers_get stores sc) \<and> fst ` set out = dom (M sc)
        \<and> (\<forall>(i, it')\<in>set out. \<exists>it. M sc i = Some it \<and> same_item it' it)"
    by (rule load_rule [OF _ _ ld]) (use Cons.prems in auto)
  show ?case
  proof (cases r)
    case (Inl e)
    then show ?thesis using ld rule by simp
  next
    case (Inr out)
    let ?stores = "Tiers_put stores sc st1" and ?items = "load_items sc now out items"
    have st1: "st_ok st1" "quads_of st1 = quads_of (Tiers_get stores sc)" "fst ` set out = dom (M sc)"
      "\<forall>(i, it')\<in>set out. \<exists>it. M sc i = Some it \<and> same_item it' it" using rule Inr by auto
    have IH: "case load_scopes E now scs (?stores, ?items) of Inl e \<Rightarrow> flaky \<and> (\<exists>x. e = StorageFailed x)
      | Inr (stores', items') \<Rightarrow> (\<forall>sc. st_ok (Tiers_get stores' sc) \<and> quads_of (Tiers_get stores' sc) = quads_of (Tiers_get ?stores sc))
        \<and> bt_wf items' \<and> restored M scs ?items items'"
      by (rule Cons.IH) (use Cons.prems st1 load_items_get [OF Cons.prems(2)] in auto)
    show ?thesis
    proof (cases "load_scopes E now scs (?stores, ?items)")
      case Inl1: (Inl e)
      then show ?thesis using IH ld Inr by simp
    next
      case Inr1: (Inr p)
      obtain stores' items' where p: "p = (stores', items')" by fastforce
      have "restored M (sc # scs) items items'"
        by (rule restored_step [where M = M, OF Cons.prems(2) st1(3,4)]) (use IH Inr1 p in auto)
      then show ?thesis using IH Inr1 p ld Inr st1(2) by auto
    qed
  qed
qed

end

section \<open>The copies a session leaves behind\<close>

text \<open>No quad of another user looks like a metadata record.\<close>

definition no_foreign_records :: "('st \<Rightarrow> Quad set) \<Rightarrow> 'st Session \<Rightarrow> bool" where
  "no_foreign_records quads_of s \<longleftrightarrow> (\<forall>sc. \<forall>q\<in>foreign quads_of s sc. \<not> is_record q)"

lemma record_in_encode: "q \<in> set (encode J i it) \<Longrightarrow> is_record q \<Longrightarrow> q = meta_quad J i it"
  by (auto simp: set_encode is_record_def)

lemma copies_exist:
  assumes inv: "session_inv strict quads_of st_ok accepts J s" and none: "no_foreign_records quads_of s"
    and alive: "\<forall>i e. bt_get (s_items s) i = Some e \<longrightarrow> reads_back J (e_item e)"
    and gone: "strict \<or> (\<forall>q. accepts q \<longrightarrow> json_readable J q)"
  shows "\<exists>M. (\<forall>sc. stored J (quads_of (Tiers_get (s_stores s) sc)) (M sc))
    \<and> (\<forall>i sc. M sc i \<noteq> None \<longrightarrow> i < s_next_id s)
    \<and> (\<forall>i e. bt_get (s_items s) i = Some e \<longrightarrow> M (e_scope e) i = Some (e_item e)
         \<and> (\<forall>sc. M sc i = None \<or> M sc i = Some (e_item e)) \<and> (strict \<longrightarrow> (\<forall>sc. sc \<noteq> e_scope e \<longrightarrow> M sc i = None)))
    \<and> (strict \<longrightarrow> (\<forall>i. bt_get (s_items s) i = None \<longrightarrow> (\<forall>sc. M sc i = None)))"
proof -
  define M where "M sc i = (if i < 2 ^ 64 \<and> part quads_of s sc i \<noteq> {}
      then Some (case bt_get (s_items s) i of Some e \<Rightarrow> e_item e
        | None \<Rightarrow> (SOME it. storable it \<and> part quads_of s sc i = set (encode J i it))) else None)" for sc i
  have ok: "part_ok strict accepts J (s_next_id s) i (bt_get (s_items s) i) sc (part quads_of s sc i)" if "i < 2 ^ 64" for i sc
    using part_invD [OF session_wfD(5) [OF inv] that] .
  have live: "i < s_next_id s" "i < 2 ^ 64" "storable (e_item e)" if "bt_get (s_items s) i = Some e" for i e
    using session_wfD(3) [OF inv that] by auto
  have reads: "reads_back J it" if "\<not> strict" "\<forall>q\<in>set (encode J i it). accepts q" for i it
    using that gone meta_quad_readable [of J i it] by (simp add: encode_def)
  have M: "i < 2 ^ 64 \<and> i < s_next_id s \<and> storable it \<and> part quads_of s sc i = set (encode J i it) \<and> reads_back J it"
    if m: "M sc i = Some it" for sc i it
  proof (cases "bt_get (s_items s) i")
    case None
    then have i: "i < 2 ^ 64" "part quads_of s sc i \<noteq> {}"
      and it: "it = (SOME it. storable it \<and> part quads_of s sc i = set (encode J i it))"
      using m by (auto simp: M_def split: if_splits)
    then have "i < s_next_id s" "\<exists>it. storable it \<and> part quads_of s sc i = set (encode J i it)"
      and acc: "\<not> strict" "\<forall>q\<in>part quads_of s sc i. accepts q"
      using ok [OF i(1), of sc] None by (auto simp: part_ok_def)
    then show ?thesis using i(1) reads [of i it] someI_ex [of "\<lambda>it. storable it \<and> part quads_of s sc i = set (encode J i it)"] it by simp
  next
    case (Some e)
    then show ?thesis using m live [OF Some] ok [OF live(2) [OF Some], of sc] alive Some
      by (auto simp: M_def part_ok_def split: if_splits)
  qed
  have stored: "stored J (quads_of (Tiers_get (s_stores s) sc)) (M sc)" for sc
    unfolding stored_def
  proof (intro conjI ballI allI impI)
    fix q
    assume q: "q \<in> quads_of (Tiers_get (s_stores s) sc)" "is_record q"
    then have "\<not> unowned q" using none by (auto simp: no_foreign_records_def foreign_def)
    then obtain i where i: "i < 2 ^ 64" "owned i q" by (auto simp: unowned_def)
    then have "q \<in> part quads_of s sc i" using q by (simp add: part_def)
    then have "M sc i \<noteq> None" using i(1) by (auto simp: M_def)
    then obtain it where "M sc i = Some it" by blast
    moreover from M [OF this] \<open>q \<in> part quads_of s sc i\<close> have "q = meta_quad J i it"
      by (auto intro: record_in_encode [OF _ q(2)])
    ultimately show "\<exists>i it. M sc i = Some it \<and> q = meta_quad J i it" by blast
  qed (use M in \<open>auto simp: part_def\<close>)
  have mine: "M (e_scope e) i = Some (e_item e) \<and> (\<forall>sc. M sc i = None \<or> M sc i = Some (e_item e))
      \<and> (strict \<longrightarrow> (\<forall>sc. sc \<noteq> e_scope e \<longrightarrow> M sc i = None))" if "bt_get (s_items s) i = Some e" for i e
    using ok [OF live(2) [OF that]] live(2) [OF that] that
    by (auto simp: M_def part_ok_def set_encode)
  have ghost: "M sc i = None" if "strict" "bt_get (s_items s) i = None" for i sc
    using ok [of i sc] that by (auto simp: M_def part_ok_def)
  show ?thesis using stored M mine ghost by (intro exI [of _ M]) auto
qed

lemma readable_live:
  assumes "session_inv strict quads_of st_ok (json_readable J) J s"
  shows "\<forall>i e. bt_get (s_items s) i = Some e \<longrightarrow> reads_back J (e_item e)"
proof (intro allI impI)
  fix i e
  assume "bt_get (s_items s) i = Some e"
  from session_wfD(4) [OF assms this, of "meta_quad J i (e_item e)"] show "reads_back J (e_item e)"
    using meta_quad_readable by (simp add: encode_def)
qed

section \<open>Reopening\<close>

lemma first_free_id_bound:
  assumes "bt_wf items" "\<forall>i\<in>fst ` set items. i < N" "N < 2 ^ 64"
  shows "first_free_id items \<le> N \<and> (\<forall>i\<in>fst ` set items. i < first_free_id items)"
proof (cases "rev items")
  case (Cons p rest)
  then have items: "items = rev rest @ [p]" by (metis rev.simps(2) rev_rev_ident)
  have "fst p < N" using assms(2) items by simp
  then have free: "first_free_id items = fst p + 1" using Cons assms(3)
    by (cases p) (simp add: first_free_id_def add64_small)
  have "i \<le> fst p" if "i \<in> fst ` set items" for i
    using assms(1) that by (auto simp: items bt_wf_def sorted_wrt_append image_iff less_imp_le)
  then show ?thesis using free \<open>fst p < N\<close> by fastforce
qed (simp add: first_free_id_def)

lemma same_item_storable: "same_item a b \<Longrightarrow> storable b \<Longrightarrow> storable a"
  by (auto simp: same_item_def same_payload_def storable_def list_all_iff split: ContextPayload.splits)

lemma same_item_encode:
  assumes "same_item a b"
  shows "set (encode J i a) = set (encode J i b)"
proof -
  have "record_of a = record_of b" "set (triples_of a) = set (triples_of b)"
    using assms by (auto simp: same_item_def same_payload_def record_of_def triples_of_def split: ContextPayload.splits)
  then show ?thesis by (simp add: set_encode meta_quad_def)
qed

definition stores_of :: "'st SessionConfig \<Rightarrow> 'st Tiers" where
  "stores_of cfg = (case cfg_storage cfg of PerScope en ma mi \<Rightarrow> \<lparr>t_enduring = en, t_major = ma, t_minor = mi\<rparr>)"

context session_env
begin

lemma open_rule:
  assumes "stores_of cfg = s_stores s"
    and "persistent (capabilities (env_storage E) (Tiers_get (s_stores s) Enduring))"
    and "\<forall>sc. st_ok (Tiers_get (s_stores s) sc) \<and> stored (env_json E) (quads_of (Tiers_get (s_stores s) sc)) (M sc)"
  shows "case Session_open E clk cfg of Inl e \<Rightarrow> flaky \<and> (\<exists>x. e = StorageFailed x)
    | Inr t \<Rightarrow> (\<forall>sc. st_ok (Tiers_get (s_stores t) sc) \<and> quads_of (Tiers_get (s_stores t) sc) = quads_of (Tiers_get (s_stores s) sc))
        \<and> bt_wf (s_items t) \<and> restored M ContextScope_ALL [] (s_items t) \<and> s_next_id t = first_free_id (s_items t)"
proof -
  obtain en ma mi where cfg: "cfg_storage cfg = PerScope en ma mi" by (cases "cfg_storage cfg")
  let ?stores = "\<lparr>t_enduring = en, t_major = ma, t_minor = mi\<rparr>"
  have st: "s_stores s = ?stores" using assms(1) cfg by (simp add: stores_of_def)
  have rule: "case load_scopes E (clk 0) ContextScope_ALL (?stores, []) of Inl e \<Rightarrow> flaky \<and> (\<exists>x. e = StorageFailed x)
    | Inr (stores', items') \<Rightarrow> (\<forall>sc. st_ok (Tiers_get stores' sc) \<and> quads_of (Tiers_get stores' sc) = quads_of (Tiers_get ?stores sc))
        \<and> bt_wf items' \<and> restored M ContextScope_ALL [] items'"
    by (rule load_scopes_rule) (use assms(3) st in \<open>auto simp: bt_wf_def\<close>)
  have pers: "persistent (capabilities (env_storage E) en)" using assms(2) st by simp
  show ?thesis
  proof (cases "load_scopes E (clk 0) ContextScope_ALL (?stores, [])")
    case (Inl e)
    then show ?thesis using rule pers by (simp add: Session_open_def cfg)
  next
    case (Inr p)
    then show ?thesis using rule pers by (cases p) (simp add: Session_open_def cfg st)
  qed
qed

end

text \<open>The scopes in order of durability: the first copy is the most durable one.\<close>

lemma first_copy_ALL:
  assumes "M c i \<noteq> None"
  shows "\<exists>sc. first_copy M ContextScope_ALL i = Some sc \<and> M sc i \<noteq> None \<and> c \<le> sc"
  using assms by (cases c) (auto simp: first_copy_def ContextScope_ALL_def scope_le_iff)

lemma first_copy_None: "\<forall>c. M c i = None \<Longrightarrow> first_copy M scs i = None"
  by (auto simp: first_copy_def find_None_iff)

lemma contract_session_env:
  assumes "storage_contract (env_storage E) quads_of view st_ok tx_ok writable"
  shows "session_env E quads_of view st_ok tx_ok writable accepts True"
  unfolding session_env_def session_env_axioms_def using assms by simp

lemma reliable_session_env:
  assumes "reliable_storage (env_storage E) quads_of view st_ok tx_ok writable accepts"
  shows "session_env E quads_of view st_ok tx_ok writable accepts False"
  unfolding session_env_def session_env_axioms_def using assms by (simp add: reliable_storage_def)

lemma reopened_inv:
  assumes inv: "session_inv True quads_of st_ok accepts J s"
    and st: "\<And>sc. st_ok (Tiers_get (s_stores t) sc) \<and> quads_of (Tiers_get (s_stores t) sc) = quads_of (Tiers_get (s_stores s) sc)"
    and items: "bt_wf (s_items t)" "s_next_id t = first_free_id (s_items t)"
    and rel: "\<And>i. rel_option (\<lambda>e' e. same_item (e_item e') (e_item e) \<and> e_scope e' = e_scope e)
      (bt_get (s_items t) i) (bt_get (s_items s) i)"
  shows "session_inv True quads_of st_ok accepts J t"
proof -
  have N: "s_next_id s < 2 ^ 64" using session_wfD(2) [OF inv] by (simp add: index_wf_def)
  have live: "\<exists>e. bt_get (s_items s) i = Some e \<and> same_item (e_item e') (e_item e) \<and> e_scope e' = e_scope e"
    if "bt_get (s_items t) i = Some e'" for i e' using rel [of i] that by (cases "bt_get (s_items s) i") auto
  have "\<forall>i\<in>fst ` set (s_items t). i < s_next_id s"
    using live session_wfD(3) [OF inv] items(1) by (force simp: bt_get_iff [symmetric])
  from first_free_id_bound [OF items(1) this N]
  have "s_next_id t < 2 ^ 64" "\<forall>i\<in>fst ` set (s_items t). i < s_next_id t" using N items(2) by auto
  moreover have "storable (e_item e')" if "bt_get (s_items t) i = Some e'" for i e'
    using live [OF that] session_wfD(3) [OF inv] same_item_storable by blast
  ultimately have wf: "index_wf (index_of t)" using items(1) by (fastforce simp: index_wf_def bt_get_iff)
  have enc: "\<forall>q\<in>set (encode J i (e_item e')). accepts q" if "bt_get (s_items t) i = Some e'" for i e'
    using live [OF that] session_wfD(4) [OF inv] same_item_encode [of "e_item e'" _ J i] by metis
  have "part_ok True accepts J (s_next_id t) i (bt_get (s_items t) i) sc (part quads_of t sc i)" if i: "i < 2 ^ 64" for i sc
  proof -
    have "part quads_of t sc i = part quads_of s sc i" using st by (simp add: part_def)
    moreover have "part_ok True accepts J (s_next_id s) i (bt_get (s_items s) i) sc (part quads_of s sc i)"
      by (rule part_invD [OF session_wfD(5) [OF inv] i])
    ultimately show ?thesis using rel [of i] same_item_encode [of _ _ J i]
      by (cases "bt_get (s_items s) i"; cases "bt_get (s_items t) i") (auto simp: part_ok_def)
  qed
  then show ?thesis using st wf enc by (simp add: session_inv_def session_wf_def part_inv_def)
qed

lemma same_item_trans: "same_item a b \<Longrightarrow> same_item b c \<Longrightarrow> same_item a c"
  by (auto simp: same_item_def same_payload_def split: ContextPayload.splits)

text \<open>An item is found after an open exactly if some store has a copy of it, and is that copy.\<close>

lemma restored_lookup:
  assumes "restored M ContextScope_ALL [] items"
  shows "case bt_get items i of None \<Rightarrow> \<forall>d. M d i = None
    | Some e \<Rightarrow> \<exists>it. M (e_scope e) i = Some it \<and> same_item (e_item e) it"
proof (cases "first_copy M ContextScope_ALL i")
  case None
  then have "M d i = None" for d by (cases d) (auto simp: first_copy_def ContextScope_ALL_def split: if_splits)
  then show ?thesis using assms None by (auto simp: restored_def bt_get_def dest!: spec [of _ i])
next
  case (Some sc)
  then show ?thesis using assms unfolding restored_def by (fastforce simp: bt_get_def dest: spec [of _ i])
qed

section \<open>A concrete store to reopen\<close>

text \<open>
  A serialization that reads back every record, and a store like the reference store that
  declares itself persistent.
\<close>

instance JsonNumber :: countable
  by countable_datatype

instance Json :: countable
  by countable_datatype

instance RecordPayload :: countable
  by countable_datatype

instance Record :: countable
  by countable_datatype

definition p_json :: JsonOps where
  "p_json = \<lparr>json_to_string = (\<lambda>r. replicate (to_nat r) CHR ''x''), json_from_str = (\<lambda>t. Inr (from_nat (length t)))\<rparr>"

lemma p_reads_back [simp]: "reads_back p_json it"
  by (simp add: reads_back_def p_json_def)

lemma p_readable [simp]: "json_readable p_json = (\<lambda>_. True)"
  by (simp add: json_readable_def fun_eq_iff)

definition p_storage :: "(MemStore, MemTx) Storage" where
  "p_storage = MemStore_storage\<lparr>capabilities := (\<lambda>st. (MemStore_capabilities st)\<lparr>persistent := True\<rparr>)\<rparr>"

definition p_env :: "(MemStore, MemTx) Env" where
  "p_env = \<lparr>env_storage = p_storage, env_json = p_json, env_f64 = w_f64\<rparr>"

lemma p_env_sel [simp]: "env_storage p_env = p_storage" "env_json p_env = p_json" "env_f64 p_env = w_f64"
  by (simp_all add: p_env_def)

lemma p_methods:
  "begin_read p_storage = begin_read MemStore_storage" "begin_write p_storage = begin_write MemStore_storage"
  "quad_count p_storage = quad_count MemStore_storage" "named_graphs p_storage = named_graphs MemStore_storage"
  "tx_insert p_storage = tx_insert MemStore_storage" "tx_remove p_storage = tx_remove MemStore_storage"
  "tx_contains p_storage = tx_contains MemStore_storage"
  "tx_quads_for_pattern p_storage = tx_quads_for_pattern MemStore_storage"
  "tx_commit p_storage = tx_commit MemStore_storage" "tx_rollback p_storage = tx_rollback MemStore_storage"
  by (simp_all add: p_storage_def)

lemma p_reliable: "reliable_storage (env_storage p_env) mem_quads mem_view mem_st_ok mem_tx_ok mt_writable (\<lambda>_. True)"
  using mem.reliable_storage_axioms
  unfolding reliable_storage_def reliable_storage_axioms_def storage_contract_def p_env_sel p_methods .

lemma p_contract: "storage_contract (env_storage p_env) mem_quads mem_view mem_st_ok mem_tx_ok mt_writable"
  using p_reliable by (simp add: reliable_storage_def)

definition p_one :: "MemStore Session" where
  "p_one = snd (run_op p_env (\<lambda>k. k) (OpAdd Minor w_item) w_fresh)"

lemma p_one_inv: "session_inv True mem_quads mem_st_ok (\<lambda>_. True) p_json p_one"
  and p_one_foreign: "no_foreign_records mem_quads p_one"
  and p_one_index: "index_of p_one = index_of w_one"
proof -
  let ?run = "run_op p_env (\<lambda>k. k) (OpAdd Minor w_item) w_fresh"
  have room: "id_room (s_next_id w_fresh) (OpAdd Minor w_item)" by (simp add: id_room_def w_fresh_def)
  have run: "?run = (fst ?run, p_one)" by (simp add: p_one_def)
  note out = session_sim.run_op_outcome [OF reliable_session_sim [OF p_reliable] _ _ room run, of True, simplified]
  show "session_inv True mem_quads mem_st_ok (\<lambda>_. True) p_json p_one"
    using out w_fresh_inv by (simp add: acceptable_def)
  have "foreign mem_quads p_one = foreign mem_quads w_fresh"
    using out w_fresh_inv by (simp add: acceptable_def session_rel_def)
  then show "no_foreign_records mem_quads p_one"
    by (simp add: no_foreign_records_def foreign_def mem_quads_def MemStore_new_def)
  have "(fst ?run, index_of p_one) = ix_run_op w_f64 (\<lambda>k. k) (OpAdd Minor w_item) (index_of w_fresh)"
    using out w_fresh_inv by (simp add: acceptable_def)
  from arg_cong [OF this, of snd]
  have "index_of p_one = snd (ix_run_op w_f64 (\<lambda>k. k) (OpAdd Minor w_item) (index_of w_fresh))" by (simp only: snd_conv)
  moreover have "index_of w_one = snd (ix_run_op w_f64 (\<lambda>k. k) (OpAdd Minor w_item) (index_of w_fresh))"
    unfolding w_one_def by (rule w_step(2) [OF w_fresh_inv room])
  ultimately show "index_of p_one = index_of w_one" by simp
qed

lemma p_one_items: "s_items p_one = [(0, Entry_new w_item Minor Added 0)]"
  using arg_cong [OF p_one_index, of ix_items] w_one_items by simp

definition p_config :: "MemStore SessionConfig" where
  "p_config = SessionConfig_new (PerScope (t_enduring (s_stores p_one)) (t_major (s_stores p_one)) (t_minor (s_stores p_one)))"

lemma p_config_stores: "stores_of p_config = s_stores p_one"
  by (simp add: stores_of_def p_config_def SessionConfig_new_def)

lemma p_persistent: "persistent (capabilities (env_storage p_env) st)"
  by (simp add: p_storage_def)

text \<open>
  C7. Opening a session on the stores that another left behind, at any point of its life
  and after any number of storage errors, restores every item that was live: it has the
  same content, up to the order and repetition of its triples, and is in the scope it was
  in or, if it was being demoted when an error struck, still in the more durable one.
  Opening itself can only fail with a storage error; it never reports a record of the
  session as corrupt. This is for sessions whose stores hold only items whose metadata
  records the JSON crate reads back, which a run keeps if it adds only such items.
\<close>

theorem reopen_after_failures:
  assumes "storage_contract (env_storage E) quads_of view st_ok tx_ok writable"
    and "covered quads_of st_ok (json_readable (env_json E)) (env_json E) s"
    and "no_foreign_records quads_of s" "stores_of cfg = s_stores s"
    and "persistent (capabilities (env_storage E) (Tiers_get (s_stores s) Enduring))"
  shows "case Session_open E clk cfg of Inl e \<Rightarrow> \<exists>x. e = StorageFailed x
    | Inr t \<Rightarrow> \<forall>i e. bt_get (s_items s) i = Some e \<longrightarrow>
        (\<exists>e'. bt_get (s_items t) i = Some e' \<and> same_item (e_item e') (e_item e) \<and> e_scope e \<le> e_scope e')"
proof -
  have inv: "session_inv False quads_of st_ok (json_readable (env_json E)) (env_json E) s"
    using assms(2) by (simp add: covered_def)
  obtain M where M: "\<forall>sc. stored (env_json E) (quads_of (Tiers_get (s_stores s) sc)) (M sc)"
    and mine: "\<And>i e. bt_get (s_items s) i = Some e \<Longrightarrow> M (e_scope e) i = Some (e_item e)
      \<and> (\<forall>sc. M sc i = None \<or> M sc i = Some (e_item e))"
    using copies_exist [OF inv assms(3) readable_live [OF inv]] by auto
  have ok: "\<forall>sc. st_ok (Tiers_get (s_stores s) sc) \<and> stored (env_json E) (quads_of (Tiers_get (s_stores s) sc)) (M sc)"
    using M session_wfD(1) [OF inv] by blast
  note rule = session_env.open_rule [OF contract_session_env [OF assms(1)] assms(4,5) ok, of clk]
  show ?thesis
  proof (cases "Session_open E clk cfg")
    case (Inr t)
    have "\<exists>e'. bt_get (s_items t) i = Some e' \<and> same_item (e_item e') (e_item e) \<and> e_scope e \<le> e_scope e'"
      if e: "bt_get (s_items s) i = Some e" for i e
    proof -
      obtain sc where sc: "first_copy M ContextScope_ALL i = Some sc" "M sc i \<noteq> None" "e_scope e \<le> sc"
        using first_copy_ALL [of M "e_scope e" i] mine [OF e] by auto
      have "restored M ContextScope_ALL [] (s_items t)" using rule Inr by simp
      then obtain e' it where "bt_get (s_items t) i = Some e'" "e_scope e' = sc" "M sc i = Some it" "same_item (e_item e') it"
        using sc(1) unfolding restored_def by (fastforce simp: bt_get_def dest: spec [of _ i])
      moreover from this(3) have "it = e_item e" using mine [OF e] by (metis option.distinct(1) option.inject)
      ultimately show ?thesis using sc(3) by auto
    qed
    then show ?thesis using Inr by simp
  qed (use rule in simp)
qed

theorem reopen_after_failures_witness:
  "case Session_open p_env (\<lambda>k. k) p_config of Inl e \<Rightarrow> \<exists>x. e = StorageFailed x
    | Inr t \<Rightarrow> \<exists>e'. bt_get (s_items t) 0 = Some e' \<and> same_item (e_item e') w_item"
proof -
  have cov: "covered mem_quads mem_st_ok (json_readable (env_json p_env)) (env_json p_env) p_one"
    using session_inv_covered [OF p_one_inv] by simp
  show ?thesis
  proof (cases "Session_open p_env (\<lambda>k. k) p_config")
    case (Inr t)
    have "bt_get (s_items p_one) 0 = Some (Entry_new w_item Minor Added 0)" by (simp add: p_one_items bt_get_def)
    then show ?thesis
      using reopen_after_failures [OF p_contract cov p_one_foreign p_config_stores p_persistent, of "\<lambda>k. k"] Inr
      by (fastforce simp: Entry_new_def)
  qed (use reopen_after_failures [OF p_contract cov p_one_foreign p_config_stores p_persistent, of "\<lambda>k. k"] in simp)
qed

text \<open>
  C8. Over a store that does not fail, reopening after the last operation gives back
  exactly the items there were, each in the scope it was in, and a session whose stores
  mirror its index, as long as the metadata records of these items are ones that the JSON
  crate reads back. The ids it assigns next are above those in use.
\<close>

theorem reopen_restores:
  assumes "reliable_storage (env_storage E) quads_of view st_ok tx_ok writable accepts"
    and "mirrored quads_of st_ok accepts (env_json E) s"
    and "\<forall>i e. bt_get (s_items s) i = Some e \<longrightarrow> reads_back (env_json E) (e_item e)"
    and "no_foreign_records quads_of s" "stores_of cfg = s_stores s"
    and "persistent (capabilities (env_storage E) (Tiers_get (s_stores s) Enduring))"
  shows "\<exists>t. Session_open E clk cfg = Inr t \<and> mirrored quads_of st_ok accepts (env_json E) t
    \<and> (\<forall>j\<in>fst ` set (s_items t). j < s_next_id t)
    \<and> (\<forall>i. rel_option (\<lambda>e' e. same_item (e_item e') (e_item e) \<and> e_scope e' = e_scope e)
          (bt_get (s_items t) i) (bt_get (s_items s) i))"
proof -
  let ?J = "env_json E"
  have inv: "session_inv True quads_of st_ok accepts ?J s" using assms(2) by (simp add: mirrored_def)
  obtain M where M: "\<forall>sc. stored ?J (quads_of (Tiers_get (s_stores s) sc)) (M sc)"
    and mine: "\<And>i e. bt_get (s_items s) i = Some e \<Longrightarrow> M (e_scope e) i = Some (e_item e)
      \<and> (\<forall>sc. M sc i = None \<or> M sc i = Some (e_item e)) \<and> (\<forall>sc. sc \<noteq> e_scope e \<longrightarrow> M sc i = None)"
    and gone: "\<And>i sc. bt_get (s_items s) i = None \<Longrightarrow> M sc i = None"
    using copies_exist [OF inv assms(4,3)] by auto
  have ok: "\<forall>sc. st_ok (Tiers_get (s_stores s) sc) \<and> stored ?J (quads_of (Tiers_get (s_stores s) sc)) (M sc)"
    using M session_wfD(1) [OF inv] by blast
  obtain t where t: "Session_open E clk cfg = Inr t"
    "\<And>sc. st_ok (Tiers_get (s_stores t) sc) \<and> quads_of (Tiers_get (s_stores t) sc) = quads_of (Tiers_get (s_stores s) sc)"
    "bt_wf (s_items t)" "restored M ContextScope_ALL [] (s_items t)" "s_next_id t = first_free_id (s_items t)"
    using session_env.open_rule [OF reliable_session_env [OF assms(1)] assms(5,6) ok, of clk]
    by (cases "Session_open E clk cfg") auto
  have rel: "rel_option (\<lambda>e' e. same_item (e_item e') (e_item e) \<and> e_scope e' = e_scope e)
      (bt_get (s_items t) i) (bt_get (s_items s) i)" for i
  proof (cases "bt_get (s_items s) i")
    case None
    then show ?thesis using t(4) first_copy_None [of M i ContextScope_ALL] gone
      unfolding restored_def by (auto simp: bt_get_def dest: spec [of _ i])
  next
    case (Some e)
    then obtain sc where sc: "first_copy M ContextScope_ALL i = Some sc" "M sc i \<noteq> None"
      using first_copy_ALL [of M "e_scope e" i] mine [OF Some] by auto
    then obtain e' it where "bt_get (s_items t) i = Some e'" "e_scope e' = sc" "M sc i = Some it" "same_item (e_item e') it"
      using t(4) unfolding restored_def by (fastforce simp: bt_get_def dest: spec [of _ i])
    moreover from this(3) have "it = e_item e" "sc = e_scope e"
      using mine [OF Some] by (metis option.distinct(1) option.inject, metis option.distinct(1))
    ultimately show ?thesis using Some by auto
  qed
  have inv_t: "session_inv True quads_of st_ok accepts ?J t" by (rule reopened_inv [OF inv t(2,3,5) rel])
  then have "\<forall>j\<in>fst ` set (s_items t). j < s_next_id t" using session_wfD(3) [OF inv_t] t(3)
    by (auto simp: bt_get_iff)
  then show ?thesis using t(1) rel inv_t unfolding mirrored_def by blast
qed

theorem reopen_restores_witness:
  "\<exists>t. Session_open p_env (\<lambda>k. k) p_config = Inr t \<and> Session_scope_of t 0 = Some Minor \<and> Session_scope_of t 1 = None"
proof -
  have mir: "mirrored mem_quads mem_st_ok (\<lambda>_. True) (env_json p_env) p_one" using p_one_inv by (simp add: mirrored_def)
  have rb: "\<forall>i e. bt_get (s_items p_one) i = Some e \<longrightarrow> reads_back (env_json p_env) (e_item e)" by simp
  obtain t where t: "Session_open p_env (\<lambda>k. k) p_config = Inr t"
    "\<And>i. rel_option (\<lambda>e' e. same_item (e_item e') (e_item e) \<and> e_scope e' = e_scope e)
      (bt_get (s_items t) i) (bt_get (s_items p_one) i)"
    using reopen_restores [OF p_reliable mir rb p_one_foreign p_config_stores p_persistent, of "\<lambda>k. k"] by blast
  have "Session_scope_of t 0 = Some Minor" "Session_scope_of t 1 = None"
    using t(2) [of 0] t(2) [of 1]
    by (cases "bt_get (s_items t) 0"; simp add: Session_scope_of_def p_one_items bt_get_def Entry_new_def)+
  then show ?thesis using t(1) by blast
qed

section \<open>Items that do not read back\<close>

text \<open>
  \<open>add\<close> checks provenance, graphs, embedding and citations, but not whether the metadata
  record it is about to write can be read again. A live item whose record does not parse
  (an event body nested deeper than the crate's limit) makes every later open fail.
\<close>

lemma load_records_unreadable:
  assumes "meta_quad J i it \<in> set qs" "i < 2 ^ 64" "json_from_str J (json_to_string J (record_of it)) = Inl x"
  shows "\<exists>e. load_records S J st tx qs = Inl e"
  using assms(1)
proof (induction qs)
  case (Cons q qs)
  show ?case
  proof (cases "q = meta_quad J i it")
    case True
    then show ?thesis using assms(3) by (simp add: record_id_meta [OF assms(2)] decode_def split: sum.split)
  next
    case False
    then have "\<exists>e. load_records S J st tx qs = Inl e" using Cons by auto
    then show ?thesis by (auto split: option.split Term.split sum.split)
  qed
qed simp

lemma load_unreadable:
  assumes "storage_contract S quads_of view st_ok tx_ok writable" "st_ok st"
    and "meta_quad J i it \<in> quads_of st" "i < 2 ^ 64" "json_from_str J (json_to_string J (record_of it)) = Inl x"
  shows "\<exists>e. fst (load S J st) = Inl e"
proof (cases "begin_read S st")
  case (Inl e)
  then show ?thesis by (simp add: load_def)
next
  case (Inr tx)
  note tx = storage_contract.begin_read_ok [OF assms(1,2) Inr]
  let ?p = "tx_quads_for_pattern S st tx None (Some record_predicate) None (Some meta_graph)"
  show ?thesis
  proof (cases "collect_results ?p")
    case (Inl e)
    then show ?thesis using Inr by (simp add: load_def collect_def)
  next
    case Inr1: (Inr qs)
    have "set qs = {q \<in> view st tx. matches_pattern q None (Some record_predicate) None (Some meta_graph)}"
      using storage_contract.pattern_ok [OF assms(1,2) _ Inr1] tx by simp
    then have "meta_quad J i it \<in> set qs" using assms(3) tx by (simp add: matches_pattern_def)
    with load_records_unreadable [OF _ assms(4,5), of qs S st tx] Inr Inr1
    show ?thesis by (auto simp: load_def collect_def)
  qed
qed

lemma load_scopes_unreadable:
  assumes contract: "storage_contract (env_storage E) quads_of view st_ok tx_ok writable"
    and i: "i < 2 ^ 64" "json_from_str (env_json E) (json_to_string (env_json E) (record_of it)) = Inl x"
    and "sc \<in> set scs" "st_ok (Tiers_get stores sc)" "meta_quad (env_json E) i it \<in> quads_of (Tiers_get stores sc)"
  shows "\<exists>e. load_scopes E now scs (stores, items) = Inl e"
  using assms(4-6)
proof (induction scs arbitrary: stores items)
  case (Cons c scs)
  obtain r st' where ld: "load (env_storage E) (env_json E) (Tiers_get stores c) = (r, st')" by fastforce
  show ?case
  proof (cases "c = sc")
    case True
    then show ?thesis using load_unreadable [OF contract _ _ i, of "Tiers_get stores sc"] Cons.prems ld by auto
  next
    case False
    then show ?thesis using Cons.IH [of "Tiers_put stores c st'"] Cons.prems ld by (cases r) auto
  qed
qed simp

theorem unreadable_item_blocks_open:
  assumes "storage_contract (env_storage E) quads_of view st_ok tx_ok writable"
    and cov: "covered quads_of st_ok accepts (env_json E) s" and e: "bt_get (s_items s) i = Some e"
    and "json_from_str (env_json E) (json_to_string (env_json E) (record_of (e_item e))) = Inl x"
    and cfg: "stores_of cfg = s_stores s"
  shows "\<exists>y. Session_open E clk cfg = Inl y"
proof -
  have inv: "session_inv False quads_of st_ok accepts (env_json E) s" using cov by (simp add: covered_def)
  have "meta_quad (env_json E) i (e_item e) \<in> quads_of (Tiers_get (s_stores s) (e_scope e))"
    using covered_stored [OF cov e] by (auto simp: set_encode)
  moreover have "i < 2 ^ 64" "st_ok (Tiers_get (s_stores s) (e_scope e))"
    using session_wfD(1,3) [OF inv] e by blast+
  moreover have "e_scope e \<in> set ContextScope_ALL" by (cases "e_scope e") (simp_all add: ContextScope_ALL_def)
  ultimately have "\<exists>z. load_scopes E (clk 0) ContextScope_ALL (s_stores s, []) = Inl z"
    using load_scopes_unreadable [OF assms(1) _ assms(4)] by blast
  then show ?thesis using cfg by (cases "cfg_storage cfg") (auto simp: Session_open_def stores_of_def)
qed

text \<open>The session of the test kit's store whose JSON never parses, after one \<open>add\<close>.\<close>

theorem unreadable_item_blocks_open_witness:
  "\<exists>y. Session_open w_env (\<lambda>k. k) (SessionConfig_new (PerScope (t_enduring (s_stores w_one)) (t_major (s_stores w_one))
     (t_minor (s_stores w_one)))) = Inl y"
proof (rule unreadable_item_blocks_open [OF w_contract])
  show "covered mem_quads mem_st_ok (\<lambda>_. True) (env_json w_env) w_one"
    using session_inv_covered [OF w_one_inv] by simp
  show "bt_get (s_items w_one) 0 = Some (Entry_new w_item Minor Added 0)" by (simp add: w_one_items bt_get_def)
  show "json_from_str (env_json w_env) (json_to_string (env_json w_env) (record_of (e_item (Entry_new w_item Minor Added 0))))
      = Inl ''unreadable''"
    by (simp add: w_json_def)
qed (simp add: stores_of_def SessionConfig_new_def)

end
