(* ===== verification/Py_Errors.thy ===== *)
theory Py_Errors
  imports Context_Types
begin

text \<open>
  The exceptions of the Python binding (\<^verbatim>\<open>semanticore-context-py/src/errors.rs\<close>): the class
  hierarchy, the attributes, and the messages, which are the \<open>Display\<close> texts of the native
  errors. An exception is its class, its message and its attributes. How Rust's \<open>Debug\<close>
  quotes a string is the parameter \<open>dbg\<close> of the message functions.
\<close>

section \<open>Messages\<close>

fun TransactionIsolation_debug :: "TransactionIsolation \<Rightarrow> string" where
  "TransactionIsolation_debug ReadCommitted = ''ReadCommitted''"
| "TransactionIsolation_debug SnapshotIsolation = ''SnapshotIsolation''"
| "TransactionIsolation_debug Serializable = ''Serializable''"

fun StorageCapability_debug :: "StorageCapability \<Rightarrow> string" where
  "StorageCapability_debug Persistent = ''Persistent''"
| "StorageCapability_debug ConcurrentWrites = ''ConcurrentWrites''"
| "StorageCapability_debug BulkLoad = ''BulkLoad''"
| "StorageCapability_debug SparqlEndpoint = ''SparqlEndpoint''"
| "StorageCapability_debug ApproximateQuadCount = ''ApproximateQuadCount''"
| "StorageCapability_debug (Isolation i) = ''Isolation('' @ TransactionIsolation_debug i @ '')''"

text \<open>\<open>Display\<close> of the boxed error values; those of the Oxigraph crate carry their own text.\<close>

fun BoxedError_display :: "BoxedError \<Rightarrow> string" where
  "BoxedError_display (BoxMessage m) = m"
| "BoxedError_display (BoxAdapter ReadOnlyTransaction) = ''transaction is read-only''"
| "BoxedError_display (BoxAdapter ReadOnlyStore) = ''store was opened read-only''"
| "BoxedError_display (BoxOxigraph m) = m"

fun StorageError_display :: "StorageError \<Rightarrow> string" where
  "StorageError_display (Io e) = ''io: '' @ e"
| "StorageError_display (Serialization m) = ''serialization: '' @ m"
| "StorageError_display TransactionConflict = ''transaction conflict''"
| "StorageError_display (UnsupportedCapability c) = ''unsupported capability: '' @ StorageCapability_debug c"
| "StorageError_display (Backend e) = ''backend: '' @ BoxedError_display e"

fun CorruptReason_display :: "(string \<Rightarrow> string) \<Rightarrow> CorruptReason \<Rightarrow> string" where
  "CorruptReason_display dbg (MetadataQuad s ob) =
     ''unexpected metadata quad '' @ NamedOrBlankNode_display s @ '' '' @ Term_display ob"
| "CorruptReason_display dbg (MetadataJson i e) = ''metadata of '' @ ItemId_display i @ '': '' @ e"
| "CorruptReason_display dbg (MetadataScope i t) = ''metadata of '' @ ItemId_display i @ '': unknown scope '' @ dbg t"

fun ContextError_display :: "ContextError \<Rightarrow> string" where
  "ContextError_display ShaclUnavailable = ''SHACL validation needs a SHACL reasoner from the premium tier''"
| "ContextError_display DatalogUnavailable = ''Datalog evaluation needs a Datalog engine from the premium tier''"

fun SessionError_display :: "(string \<Rightarrow> string) \<Rightarrow> SessionError \<Rightarrow> string" where
  "SessionError_display dbg (CapabilityShortfall sc c) =
     tag sc @ '' storage lacks the '' @ StorageCapability_debug c @ '' capability''"
| "SessionError_display dbg MissingProvenance = ''item has no provenance''"
| "SessionError_display dbg (InvalidItem reason) = ''invalid item: '' @ reason"
| "SessionError_display dbg (UnknownItem i) = ''unknown item '' @ ItemId_display i"
| "SessionError_display dbg (ScopeMismatch i expected found) =
     ItemId_display i @ '' is in '' @ tag found @ '', not '' @ tag expected"
| "SessionError_display dbg (DurabilityViolation from to) =
     ''cannot move items from '' @ tag from @ '' to '' @ tag to @ '' this way''"
| "SessionError_display dbg (PremiumOnly e) = ''premium-only at v0.1: '' @ ContextError_display e"
| "SessionError_display dbg (NotYetImplemented u) = ''not yet implemented: '' @ Unimplemented_display u"
| "SessionError_display dbg (Corrupt reason) = ''corrupt context store: '' @ CorruptReason_display dbg reason"
| "SessionError_display dbg (StorageFailed e) = ''storage: '' @ StorageError_display e"

section \<open>Exceptions\<close>

datatype PyClass =
    PySessionError | CapabilityShortfallError | MissingProvenanceError | InvalidItemError | UnknownItemError
  | ScopeMismatchError | DurabilityViolationError | PremiumOnlyError | ShaclUnavailableError
  | DatalogUnavailableError | NotYetImplementedError | CorruptStoreError | PyStorageError | SessionClosedError
  | PyNotImplementedError | PyTypeError | PyValueError | OtherClass string

text \<open>The base class that \<open>create_exception!\<close> gives, as far as it is a class of the module.\<close>

fun py_base :: "PyClass \<Rightarrow> PyClass option" where
  "py_base PySessionError = None"
| "py_base PyNotImplementedError = None"
| "py_base PyTypeError = None"
| "py_base PyValueError = None"
| "py_base (OtherClass c) = None"
| "py_base ShaclUnavailableError = Some PremiumOnlyError"
| "py_base DatalogUnavailableError = Some PremiumOnlyError"
| "py_base _ = Some PySessionError"

definition is_subclass :: "PyClass \<Rightarrow> PyClass \<Rightarrow> bool" where
  "is_subclass c d \<longleftrightarrow> c = d \<or> py_base c = Some d \<or> (case py_base c of None \<Rightarrow> False | Some b \<Rightarrow> py_base b = Some d)"

datatype PyAttr = AttrStr string | AttrScope ContextScope | AttrId ItemId

record PyErr =
  pe_class :: PyClass
  pe_message :: string
  pe_attrs :: "(string \<times> PyAttr) list"

fun feature_name :: "Unimplemented \<Rightarrow> string" where
  "feature_name OwlElReasoner = ''owl_el_reasoner''"
| "feature_name AnnIndex = ''ann_index''"
| "feature_name Sparql = ''sparql''"

fun class_and_attrs :: "(string \<Rightarrow> string) \<Rightarrow> SessionError \<Rightarrow> PyClass \<times> (string \<times> PyAttr) list" where
  "class_and_attrs dbg (CapabilityShortfall sc c) =
     (CapabilityShortfallError, [(''scope'', AttrScope sc), (''required'', AttrStr (StorageCapability_debug c))])"
| "class_and_attrs dbg MissingProvenance = (MissingProvenanceError, [])"
| "class_and_attrs dbg (InvalidItem reason) = (InvalidItemError, [(''reason'', AttrStr reason)])"
| "class_and_attrs dbg (UnknownItem i) = (UnknownItemError, [(''item_id'', AttrId i)])"
| "class_and_attrs dbg (ScopeMismatch i expected found) =
     (ScopeMismatchError, [(''item_id'', AttrId i), (''expected'', AttrScope expected), (''found'', AttrScope found)])"
| "class_and_attrs dbg (DurabilityViolation from to) =
     (DurabilityViolationError, [(''from_scope'', AttrScope from), (''to_scope'', AttrScope to)])"
| "class_and_attrs dbg (PremiumOnly which) =
     (case which of ShaclUnavailable \<Rightarrow> (ShaclUnavailableError, []) | DatalogUnavailable \<Rightarrow> (DatalogUnavailableError, []))"
| "class_and_attrs dbg (NotYetImplemented what) = (NotYetImplementedError, [(''feature'', AttrStr (feature_name what))])"
| "class_and_attrs dbg (Corrupt reason) = (CorruptStoreError, [(''reason'', AttrStr (CorruptReason_display dbg reason))])"
| "class_and_attrs dbg (StorageFailed e) = (PyStorageError, [])"

definition to_py_err :: "(string \<Rightarrow> string) \<Rightarrow> SessionError \<Rightarrow> PyErr" where
  "to_py_err dbg e =
     (let msg = SessionError_display dbg e; ca = class_and_attrs dbg e
      in \<lparr>pe_class = fst ca, pe_message = msg, pe_attrs = snd ca\<rparr>)"

definition new_err :: "PyClass \<Rightarrow> string \<Rightarrow> PyErr" where
  "new_err c msg = \<lparr>pe_class = c, pe_message = msg, pe_attrs = []\<rparr>"

definition closed_err :: PyErr where
  "closed_err = \<lparr>pe_class = SessionClosedError, pe_message = ''the Session is closed'', pe_attrs = []\<rparr>"

text \<open>\<open>register\<close> adds the exception classes to the module, under these names.\<close>

definition errors_register :: "(string \<times> PyClass) list" where
  "errors_register =
     [(''SessionError'', PySessionError), (''CapabilityShortfallError'', CapabilityShortfallError),
      (''MissingProvenanceError'', MissingProvenanceError), (''InvalidItemError'', InvalidItemError),
      (''UnknownItemError'', UnknownItemError), (''ScopeMismatchError'', ScopeMismatchError),
      (''DurabilityViolationError'', DurabilityViolationError), (''PremiumOnlyError'', PremiumOnlyError),
      (''ShaclUnavailableError'', ShaclUnavailableError), (''DatalogUnavailableError'', DatalogUnavailableError),
      (''NotYetImplementedError'', NotYetImplementedError), (''CorruptStoreError'', CorruptStoreError),
      (''StorageError'', PyStorageError), (''SessionClosedError'', SessionClosedError)]"

text \<open>Every exception that stands for a session error can be named in an \<open>except\<close> clause, and so can its base classes.\<close>

lemma raised_registered:
  "pe_class (to_py_err dbg e) \<in> snd ` set errors_register" "pe_class closed_err \<in> snd ` set errors_register"
  by (cases e; auto simp: to_py_err_def errors_register_def Let_def split: ContextError.splits)
    (simp add: closed_err_def errors_register_def)

lemma bases_registered: "(n, c) \<in> set errors_register \<Longrightarrow> py_base c = Some b \<Longrightarrow> b \<in> snd ` set errors_register"
  by (auto simp: errors_register_def)

section \<open>What an exception tells\<close>

text \<open>
  A handler's view of an exception: it looks at the class and reads attributes by name, and
  concludes which session error was raised, with all its fields. The classes are those that the
  module documents for the errors. The reason of a corrupt store is only a text and a storage
  error has no attributes, so these two are not recovered.
\<close>

definition all_capabilities :: "StorageCapability list" where
  "all_capabilities = [Persistent, ConcurrentWrites, BulkLoad, SparqlEndpoint, ApproximateQuadCount,
     Isolation ReadCommitted, Isolation SnapshotIsolation, Isolation Serializable]"

definition read_attr :: "(string \<times> PyAttr) list \<Rightarrow> string \<Rightarrow> (PyAttr \<Rightarrow> 'a option) \<Rightarrow> 'a option" where
  "read_attr attrs name f = (case map_of attrs name of None \<Rightarrow> None | Some v \<Rightarrow> f v)"

fun attr_id :: "PyAttr \<Rightarrow> ItemId option" where
  "attr_id (AttrId i) = Some i"
| "attr_id _ = None"

fun attr_scope :: "PyAttr \<Rightarrow> ContextScope option" where
  "attr_scope (AttrScope sc) = Some sc"
| "attr_scope _ = None"

fun attr_str :: "PyAttr \<Rightarrow> string option" where
  "attr_str (AttrStr t) = Some t"
| "attr_str _ = None"

definition attr_capability :: "PyAttr \<Rightarrow> StorageCapability option" where
  "attr_capability v = (case v of AttrStr t \<Rightarrow> find (\<lambda>c. StorageCapability_debug c = t) all_capabilities | _ \<Rightarrow> None)"

definition attr_feature :: "PyAttr \<Rightarrow> Unimplemented option" where
  "attr_feature v = (case v of
      AttrStr t \<Rightarrow> map_of [(''owl_el_reasoner'', OwlElReasoner), (''ann_index'', AnnIndex), (''sparql'', Sparql)] t
    | _ \<Rightarrow> None)"

definition both :: "('a \<Rightarrow> 'b \<Rightarrow> 'c) \<Rightarrow> 'a option \<Rightarrow> 'b option \<Rightarrow> 'c option" where
  "both f x y = (case x of None \<Rightarrow> None | Some a \<Rightarrow> map_option (f a) y)"

fun handled :: "PyClass \<Rightarrow> (string \<times> PyAttr) list \<Rightarrow> SessionError option" where
  "handled CapabilityShortfallError attrs =
     both CapabilityShortfall (read_attr attrs ''scope'' attr_scope) (read_attr attrs ''required'' attr_capability)"
| "handled MissingProvenanceError attrs = Some MissingProvenance"
| "handled InvalidItemError attrs = map_option InvalidItem (read_attr attrs ''reason'' attr_str)"
| "handled UnknownItemError attrs = map_option UnknownItem (read_attr attrs ''item_id'' attr_id)"
| "handled ScopeMismatchError attrs =
     both (\<lambda>i (expected, found). ScopeMismatch i expected found) (read_attr attrs ''item_id'' attr_id)
       (both Pair (read_attr attrs ''expected'' attr_scope) (read_attr attrs ''found'' attr_scope))"
| "handled DurabilityViolationError attrs =
     both DurabilityViolation (read_attr attrs ''from_scope'' attr_scope) (read_attr attrs ''to_scope'' attr_scope)"
| "handled ShaclUnavailableError attrs = Some (PremiumOnly ShaclUnavailable)"
| "handled DatalogUnavailableError attrs = Some (PremiumOnly DatalogUnavailable)"
| "handled NotYetImplementedError attrs = map_option NotYetImplemented (read_attr attrs ''feature'' attr_feature)"
| "handled _ attrs = None"

lemmas attr_defs = read_attr_def both_def attr_capability_def attr_feature_def

lemma capability_read: "find (\<lambda>c'. StorageCapability_debug c' = StorageCapability_debug c) all_capabilities = Some c"
proof (cases c)
  case (Isolation i)
  then show ?thesis by (cases i) (simp_all add: all_capabilities_def)
qed (simp_all add: all_capabilities_def)

lemma handled_to_py_err:
  assumes "\<And>r. e \<noteq> Corrupt r" "\<And>x. e \<noteq> StorageFailed x"
  shows "handled (fst (class_and_attrs dbg e)) (snd (class_and_attrs dbg e)) = Some e"
proof (cases e)
  case (PremiumOnly w)
  then show ?thesis by (cases w) simp_all
next
  case (NotYetImplemented u)
  then show ?thesis by (cases u) (simp_all add: attr_defs)
qed (use assms in \<open>simp_all add: attr_defs capability_read\<close>)

text \<open>
  C34. An exception tells which error it stands for. A handler that looks only at the class and
  reads the attributes by their names gets back the error with every field in its place, except
  for two: a corrupt store is \<open>CorruptStoreError\<close> with the text of the reason, and a storage
  error is \<open>StorageError\<close> without attributes, and no other error has these classes. The message
  is the native error's text, every class is a proper subclass of \<open>SessionError\<close>, and none is
  \<open>SessionClosedError\<close>.
\<close>

theorem py_exception_identifies_error:
  "(case e of
      Corrupt r \<Rightarrow> pe_class (to_py_err dbg e) = CorruptStoreError
        \<and> read_attr (pe_attrs (to_py_err dbg e)) ''reason'' attr_str = Some (CorruptReason_display dbg r)
    | StorageFailed x \<Rightarrow> pe_class (to_py_err dbg e) = PyStorageError \<and> pe_attrs (to_py_err dbg e) = []
    | _ \<Rightarrow> handled (pe_class (to_py_err dbg e)) (pe_attrs (to_py_err dbg e)) = Some e
        \<and> pe_class (to_py_err dbg e) \<notin> {CorruptStoreError, PyStorageError})
   \<and> pe_message (to_py_err dbg e) = SessionError_display dbg e
   \<and> is_subclass (pe_class (to_py_err dbg e)) PySessionError
   \<and> pe_class (to_py_err dbg e) \<notin> {PySessionError, SessionClosedError}"
proof -
  have "is_subclass (fst (class_and_attrs dbg e)) PySessionError
      \<and> fst (class_and_attrs dbg e) \<notin> {PySessionError, SessionClosedError}"
    by (cases e) (auto simp: is_subclass_def split: ContextError.split)
  moreover have "(\<exists>r. e = Corrupt r) \<or> (\<exists>x. e = StorageFailed x)
      \<or> fst (class_and_attrs dbg e) \<notin> {CorruptStoreError, PyStorageError}"
    by (cases e) (auto split: ContextError.split)
  ultimately show ?thesis
    using handled_to_py_err [of e dbg] by (cases e) (auto simp: to_py_err_def Let_def read_attr_def)
qed

end
