(* ===== verification/Py_Values.thy ===== *)
theory Py_Values
  imports Py_Errors
begin

text \<open>
  RDF terms and JSON values as Python objects (\<^verbatim>\<open>semanticore-context-py/src/terms.rs\<close>).

  A Python object is a value of \<open>PyObj\<close>: a direct instance of one of the built-in types the
  code tests for, of a class of the module, or of another class that is unrelated to these, of
  which only the name, what iterating over it gives and what its method \<open>total_seconds\<close> gives
  are of interest. Instances of proper subclasses of the built-in types, which the casts of the
  binding accept as well (a named tuple, an \<open>OrderedDict\<close>), are not among them; \<open>bool\<close>, a
  subclass of \<open>int\<close>, is a constructor of its own and passes the test for \<open>int\<close>. Objects are
  finite: a list that contains itself is not one. A \<open>str\<close> is a sequence of code points; the
  binding can read it as UTF-8 unless it has lone surrogates. The parameter \<open>PyRuntime\<close>
  is what Python and Rust do by themselves: the errors for such a \<open>str\<close> and for an object that
  cannot be iterated over, the conversion of an object to a float, and how a float is shown.
\<close>

section \<open>Objects\<close>

datatype PyStr = Utf8 string | Surrogates "nat list"

datatype PyContextScope = PyMinor | PyMajor | PyEnduring

datatype PyObj =
    ObjNone
  | ObjBool bool
  | ObjInt int
  | ObjFloat f64
  | ObjStr PyStr
  | ObjList "PyObj list"
  | ObjTuple "PyObj list"
  | ObjDict "(PyObj \<times> PyObj) list"
  | ObjBlankNode BlankNode
  | ObjLiteral Literal
  | ObjProvenance Provenance
  | ObjScope PyContextScope
  | ObjOther string "(PyErr + PyObj) list option" "(PyErr + PyObj) option"

abbreviation py_str :: "string \<Rightarrow> PyObj" where
  "py_str s \<equiv> ObjStr (Utf8 s)"

record PyRuntime =
  rt_str_error :: "nat list \<Rightarrow> PyErr"
  rt_not_iterable :: "string \<Rightarrow> PyErr"
  rt_extract_f64 :: "PyObj \<Rightarrow> PyErr + f64"
  rt_show_f64 :: "f64 \<Rightarrow> string"

fun type_name :: "PyObj \<Rightarrow> string" where
  "type_name ObjNone = ''NoneType''"
| "type_name (ObjBool b) = ''bool''"
| "type_name (ObjInt i) = ''int''"
| "type_name (ObjFloat f) = ''float''"
| "type_name (ObjStr s) = ''str''"
| "type_name (ObjList xs) = ''list''"
| "type_name (ObjTuple xs) = ''tuple''"
| "type_name (ObjDict d) = ''dict''"
| "type_name (ObjBlankNode b) = ''BlankNode''"
| "type_name (ObjLiteral l) = ''Literal''"
| "type_name (ObjProvenance p) = ''Provenance''"
| "type_name (ObjScope s) = ''ContextScope''"
| "type_name (ObjOther c it ts) = c"

text \<open>Casts to the built-in types. \<open>bool\<close> is a subclass of \<open>int\<close>.\<close>

definition is_none :: "PyObj \<Rightarrow> bool" where
  "is_none obj = (case obj of ObjNone \<Rightarrow> True | _ \<Rightarrow> False)"

definition cast_bool :: "PyObj \<Rightarrow> bool option" where
  "cast_bool obj = (case obj of ObjBool b \<Rightarrow> Some b | _ \<Rightarrow> None)"

definition cast_int :: "PyObj \<Rightarrow> int option" where
  "cast_int obj = (case obj of ObjInt i \<Rightarrow> Some i | ObjBool b \<Rightarrow> Some (if b then 1 else 0) | _ \<Rightarrow> None)"

definition cast_float :: "PyObj \<Rightarrow> f64 option" where
  "cast_float obj = (case obj of ObjFloat f \<Rightarrow> Some f | _ \<Rightarrow> None)"

definition cast_str :: "PyObj \<Rightarrow> PyStr option" where
  "cast_str obj = (case obj of ObjStr s \<Rightarrow> Some s | _ \<Rightarrow> None)"

fun to_str :: "PyRuntime \<Rightarrow> PyStr \<Rightarrow> PyErr + string" where
  "to_str R (Utf8 s) = Inr s"
| "to_str R (Surrogates cs) = Inl (rt_str_error R cs)"

lemmas cast_defs = is_none_def cast_bool_def cast_int_def cast_float_def cast_str_def

section \<open>Blank nodes and literals\<close>

definition PyBlankNode_new :: "string \<Rightarrow> BlankNode" where
  "PyBlankNode_new i = BlankNode i"

definition PyBlankNode_id :: "BlankNode \<Rightarrow> string" where
  "PyBlankNode_id b = label b"

definition PyBlankNode_repr :: "(string \<Rightarrow> string) \<Rightarrow> BlankNode \<Rightarrow> string" where
  "PyBlankNode_repr dbg b = ''BlankNode('' @ dbg (label b) @ '')''"

definition PyBlankNode_str :: "BlankNode \<Rightarrow> string" where
  "PyBlankNode_str b = BlankNode_display b"

definition PyLiteral_new :: "string \<Rightarrow> string option \<Rightarrow> string option \<Rightarrow> PyErr + Literal" where
  "PyLiteral_new lexical datatype language =
     (case (datatype, language) of
        (None, None) \<Rightarrow> Inr (Literal_new_simple lexical)
      | (Some dt, None) \<Rightarrow> Inr (Literal_new_typed lexical (NamedNode dt))
      | (None, Some lang) \<Rightarrow> Inr (Literal_new_lang lexical lang)
      | (Some _, Some _) \<Rightarrow> Inl (new_err PyValueError ''a literal has a datatype or a language tag, not both''))"

definition PyLiteral_value :: "Literal \<Rightarrow> string" where
  "PyLiteral_value l = lit_value l"

definition PyLiteral_datatype :: "Literal \<Rightarrow> string" where
  "PyLiteral_datatype l = iri (lit_datatype l)"

definition PyLiteral_language :: "Literal \<Rightarrow> string option" where
  "PyLiteral_language l = lit_language l"

definition PyLiteral_repr :: "(string \<Rightarrow> string) \<Rightarrow> Literal \<Rightarrow> string" where
  "PyLiteral_repr dbg l =
     (case lit_language l of
        Some lang \<Rightarrow> ''Literal('' @ dbg (lit_value l) @ '', language='' @ dbg lang @ '')''
      | None \<Rightarrow> ''Literal('' @ dbg (lit_value l) @ '', datatype='' @ dbg (iri (lit_datatype l)) @ '')'')"

definition PyLiteral_str :: "Literal \<Rightarrow> string" where
  "PyLiteral_str l = Literal_display l"

section \<open>Terms\<close>

definition subject_from_py :: "PyRuntime \<Rightarrow> PyObj \<Rightarrow> PyErr + NamedOrBlankNode" where
  "subject_from_py R obj =
     (case obj of
        ObjStr s \<Rightarrow> map_ok (\<lambda>t. NbNamed (NamedNode t)) (to_str R s)
      | ObjBlankNode b \<Rightarrow> Inr (NbBlank b)
      | _ \<Rightarrow> Inl (new_err PyTypeError (''subject must be an IRI str or a BlankNode, not '' @ type_name obj)))"

definition predicate_from_py :: "PyRuntime \<Rightarrow> PyObj \<Rightarrow> PyErr + NamedNode" where
  "predicate_from_py R obj =
     (case obj of
        ObjStr s \<Rightarrow> map_ok NamedNode (to_str R s)
      | _ \<Rightarrow> Inl (new_err PyTypeError (''predicate must be an IRI str, not '' @ type_name obj)))"

definition object_from_py :: "PyRuntime \<Rightarrow> PyObj \<Rightarrow> PyErr + Term" where
  "object_from_py R obj =
     (case obj of
        ObjStr s \<Rightarrow> map_ok (\<lambda>t. TNamed (NamedNode t)) (to_str R s)
      | ObjBlankNode b \<Rightarrow> Inr (TBlank b)
      | ObjLiteral l \<Rightarrow> Inr (TLiteral l)
      | _ \<Rightarrow> Inl (new_err PyTypeError (''object must be an IRI str, a BlankNode or a Literal, not '' @ type_name obj)))"

fun subject_to_py :: "NamedOrBlankNode \<Rightarrow> PyObj" where
  "subject_to_py (NbNamed n) = py_str (iri n)"
| "subject_to_py (NbBlank b) = ObjBlankNode b"

fun object_to_py :: "Term \<Rightarrow> PyObj" where
  "object_to_py (TNamed n) = py_str (iri n)"
| "object_to_py (TBlank b) = ObjBlankNode b"
| "object_to_py (TLiteral l) = ObjLiteral l"

definition triple_from_py :: "PyRuntime \<Rightarrow> PyObj \<Rightarrow> PyErr + Quad" where
  "triple_from_py R obj =
     (case obj of
        ObjTuple t \<Rightarrow>
          if length t \<noteq> 3 then Inl (new_err PyValueError (''a triple has 3 terms, not '' @ show_nat (length t)))
          else (case subject_from_py R (t ! 0) of Inl e \<Rightarrow> Inl e
            | Inr s \<Rightarrow> (case predicate_from_py R (t ! 1) of Inl e \<Rightarrow> Inl e
              | Inr p \<Rightarrow> (case object_from_py R (t ! 2) of Inl e \<Rightarrow> Inl e
                | Inr ob \<Rightarrow> Inr (Quad_triple s p ob))))
      | _ \<Rightarrow> Inl (new_err PyTypeError (''a triple is a (subject, predicate, object) tuple, not '' @ type_name obj)))"

definition triple_to_py :: "Quad \<Rightarrow> PyObj" where
  "triple_to_py q = ObjTuple [subject_to_py (q_subject q), py_str (iri (q_predicate q)), object_to_py (q_object q)]"

lemma to_str_Inr: "to_str R s = Inr t \<longleftrightarrow> s = Utf8 t"
  by (cases s) auto

lemma to_str_Inl: "to_str R s = Inl e \<longleftrightarrow> (\<exists>cs. s = Surrogates cs \<and> e = rt_str_error R cs)"
  by (cases s) auto

lemma subject_from_py_iff: "subject_from_py R obj = Inr s \<longleftrightarrow> obj = subject_to_py s"
  by (cases s) (auto simp: subject_from_py_def to_str_Inr split: PyObj.splits)

lemma predicate_from_py_iff: "predicate_from_py R obj = Inr p \<longleftrightarrow> obj = py_str (iri p)"
  by (cases p) (auto simp: predicate_from_py_def to_str_Inr split: PyObj.splits)

lemma object_from_py_iff: "object_from_py R obj = Inr t \<longleftrightarrow> obj = object_to_py t"
  by (cases t) (auto simp: object_from_py_def to_str_Inr split: PyObj.splits)

lemmas py_term_iffs = subject_from_py_iff predicate_from_py_iff object_from_py_iff

section \<open>JSON\<close>

definition f64_is_finite :: "f64 \<Rightarrow> bool" where
  "f64_is_finite w \<longleftrightarrow> w AND 0x7FF0000000000000 \<noteq> 0x7FF0000000000000"

text \<open>\<open>Value::from\<close> an \<open>i64\<close> and a \<open>u64\<close>; \<open>extract\<close> refuses integers outside their ranges.\<close>

definition json_of_i64 :: "int \<Rightarrow> Json" where
  "json_of_i64 i = JNumber (if i < 0 then NegInt i else PosInt (nat i))"

definition json_of_u64 :: "int \<Rightarrow> Json" where
  "json_of_u64 i = JNumber (PosInt (nat i))"

definition extract_i64 :: "int \<Rightarrow> int option" where
  "extract_i64 i = (if - (2 ^ 63) \<le> i \<and> i < 2 ^ 63 then Some i else None)"

definition extract_u64 :: "int \<Rightarrow> int option" where
  "extract_u64 i = (if 0 \<le> i \<and> i < 2 ^ 64 then Some i else None)"

definition json_from_int :: "int \<Rightarrow> PyErr + Json" where
  "json_from_int n =
     (case extract_i64 n of Some i \<Rightarrow> Inr (json_of_i64 i)
      | None \<Rightarrow> (case extract_u64 n of Some u \<Rightarrow> Inr (json_of_u64 u)
        | None \<Rightarrow> Inl (new_err PyValueError ''integer out of range for a JSON event body (i64/u64)'')))"

definition json_from_float :: "f64 \<Rightarrow> PyErr + Json" where
  "json_from_float f =
     (if f64_is_finite f then Inr (JNumber (Float f))
      else Inl (new_err PyValueError ''event bodies cannot hold NaN or infinity''))"

definition json_key :: "PyRuntime \<Rightarrow> PyObj \<Rightarrow> PyErr + string" where
  "json_key R k =
     (case cast_str k of Some s \<Rightarrow> to_str R s
      | None \<Rightarrow> Inl (new_err PyTypeError (''event body keys must be str, not '' @ type_name k)))"

text \<open>
  The loops over a sequence and over a dict, with the map built so far. The recursion of the code
  uses the native stack, whose exhaustion on very deep objects is not modelled.
\<close>

fun json_from_py :: "PyRuntime \<Rightarrow> PyObj \<Rightarrow> PyErr + Json"
  and json_from_seq :: "PyRuntime \<Rightarrow> PyObj list \<Rightarrow> PyErr + Json list"
  and json_from_dict :: "PyRuntime \<Rightarrow> (PyObj \<times> PyObj) list \<Rightarrow> (string, Json) btree_map \<Rightarrow> PyErr + (string, Json) btree_map" where
  "json_from_py R obj =
     (if is_none obj then Inr JNull else
      (case cast_bool obj of Some b \<Rightarrow> Inr (JBool b) | None \<Rightarrow>
      (case cast_int obj of Some i \<Rightarrow> json_from_int i | None \<Rightarrow>
      (case cast_float obj of Some f \<Rightarrow> json_from_float f | None \<Rightarrow>
      (case cast_str obj of Some s \<Rightarrow> map_ok JString (to_str R s) | None \<Rightarrow>
      (case obj of
         ObjList xs \<Rightarrow> map_ok JArray (json_from_seq R xs)
       | ObjTuple xs \<Rightarrow> map_ok JArray (json_from_seq R xs)
       | ObjDict d \<Rightarrow> map_ok JObject (json_from_dict R d [])
       | _ \<Rightarrow> Inl (new_err PyTypeError (type_name obj @ '' is not JSON-serializable''))))))))"
| "json_from_seq R [] = Inr []"
| "json_from_seq R (x # xs) =
     (case json_from_py R x of Inl e \<Rightarrow> Inl e
      | Inr v \<Rightarrow> (case json_from_seq R xs of Inl e \<Rightarrow> Inl e | Inr vs \<Rightarrow> Inr (v # vs)))"
| "json_from_dict R [] m = Inr m"
| "json_from_dict R ((k, x) # d) m =
     (case json_key R k of Inl e \<Rightarrow> Inl e
      | Inr s \<Rightarrow> (case json_from_py R x of Inl e \<Rightarrow> Inl e
        | Inr v \<Rightarrow> json_from_dict R d (bt_insert s v m)))"

declare json_from_py.simps [simp del]

fun as_i64 :: "JsonNumber \<Rightarrow> int option" where
  "as_i64 (PosInt n) = (if n < 2 ^ 63 then Some (int n) else None)"
| "as_i64 (NegInt i) = Some i"
| "as_i64 (Float f) = None"

fun as_u64 :: "JsonNumber \<Rightarrow> nat option" where
  "as_u64 (PosInt n) = Some n"
| "as_u64 (NegInt i) = None"
| "as_u64 (Float f) = None"

text \<open>The last branch of \<open>json_to_py\<close> on numbers is reached by floats only.\<close>

definition json_number_to_py :: "JsonNumber \<Rightarrow> PyObj" where
  "json_number_to_py n =
     (case as_i64 n of Some i \<Rightarrow> ObjInt i
      | None \<Rightarrow> (case as_u64 n of Some u \<Rightarrow> ObjInt (int u)
        | None \<Rightarrow> (case n of Float f \<Rightarrow> ObjFloat f | _ \<Rightarrow> ObjNone)))"

text \<open>\<open>PyDict::set_item\<close>: a present key keeps its place.\<close>

fun dict_set :: "PyObj \<Rightarrow> PyObj \<Rightarrow> (PyObj \<times> PyObj) list \<Rightarrow> (PyObj \<times> PyObj) list" where
  "dict_set k v [] = [(k, v)]"
| "dict_set k v (p # d) = (if fst p = k then (fst p, v) # d else p # dict_set k v d)"

fun json_to_py :: "Json \<Rightarrow> PyObj"
  and json_to_list :: "Json list \<Rightarrow> PyObj list \<Rightarrow> PyObj list"
  and json_to_dict :: "(string \<times> Json) list \<Rightarrow> (PyObj \<times> PyObj) list \<Rightarrow> (PyObj \<times> PyObj) list" where
  "json_to_py JNull = ObjNone"
| "json_to_py (JBool b) = ObjBool b"
| "json_to_py (JNumber n) = json_number_to_py n"
| "json_to_py (JString s) = py_str s"
| "json_to_py (JArray items) = ObjList (json_to_list items [])"
| "json_to_py (JObject m) = ObjDict (json_to_dict m [])"
| "json_to_list [] xs = xs"
| "json_to_list (v # vs) xs = json_to_list vs (xs @ [json_to_py v])"
| "json_to_dict [] d = d"
| "json_to_dict ((k, v) # m) d = json_to_dict m (dict_set (py_str k) (json_to_py v) d)"

section \<open>What the conversions keep\<close>

text \<open>
  The values of \<open>serde_json::Value\<close>: numbers in range and finite, objects ordered by key.
\<close>

fun number_wf :: "JsonNumber \<Rightarrow> bool" where
  "number_wf (PosInt n) \<longleftrightarrow> n < 2 ^ 64"
| "number_wf (NegInt i) \<longleftrightarrow> - (2 ^ 63) \<le> i \<and> i < 0"
| "number_wf (Float f) \<longleftrightarrow> f64_is_finite f"

fun json_wf :: "Json \<Rightarrow> bool" where
  "json_wf (JNumber n) = number_wf n"
| "json_wf (JArray vs) = list_all json_wf vs"
| "json_wf (JObject m) \<longleftrightarrow> bt_wf m \<and> list_all (\<lambda>p. json_wf (snd p)) m"
| "json_wf _ = True"

text \<open>The objects that an event body can hold.\<close>

fun json_compatible :: "PyObj \<Rightarrow> bool" where
  "json_compatible ObjNone = True"
| "json_compatible (ObjBool b) = True"
| "json_compatible (ObjInt i) \<longleftrightarrow> - (2 ^ 63) \<le> i \<and> i < 2 ^ 64"
| "json_compatible (ObjFloat f) = f64_is_finite f"
| "json_compatible (ObjStr s) \<longleftrightarrow> (\<exists>t. s = Utf8 t)"
| "json_compatible (ObjList xs) = list_all json_compatible xs"
| "json_compatible (ObjTuple xs) = list_all json_compatible xs"
| "json_compatible (ObjDict d) \<longleftrightarrow>
     list_all (\<lambda>p. case fst p of ObjStr (Utf8 t) \<Rightarrow> True | _ \<Rightarrow> False) d \<and> list_all (\<lambda>p. json_compatible (snd p)) d"
| "json_compatible _ = False"

text \<open>
  Equal up to what JSON does not tell apart: tuples and lists, and the order of a dict.
\<close>

inductive same_value :: "PyObj \<Rightarrow> PyObj \<Rightarrow> bool" where
  same_refl: "same_value x x"
| same_list: "list_all2 same_value xs ys \<Longrightarrow> same_value (ObjList xs) (ObjList ys)"
| same_tuple: "list_all2 same_value xs ys \<Longrightarrow> same_value (ObjTuple xs) (ObjList ys)"
| same_dict: "(\<And>k. rel_option same_value (map_of d k) (map_of d' k)) \<Longrightarrow> same_value (ObjDict d) (ObjDict d')"

text \<open>The keys of a dict are distinct.\<close>

fun py_wf :: "PyObj \<Rightarrow> bool" where
  "py_wf (ObjList xs) = list_all py_wf xs"
| "py_wf (ObjTuple xs) = list_all py_wf xs"
| "py_wf (ObjDict d) \<longleftrightarrow> distinct (map fst d) \<and> list_all (\<lambda>p. py_wf (fst p) \<and> py_wf (snd p)) d"
| "py_wf _ = True"

lemma json_from_py_cases [simp]:
  "json_from_py R ObjNone = Inr JNull"
  "json_from_py R (ObjBool b) = Inr (JBool b)"
  "json_from_py R (ObjInt i) = json_from_int i"
  "json_from_py R (ObjFloat f) = json_from_float f"
  "json_from_py R (ObjStr s) = map_ok JString (to_str R s)"
  "json_from_py R (ObjList xs) = map_ok JArray (json_from_seq R xs)"
  "json_from_py R (ObjTuple xs) = map_ok JArray (json_from_seq R xs)"
  "json_from_py R (ObjDict d) = map_ok JObject (json_from_dict R d [])"
  "json_from_py R (ObjBlankNode n) = Inl (new_err PyTypeError ''BlankNode is not JSON-serializable'')"
  "json_from_py R (ObjLiteral l) = Inl (new_err PyTypeError ''Literal is not JSON-serializable'')"
  "json_from_py R (ObjProvenance p) = Inl (new_err PyTypeError ''Provenance is not JSON-serializable'')"
  "json_from_py R (ObjScope sc) = Inl (new_err PyTypeError ''ContextScope is not JSON-serializable'')"
  "json_from_py R (ObjOther c it ts) = Inl (new_err PyTypeError (c @ '' is not JSON-serializable''))"
  by (simp_all add: json_from_py.simps cast_defs)

lemma json_from_seq_collect: "json_from_seq R xs = collect_results (map (json_from_py R) xs)"
  by (induction xs) (auto split: sum.split)

lemma json_from_seq_Inr: "json_from_seq R xs = Inr vs \<longleftrightarrow> list_all2 (\<lambda>x v. json_from_py R x = Inr v) xs vs"
  by (simp add: json_from_seq_collect collect_results_Inr flip: list.rel_eq) (simp add: list.rel_map)

lemma json_to_list_map: "json_to_list vs xs = xs @ map json_to_py vs"
  by (induction vs arbitrary: xs) simp_all

lemma dict_set_new: "k \<notin> fst ` set d \<Longrightarrow> dict_set k v d = d @ [(k, v)]"
  by (induction d) auto

lemma json_to_dict_map:
  "distinct (map fst m) \<Longrightarrow> (\<forall>k\<in>fst ` set m. py_str k \<notin> fst ` set d) \<Longrightarrow>
    json_to_dict m d = d @ map (\<lambda>(k, v). (py_str k, json_to_py v)) m"
proof (induction m arbitrary: d)
  case (Cons p m)
  obtain k v where p: "p = (k, v)" by (cases p)
  have "dict_set (py_str k) (json_to_py v) d = d @ [(py_str k, json_to_py v)]"
    using Cons.prems(2) p by (intro dict_set_new) simp
  moreover have "\<forall>k'\<in>fst ` set m. py_str k' \<notin> fst ` set (d @ [(py_str k, json_to_py v)])"
    using Cons.prems p by auto
  ultimately show ?case using Cons.IH [of "d @ [(py_str k, json_to_py v)]"] Cons.prems(1) p by simp
qed simp

lemma json_to_py_containers:
  "json_to_py (JArray vs) = ObjList (map json_to_py vs)"
  "bt_wf m \<Longrightarrow> json_to_py (JObject m) = ObjDict (map (\<lambda>(k, v). (py_str k, json_to_py v)) m)"
  by (simp_all add: json_to_list_map json_to_dict_map bt_distinct_keys)

lemma number_round_trip: "number_wf n \<Longrightarrow> json_from_py R (json_number_to_py n) = Inr (JNumber n)"
  by (cases n) (auto simp: json_number_to_py_def json_from_int_def json_from_float_def extract_i64_def extract_u64_def
    json_of_i64_def json_of_u64_def)

lemma json_from_dict_append:
  "sorted_wrt (<) (map fst (acc @ m)) \<Longrightarrow> (\<forall>(k, v)\<in>set m. json_from_py R (json_to_py v) = Inr v) \<Longrightarrow>
    json_from_dict R (map (\<lambda>(k, v). (py_str k, json_to_py v)) m) acc = Inr (acc @ m)"
proof (induction m arbitrary: acc)
  case (Cons p m)
  obtain k v where p: "p = (k, v)" by (cases p)
  have "bt_insert k v acc = acc @ [(k, v)]"
    using Cons.prems(1) p by (intro bt_insert_last) (auto simp: sorted_wrt_append)
  then show ?case using Cons.prems Cons.IH [of "acc @ [(k, v)]"] p by (simp add: json_key_def cast_str_def)
qed simp

lemma json_round_trip: "json_wf v \<Longrightarrow> json_from_py R (json_to_py v) = Inr v"
proof (induction v)
  case (JNumber n)
  then show ?case by (simp add: number_round_trip)
next
  case (JArray vs)
  then have "json_from_seq R (map json_to_py vs) = Inr vs"
    by (auto simp: json_from_seq_collect collect_results_Inr list_all_iff)
  then show ?case by (simp add: json_to_py_containers del: json_to_py.simps)
next
  case (JObject m)
  have "json_from_dict R (map (\<lambda>(k, v). (py_str k, json_to_py v)) m) [] = Inr ([] @ m)"
    using JObject by (intro json_from_dict_append) (auto simp: bt_wf_def list_all_iff)
  then show ?case using JObject.prems by (simp add: json_to_py_containers del: json_to_py.simps)
qed simp_all

lemma json_key_Inr: "json_key R k = Inr s \<longleftrightarrow> k = py_str s"
  by (cases k) (simp_all add: json_key_def cast_str_def to_str_Inr)

lemma json_from_int_ok: "(\<exists>v. json_from_int i = Inr v) \<longleftrightarrow> - (2 ^ 63) \<le> i \<and> i < 2 ^ 64"
  by (auto simp: json_from_int_def extract_i64_def extract_u64_def)

lemma json_from_float_ok: "(\<exists>v. json_from_float f = Inr v) \<longleftrightarrow> f64_is_finite f"
  by (simp add: json_from_float_def)

lemma json_from_seq_from: "json_from_seq R xs = Inr vs \<Longrightarrow> v \<in> set vs \<Longrightarrow> \<exists>x\<in>set xs. json_from_py R x = Inr v"
  by (induction xs arbitrary: vs) (auto split: sum.splits)

lemma json_from_seq_ok: "(\<exists>vs. json_from_seq R xs = Inr vs) \<longleftrightarrow> (\<forall>x\<in>set xs. \<exists>v. json_from_py R x = Inr v)"
  by (induction xs) (auto split: sum.splits)

lemma json_from_dict_ok:
  "(\<exists>m'. json_from_dict R d m = Inr m') \<longleftrightarrow>
     (\<forall>(k, x)\<in>set d. (\<exists>s. k = py_str s) \<and> (\<exists>v. json_from_py R x = Inr v))"
proof (induction d arbitrary: m)
  case (Cons p d)
  obtain k x where p: "p = (k, x)" by (cases p)
  show ?case
  proof (cases "json_key R k")
    case (Inl e)
    then have "\<forall>s. k \<noteq> py_str s" by (metis json_key_Inr Inl_Inr_False)
    with Inl p show ?thesis by simp
  next
    case (Inr s)
    then have "k = py_str s" by (simp add: json_key_Inr)
    with Inr p Cons.IH show ?thesis by (cases "json_from_py R x") auto
  qed
qed simp

lemma str_key_iff: "(case k of ObjStr (Utf8 t) \<Rightarrow> True | _ \<Rightarrow> False) \<longleftrightarrow> (\<exists>s. k = py_str s)"
  by (cases k) (auto split: PyStr.splits)

lemma json_from_py_ok: "(\<exists>v. json_from_py R obj = Inr v) \<longleftrightarrow> json_compatible obj"
proof (induction obj)
  case (ObjStr s)
  then show ?case by (cases s) auto
next
  case (ObjList xs)
  have "(\<exists>v. json_from_py R (ObjList xs) = Inr v) \<longleftrightarrow> (\<exists>vs. json_from_seq R xs = Inr vs)" by auto
  with ObjList show ?case by (simp add: json_from_seq_ok list_all_iff)
next
  case (ObjTuple xs)
  have "(\<exists>v. json_from_py R (ObjTuple xs) = Inr v) \<longleftrightarrow> (\<exists>vs. json_from_seq R xs = Inr vs)" by auto
  with ObjTuple show ?case by (simp add: json_from_seq_ok list_all_iff)
next
  case (ObjDict d)
  have comp: "\<forall>p\<in>set d. (\<exists>v. json_from_py R (snd p) = Inr v) = json_compatible (snd p)"
    using ObjDict.IH(2) by (metis snds.intros prod.collapse)
  have "(\<exists>v. json_from_py R (ObjDict d) = Inr v) \<longleftrightarrow> (\<exists>m'. json_from_dict R d [] = Inr m')" by auto
  also have "\<dots> \<longleftrightarrow> (\<forall>(k, x)\<in>set d. (\<exists>s. k = py_str s) \<and> json_compatible x)"
    using comp by (simp add: json_from_dict_ok case_prod_unfold)
  also have "\<dots> \<longleftrightarrow> json_compatible (ObjDict d)"
    by (simp add: list_all_iff str_key_iff case_prod_unfold ball_conj_distrib)
  finally show ?case .
qed (simp_all add: json_from_int_ok json_from_float_ok)

text \<open>The map that a dict with distinct keys becomes.\<close>

lemma json_from_dict_get:
  assumes "json_from_dict R d m = Inr m'" "bt_wf m" "distinct (map fst d)"
  shows "bt_wf m' \<and> (\<forall>k. case map_of d (py_str k) of
      None \<Rightarrow> bt_get m' k = bt_get m k
    | Some x \<Rightarrow> \<exists>v. json_from_py R x = Inr v \<and> bt_get m' k = Some v)"
  using assms
proof (induction d arbitrary: m)
  case (Cons p d)
  obtain k x where p: "p = (k, x)" by (cases p)
  obtain s v where s: "k = py_str s" and v: "json_from_py R x = Inr v"
    and rest: "json_from_dict R d (bt_insert s v m) = Inr m'"
    using Cons.prems(1) p by (auto simp: json_key_Inr split: sum.splits)
  have new: "map_of d (py_str s) = None" using Cons.prems(3) p s by (auto simp: map_of_eq_None_iff)
  note IH = Cons.IH [OF rest] 
  have "bt_wf m'" using IH Cons.prems by simp
  moreover have "case map_of (p # d) (py_str k') of
      None \<Rightarrow> bt_get m' k' = bt_get m k'
    | Some y \<Rightarrow> \<exists>w. json_from_py R y = Inr w \<and> bt_get m' k' = Some w" for k'
  proof (cases "k' = s")
    case True
    with IH Cons.prems new v p s show ?thesis by (auto dest: spec [of _ s])
  next
    case False
    with IH Cons.prems p s show ?thesis by (auto dest: spec [of _ k'] split: option.splits)
  qed
  ultimately show ?case by blast
qed simp

lemma map_of_py_keys:
  "map_of (map (\<lambda>(k, v). (py_str k, json_to_py v)) m) obj =
    (case obj of ObjStr (Utf8 k) \<Rightarrow> map_option json_to_py (map_of m k) | _ \<Rightarrow> None)"
  by (induction m) (auto split: PyObj.splits PyStr.splits)

lemma set_bt_insert_subset: "set (bt_insert k v m) \<subseteq> insert (k, v) (set m)"
  by (induction m) auto

lemma json_from_dict_wf:
  "json_from_dict R d m = Inr m' \<Longrightarrow> bt_wf m \<Longrightarrow> (\<forall>p\<in>set m. json_wf (snd p)) \<Longrightarrow>
    (\<forall>p\<in>set d. \<forall>v. json_from_py R (snd p) = Inr v \<longrightarrow> json_wf v) \<Longrightarrow> bt_wf m' \<and> (\<forall>p\<in>set m'. json_wf (snd p))"
proof (induction d arbitrary: m)
  case (Cons p d)
  obtain k x where p: "p = (k, x)" by (cases p)
  obtain s v where v: "json_from_py R x = Inr v" and rest: "json_from_dict R d (bt_insert s v m) = Inr m'"
    using Cons.prems(1) p by (auto split: sum.splits)
  have "\<forall>p\<in>set (bt_insert s v m). json_wf (snd p)"
    using set_bt_insert_subset [of s v m] Cons.prems(3,4) v p by fastforce
  with Cons.IH [OF rest] Cons.prems(2,4) show ?case by simp
qed simp

lemma json_from_py_wf: "json_from_py R obj = Inr v \<Longrightarrow> json_wf v"
proof (induction obj arbitrary: v)
  case (ObjList xs)
  then show ?case using json_from_seq_from by (fastforce simp: list_all_iff)
next
  case (ObjTuple xs)
  then show ?case using json_from_seq_from by (fastforce simp: list_all_iff)
next
  case (ObjDict d)
  then obtain m where m: "json_from_dict R d [] = Inr m" "v = JObject m" by auto
  have "\<forall>p\<in>set d. \<forall>v. json_from_py R (snd p) = Inr v \<longrightarrow> json_wf v"
    using ObjDict.IH by (metis snds.intros prod.collapse)
  with json_from_dict_wf [OF m(1)] m(2) show ?case by (simp add: list_all_iff)
qed (auto simp: json_from_int_def json_from_float_def extract_i64_def extract_u64_def json_of_i64_def json_of_u64_def
  split: if_splits option.splits)

lemma json_from_int_back: "json_from_int i = Inr v \<Longrightarrow> json_to_py v = ObjInt i"
  by (auto simp: json_from_int_def json_number_to_py_def extract_i64_def extract_u64_def json_of_i64_def json_of_u64_def
    split: if_splits)

lemma same_value_seq:
  assumes "json_from_seq R xs = Inr vs"
    and "\<And>x v. x \<in> set xs \<Longrightarrow> json_from_py R x = Inr v \<Longrightarrow> same_value x (json_to_py v)"
  shows "list_all2 same_value xs (map json_to_py vs)"
  using assms by (auto simp: json_from_seq_Inr list_all2_conv_all_nth)

lemma json_from_py_same: "json_from_py R obj = Inr v \<Longrightarrow> py_wf obj \<Longrightarrow> same_value obj (json_to_py v)"
proof (induction obj arbitrary: v)
  case (ObjList xs)
  then obtain vs where vs: "json_from_seq R xs = Inr vs" "v = JArray vs" by auto
  have "list_all2 same_value xs (map json_to_py vs)"
    by (rule same_value_seq [OF vs(1)]) (use ObjList in \<open>auto simp: list_all_iff\<close>)
  with vs(2) show ?case by (simp add: json_to_py_containers same_list del: json_to_py.simps)
next
  case (ObjTuple xs)
  then obtain vs where vs: "json_from_seq R xs = Inr vs" "v = JArray vs" by auto
  have "list_all2 same_value xs (map json_to_py vs)"
    by (rule same_value_seq [OF vs(1)]) (use ObjTuple in \<open>auto simp: list_all_iff\<close>)
  with vs(2) show ?case by (simp add: json_to_py_containers same_tuple del: json_to_py.simps)
next
  case (ObjDict d)
  then obtain m where m: "json_from_dict R d [] = Inr m" "v = JObject m" by auto
  have get: "bt_wf m \<and> (\<forall>k. case map_of d (py_str k) of None \<Rightarrow> bt_get m k = bt_get [] k
      | Some x \<Rightarrow> \<exists>v. json_from_py R x = Inr v \<and> bt_get m k = Some v)"
    using json_from_dict_get [OF m(1)] ObjDict.prems(2) by simp
  have keys: "\<exists>k. obj = py_str k" if "map_of d obj = Some x" for obj x
    using m(1) json_from_dict_ok [of R d "[]"] map_of_SomeD [OF that] by fastforce
  have "rel_option same_value (map_of d obj) (map_of (map (\<lambda>(k, v). (py_str k, json_to_py v)) m) obj)" for obj
  proof (cases "\<exists>k. obj = py_str k")
    case True
    then obtain k where k: "obj = py_str k" by blast
    show ?thesis
    proof (cases "map_of d obj")
      case None
      with get k show ?thesis by (auto simp: map_of_py_keys bt_get_def dest: spec [of _ k])
    next
      case (Some x)
      with spec [OF conjunct2 [OF get], of k] k obtain w where w: "json_from_py R x = Inr w" "bt_get m k = Some w" by auto
      have "same_value x (json_to_py w)"
        using ObjDict.IH(2) [of "(obj, x)" x w] w(1) ObjDict.prems(2) map_of_SomeD [OF Some] by (auto simp: list_all_iff)
      with Some w(2) k show ?thesis by (simp add: map_of_py_keys bt_get_def)
    qed
  next
    case False
    then have "map_of d obj = None" using keys by fastforce
    with False show ?thesis by (auto simp: map_of_py_keys split: PyObj.splits PyStr.splits)
  qed
  with get m(2) show ?case by (simp add: json_to_py_containers same_dict del: json_to_py.simps)
qed (auto simp: to_str_Inr json_from_float_def json_number_to_py_def json_from_int_back intro: same_refl split: if_splits)

section \<open>Refusals\<close>

text \<open>
  The exceptions of the conversions: a type error, a value error, or that of the runtime for a
  \<open>str\<close> that is not UTF-8.
\<close>

definition py_refusal :: "PyRuntime \<Rightarrow> PyErr \<Rightarrow> bool" where
  "py_refusal R e \<longleftrightarrow> pe_class e = PyTypeError \<or> pe_class e = PyValueError \<or> (\<exists>cs. e = rt_str_error R cs)"

lemma new_err_sel [simp]: "pe_class (new_err c m) = c" "pe_message (new_err c m) = m" "pe_attrs (new_err c m) = []"
  by (simp_all add: new_err_def)

lemma py_refusal_simps [simp]:
  "py_refusal R (new_err PyTypeError m)" "py_refusal R (new_err PyValueError m)" "py_refusal R (rt_str_error R cs)"
  by (auto simp: py_refusal_def)

lemma to_str_refusal: "to_str R s = Inl e \<Longrightarrow> py_refusal R e"
  by (auto simp: to_str_Inl)

lemma term_errors:
  "subject_from_py R obj = Inl e \<Longrightarrow> pe_class e = PyTypeError \<or> (\<exists>cs. e = rt_str_error R cs)"
  "predicate_from_py R obj = Inl e \<Longrightarrow> pe_class e = PyTypeError \<or> (\<exists>cs. e = rt_str_error R cs)"
  "object_from_py R obj = Inl e \<Longrightarrow> pe_class e = PyTypeError \<or> (\<exists>cs. e = rt_str_error R cs)"
  by (auto simp: subject_from_py_def predicate_from_py_def object_from_py_def to_str_Inl split: PyObj.splits)

lemma triple_error:
  assumes "triple_from_py R obj = Inl e"
  shows "if \<exists>t. obj = ObjTuple t \<and> length t \<noteq> 3 then pe_class e = PyValueError
    else pe_class e = PyTypeError \<or> (\<exists>cs. e = rt_str_error R cs)"
proof (cases "\<exists>t. obj = ObjTuple t")
  case True
  then obtain t where t: "obj = ObjTuple t" by blast
  show ?thesis
  proof (cases "length t = 3")
    case True
    with assms t have "subject_from_py R (t ! 0) = Inl e \<or> predicate_from_py R (t ! 1) = Inl e \<or> object_from_py R (t ! 2) = Inl e"
      by (auto simp: triple_from_py_def split: sum.splits)
    then have "pe_class e = PyTypeError \<or> (\<exists>cs. e = rt_str_error R cs)" by (elim disjE) (rule term_errors, assumption)+
    with True t show ?thesis by simp
  qed (use assms t in \<open>auto simp: triple_from_py_def\<close>)
next
  case False
  then show ?thesis using assms by (cases obj) (auto simp: triple_from_py_def)
qed

lemma triple_refusal: "triple_from_py R obj = Inl e \<Longrightarrow> py_refusal R e"
  using triple_error [of R obj e] by (auto simp: py_refusal_def split: if_splits)

lemma json_refusal: "json_from_py R obj = Inl e \<Longrightarrow> py_refusal R e"
proof (induction obj arbitrary: e)
  case (ObjList xs)
  have "json_from_seq R xs = Inl e \<Longrightarrow> py_refusal R e"
    using ObjList.IH by (induction xs) (auto split: sum.splits)
  with ObjList.prems show ?case by simp
next
  case (ObjTuple xs)
  have "json_from_seq R xs = Inl e \<Longrightarrow> py_refusal R e"
    using ObjTuple.IH by (induction xs) (auto split: sum.splits)
  with ObjTuple.prems show ?case by simp
next
  case (ObjDict d)
  have elem: "\<forall>p\<in>set d. \<forall>e. json_from_py R (snd p) = Inl e \<longrightarrow> py_refusal R e"
    using ObjDict.IH(2) by (metis snds.intros prod.collapse)
  have "json_from_dict R d m = Inl e \<Longrightarrow> py_refusal R e" for m
    using elem
    by (induction d arbitrary: m)
      (auto simp: json_key_def cast_str_def to_str_refusal split: sum.splits option.splits PyObj.splits)
  with ObjDict.prems show ?case by simp
qed (auto simp: to_str_refusal json_from_int_def json_from_float_def split: if_splits option.splits)

section \<open>Properties\<close>

lemma Quad_default_graph: "q_graph q = GDefault \<Longrightarrow> q = Quad_triple (q_subject q) (q_predicate q) (q_object q)"
  by (simp add: Quad_triple_def Quad_new_def)

lemma triple_to_py_triple [simp]:
  "triple_to_py (Quad_triple s p ob) = ObjTuple [subject_to_py s, py_str (iri p), object_to_py ob]"
  by (simp add: triple_to_py_def)

lemma length_3: "length t = 3 \<Longrightarrow> t = [t ! 0, t ! 1, t ! 2]"
  by (auto simp: length_Suc_conv numeral_3_eq_3)

lemma triple_from_py_iff: "triple_from_py R obj = Inr q \<longleftrightarrow> q_graph q = GDefault \<and> obj = triple_to_py q"
proof
  assume "triple_from_py R obj = Inr q"
  then obtain t s p ob where "obj = ObjTuple t" "length t = 3" "subject_from_py R (t ! 0) = Inr s"
    "predicate_from_py R (t ! 1) = Inr p" "object_from_py R (t ! 2) = Inr ob" "q = Quad_triple s p ob"
    by (auto simp: triple_from_py_def split: PyObj.splits if_splits sum.splits)
  then show "q_graph q = GDefault \<and> obj = triple_to_py q"
    using length_3 [of t] by (simp add: py_term_iffs)
next
  assume "q_graph q = GDefault \<and> obj = triple_to_py q"
  moreover have "subject_from_py R (subject_to_py (q_subject q)) = Inr (q_subject q)"
    "predicate_from_py R (py_str (iri (q_predicate q))) = Inr (q_predicate q)"
    "object_from_py R (object_to_py (q_object q)) = Inr (q_object q)"
    by (simp_all add: py_term_iffs)
  ultimately show "triple_from_py R obj = Inr q"
    using Quad_default_graph [of q] by (simp add: triple_from_py_def triple_to_py_def)
qed

text \<open>
  C36. Triples and Python tuples correspond one to one: the tuples that convert to a quad are
  exactly the images of default-graph quads, and the quad converts back to the tuple it came
  from. Every other object is refused, with \<open>ValueError\<close> for a tuple of another length and
  otherwise with \<open>TypeError\<close> or the error of a \<open>str\<close> that is not UTF-8.
\<close>

theorem py_triple_correspondence:
  "(triple_from_py R obj = Inr q \<longleftrightarrow> q_graph q = GDefault \<and> obj = triple_to_py q)
   \<and> (case triple_from_py R obj of
        Inr q \<Rightarrow> True
      | Inl e \<Rightarrow> (if \<exists>t. obj = ObjTuple t \<and> length t \<noteq> 3 then pe_class e = PyValueError
          else pe_class e = PyTypeError \<or> (\<exists>cs. e = rt_str_error R cs)))"
  using triple_from_py_iff [of R obj q] triple_error [of R obj] by (simp split: sum.split)

text \<open>
  C37. Event bodies keep their value. A Python object is accepted exactly if JSON can hold it;
  the JSON value is well formed, and converted back it is the same Python value, up to the
  difference of tuples and lists and the order of dicts. A JSON value converted to Python and
  back is itself. What is refused is refused with \<open>TypeError\<close>, \<open>ValueError\<close> or the error of a
  \<open>str\<close> that is not UTF-8.
\<close>

theorem py_json_faithful:
  assumes "py_wf obj" and "json_wf w"
  shows "(case json_from_py R obj of
        Inr v \<Rightarrow> json_compatible obj \<and> json_wf v \<and> same_value obj (json_to_py v)
      | Inl e \<Rightarrow> \<not> json_compatible obj \<and> py_refusal R e)
    \<and> json_from_py R (json_to_py w) = Inr w"
  using json_from_py_ok [of R obj] json_from_py_wf [of R obj] json_from_py_same [of R obj] json_refusal [of R obj]
    json_round_trip [OF assms(2)] assms(1)
  by (cases "json_from_py R obj") auto

definition w_runtime :: PyRuntime where
  "w_runtime = \<lparr>rt_str_error = (\<lambda>cs. new_err (OtherClass ''UnicodeEncodeError'') ''surrogates not allowed''),
     rt_not_iterable = (\<lambda>c. new_err PyTypeError (c @ '' object is not iterable'')),
     rt_extract_f64 = (\<lambda>obj. case obj of ObjFloat f \<Rightarrow> Inr f | ObjInt i \<Rightarrow> (if i = 2 then Inr 0x4000000000000000 else Inr 0)
       | _ \<Rightarrow> Inl (new_err PyTypeError ''must be real number'')),
     rt_show_f64 = (\<lambda>f. ''?'')\<rparr>"

definition w_body :: PyObj where
  "w_body = ObjDict [(py_str ''t'', ObjTuple [ObjInt 1, ObjBool True]), (py_str ''b'', ObjNone)]"

theorem py_json_faithful_witness:
  "json_from_py w_runtime w_body = Inr (JObject [(''b'', JNull), (''t'', JArray [JNumber (PosInt 1), JBool True])])
   \<and> same_value w_body (ObjDict [(py_str ''b'', ObjNone), (py_str ''t'', ObjList [ObjInt 1, ObjBool True])])
   \<and> json_from_py w_runtime (json_to_py (JObject [(''k'', JNumber (NegInt (-7)))])) = Inr (JObject [(''k'', JNumber (NegInt (-7)))])"
proof -
  let ?v = "JObject [(''b'', JNull), (''t'', JArray [JNumber (PosInt 1), JBool True])]"
  have v: "json_from_py w_runtime w_body = Inr ?v"
    by (simp add: w_body_def json_key_def cast_str_def json_from_int_def extract_i64_def json_of_i64_def)
  have "json_to_py ?v = ObjDict [(py_str ''b'', ObjNone), (py_str ''t'', ObjList [ObjInt 1, ObjBool True])]"
    by (simp add: json_number_to_py_def)
  moreover have "py_wf w_body" by (simp add: w_body_def)
  moreover have "json_wf (JObject [(''k'', JNumber (NegInt (-7)))])" by (simp add: bt_wf_def)
  ultimately show ?thesis using v py_json_faithful [of w_body "JObject [(''k'', JNumber (NegInt (-7)))]" w_runtime] by simp
qed

end
