(* ===== verification/Py_Items.thy ===== *)
theory Py_Items
  imports Py_Values
begin

text \<open>
  Items, queries and their results as Python objects (\<^verbatim>\<open>semanticore-context-py/src/item.rs\<close>
  and \<^verbatim>\<open>query.rs\<close>). The wrapper classes hold a native value each, which stands for the object
  here; PyO3 has converted arguments of a native or wrapped type before a method runs. How Rust
  formats a string with \<open>Debug\<close> is the parameter \<open>dbg\<close>.
\<close>

section \<open>Scopes\<close>

fun PyContextScope_from :: "ContextScope \<Rightarrow> PyContextScope" where
  "PyContextScope_from Minor = PyMinor"
| "PyContextScope_from Major = PyMajor"
| "PyContextScope_from Enduring = PyEnduring"

fun scope_into :: "PyContextScope \<Rightarrow> ContextScope" where
  "scope_into PyMinor = Minor"
| "scope_into PyMajor = Major"
| "scope_into PyEnduring = Enduring"

lemma scope_into_from [simp]: "scope_into (PyContextScope_from s) = s"
  by (cases s) simp_all

lemma PyContextScope_from_into [simp]: "PyContextScope_from (scope_into s) = s"
  by (cases s) simp_all

text \<open>The derived order is that of the declaration, as for the native scopes.\<close>

instantiation PyContextScope :: linorder
begin

definition less_eq_PyContextScope :: "PyContextScope \<Rightarrow> PyContextScope \<Rightarrow> bool" where
  "less_eq_PyContextScope a b \<longleftrightarrow> scope_into a \<le> scope_into b"

definition less_PyContextScope :: "PyContextScope \<Rightarrow> PyContextScope \<Rightarrow> bool" where
  "less_PyContextScope a b \<longleftrightarrow> scope_into a < scope_into b"

instance
proof
  fix a b :: PyContextScope
  assume "a \<le> b" "b \<le> a"
  then have "scope_into a = scope_into b" by (simp add: less_eq_PyContextScope_def)
  then show "a = b" by (metis PyContextScope_from_into)
qed (auto simp: less_eq_PyContextScope_def less_PyContextScope_def)

end

definition PyContextScope_all :: "PyContextScope list" where
  "PyContextScope_all = map PyContextScope_from ContextScope_ALL"

definition PyContextScope_colder :: "PyContextScope \<Rightarrow> PyContextScope option" where
  "PyContextScope_colder s = map_option PyContextScope_from (colder (scope_into s))"

definition PyContextScope_str :: "PyContextScope \<Rightarrow> string" where
  "PyContextScope_str s = tag (scope_into s)"

section \<open>Item ids and provenance\<close>

definition PyItemId_repr :: "(string \<Rightarrow> string) \<Rightarrow> ItemId \<Rightarrow> string" where
  "PyItemId_repr dbg i = ''ItemId('' @ dbg (ItemId_display i) @ '')''"

definition PyItemId_str :: "ItemId \<Rightarrow> string" where
  "PyItemId_str i = ItemId_display i"

definition PyProvenance_new :: "string \<Rightarrow> ItemId list \<Rightarrow> Provenance" where
  "PyProvenance_new src ids = with_derived_from (Provenance_new src) ids"

definition PyProvenance_source :: "Provenance \<Rightarrow> string" where
  "PyProvenance_source p = prov_source p"

definition PyProvenance_derived_from :: "Provenance \<Rightarrow> ItemId list" where
  "PyProvenance_derived_from p = derived_from p"

text \<open>\<open>Debug\<close> of a vector of strings.\<close>

fun debug_tail :: "(string \<Rightarrow> string) \<Rightarrow> string list \<Rightarrow> string" where
  "debug_tail dbg [] = '']''"
| "debug_tail dbg (s # ss) = '', '' @ dbg s @ debug_tail dbg ss"

definition debug_strings :: "(string \<Rightarrow> string) \<Rightarrow> string list \<Rightarrow> string" where
  "debug_strings dbg ss = (case ss of [] \<Rightarrow> ''[]'' | s # rest \<Rightarrow> ''['' @ dbg s @ debug_tail dbg rest)"

definition PyProvenance_repr :: "(string \<Rightarrow> string) \<Rightarrow> Provenance \<Rightarrow> string" where
  "PyProvenance_repr dbg p =
     (let ids = map ItemId_display (derived_from p)
      in ''Provenance('' @ dbg (prov_source p) @ '', derived_from='' @ debug_strings dbg ids @ '')'')"

definition provenance_from_py :: "PyRuntime \<Rightarrow> PyObj \<Rightarrow> PyErr + Provenance" where
  "provenance_from_py R obj =
     (case obj of
        ObjProvenance p \<Rightarrow> Inr p
      | ObjStr s \<Rightarrow> map_ok Provenance_new (to_str R s)
      | _ \<Rightarrow> Inl (new_err PyTypeError ''provenance must be a Provenance or a str source''))"

section \<open>Iteration\<close>

text \<open>
  What iterating over an object gives: the elements of a sequence, the keys of a dict, the
  characters of a \<open>str\<close>, or what the iterator of another class yields, possibly an exception.
\<close>

definition is_continuation :: "char \<Rightarrow> bool" where
  "is_continuation c \<longleftrightarrow> 128 \<le> (of_char c :: nat) \<and> (of_char c :: nat) < 192"

function utf8_chars :: "string \<Rightarrow> string list" where
  "utf8_chars [] = []"
| "utf8_chars (c # cs) = (c # takeWhile is_continuation cs) # utf8_chars (dropWhile is_continuation cs)"
  by pat_completeness auto

termination
  by (relation "measure length") (auto simp: le_imp_less_Suc length_dropWhile_le)

definition utf8_encode :: "nat \<Rightarrow> string" where
  "utf8_encode n =
     map char_of
       (if n < 128 then [n]
        else if n < 2048 then [192 + n div 64, 128 + n mod 64]
        else if n < 65536 then [224 + n div 4096, 128 + n div 64 mod 64, 128 + n mod 64]
        else [240 + n div 262144, 128 + n div 4096 mod 64, 128 + n div 64 mod 64, 128 + n mod 64])"

fun str_chars :: "PyStr \<Rightarrow> PyStr list" where
  "str_chars (Utf8 s) = map Utf8 (utf8_chars s)"
| "str_chars (Surrogates cs) =
     map (\<lambda>c. if 55296 \<le> c \<and> c < 57344 then Surrogates [c] else Utf8 (utf8_encode c)) cs"

definition py_iter :: "PyRuntime \<Rightarrow> PyObj \<Rightarrow> PyErr + (PyErr + PyObj) list" where
  "py_iter R obj =
     (case obj of
        ObjList xs \<Rightarrow> Inr (map Inr xs)
      | ObjTuple xs \<Rightarrow> Inr (map Inr xs)
      | ObjDict d \<Rightarrow> Inr (map (\<lambda>p. Inr (fst p)) d)
      | ObjStr s \<Rightarrow> Inr (map (\<lambda>c. Inr (ObjStr c)) (str_chars s))
      | ObjOther c (Some it) ts \<Rightarrow> Inr it
      | _ \<Rightarrow> Inl (rt_not_iterable R (type_name obj)))"

section \<open>Items\<close>

definition finish :: "ContextItem \<Rightarrow> PyContextScope option \<Rightarrow> f32 list option \<Rightarrow> ContextItem" where
  "finish it hint emb = it\<lparr>scope_hint := map_option scope_into hint, embedding := emb\<rparr>"

definition PyContextItem_from_triples :: "PyRuntime \<Rightarrow> PyObj \<Rightarrow> PyObj \<Rightarrow> PyContextScope option \<Rightarrow> f32 list option \<Rightarrow>
    PyErr + ContextItem" where
  "PyContextItem_from_triples R triples prov hint emb =
     (case py_iter R triples of Inl e \<Rightarrow> Inl e
      | Inr it \<Rightarrow>
         (case collect_results (map (\<lambda>t. case t of Inl e \<Rightarrow> Inl e | Inr obj \<Rightarrow> triple_from_py R obj) it) of Inl e \<Rightarrow> Inl e
          | Inr quads \<Rightarrow>
             (case provenance_from_py R prov of Inl e \<Rightarrow> Inl e
              | Inr p \<Rightarrow> Inr (finish (ContextItem_triples quads p) hint emb))))"

definition PyContextItem_event :: "PyRuntime \<Rightarrow> string \<Rightarrow> PyObj \<Rightarrow> PyObj \<Rightarrow> PyContextScope option \<Rightarrow> f32 list option \<Rightarrow>
    PyErr + ContextItem" where
  "PyContextItem_event R kind body prov hint emb =
     (case json_from_py R body of Inl e \<Rightarrow> Inl e
      | Inr v \<Rightarrow>
         (case provenance_from_py R prov of Inl e \<Rightarrow> Inl e
          | Inr p \<Rightarrow> Inr (finish (ContextItem_event kind v p) hint emb)))"

definition PyContextItem_chunk :: "PyRuntime \<Rightarrow> string \<Rightarrow> string \<Rightarrow> PyObj \<Rightarrow> PyContextScope option \<Rightarrow> f32 list option \<Rightarrow>
    PyErr + ContextItem" where
  "PyContextItem_chunk R content content_type prov hint emb =
     (case provenance_from_py R prov of Inl e \<Rightarrow> Inl e
      | Inr p \<Rightarrow> Inr (finish (ContextItem_chunk content content_type p) hint emb))"

definition PyContextItem_payload_type :: "ContextItem \<Rightarrow> string" where
  "PyContextItem_payload_type it =
     (case payload it of Triples _ \<Rightarrow> ''triples'' | Event _ _ \<Rightarrow> ''event'' | Chunk _ _ \<Rightarrow> ''chunk'')"

definition PyContextItem_triples :: "ContextItem \<Rightarrow> PyObj option" where
  "PyContextItem_triples it =
     (case payload it of Triples quads \<Rightarrow> Some (ObjList (map triple_to_py quads)) | _ \<Rightarrow> None)"

definition PyContextItem_event_kind :: "ContextItem \<Rightarrow> string option" where
  "PyContextItem_event_kind it = (case payload it of Event kind _ \<Rightarrow> Some kind | _ \<Rightarrow> None)"

definition PyContextItem_event_body :: "ContextItem \<Rightarrow> PyObj option" where
  "PyContextItem_event_body it = (case payload it of Event _ body \<Rightarrow> Some (json_to_py body) | _ \<Rightarrow> None)"

definition PyContextItem_content :: "ContextItem \<Rightarrow> string option" where
  "PyContextItem_content it = (case payload it of Chunk content _ \<Rightarrow> Some content | _ \<Rightarrow> None)"

definition PyContextItem_content_type :: "ContextItem \<Rightarrow> string option" where
  "PyContextItem_content_type it = (case payload it of Chunk _ content_type \<Rightarrow> Some content_type | _ \<Rightarrow> None)"

definition PyContextItem_provenance :: "ContextItem \<Rightarrow> Provenance" where
  "PyContextItem_provenance it = provenance it"

definition PyContextItem_scope_hint :: "ContextItem \<Rightarrow> PyContextScope option" where
  "PyContextItem_scope_hint it = map_option PyContextScope_from (scope_hint it)"

definition PyContextItem_embedding :: "ContextItem \<Rightarrow> f32 list option" where
  "PyContextItem_embedding it = embedding it"

definition PyContextItem_with_provenance :: "PyRuntime \<Rightarrow> ContextItem \<Rightarrow> PyObj \<Rightarrow> PyErr + ContextItem" where
  "PyContextItem_with_provenance R it prov = map_ok (\<lambda>p. it\<lparr>provenance := p\<rparr>) (provenance_from_py R prov)"

definition PyContextItem_repr :: "(string \<Rightarrow> string) \<Rightarrow> ContextItem \<Rightarrow> string" where
  "PyContextItem_repr dbg it =
     (let pl = (case payload it of
          Triples q \<Rightarrow> show_nat (length q) @ '' triple(s)''
        | Event kind _ \<Rightarrow> ''event '' @ dbg kind
        | Chunk _ content_type \<Rightarrow> ''chunk '' @ dbg content_type)
      in ''<ContextItem '' @ pl @ '' from '' @ dbg (prov_source (provenance it)) @ ''>'')"

section \<open>Queries\<close>

text \<open>An argument that is given, and is not the object \<open>None\<close>.\<close>

definition given :: "PyObj option \<Rightarrow> PyObj option" where
  "given arg = (case arg of Some obj \<Rightarrow> if is_none obj then None else Some obj | None \<Rightarrow> None)"

definition extract_scope :: "PyObj \<Rightarrow> PyContextScope option" where
  "extract_scope obj = (case obj of ObjScope s \<Rightarrow> Some s | _ \<Rightarrow> None)"

definition scopes_err :: PyErr where
  "scopes_err = new_err PyTypeError ''scopes must be None, a ContextScope or an iterable of them''"

definition scopes_from_py :: "PyRuntime \<Rightarrow> PyObj option \<Rightarrow> PyErr + ScopeSelection" where
  "scopes_from_py R arg =
     (case given arg of None \<Rightarrow> Inr All
      | Some obj \<Rightarrow>
         (case extract_scope obj of Some s \<Rightarrow> Inr (Single (scope_into s))
          | None \<Rightarrow>
             (case py_iter R obj of Inl _ \<Rightarrow> Inl scopes_err
              | Inr it \<Rightarrow>
                 map_ok Set (collect_results (map (\<lambda>s. case s of Inl e \<Rightarrow> Inl e
                   | Inr x \<Rightarrow> (case extract_scope x of None \<Rightarrow> Inl scopes_err | Some sc \<Rightarrow> Inr (scope_into sc))) it)))))"

text \<open>\<open>Option::map\<close> of a fallible conversion followed by \<open>transpose\<close>.\<close>

definition transposed :: "('a \<Rightarrow> 'e + 'b) \<Rightarrow> 'a option \<Rightarrow> 'e + 'b option" where
  "transposed f arg = (case arg of None \<Rightarrow> Inr None | Some a \<Rightarrow> map_ok Some (f a))"

definition pattern_from_py :: "PyRuntime \<Rightarrow> PyObj option \<Rightarrow> PyObj option \<Rightarrow> PyObj option \<Rightarrow> PyErr + QuadPattern" where
  "pattern_from_py R s p ob =
     (case transposed (subject_from_py R) (given s) of Inl e \<Rightarrow> Inl e
      | Inr s' \<Rightarrow> (case transposed (predicate_from_py R) (given p) of Inl e \<Rightarrow> Inl e
        | Inr p' \<Rightarrow> (case transposed (object_from_py R) (given ob) of Inl e \<Rightarrow> Inl e
          | Inr ob' \<Rightarrow> Inr \<lparr>pat_subject = s', pat_predicate = p', pat_object = ob'\<rparr>)))"

definition build_query :: "PyRuntime \<Rightarrow> PyObj option \<Rightarrow> ContextQueryKind \<Rightarrow> nat option \<Rightarrow> PyContextScope option \<Rightarrow>
    PyErr + ContextQuery" where
  "build_query R scopes kind limit hint =
     (case scopes_from_py R scopes of Inl e \<Rightarrow> Inl e
      | Inr sel \<Rightarrow> Inr ((ContextQuery_new sel kind)\<lparr>qy_limit := limit, qy_reasoner_hint := map_option scope_into hint\<rparr>))"

definition PyContextQuery_pattern :: "PyRuntime \<Rightarrow> PyObj option \<Rightarrow> PyObj option \<Rightarrow> PyObj option \<Rightarrow> PyObj option \<Rightarrow>
    nat option \<Rightarrow> PyContextScope option \<Rightarrow> PyErr + ContextQuery" where
  "PyContextQuery_pattern R s p ob scopes limit hint =
     (case pattern_from_py R s p ob of Inl e \<Rightarrow> Inl e
      | Inr pat \<Rightarrow> build_query R scopes (Pattern pat) limit hint)"

definition PyContextQuery_sparql :: "PyRuntime \<Rightarrow> string \<Rightarrow> PyObj option \<Rightarrow> nat option \<Rightarrow> PyContextScope option \<Rightarrow>
    PyErr + ContextQuery" where
  "PyContextQuery_sparql R query scopes limit hint = build_query R scopes (SparqlQuery query) limit hint"

definition PyContextQuery_similarity :: "PyRuntime \<Rightarrow> f32 list \<Rightarrow> nat \<Rightarrow> PyObj option \<Rightarrow> nat option \<Rightarrow> PyContextScope option \<Rightarrow>
    PyErr + ContextQuery" where
  "PyContextQuery_similarity R query_embedding top_k scopes limit hint =
     build_query R scopes (Similarity query_embedding top_k) limit hint"

definition PyContextQuery_inference :: "PyRuntime \<Rightarrow> PyObj option \<Rightarrow> PyObj option \<Rightarrow> PyObj option \<Rightarrow> PyObj option \<Rightarrow>
    nat option \<Rightarrow> PyContextScope option \<Rightarrow> PyErr + ContextQuery" where
  "PyContextQuery_inference R s p ob scopes limit hint =
     (case pattern_from_py R s p ob of Inl e \<Rightarrow> Inl e
      | Inr pat \<Rightarrow> build_query R scopes (Inference \<lparr>inf_pattern = pat\<rparr>) limit hint)"

definition PyContextQuery_with_limit :: "ContextQuery \<Rightarrow> nat \<Rightarrow> ContextQuery" where
  "PyContextQuery_with_limit q n = with_limit q n"

definition PyContextQuery_with_reasoner_hint :: "ContextQuery \<Rightarrow> PyContextScope \<Rightarrow> ContextQuery" where
  "PyContextQuery_with_reasoner_hint q s = with_reasoner_hint q (scope_into s)"

definition PyContextQuery_kind :: "ContextQuery \<Rightarrow> string" where
  "PyContextQuery_kind q =
     (case qy_kind q of Pattern _ \<Rightarrow> ''pattern'' | SparqlQuery _ \<Rightarrow> ''sparql'' | Similarity _ _ \<Rightarrow> ''similarity''
      | Inference _ \<Rightarrow> ''inference'')"

definition PyContextQuery_scopes :: "ContextQuery \<Rightarrow> PyObj option" where
  "PyContextQuery_scopes q =
     (case qy_scopes q of All \<Rightarrow> None
      | Single s \<Rightarrow> Some (ObjScope (PyContextScope_from s))
      | Set v \<Rightarrow> Some (ObjList (map (\<lambda>s. ObjScope (PyContextScope_from s)) v)))"

definition PyContextQuery_limit :: "ContextQuery \<Rightarrow> nat option" where
  "PyContextQuery_limit q = qy_limit q"

definition PyContextQuery_reasoner_hint :: "ContextQuery \<Rightarrow> PyContextScope option" where
  "PyContextQuery_reasoner_hint q = map_option PyContextScope_from (qy_reasoner_hint q)"

text \<open>\<open>Debug\<close> of an optional integer.\<close>

definition debug_opt_nat :: "nat option \<Rightarrow> string" where
  "debug_opt_nat n = (case n of None \<Rightarrow> ''None'' | Some k \<Rightarrow> ''Some('' @ show_nat k @ '')'')"

definition PyContextQuery_repr :: "ContextQuery \<Rightarrow> string" where
  "PyContextQuery_repr q = ''<ContextQuery '' @ PyContextQuery_kind q @ '' limit='' @ debug_opt_nat (qy_limit q) @ ''>''"

section \<open>Results\<close>

definition PyRankedItem_id :: "RankedItem \<Rightarrow> ItemId" where
  "PyRankedItem_id r = ri_id r"

definition PyRankedItem_item :: "RankedItem \<Rightarrow> ContextItem" where
  "PyRankedItem_item r = ri_item r"

definition PyRankedItem_score :: "RankedItem \<Rightarrow> f64" where
  "PyRankedItem_score r = ri_score r"

definition PyRankedItem_source_scope :: "RankedItem \<Rightarrow> PyContextScope" where
  "PyRankedItem_source_scope r = PyContextScope_from (ri_source_scope r)"

definition PyRankedItem_repr :: "PyRuntime \<Rightarrow> RankedItem \<Rightarrow> string" where
  "PyRankedItem_repr R r =
     ''<RankedItem '' @ ItemId_display (ri_id r) @ '' score='' @ rt_show_f64 R (ri_score r) @ '' from '' @ tag (ri_source_scope r) @ ''>''"

record PyQueryStats =
  py_scopes_consulted :: nat
  py_quads_matched :: nat
  py_auto_promoted :: nat

definition PyQueryStats_from :: "QueryStats \<Rightarrow> PyQueryStats" where
  "PyQueryStats_from s =
     \<lparr>py_scopes_consulted = scopes_consulted s, py_quads_matched = quads_matched s, py_auto_promoted = auto_promoted s\<rparr>"

text \<open>The derived \<open>Debug\<close> text, with the first \<open>PyQueryStats\<close> replaced.\<close>

definition PyQueryStats_repr :: "PyQueryStats \<Rightarrow> string" where
  "PyQueryStats_repr s =
     ''QueryStats { scopes_consulted: '' @ show_nat (py_scopes_consulted s) @ '', quads_matched: '' @ show_nat (py_quads_matched s)
     @ '', auto_promoted: '' @ show_nat (py_auto_promoted s) @ '' }''"

definition PyContextQueryResult_items :: "ContextQueryResult \<Rightarrow> RankedItem list" where
  "PyContextQueryResult_items r = res_items r"

definition PyContextQueryResult_query_stats :: "ContextQueryResult \<Rightarrow> PyQueryStats" where
  "PyContextQueryResult_query_stats r = PyQueryStats_from (res_query_stats r)"

definition PyContextQueryResult_repr :: "ContextQueryResult \<Rightarrow> string" where
  "PyContextQueryResult_repr r = ''<ContextQueryResult '' @ show_nat (length (res_items r)) @ '' item(s)>''"

section \<open>Items and their getters\<close>

text \<open>
  What the constructors make: triples are in the default graph and event bodies are well formed.
\<close>

definition py_item :: "ContextItem \<Rightarrow> bool" where
  "py_item it =
     (case payload it of Triples qs \<Rightarrow> (\<forall>q\<in>set qs. q_graph q = GDefault) | Event _ body \<Rightarrow> json_wf body | Chunk _ _ \<Rightarrow> True)"

text \<open>A Python program that makes an item from what the getters of another one return.\<close>

definition rebuild :: "PyRuntime \<Rightarrow> ContextItem \<Rightarrow> PyErr + ContextItem" where
  "rebuild R it =
     (let prov = ObjProvenance (PyContextItem_provenance it);
          hint = PyContextItem_scope_hint it;
          emb = PyContextItem_embedding it
      in if PyContextItem_payload_type it = ''triples''
         then PyContextItem_from_triples R (the (PyContextItem_triples it)) prov hint emb
         else if PyContextItem_payload_type it = ''event''
         then PyContextItem_event R (the (PyContextItem_event_kind it)) (the (PyContextItem_event_body it)) prov hint emb
         else PyContextItem_chunk R (the (PyContextItem_content it)) (the (PyContextItem_content_type it)) prov hint emb)"

lemmas py_item_defs = PyContextItem_from_triples_def PyContextItem_event_def PyContextItem_chunk_def
  PyContextItem_provenance_def PyContextItem_scope_hint_def PyContextItem_embedding_def PyContextItem_payload_type_def
  PyContextItem_triples_def PyContextItem_event_kind_def PyContextItem_event_body_def PyContextItem_content_def
  PyContextItem_content_type_def finish_def ContextItem_triples_def ContextItem_event_def ContextItem_chunk_def
  ContextItem_new_def

lemma triple_from_to_py: "q_graph q = GDefault \<Longrightarrow> triple_from_py R (triple_to_py q) = Inr q"
  using triple_from_py_iff [of R "triple_to_py q" q] by simp

lemma map_option_scope [simp]:
  "map_option scope_into (map_option PyContextScope_from s) = s"
  "map_option PyContextScope_from (map_option scope_into s') = s'"
  by (cases s, simp_all) (cases s', simp_all)

lemma from_triples_of_triples:
  assumes "\<forall>q\<in>set qs. q_graph q = GDefault" "provenance_from_py R prov = Inr p"
  shows "PyContextItem_from_triples R (ObjList (map triple_to_py qs)) prov hint emb = Inr (finish (ContextItem_triples qs p) hint emb)"
proof -
  have "collect_results (map (case_sum Inl (triple_from_py R) \<circ> (Inr \<circ> triple_to_py)) qs) = Inr qs"
    using assms(1) by (simp add: collect_results_Inr triple_from_to_py)
  then show ?thesis using assms(2) by (simp add: PyContextItem_from_triples_def py_iter_def)
qed

lemma from_triples_default:
  assumes "PyContextItem_from_triples R triples prov hint emb = Inr it"
  shows "py_item it"
proof -
  obtain xs qs p where qs: "map (case_sum Inl (triple_from_py R)) xs = map Inr qs"
    and it: "it = finish (ContextItem_triples qs p) hint emb"
    using assms by (auto simp: PyContextItem_from_triples_def collect_results_Inr split: sum.splits)
  have "q_graph q = GDefault" if "q \<in> set qs" for q
  proof -
    have "Inr q \<in> set (map (case_sum Inl (triple_from_py R)) xs)" using qs that by simp
    then obtain x where "triple_from_py R x = Inr q" by (auto split: sum.splits)
    then show ?thesis by (simp add: triple_from_py_iff)
  qed
  with it show ?thesis by (simp add: py_item_def py_item_defs)
qed

text \<open>
  C38. Items cross the binding unharmed: every item that a constructor of the Python class
  makes has default-graph triples or a well-formed event body, and every such item is made
  again, equal in all its parts, from what its getters return.
\<close>

theorem py_item_round_trip:
  "(\<forall>it. (\<exists>triples prov hint emb. PyContextItem_from_triples R triples prov hint emb = Inr it)
      \<or> (\<exists>kind body prov hint emb. PyContextItem_event R kind body prov hint emb = Inr it)
      \<or> (\<exists>content content_type prov hint emb. PyContextItem_chunk R content content_type prov hint emb = Inr it)
      \<longleftrightarrow> py_item it)
   \<and> (py_item it \<longleftrightarrow> rebuild R it = Inr it)"
proof -
  have event: "PyContextItem_event R kind body prov hint emb = Inr it \<Longrightarrow> py_item it" for kind body prov hint emb it
    using json_from_py_wf [of R body] by (auto simp: py_item_def py_item_defs split: sum.splits)
  have chunk: "PyContextItem_chunk R content content_type prov hint emb = Inr it \<Longrightarrow> py_item it"
    for content content_type prov hint emb it
    by (auto simp: py_item_def py_item_defs split: sum.splits)
  have again: "rebuild R it = Inr it" if "py_item it" for it
  proof (cases "payload it")
    case (Triples qs)
    have "PyContextItem_from_triples R (ObjList (map triple_to_py qs)) (ObjProvenance (provenance it)) hint emb
        = Inr (finish (ContextItem_triples qs (provenance it)) hint emb)" for hint emb
      using that Triples by (intro from_triples_of_triples) (simp_all add: py_item_def provenance_from_py_def)
    with Triples show ?thesis
      by (simp add: rebuild_def Let_def PyContextItem_payload_type_def PyContextItem_triples_def PyContextItem_provenance_def
        PyContextItem_scope_hint_def PyContextItem_embedding_def finish_def ContextItem_triples_def ContextItem_new_def)
  next
    case (Event kind body)
    with that json_round_trip [of body R] show ?thesis
      by (simp add: rebuild_def Let_def py_item_def py_item_defs provenance_from_py_def)
  next
    case (Chunk content content_type)
    then show ?thesis by (simp add: rebuild_def Let_def py_item_defs provenance_from_py_def)
  qed
  have fwd: "rebuild R it = Inr it \<Longrightarrow> py_item it" for it
    using from_triples_default event chunk by (auto simp: rebuild_def Let_def split: if_splits)
  have "\<exists>triples prov hint emb. PyContextItem_from_triples R triples prov hint emb = Inr it"
    if "py_item it" "\<nexists>kind body prov hint emb. PyContextItem_event R kind body prov hint emb = Inr it"
      "\<nexists>content content_type prov hint emb. PyContextItem_chunk R content content_type prov hint emb = Inr it" for it
    using again [OF that(1)] that(2,3) unfolding rebuild_def Let_def by (auto split: if_splits)
  then have made: "(\<exists>triples prov hint emb. PyContextItem_from_triples R triples prov hint emb = Inr it)
      \<or> (\<exists>kind body prov hint emb. PyContextItem_event R kind body prov hint emb = Inr it)
      \<or> (\<exists>content content_type prov hint emb. PyContextItem_chunk R content content_type prov hint emb = Inr it)
      \<longleftrightarrow> py_item it" for it
    using from_triples_default [of R _ _ _ _ it] event [of _ _ _ _ _ it] chunk [of _ _ _ _ _ it] by metis
  with again fwd show ?thesis by metis
qed

definition spells :: "('a \<Rightarrow> PyObj) \<Rightarrow> PyObj option \<Rightarrow> 'a option \<Rightarrow> bool" where
  "spells f arg v = (case v of None \<Rightarrow> arg = None \<or> arg = Some ObjNone | Some a \<Rightarrow> arg = Some (f a))"

definition spells_scopes :: "PyRuntime \<Rightarrow> PyObj option \<Rightarrow> ScopeSelection \<Rightarrow> bool" where
  "spells_scopes R arg sel =
     (case sel of
        All \<Rightarrow> arg = None \<or> arg = Some ObjNone
      | Single s \<Rightarrow> arg = Some (ObjScope (PyContextScope_from s))
      | Set v \<Rightarrow> (\<exists>obj. arg = Some obj \<and> py_iter R obj = Inr (map (\<lambda>s. Inr (ObjScope (PyContextScope_from s))) v)))"

lemma given_simps [simp]: "given None = None" "given (Some ObjNone) = None"
  by (simp_all add: given_def is_none_def)

lemma given_obj [simp]: "obj \<noteq> ObjNone \<Longrightarrow> given (Some obj) = Some obj"
  by (cases obj) (simp_all add: given_def is_none_def)

lemma given_None: "given arg = None \<longleftrightarrow> arg = None \<or> arg = Some ObjNone"
  by (auto simp: given_def is_none_def split: option.splits PyObj.splits)

lemma given_Some: "given arg = Some obj \<longleftrightarrow> arg = Some obj \<and> obj \<noteq> ObjNone"
  by (auto simp: given_def is_none_def split: option.splits PyObj.splits)

lemma transposed_spells:
  assumes "\<And>obj a. f obj = Inr a \<longleftrightarrow> obj = g a" "\<And>a. g a \<noteq> ObjNone"
  shows "transposed f (given arg) = Inr v \<longleftrightarrow> spells g arg v"
proof (cases "given arg")
  case None
  then have "arg = None \<or> arg = Some ObjNone" by (simp add: given_None)
  moreover have "g a = ObjNone \<longleftrightarrow> False" "ObjNone = g a \<longleftrightarrow> False" for a using assms(2) [of a] by metis+
  ultimately show ?thesis by (auto simp: transposed_def spells_def split: option.splits)
next
  case (Some obj)
  with assms show ?thesis by (auto simp: transposed_def spells_def given_Some split: option.splits)
qed

lemma to_py_not_None: "subject_to_py s \<noteq> ObjNone" "object_to_py t \<noteq> ObjNone"
  by (cases s; simp) (cases t; simp)

lemma pattern_from_py_iff:
  "pattern_from_py R s p ob = Inr pat \<longleftrightarrow>
     spells subject_to_py s (pat_subject pat) \<and> spells (\<lambda>n. py_str (iri n)) p (pat_predicate pat)
     \<and> spells object_to_py ob (pat_object pat)"
proof -
  have "transposed (subject_from_py R) (given s) = Inr s' \<longleftrightarrow> spells subject_to_py s s'"
    "transposed (predicate_from_py R) (given p) = Inr p' \<longleftrightarrow> spells (\<lambda>n. py_str (iri n)) p p'"
    "transposed (object_from_py R) (given ob) = Inr ob' \<longleftrightarrow> spells object_to_py ob ob'" for s' p' ob'
    by (intro transposed_spells; simp add: py_term_iffs to_py_not_None)+
  moreover have "pattern_from_py R s p ob = Inr pat \<longleftrightarrow>
      transposed (subject_from_py R) (given s) = Inr (pat_subject pat)
      \<and> transposed (predicate_from_py R) (given p) = Inr (pat_predicate pat)
      \<and> transposed (object_from_py R) (given ob) = Inr (pat_object pat)"
    by (cases pat) (auto simp: pattern_from_py_def split: sum.splits)
  ultimately show ?thesis by simp
qed

lemma extract_scope_Some: "extract_scope obj = Some s \<longleftrightarrow> obj = ObjScope s"
  by (cases obj) (auto simp: extract_scope_def)

lemma extract_scope_obj [simp]: "extract_scope (ObjScope s) = Some s"
  by (simp add: extract_scope_def)

lemma scope_element:
  "(case r of Inl e \<Rightarrow> Inl e
    | Inr x \<Rightarrow> (case extract_scope x of None \<Rightarrow> Inl scopes_err | Some sc \<Rightarrow> Inr (scope_into sc))) = Inr s
    \<longleftrightarrow> r = Inr (ObjScope (PyContextScope_from s))"
  by (auto simp: extract_scope_def split: sum.splits option.splits PyObj.splits)

lemma scope_elements:
  "collect_results (map (\<lambda>r. case r of Inl e \<Rightarrow> Inl e
     | Inr x \<Rightarrow> (case extract_scope x of None \<Rightarrow> Inl scopes_err | Some sc \<Rightarrow> Inr (scope_into sc))) it) = Inr v
    \<longleftrightarrow> it = map (\<lambda>s. Inr (ObjScope (PyContextScope_from s))) v"
  unfolding collect_results_Inr list_eq_iff_nth_eq by (auto simp: scope_element)

lemma scopes_from_py_iff: "scopes_from_py R arg = Inr sel \<longleftrightarrow> spells_scopes R arg sel"
proof (cases "given arg")
  case None
  then show ?thesis
    by (auto simp: scopes_from_py_def spells_scopes_def given_None py_iter_def split: ScopeSelection.splits)
next
  case (Some obj)
  show ?thesis
  proof (cases "extract_scope obj")
    case None
    then have "obj \<noteq> ObjScope s" for s by (auto simp: extract_scope_def)
    with None Some show ?thesis
      by (cases sel; cases "py_iter R obj") (auto simp: scopes_from_py_def spells_scopes_def given_Some scope_elements)
  next
    case (Some s)
    with \<open>given arg = Some obj\<close> show ?thesis
      by (auto simp: scopes_from_py_def spells_scopes_def given_Some extract_scope_Some py_iter_def
        split: ScopeSelection.splits)
  qed
qed

lemma build_query_iff:
  "build_query R scopes kind limit hint = Inr q \<longleftrightarrow>
     spells_scopes R scopes (qy_scopes q) \<and> qy_kind q = kind \<and> qy_limit q = limit
     \<and> qy_reasoner_hint q = map_option scope_into hint"
  by (cases q) (auto simp: build_query_def ContextQuery_new_def simp flip: scopes_from_py_iff split: sum.splits)

text \<open>
  A Python query is the native query its arguments spell out: \<open>ContextQuery.pattern\<close>
  succeeds exactly if every position is absent, \<open>None\<close> or a term of the right kind and the
  scopes are absent, \<open>None\<close>, a scope or an iterable of scopes, and the query then has these
  terms and scopes, the limit and the hint; the scopes it reports select the same scopes again.
\<close>

theorem py_pattern_query_spelled:
  "(PyContextQuery_pattern R s p ob scopes limit hint = Inr q \<longleftrightarrow>
     (\<exists>pat. qy_kind q = Pattern pat
       \<and> spells subject_to_py s (pat_subject pat) \<and> spells (\<lambda>n. py_str (iri n)) p (pat_predicate pat)
       \<and> spells object_to_py ob (pat_object pat)
       \<and> spells_scopes R scopes (qy_scopes q) \<and> qy_limit q = limit \<and> PyContextQuery_reasoner_hint q = hint))
   \<and> scopes_from_py R (PyContextQuery_scopes q) = Inr (qy_scopes q)"
proof
  have "map_option PyContextScope_from h = hint \<longleftrightarrow> h = map_option scope_into hint" for h
    by (metis map_option_scope)
  moreover have "PyContextQuery_pattern R s p ob scopes limit hint = Inr q \<longleftrightarrow>
      (\<exists>pat. pattern_from_py R s p ob = Inr pat \<and> build_query R scopes (Pattern pat) limit hint = Inr q)"
    by (simp add: PyContextQuery_pattern_def split: sum.split)
  ultimately show "PyContextQuery_pattern R s p ob scopes limit hint = Inr q \<longleftrightarrow>
     (\<exists>pat. qy_kind q = Pattern pat
       \<and> spells subject_to_py s (pat_subject pat) \<and> spells (\<lambda>n. py_str (iri n)) p (pat_predicate pat)
       \<and> spells object_to_py ob (pat_object pat)
       \<and> spells_scopes R scopes (qy_scopes q) \<and> qy_limit q = limit \<and> PyContextQuery_reasoner_hint q = hint)"
    by (auto simp: PyContextQuery_reasoner_hint_def build_query_iff pattern_from_py_iff)
next
  show "scopes_from_py R (PyContextQuery_scopes q) = Inr (qy_scopes q)"
    by (auto simp: scopes_from_py_iff spells_scopes_def PyContextQuery_scopes_def py_iter_def o_def split: ScopeSelection.split)
qed

end
