(* ===== verification/Durations.thy ===== *)
theory Durations
  imports Rust_Std Complex_Main
begin

text \<open>
  \<open>Duration::try_from_secs_f64\<close> of the Rust standard library: a number of seconds in binary64
  becomes a duration in nanoseconds, rounded to the nearest one, ties to even. The function works
  on the bits of the number, and so does the model; \<open>f64_value\<close> is the real number they mean. A
  \<open>Duration\<close> is its number of nanoseconds, so the carry of the nanoseconds into the seconds is
  addition.
\<close>

section \<open>Binary64\<close>

definition f64_negative :: "f64 \<Rightarrow> bool" where
  "f64_negative w = bit w 63"

definition f64_exponent :: "f64 \<Rightarrow> nat" where
  "f64_exponent w = unat (take_bit 11 (drop_bit 52 w))"

definition f64_fraction :: "f64 \<Rightarrow> nat" where
  "f64_fraction w = unat (take_bit 52 w)"

definition f64_is_nan :: "f64 \<Rightarrow> bool" where
  "f64_is_nan w \<longleftrightarrow> f64_exponent w = 2047 \<and> f64_fraction w \<noteq> 0"

text \<open>\<open>secs < 0.0\<close>: neither a zero nor a NaN is below zero.\<close>

definition f64_below_zero :: "f64 \<Rightarrow> bool" where
  "f64_below_zero w \<longleftrightarrow> f64_negative w \<and> \<not> f64_is_nan w \<and> (f64_exponent w \<noteq> 0 \<or> f64_fraction w \<noteq> 0)"

text \<open>The value of a number that is not an infinity or a NaN.\<close>

definition f64_value :: "f64 \<Rightarrow> real" where
  "f64_value w =
     (if f64_negative w then -1 else 1) *
     (if f64_exponent w = 0 then of_nat (f64_fraction w) / 2 ^ 1074
      else of_nat (2 ^ 52 + f64_fraction w) * 2 ^ f64_exponent w / 2 ^ 1075)"

section \<open>The conversion\<close>

datatype DurationError = NegativeSecs | OverflowOrNan

fun DurationError_display :: "DurationError \<Rightarrow> string" where
  "DurationError_display NegativeSecs = ''cannot convert float seconds to Duration: value is negative''"
| "DurationError_display OverflowOrNan = ''cannot convert float seconds to Duration: value is either too big or NaN''"

text \<open>\<open>n\<close> divided by \<open>2 ^ k\<close>: shifted, and one up unless the remainder is below half or a tie at an even quotient.\<close>

definition round_shift :: "nat \<Rightarrow> nat \<Rightarrow> nat" where
  "round_shift n k =
     (let nanos = n div 2 ^ k;
          is_tie = (n mod 2 ^ k = 2 ^ (k - 1));
          rem_msb = (\<not> bit n (k - 1))
      in if \<not> (rem_msb \<or> even nanos \<and> is_tie) then nanos + 1 else nanos)"

definition Duration_try_from_secs_f64 :: "f64 \<Rightarrow> DurationError + nat" where
  "Duration_try_from_secs_f64 w =
     (if f64_below_zero w then Inl NegativeSecs
      else (let mant = 2 ^ 52 + f64_fraction w; ex = f64_exponent w
        in if ex < 992 then Inr 0
           else if ex < 1023 then Inr (round_shift (10 ^ 9 * (mant * 2 ^ (44 + ex - 1023))) 96)
           else if ex < 1075 then
             Inr (mant div 2 ^ (1075 - ex) * 10 ^ 9 + round_shift (10 ^ 9 * (mant * 2 ^ (ex - 1023) mod 2 ^ 52)) 52)
           else if ex < 1087 then Inr (mant * 2 ^ (ex - 1075) * 10 ^ 9)
           else Inl OverflowOrNan))"

section \<open>Rounding\<close>

text \<open>\<open>d\<close> is the whole number nearest to \<open>x\<close>, the even one of two that are equally near.\<close>

definition nearest_even :: "nat \<Rightarrow> real \<Rightarrow> bool" where
  "nearest_even d x \<longleftrightarrow> \<bar>real d - x\<bar> < 1 / 2 \<or> \<bar>real d - x\<bar> = 1 / 2 \<and> even d"

lemma nearest_even_unique:
  assumes "nearest_even d x" "nearest_even e x"
  shows "d = e"
proof (rule ccontr)
  assume "d \<noteq> e"
  moreover have "\<bar>real d - real e\<bar> \<le> 1" using assms unfolding nearest_even_def by arith
  ultimately have "e = Suc d \<or> d = Suc e" by linarith
  moreover from this have "\<bar>real d - x\<bar> = 1 / 2 \<and> \<bar>real e - x\<bar> = 1 / 2"
    using assms unfolding nearest_even_def by (auto split: abs_split)
  ultimately show False using assms unfolding nearest_even_def by auto
qed

lemma nearest_even_shift: "nearest_even d x \<Longrightarrow> even m \<Longrightarrow> nearest_even (m + d) (real m + x)"
  unfolding nearest_even_def by simp

lemma nearest_even_whole: "nearest_even d (real d)"
  unfolding nearest_even_def by simp

lemma round_shift_nearest:
  assumes "0 < k"
  shows "nearest_even (round_shift n k) (real n / 2 ^ k)"
proof -
  define q r where "q = n div 2 ^ k" and "r = n mod 2 ^ k"
  obtain j where k: "k = Suc j" using assms by (cases k) auto
  have n: "n = q * 2 ^ k + r" unfolding q_def r_def by (rule div_mult_mod_eq [symmetric])
  have r: "r < 2 ^ k" by (simp add: r_def)
  have "n div 2 ^ j = 2 * q + r div 2 ^ j"
    by (simp add: n k div_mult_self3 flip: mult.assoc)
  moreover have "r div 2 ^ j < 2" using r k by (simp add: less_mult_imp_div_less)
  moreover have "r div 2 ^ j = 0 \<longleftrightarrow> r < 2 ^ j" by (simp add: div_eq_0_iff)
  ultimately have msb: "bit n j \<longleftrightarrow> 2 ^ j \<le> r"
    by (cases "r < 2 ^ j") (simp_all add: bit_iff_odd less_2_cases_iff)
  have eq: "real n / 2 ^ k = real q + real r / 2 ^ k" by (simp add: n add_divide_distrib)
  show ?thesis
  proof (cases "round_shift n k = q")
    case True
    then have "r < 2 ^ j \<or> r = 2 ^ j \<and> even q"
      using msb k by (auto simp: round_shift_def Let_def q_def r_def split: if_splits)
    then have "real r / 2 ^ k < 1 / 2 \<or> real r / 2 ^ k = 1 / 2 \<and> even q"
      using k by (auto simp: divide_simps)
    then show ?thesis unfolding nearest_even_def True eq by auto
  next
    case False
    then have up: "round_shift n k = q + 1" and "2 ^ j < r \<or> r = 2 ^ j \<and> odd q"
      using msb k by (auto simp: round_shift_def Let_def q_def r_def split: if_splits)
    then have "1 / 2 < real r / 2 ^ k \<or> real r / 2 ^ k = 1 / 2 \<and> odd q"
      using k by (auto simp: divide_simps)
    moreover have "real r / 2 ^ k < 1" using r by (simp add: divide_simps)
    ultimately show ?thesis unfolding nearest_even_def up eq by auto
  qed
qed

lemma f64_fraction_less: "f64_fraction w < 2 ^ 52"
  unfolding f64_fraction_def unsigned_take_bit_eq by (rule take_bit_nat_less_exp)

lemma f64_exponent_less: "f64_exponent w < 2 ^ 11"
  unfolding f64_exponent_def unsigned_take_bit_eq by (rule take_bit_nat_less_exp)

lemma value_shift: "real m * 2 ^ (a + b) / 2 ^ (a + c) = real m * 2 ^ b / 2 ^ c"
  by (simp add: power_add)

lemma bias_parts: "(1075 :: nat) = 979 + 96" "(1075 :: nat) = 1023 + 52"
  by simp_all

text \<open>The four branches that return a duration, for a mantissa \<open>m\<close> and a biased exponent \<open>ex\<close>.\<close>

lemma tiny_rounds_to_zero:
  assumes "ex < 992" "m < 2 ^ 53"
  shows "10 ^ 9 * (real m * 2 ^ ex / 2 ^ 1075) \<le> 1 / 2"
proof -
  have "real m * 2 ^ ex \<le> 2 ^ 53 * 2 ^ 991"
    using assms by (intro mult_mono power_increasing) (auto simp: le_less simp flip: of_nat_less_iff)
  then have "10 ^ 9 * (real m * 2 ^ ex / 2 ^ 1075) \<le> 10 ^ 9 * (2 ^ 53 * 2 ^ 991 / 2 ^ 1075)"
    by (intro mult_left_mono divide_right_mono) simp_all
  also have "\<dots> \<le> 1 / 2" by simp
  finally show ?thesis .
qed

lemma below_second:
  assumes "992 \<le> ex" "ex < 1023"
  shows "nearest_even (round_shift (10 ^ 9 * (m * 2 ^ (44 + ex - 1023))) 96) (10 ^ 9 * (real m * 2 ^ ex / 2 ^ 1075))"
proof -
  define j where "j = ex - 979"
  have ex: "ex = 979 + j" using assms(1) by (simp add: j_def)
  have "44 + ex - 1023 = j" by (simp add: ex)
  moreover have "10 ^ 9 * (real m * 2 ^ ex / 2 ^ 1075) = real (10 ^ 9 * (m * 2 ^ j)) / 2 ^ 96"
    unfolding ex bias_parts(1) value_shift by simp
  ultimately show ?thesis using round_shift_nearest [of 96 "10 ^ 9 * (m * 2 ^ j)"] by (simp only:)
qed

lemma with_fraction:
  assumes "1023 \<le> ex" "ex < 1075"
  shows "nearest_even (m div 2 ^ (1075 - ex) * 10 ^ 9 + round_shift (10 ^ 9 * (m * 2 ^ (ex - 1023) mod 2 ^ 52)) 52)
    (10 ^ 9 * (real m * 2 ^ ex / 2 ^ 1075))"
proof -
  define x where "x = ex - 1023"
  have ex: "ex = 1023 + x" using assms(1) by (simp add: x_def)
  define y where "y = 52 - x"
  have xy: "x + y = 52" "1075 - ex = y" "ex - 1023 = x" using assms(2) ex by (simp_all add: y_def)
  define t where "t = m * 2 ^ x mod 2 ^ 52"
  have "(2 :: nat) ^ 52 = 2 ^ x * 2 ^ y" by (simp only: xy(1) [symmetric] power_add)
  then have "m * 2 ^ x div 2 ^ 52 = (2 ^ x * m) div (2 ^ x * 2 ^ y)" by (simp only: mult.commute)
  also have "\<dots> = m div 2 ^ y" by (rule div_mult_mult1) simp
  finally have "m * 2 ^ x div 2 ^ 52 = m div 2 ^ y" .
  then have "m * 2 ^ x = m div 2 ^ y * 2 ^ 52 + t" by (metis t_def div_mult_mod_eq)
  then have "real (m * 2 ^ x) = real (m div 2 ^ y * 2 ^ 52 + t)" by (rule arg_cong)
  then have m: "real m * 2 ^ x = real (m div 2 ^ y) * 2 ^ 52 + real t"
    by (simp only: of_nat_add of_nat_mult of_nat_power of_nat_numeral)
  have "real m * 2 ^ ex / 2 ^ 1075 = (real (m div 2 ^ y) * 2 ^ 52 + real t) / 2 ^ 52"
    unfolding m [symmetric] ex bias_parts(2) value_shift ..
  also have "\<dots> = real (m div 2 ^ y) + real t / 2 ^ 52" by (simp add: add_divide_distrib)
  finally have "10 ^ 9 * (real m * 2 ^ ex / 2 ^ 1075) = real (m div 2 ^ y * 10 ^ 9) + real (10 ^ 9 * t) / 2 ^ 52"
    by (simp only: distrib_left) simp
  moreover have "nearest_even (m div 2 ^ y * 10 ^ 9 + round_shift (10 ^ 9 * t) 52)
      (real (m div 2 ^ y * 10 ^ 9) + real (10 ^ 9 * t) / 2 ^ 52)"
    by (intro nearest_even_shift round_shift_nearest) simp_all
  ultimately show ?thesis unfolding xy t_def by (simp only:)
qed

lemma whole_seconds:
  assumes "1075 \<le> ex"
  shows "real (m * 2 ^ (ex - 1075) * 10 ^ 9) = 10 ^ 9 * (real m * 2 ^ ex / 2 ^ 1075)"
proof -
  define x where "x = ex - 1075"
  have "ex = 1075 + x" using assms by (simp add: x_def)
  then show ?thesis by (simp add: power_add)
qed

lemma value_bound:
  assumes "m < 2 ^ 53" "ex < 1087"
  shows "real m * 2 ^ ex / 2 ^ 1075 < 2 ^ 64"
proof -
  have "real m * 2 ^ ex < 2 ^ 53 * 2 ^ 1086"
    using assms by (intro mult_less_le_imp_less power_increasing) (auto simp flip: of_nat_less_iff)
  then have "real m * 2 ^ ex / 2 ^ 1075 < 2 ^ 53 * 2 ^ 1086 / 2 ^ 1075" by (intro divide_strict_right_mono) simp_all
  also have "\<dots> = 2 ^ 64" by simp
  finally show ?thesis .
qed

lemma value_overflow:
  assumes "2 ^ 52 \<le> m" "1087 \<le> ex"
  shows "2 ^ 64 \<le> real m * 2 ^ ex / 2 ^ 1075"
proof -
  have "(2 :: real) ^ 52 * 2 ^ 1087 \<le> real m * 2 ^ ex"
    using assms by (intro mult_mono power_increasing) (auto simp flip: of_nat_le_iff)
  then have "(2 :: real) ^ 52 * 2 ^ 1087 / 2 ^ 1075 \<le> real m * 2 ^ ex / 2 ^ 1075" by (intro divide_right_mono) simp_all
  moreover have "(2 :: real) ^ 52 * 2 ^ 1087 / 2 ^ 1075 = 2 ^ 64" by simp
  ultimately show ?thesis by simp
qed

section \<open>What the conversion guarantees\<close>

text \<open>
  A duration is the number it was made from, rounded to the nearest nanosecond and to the even
  one of two that are equally near, which leaves one possible result; a number is refused
  exactly if it is negative, is not a number or is too large.
\<close>

definition duration_law :: "f64 \<Rightarrow> DurationError + nat \<Rightarrow> bool" where
  "duration_law w r =
     (case r of
        Inr d \<Rightarrow> 0 \<le> f64_value w \<and> f64_value w < 2 ^ 64 \<and> nearest_even d (10 ^ 9 * f64_value w)
      | Inl NegativeSecs \<Rightarrow> f64_value w < 0 \<and> \<not> f64_is_nan w
      | Inl OverflowOrNan \<Rightarrow> f64_is_nan w \<or> 2 ^ 64 \<le> f64_value w)"

lemma mantissa_bounds: "2 ^ 52 \<le> 2 ^ 52 + f64_fraction w" "2 ^ 52 + f64_fraction w < 2 ^ 53"
proof -
  have "(2 :: nat) ^ 53 = 2 ^ 52 + 2 ^ 52" by simp
  with f64_fraction_less [of w] show "2 ^ 52 + f64_fraction w < 2 ^ 53" by linarith
qed simp

lemma value_normal:
  assumes "\<not> f64_negative w" "f64_exponent w \<noteq> 0"
  shows "f64_value w = real (2 ^ 52 + f64_fraction w) * 2 ^ f64_exponent w / 2 ^ 1075"
  using assms by (simp only: f64_value_def if_False mult_1)

lemma value_subnormal:
  assumes "f64_exponent w = 0"
  shows "f64_value w = (if f64_negative w then -1 else 1) * (real (f64_fraction w) / 2 ^ 1074)"
  unfolding f64_value_def assms by simp

lemma value_below_zero:
  assumes "f64_below_zero w"
  shows "f64_value w < 0"
proof (cases "f64_exponent w = 0")
  case True
  with assms have "0 < f64_fraction w" by (simp add: f64_below_zero_def)
  then have "0 < real (f64_fraction w) / 2 ^ 1074" by (intro divide_pos_pos) simp_all
  with assms True show ?thesis by (simp only: value_subnormal f64_below_zero_def if_True)
next
  case False
  have "0 < real (2 ^ 52 + f64_fraction w) * 2 ^ f64_exponent w / 2 ^ 1075"
    by (intro divide_pos_pos mult_pos_pos) (simp_all add: add_pos_nonneg)
  with assms False show ?thesis by (simp only: f64_value_def f64_below_zero_def if_True if_False)
qed

lemma value_zero_or_tiny:
  assumes "f64_exponent w = 0" "\<not> f64_below_zero w"
  shows "0 \<le> f64_value w \<and> 10 ^ 9 * f64_value w \<le> 1 / 2"
proof (cases "f64_negative w")
  case True
  with assms have "f64_fraction w = 0" by (auto simp: f64_below_zero_def f64_is_nan_def)
  then show ?thesis using assms(1) by (simp add: value_subnormal)
next
  case False
  have "real (f64_fraction w) / 2 ^ 1074 \<le> 2 ^ 52 / 2 ^ 1074"
    using f64_fraction_less [of w] by (intro divide_right_mono) (simp_all flip: of_nat_le_iff)
  also have "10 ^ 9 * (2 ^ 52 / 2 ^ 1074) \<le> (1 / 2 :: real)" by simp
  finally have "10 ^ 9 * (real (f64_fraction w) / 2 ^ 1074) \<le> 1 / 2" by simp
  with False show ?thesis using value_subnormal [OF assms(1)] by simp
qed

lemma close_to_zero: "0 \<le> v \<Longrightarrow> 10 ^ 9 * v \<le> 1 / 2 \<Longrightarrow> nearest_even 0 (10 ^ 9 * v)"
  unfolding nearest_even_def by auto

lemma duration_law_normal:
  assumes w: "\<not> f64_below_zero w" "\<not> f64_is_nan w" and nonzero: "f64_exponent w \<noteq> 0"
  shows "duration_law w (Duration_try_from_secs_f64 w)"
proof -
  define m ex where "m = 2 ^ 52 + f64_fraction w" and "ex = f64_exponent w"
  have m: "2 ^ 52 \<le> m" "m < 2 ^ 53" using mantissa_bounds [of w] by (simp_all only: m_def)
  have branches: "Duration_try_from_secs_f64 w =
      (if ex < 992 then Inr 0
       else if ex < 1023 then Inr (round_shift (10 ^ 9 * (m * 2 ^ (44 + ex - 1023))) 96)
       else if ex < 1075 then Inr (m div 2 ^ (1075 - ex) * 10 ^ 9 + round_shift (10 ^ 9 * (m * 2 ^ (ex - 1023) mod 2 ^ 52)) 52)
       else if ex < 1087 then Inr (m * 2 ^ (ex - 1075) * 10 ^ 9)
       else Inl OverflowOrNan)"
    unfolding Duration_try_from_secs_f64_def Let_def m_def ex_def using w by (simp only: if_False)
  have "\<not> f64_negative w" using w nonzero by (auto simp: f64_below_zero_def)
  then have val: "f64_value w = real m * 2 ^ ex / 2 ^ 1075"
    using value_normal nonzero by (simp only: m_def ex_def)
  have pos: "0 \<le> f64_value w" unfolding val by (intro divide_nonneg_nonneg mult_nonneg_nonneg) simp_all
  have small: "f64_value w < 2 ^ 64" if "ex < 1087" unfolding val by (rule value_bound [OF m(2) that])
  have law: "duration_law w (Inr d)" if "ex < 1087" "nearest_even d (10 ^ 9 * (real m * 2 ^ ex / 2 ^ 1075))" for d
    using that pos small by (simp only: duration_law_def val sum.case)
  consider "ex < 992" | "992 \<le> ex" "ex < 1023" | "1023 \<le> ex" "ex < 1075" | "1075 \<le> ex" "ex < 1087" | "1087 \<le> ex"
    by linarith
  then show ?thesis
  proof cases
    case 1
    then have "Duration_try_from_secs_f64 w = Inr 0" unfolding branches by simp
    moreover have "nearest_even 0 (10 ^ 9 * (real m * 2 ^ ex / 2 ^ 1075))"
      by (rule close_to_zero [OF pos [unfolded val] tiny_rounds_to_zero [OF 1 m(2)]])
    ultimately show ?thesis using law [of 0] 1 by (simp only:)
  next
    case 2
    then have "Duration_try_from_secs_f64 w = Inr (round_shift (10 ^ 9 * (m * 2 ^ (44 + ex - 1023))) 96)"
      unfolding branches by (simp only: not_less [symmetric] if_True if_False)
    with law [OF _ below_second [OF 2]] 2 show ?thesis by (simp only:)
  next
    case 3
    then have "Duration_try_from_secs_f64 w =
        Inr (m div 2 ^ (1075 - ex) * 10 ^ 9 + round_shift (10 ^ 9 * (m * 2 ^ (ex - 1023) mod 2 ^ 52)) 52)"
      unfolding branches by auto
    with law [OF _ with_fraction [OF 3]] 3 show ?thesis by (simp only:)
  next
    case 4
    then have "Duration_try_from_secs_f64 w = Inr (m * 2 ^ (ex - 1075) * 10 ^ 9)" unfolding branches by auto
    moreover have "nearest_even (m * 2 ^ (ex - 1075) * 10 ^ 9) (10 ^ 9 * (real m * 2 ^ ex / 2 ^ 1075))"
      unfolding whole_seconds [OF 4(1), symmetric] by (rule nearest_even_whole)
    ultimately show ?thesis using law 4 by (simp only:)
  next
    case 5
    then have "Duration_try_from_secs_f64 w = Inl OverflowOrNan" unfolding branches by auto
    with value_overflow [OF m(1) 5] show ?thesis unfolding duration_law_def val by (simp only: sum.case DurationError.case) simp
  qed
qed

lemma Duration_try_from_secs_f64_law: "duration_law w (Duration_try_from_secs_f64 w)"
proof -
  consider "f64_below_zero w" | "\<not> f64_below_zero w" "f64_exponent w = 0" | "\<not> f64_below_zero w" "f64_is_nan w"
    | "\<not> f64_below_zero w" "\<not> f64_is_nan w" "f64_exponent w \<noteq> 0" by blast
  then show ?thesis
  proof cases
    case 1
    moreover have "\<not> f64_is_nan w" using 1 by (simp add: f64_below_zero_def)
    ultimately show ?thesis using value_below_zero by (simp add: Duration_try_from_secs_f64_def duration_law_def)
  next
    case 2
    then have "0 \<le> f64_value w \<and> 10 ^ 9 * f64_value w \<le> 1 / 2" using value_zero_or_tiny by blast
    moreover have "Duration_try_from_secs_f64 w = Inr 0" using 2 by (simp add: Duration_try_from_secs_f64_def)
    ultimately show ?thesis using close_to_zero [of "f64_value w"] by (auto simp: duration_law_def)
  next
    case 3
    then have "f64_exponent w = 2047" by (simp add: f64_is_nan_def)
    with 3(1) have "Duration_try_from_secs_f64 w = Inl OverflowOrNan" by (simp add: Duration_try_from_secs_f64_def)
    with 3 show ?thesis by (simp add: duration_law_def)
  next
    case 4
    then show ?thesis by (rule duration_law_normal)
  qed
qed

end
