(* ===== verification/Py_Config.thy ===== *)
theory Py_Config
  imports Py_Items Durations Session_Model Oxigraph_Store
begin

text \<open>
  The configuration of a session as Python objects (\<^verbatim>\<open>semanticore-context-py/src/config.rs\<close>),
  and \<open>SessionConfig::oxigraph\<close> (\<^verbatim>\<open>semanticore-context/src/config.rs\<close>).

  A \<open>SessionConfig\<close> object refers to a bounds object and a promotion object, which the program
  can change through other references at any time. Both kinds live in a heap, and a reference is
  an address. The other classes are immutable values.
\<close>

section \<open>Opening the stores\<close>

definition SessionConfig_oxigraph :: "('s, 't) OxStore \<Rightarrow> string \<Rightarrow> SessionError + 's OxigraphStore SessionConfig" where
  "SessionConfig_oxigraph X path =
     (case map_err StorageFailed (OxigraphStore_open X path) of Inl e \<Rightarrow> Inl e
      | Inr en \<Rightarrow> (case map_err StorageFailed (OxigraphStore_in_memory X) of Inl e \<Rightarrow> Inl e
        | Inr ma \<Rightarrow> (case map_err StorageFailed (OxigraphStore_in_memory X) of Inl e \<Rightarrow> Inl e
          | Inr mi \<Rightarrow> Inr (SessionConfig_new (PerScope en ma mi)))))"

section \<open>Durations\<close>

definition duration_from_py :: "PyRuntime \<Rightarrow> PyObj \<Rightarrow> PyErr + Duration" where
  "duration_from_py R obj =
     (case (if cast_float obj \<noteq> None \<or> cast_int obj \<noteq> None then rt_extract_f64 R obj
            else (case obj of
               ObjOther c it (Some r) \<Rightarrow> (case r of Inl e \<Rightarrow> Inl e | Inr x \<Rightarrow> rt_extract_f64 R x)
             | _ \<Rightarrow> Inl (new_err PyTypeError ''a duration is a number of seconds or a datetime.timedelta''))) of
        Inl e \<Rightarrow> Inl e
      | Inr secs \<Rightarrow>
          map_err (\<lambda>e. new_err PyValueError (''invalid duration '' @ rt_show_f64 R secs @ '' s: '' @ DurationError_display e))
            (Duration_try_from_secs_f64 secs))"

section \<open>Bounds\<close>

record PyScopeBounds =
  py_enduring_max_items :: "nat option"
  py_major_max_items :: "nat option"
  py_minor_max_items :: "nat option"

definition PyScopeBounds_default :: PyScopeBounds where
  "PyScopeBounds_default = \<lparr>py_enduring_max_items = None, py_major_max_items = None, py_minor_max_items = None\<rparr>"

definition PyScopeBounds_new :: "nat option \<Rightarrow> nat option \<Rightarrow> nat option \<Rightarrow> PyScopeBounds" where
  "PyScopeBounds_new en ma mi = \<lparr>py_enduring_max_items = en, py_major_max_items = ma, py_minor_max_items = mi\<rparr>"

definition PyScopeBounds_repr :: "PyScopeBounds \<Rightarrow> string" where
  "PyScopeBounds_repr b =
     ''ScopeBounds(enduring_max_items='' @ debug_opt_nat (py_enduring_max_items b)
     @ '', major_max_items='' @ debug_opt_nat (py_major_max_items b)
     @ '', minor_max_items='' @ debug_opt_nat (py_minor_max_items b) @ '')''"

definition ScopeBounds_from :: "PyScopeBounds \<Rightarrow> ScopeBounds" where
  "ScopeBounds_from b =
     \<lparr>enduring_max_items = py_enduring_max_items b, major_max_items = py_major_max_items b,
      minor_max_items = py_minor_max_items b\<rparr>"

section \<open>Promotion\<close>

datatype PyPromotionCadence = PyAfterEachQuery | PyNever

fun PyPromotionCadence_from :: "PromotionCadence \<Rightarrow> PyPromotionCadence" where
  "PyPromotionCadence_from AfterEachQuery = PyAfterEachQuery"
| "PyPromotionCadence_from Never = PyNever"

fun cadence_into :: "PyPromotionCadence \<Rightarrow> PromotionCadence" where
  "cadence_into PyAfterEachQuery = AfterEachQuery"
| "cadence_into PyNever = Never"

definition PyPromotionConfig_new :: "PyRuntime \<Rightarrow> PyPromotionCadence option \<Rightarrow> nat option \<Rightarrow> PyObj option \<Rightarrow> nat option \<Rightarrow>
    PyErr + PromotionConfig" where
  "PyPromotionConfig_new R cad acc window refs =
     (let c = PromotionConfig_default;
          c = (case cad of None \<Rightarrow> c | Some v \<Rightarrow> c\<lparr>cadence := cadence_into v\<rparr>);
          c = (case acc of None \<Rightarrow> c | Some v \<Rightarrow> c\<lparr>minor_to_major_accesses := v\<rparr>)
      in (case (case window of None \<Rightarrow> Inr c | Some v \<Rightarrow> map_ok (\<lambda>d. c\<lparr>minor_window := d\<rparr>) (duration_from_py R v)) of
            Inl e \<Rightarrow> Inl e
          | Inr c \<Rightarrow> Inr (case refs of None \<Rightarrow> c | Some v \<Rightarrow> c\<lparr>major_to_enduring_references := v\<rparr>)))"

definition PyPromotionConfig_cadence :: "PromotionConfig \<Rightarrow> PyPromotionCadence" where
  "PyPromotionConfig_cadence c = PyPromotionCadence_from (cadence c)"

definition PyPromotionConfig_set_cadence :: "PyPromotionCadence \<Rightarrow> PromotionConfig \<Rightarrow> PromotionConfig" where
  "PyPromotionConfig_set_cadence v c = c\<lparr>cadence := cadence_into v\<rparr>"

definition PyPromotionConfig_minor_to_major_accesses :: "PromotionConfig \<Rightarrow> nat" where
  "PyPromotionConfig_minor_to_major_accesses c = minor_to_major_accesses c"

definition PyPromotionConfig_set_minor_to_major_accesses :: "nat \<Rightarrow> PromotionConfig \<Rightarrow> PromotionConfig" where
  "PyPromotionConfig_set_minor_to_major_accesses v c = c\<lparr>minor_to_major_accesses := v\<rparr>"

definition PyPromotionConfig_minor_window :: "F64Ops \<Rightarrow> PromotionConfig \<Rightarrow> f64" where
  "PyPromotionConfig_minor_window F c = f_as_secs F (minor_window c)"

definition PyPromotionConfig_set_minor_window :: "PyRuntime \<Rightarrow> PyObj \<Rightarrow> PromotionConfig \<Rightarrow> PyErr + PromotionConfig" where
  "PyPromotionConfig_set_minor_window R v c = map_ok (\<lambda>d. c\<lparr>minor_window := d\<rparr>) (duration_from_py R v)"

definition PyPromotionConfig_major_to_enduring_references :: "PromotionConfig \<Rightarrow> nat" where
  "PyPromotionConfig_major_to_enduring_references c = major_to_enduring_references c"

definition PyPromotionConfig_set_major_to_enduring_references :: "nat \<Rightarrow> PromotionConfig \<Rightarrow> PromotionConfig" where
  "PyPromotionConfig_set_major_to_enduring_references v c = c\<lparr>major_to_enduring_references := v\<rparr>"

fun PromotionCadence_debug :: "PromotionCadence \<Rightarrow> string" where
  "PromotionCadence_debug AfterEachQuery = ''AfterEachQuery''"
| "PromotionCadence_debug Never = ''Never''"

definition PyPromotionConfig_repr :: "PyRuntime \<Rightarrow> F64Ops \<Rightarrow> PromotionConfig \<Rightarrow> string" where
  "PyPromotionConfig_repr R F c =
     ''PromotionConfig(cadence='' @ PromotionCadence_debug (cadence c)
     @ '', minor_to_major_accesses='' @ show_nat (minor_to_major_accesses c)
     @ '', minor_window='' @ rt_show_f64 R (f_as_secs F (minor_window c))
     @ '', major_to_enduring_references='' @ show_nat (major_to_enduring_references c) @ '')''"

section \<open>Eviction\<close>

definition PyEvictionPolicy_lru :: EvictionPolicy where
  "PyEvictionPolicy_lru = Lru"

definition PyEvictionPolicy_lfu :: EvictionPolicy where
  "PyEvictionPolicy_lfu = Lfu"

definition PyEvictionPolicy_recency_weighted :: "PyRuntime \<Rightarrow> PyObj \<Rightarrow> PyErr + EvictionPolicy" where
  "PyEvictionPolicy_recency_weighted R half_life = map_ok RecencyWeighted (duration_from_py R half_life)"

fun PyEvictionPolicy_kind :: "EvictionPolicy \<Rightarrow> string" where
  "PyEvictionPolicy_kind Lru = ''lru''"
| "PyEvictionPolicy_kind Lfu = ''lfu''"
| "PyEvictionPolicy_kind (RecencyWeighted d) = ''recency_weighted''"

definition PyEvictionPolicy_half_life :: "F64Ops \<Rightarrow> EvictionPolicy \<Rightarrow> f64 option" where
  "PyEvictionPolicy_half_life F p = (case p of RecencyWeighted d \<Rightarrow> Some (f_as_secs F d) | _ \<Rightarrow> None)"

definition PyEvictionPolicy_repr :: "PyRuntime \<Rightarrow> F64Ops \<Rightarrow> EvictionPolicy \<Rightarrow> string" where
  "PyEvictionPolicy_repr R F p =
     (case PyEvictionPolicy_half_life F p of
        Some h \<Rightarrow> ''EvictionPolicy.recency_weighted('' @ rt_show_f64 R h @ '')''
      | None \<Rightarrow> ''EvictionPolicy.'' @ PyEvictionPolicy_kind p @ ''()'')"

datatype PyDemotionTarget = PyDrop | PyNextColder | PyOneStepThenDrop

fun PyDemotionTarget_from :: "DemotionTarget \<Rightarrow> PyDemotionTarget" where
  "PyDemotionTarget_from Drop = PyDrop"
| "PyDemotionTarget_from NextColder = PyNextColder"
| "PyDemotionTarget_from OneStepThenDrop = PyOneStepThenDrop"

fun demotion_into :: "PyDemotionTarget \<Rightarrow> DemotionTarget" where
  "demotion_into PyDrop = Drop"
| "demotion_into PyNextColder = NextColder"
| "demotion_into PyOneStepThenDrop = OneStepThenDrop"

definition PyEvictionCriteria_items :: "ItemId list \<Rightarrow> EvictionCriteria" where
  "PyEvictionCriteria_items ids = Items ids"

definition PyEvictionCriteria_demote :: "ItemId list \<Rightarrow> PyContextScope \<Rightarrow> EvictionCriteria" where
  "PyEvictionCriteria_demote ids to = Demote ids (scope_into to)"

definition PyEvictionCriteria_policy :: "nat \<Rightarrow> EvictionCriteria" where
  "PyEvictionCriteria_policy count = Policy count"

text \<open>The derived \<open>Debug\<close> text.\<close>

fun ids_tail :: "ItemId list \<Rightarrow> string" where
  "ids_tail [] = '']''"
| "ids_tail (i # ids) = '', ItemId('' @ show_nat i @ '')'' @ ids_tail ids"

definition debug_ids :: "ItemId list \<Rightarrow> string" where
  "debug_ids ids = (case ids of [] \<Rightarrow> ''[]'' | i # rest \<Rightarrow> ''[ItemId('' @ show_nat i @ '')'' @ ids_tail rest)"

fun ContextScope_debug :: "ContextScope \<Rightarrow> string" where
  "ContextScope_debug Minor = ''Minor''"
| "ContextScope_debug Major = ''Major''"
| "ContextScope_debug Enduring = ''Enduring''"

fun EvictionCriteria_debug :: "EvictionCriteria \<Rightarrow> string" where
  "EvictionCriteria_debug (Items ids) = ''Items('' @ debug_ids ids @ '')''"
| "EvictionCriteria_debug (Demote ids to) = ''Demote { items: '' @ debug_ids ids @ '', to: '' @ ContextScope_debug to @ '' }''"
| "EvictionCriteria_debug (Policy count) = ''Policy { count: '' @ show_nat count @ '' }''"

definition PyEvictionCriteria_repr :: "EvictionCriteria \<Rightarrow> string" where
  "PyEvictionCriteria_repr c = ''<EvictionCriteria '' @ EvictionCriteria_debug c @ ''>''"

section \<open>The configuration object\<close>

text \<open>The bounds and promotion objects of the program; addresses below \<open>hp_next\<close> are in use.\<close>

record PyHeap =
  hp_bounds :: "nat \<Rightarrow> PyScopeBounds"
  hp_promotion :: "nat \<Rightarrow> PromotionConfig"
  hp_next :: nat

definition new_bounds :: "PyScopeBounds \<Rightarrow> PyHeap \<Rightarrow> nat \<times> PyHeap" where
  "new_bounds b h = (hp_next h, h\<lparr>hp_bounds := (hp_bounds h)(hp_next h := b), hp_next := Suc (hp_next h)\<rparr>)"

definition new_promotion :: "PromotionConfig \<Rightarrow> PyHeap \<Rightarrow> nat \<times> PyHeap" where
  "new_promotion c h = (hp_next h, h\<lparr>hp_promotion := (hp_promotion h)(hp_next h := c), hp_next := Suc (hp_next h)\<rparr>)"

record PySessionConfig =
  pc_enduring_path :: string
  pc_bounds :: nat
  pc_eviction_policy :: EvictionPolicy
  pc_demotion_target :: PyDemotionTarget
  pc_promotion :: nat

definition PySessionConfig_oxigraph :: "string \<Rightarrow> nat option \<Rightarrow> EvictionPolicy option \<Rightarrow> PyDemotionTarget option \<Rightarrow>
    nat option \<Rightarrow> PyHeap \<Rightarrow> PySessionConfig \<times> PyHeap" where
  "PySessionConfig_oxigraph path b policy target p h =
     (case (case b of Some r \<Rightarrow> (r, h) | None \<Rightarrow> new_bounds PyScopeBounds_default h) of (b_ref, h1) \<Rightarrow>
      (case (case p of Some r \<Rightarrow> (r, h1) | None \<Rightarrow> new_promotion PromotionConfig_default h1) of (p_ref, h2) \<Rightarrow>
        (\<lparr>pc_enduring_path = path, pc_bounds = b_ref,
          pc_eviction_policy = (case policy of Some q \<Rightarrow> q | None \<Rightarrow> Lru),
          pc_demotion_target = (case target of Some t \<Rightarrow> t | None \<Rightarrow> PyDemotionTarget_from OneStepThenDrop),
          pc_promotion = p_ref\<rparr>, h2)))"

text \<open>The four attributes; \<open>bounds\<close> and \<open>promotion\<close> are got and set as references.\<close>

definition PySessionConfig_bounds :: "PySessionConfig \<Rightarrow> nat" where
  "PySessionConfig_bounds cfg = pc_bounds cfg"

definition PySessionConfig_set_bounds :: "nat \<Rightarrow> PySessionConfig \<Rightarrow> PySessionConfig" where
  "PySessionConfig_set_bounds r cfg = cfg\<lparr>pc_bounds := r\<rparr>"

definition PySessionConfig_eviction_policy :: "PySessionConfig \<Rightarrow> EvictionPolicy" where
  "PySessionConfig_eviction_policy cfg = pc_eviction_policy cfg"

definition PySessionConfig_set_eviction_policy :: "EvictionPolicy \<Rightarrow> PySessionConfig \<Rightarrow> PySessionConfig" where
  "PySessionConfig_set_eviction_policy q cfg = cfg\<lparr>pc_eviction_policy := q\<rparr>"

definition PySessionConfig_demotion_target :: "PySessionConfig \<Rightarrow> PyDemotionTarget" where
  "PySessionConfig_demotion_target cfg = pc_demotion_target cfg"

definition PySessionConfig_set_demotion_target :: "PyDemotionTarget \<Rightarrow> PySessionConfig \<Rightarrow> PySessionConfig" where
  "PySessionConfig_set_demotion_target t cfg = cfg\<lparr>pc_demotion_target := t\<rparr>"

definition PySessionConfig_promotion :: "PySessionConfig \<Rightarrow> nat" where
  "PySessionConfig_promotion cfg = pc_promotion cfg"

definition PySessionConfig_set_promotion :: "nat \<Rightarrow> PySessionConfig \<Rightarrow> PySessionConfig" where
  "PySessionConfig_set_promotion r cfg = cfg\<lparr>pc_promotion := r\<rparr>"

definition PySessionConfig_enduring_path :: "PySessionConfig \<Rightarrow> string" where
  "PySessionConfig_enduring_path cfg = pc_enduring_path cfg"

definition PySessionConfig_repr :: "(string \<Rightarrow> string) \<Rightarrow> PySessionConfig \<Rightarrow> string" where
  "PySessionConfig_repr dbg cfg = ''<SessionConfig oxigraph '' @ dbg (pc_enduring_path cfg) @ ''>''"

definition PySessionConfig_to_native :: "('s, 't) OxStore \<Rightarrow> PyHeap \<Rightarrow> PySessionConfig \<Rightarrow> SessionError + 's OxigraphStore SessionConfig" where
  "PySessionConfig_to_native X h cfg =
     (case SessionConfig_oxigraph X (pc_enduring_path cfg) of Inl e \<Rightarrow> Inl e
      | Inr c \<Rightarrow> Inr (c\<lparr>cfg_bounds := ScopeBounds_from (hp_bounds h (pc_bounds cfg)),
                       cfg_eviction_policy := pc_eviction_policy cfg,
                       cfg_demotion_target := demotion_into (pc_demotion_target cfg),
                       cfg_promotion := hp_promotion h (pc_promotion cfg)\<rparr>))"

section \<open>A program that changes configurations\<close>

text \<open>
  The statements of a Python program on configuration objects: making new objects, from any
  arguments, and setting the attributes of an object through a reference to it. The
  configurations that the program has made are numbered in order; its other objects are in the
  heap. A constructor that raises makes nothing, and a setter that raises changes nothing.
\<close>

record PyProgram =
  pg_heap :: PyHeap
  pg_configs :: "PySessionConfig list"

datatype ConfigOp =
    NewBounds "nat option" "nat option" "nat option"
  | NewPromotion "PyPromotionCadence option" "nat option" "PyObj option" "nat option"
  | NewConfig string "nat option" "EvictionPolicy option" "PyDemotionTarget option" "nat option"
  | SetBound nat ContextScope "nat option"
  | SetCadence nat PyPromotionCadence
  | SetAccesses nat nat
  | SetWindow nat PyObj
  | SetReferences nat nat
  | CfgBounds nat nat
  | CfgPolicy nat EvictionPolicy
  | CfgTarget nat PyDemotionTarget
  | CfgPromotion nat nat

fun set_bound :: "ContextScope \<Rightarrow> nat option \<Rightarrow> PyScopeBounds \<Rightarrow> PyScopeBounds" where
  "set_bound Enduring v b = b\<lparr>py_enduring_max_items := v\<rparr>"
| "set_bound Major v b = b\<lparr>py_major_max_items := v\<rparr>"
| "set_bound Minor v b = b\<lparr>py_minor_max_items := v\<rparr>"

definition at_bounds :: "nat \<Rightarrow> (PyScopeBounds \<Rightarrow> PyScopeBounds) \<Rightarrow> PyHeap \<Rightarrow> PyHeap" where
  "at_bounds r f h = h\<lparr>hp_bounds := (hp_bounds h)(r := f (hp_bounds h r))\<rparr>"

definition at_promotion :: "nat \<Rightarrow> (PromotionConfig \<Rightarrow> PromotionConfig) \<Rightarrow> PyHeap \<Rightarrow> PyHeap" where
  "at_promotion r f h = h\<lparr>hp_promotion := (hp_promotion h)(r := f (hp_promotion h r))\<rparr>"

fun heap_step :: "PyRuntime \<Rightarrow> ConfigOp \<Rightarrow> PyHeap \<Rightarrow> PyHeap" where
  "heap_step R (NewBounds en ma mi) h = snd (new_bounds (PyScopeBounds_new en ma mi) h)"
| "heap_step R (NewPromotion cad acc window refs) h =
     (case PyPromotionConfig_new R cad acc window refs of Inl e \<Rightarrow> h | Inr c \<Rightarrow> snd (new_promotion c h))"
| "heap_step R (NewConfig path b policy target p) h = snd (PySessionConfig_oxigraph path b policy target p h)"
| "heap_step R (SetBound r sc v) h = at_bounds r (set_bound sc v) h"
| "heap_step R (SetCadence r v) h = at_promotion r (PyPromotionConfig_set_cadence v) h"
| "heap_step R (SetAccesses r v) h = at_promotion r (PyPromotionConfig_set_minor_to_major_accesses v) h"
| "heap_step R (SetWindow r v) h =
     (case PyPromotionConfig_set_minor_window R v (hp_promotion h r) of Inl e \<Rightarrow> h
      | Inr c \<Rightarrow> at_promotion r (\<lambda>_. c) h)"
| "heap_step R (SetReferences r v) h = at_promotion r (PyPromotionConfig_set_major_to_enduring_references v) h"
| "heap_step R _ h = h"

definition at_config :: "nat \<Rightarrow> (PySessionConfig \<Rightarrow> PySessionConfig) \<Rightarrow> PySessionConfig list \<Rightarrow> PySessionConfig list" where
  "at_config i f cfgs = cfgs[i := f (cfgs ! i)]"

fun configs_step :: "ConfigOp \<Rightarrow> PyHeap \<Rightarrow> PySessionConfig list \<Rightarrow> PySessionConfig list" where
  "configs_step (NewConfig path b policy target p) h cfgs = cfgs @ [fst (PySessionConfig_oxigraph path b policy target p h)]"
| "configs_step (CfgBounds i r) h cfgs = at_config i (PySessionConfig_set_bounds r) cfgs"
| "configs_step (CfgPolicy i q) h cfgs = at_config i (PySessionConfig_set_eviction_policy q) cfgs"
| "configs_step (CfgTarget i t) h cfgs = at_config i (PySessionConfig_set_demotion_target t) cfgs"
| "configs_step (CfgPromotion i r) h cfgs = at_config i (PySessionConfig_set_promotion r) cfgs"
| "configs_step _ h cfgs = cfgs"

definition config_step :: "PyRuntime \<Rightarrow> ConfigOp \<Rightarrow> PyProgram \<Rightarrow> PyProgram" where
  "config_step R oper w =
     \<lparr>pg_heap = heap_step R oper (pg_heap w), pg_configs = configs_step oper (pg_heap w) (pg_configs w)\<rparr>"

section \<open>What the program says, in native settings\<close>

text \<open>
  The history of one bounds object and of one promotion object, as native settings: what it is
  made with, and then every setter that goes through a reference to it. Objects are numbered as
  they are made, and \<open>n\<close> is the number of the next one.
\<close>

fun native_bound :: "ContextScope \<Rightarrow> nat option \<Rightarrow> ScopeBounds \<Rightarrow> ScopeBounds" where
  "native_bound Enduring v b = b\<lparr>enduring_max_items := v\<rparr>"
| "native_bound Major v b = b\<lparr>major_max_items := v\<rparr>"
| "native_bound Minor v b = b\<lparr>minor_max_items := v\<rparr>"

definition native_cadence :: "PyPromotionCadence \<Rightarrow> PromotionCadence" where
  "native_cadence v = (if v = PyNever then Never else AfterEachQuery)"

definition native_target :: "PyDemotionTarget \<Rightarrow> DemotionTarget" where
  "native_target t = (if t = PyDrop then Drop else if t = PyNextColder then NextColder else OneStepThenDrop)"

abbreviation or_default :: "'a option \<Rightarrow> 'a \<Rightarrow> 'a" where
  "or_default v d \<equiv> (case v of Some x \<Rightarrow> x | None \<Rightarrow> d)"

definition native_promotion :: "PyRuntime \<Rightarrow> PyPromotionCadence option \<Rightarrow> nat option \<Rightarrow> PyObj option \<Rightarrow> nat option \<Rightarrow>
    PyErr + PromotionConfig" where
  "native_promotion R cad acc window refs =
     map_ok (\<lambda>d. \<lparr>cadence = or_default (map_option native_cadence cad) AfterEachQuery, minor_to_major_accesses = or_default acc 3,
         minor_window = d, major_to_enduring_references = or_default refs 5\<rparr>)
       (or_default (map_option (duration_from_py R) window) (Inr (Duration_from_secs 60)))"

fun made :: "PyRuntime \<Rightarrow> ConfigOp \<Rightarrow> nat" where
  "made R (NewBounds en ma mi) = 1"
| "made R (NewPromotion cad acc window refs) = (case native_promotion R cad acc window refs of Inl e \<Rightarrow> 0 | Inr c \<Rightarrow> 1)"
| "made R (NewConfig path b policy target p) = (if b = None then 1 else 0) + (if p = None then 1 else 0)"
| "made R _ = 0"

fun bounds_history :: "nat \<Rightarrow> ConfigOp \<Rightarrow> nat \<Rightarrow> ScopeBounds \<Rightarrow> ScopeBounds" where
  "bounds_history r (NewBounds en ma mi) n bs =
     (if n = r then \<lparr>enduring_max_items = en, major_max_items = ma, minor_max_items = mi\<rparr> else bs)"
| "bounds_history r (NewConfig path None policy target p) n bs = (if n = r then ScopeBounds_default else bs)"
| "bounds_history r (SetBound r' sc v) n bs = (if r' = r then native_bound sc v bs else bs)"
| "bounds_history r _ n bs = bs"

fun promotion_history :: "PyRuntime \<Rightarrow> nat \<Rightarrow> ConfigOp \<Rightarrow> nat \<Rightarrow> PromotionConfig \<Rightarrow> PromotionConfig" where
  "promotion_history R r (NewPromotion cad acc window refs) n pr =
     (case native_promotion R cad acc window refs of Inr c \<Rightarrow> if n = r then c else pr | Inl e \<Rightarrow> pr)"
| "promotion_history R r (NewConfig path b policy target None) n pr =
     (if n + (if b = None then 1 else 0) = r then PromotionConfig_default else pr)"
| "promotion_history R r (SetCadence r' v) n pr = (if r' = r then pr\<lparr>cadence := native_cadence v\<rparr> else pr)"
| "promotion_history R r (SetAccesses r' v) n pr = (if r' = r then pr\<lparr>minor_to_major_accesses := v\<rparr> else pr)"
| "promotion_history R r (SetWindow r' v) n pr =
     (case duration_from_py R v of Inr d \<Rightarrow> if r' = r then pr\<lparr>minor_window := d\<rparr> else pr | Inl e \<Rightarrow> pr)"
| "promotion_history R r (SetReferences r' v) n pr = (if r' = r then pr\<lparr>major_to_enduring_references := v\<rparr> else pr)"
| "promotion_history R r _ n pr = pr"

primrec live_bounds :: "PyRuntime \<Rightarrow> nat \<Rightarrow> ConfigOp list \<Rightarrow> nat \<Rightarrow> ScopeBounds \<Rightarrow> ScopeBounds" where
  "live_bounds R r [] n bs = bs"
| "live_bounds R r (oper # ops) n bs = live_bounds R r ops (n + made R oper) (bounds_history r oper n bs)"

primrec live_promotion :: "PyRuntime \<Rightarrow> nat \<Rightarrow> ConfigOp list \<Rightarrow> nat \<Rightarrow> PromotionConfig \<Rightarrow> PromotionConfig" where
  "live_promotion R r [] n pr = pr"
| "live_promotion R r (oper # ops) n pr = live_promotion R r ops (n + made R oper) (promotion_history R r oper n pr)"

text \<open>The last value that the setters of an attribute of configuration \<open>i\<close> gave it, or \<open>x\<close>.\<close>

fun bounds_given :: "nat \<Rightarrow> ConfigOp \<Rightarrow> nat option" where
  "bounds_given i (CfgBounds j r) = (if j = i then Some r else None)"
| "bounds_given i _ = None"

fun policy_given :: "nat \<Rightarrow> ConfigOp \<Rightarrow> EvictionPolicy option" where
  "policy_given i (CfgPolicy j q) = (if j = i then Some q else None)"
| "policy_given i _ = None"

fun target_given :: "nat \<Rightarrow> ConfigOp \<Rightarrow> PyDemotionTarget option" where
  "target_given i (CfgTarget j t) = (if j = i then Some t else None)"
| "target_given i _ = None"

fun promotion_given :: "nat \<Rightarrow> ConfigOp \<Rightarrow> nat option" where
  "promotion_given i (CfgPromotion j r) = (if j = i then Some r else None)"
| "promotion_given i _ = None"

primrec last_given :: "(ConfigOp \<Rightarrow> 'a option) \<Rightarrow> ConfigOp list \<Rightarrow> 'a \<Rightarrow> 'a" where
  "last_given pick [] x = x"
| "last_given pick (oper # ops) x = last_given pick ops (or_default (pick oper) x)"

lemmas heap_defs = new_bounds_def new_promotion_def at_bounds_def at_promotion_def

lemmas setter_defs = PyPromotionConfig_set_cadence_def PyPromotionConfig_set_minor_to_major_accesses_def
  PyPromotionConfig_set_major_to_enduring_references_def PyPromotionConfig_set_minor_window_def
  PySessionConfig_set_bounds_def PySessionConfig_set_eviction_policy_def PySessionConfig_set_demotion_target_def
  PySessionConfig_set_promotion_def

lemma ScopeBounds_from_set: "ScopeBounds_from (set_bound sc v b) = native_bound sc v (ScopeBounds_from b)"
  by (cases sc) (simp_all add: ScopeBounds_from_def)

lemma native_cadence_eq: "cadence_into v = native_cadence v"
  by (cases v) (simp_all add: native_cadence_def)

lemma native_target_eq: "demotion_into t = native_target t"
  by (cases t) (simp_all add: native_target_def)

lemma native_promotion_eq: "PyPromotionConfig_new R cad acc window refs = native_promotion R cad acc window refs"
  by (auto simp: PyPromotionConfig_new_def native_promotion_def PromotionConfig_default_def native_cadence_eq Let_def
    split: option.split sum.split)

lemma heap_step_next: "hp_next (heap_step R oper h) = hp_next h + made R oper"
  by (cases oper) (auto simp: heap_defs PySessionConfig_oxigraph_def native_promotion_eq split: sum.split option.split)

lemma heap_step_bounds:
  "ScopeBounds_from (hp_bounds (heap_step R oper h) r) = bounds_history r oper (hp_next h) (ScopeBounds_from (hp_bounds h r))"
proof (cases oper)
  case (NewConfig path b policy target p)
  then show ?thesis
    by (cases b; cases p) (auto simp: heap_defs PySessionConfig_oxigraph_def ScopeBounds_from_def PyScopeBounds_default_def
      ScopeBounds_default_def)
next
  case (NewBounds en ma mi)
  then show ?thesis by (simp add: heap_defs ScopeBounds_from_def PyScopeBounds_new_def)
qed (auto simp: heap_defs ScopeBounds_from_set split: sum.split)

lemma heap_step_promotion:
  "hp_promotion (heap_step R oper h) r = promotion_history R r oper (hp_next h) (hp_promotion h r)"
proof (cases oper)
  case (NewConfig path b policy target p)
  then show ?thesis by (cases b; cases p) (auto simp: heap_defs PySessionConfig_oxigraph_def)
qed (auto simp: heap_defs setter_defs native_cadence_eq native_promotion_eq split: sum.split)

lemma run_held:
  "ScopeBounds_from (hp_bounds (pg_heap (fold (config_step R) ops w)) r)
     = live_bounds R r ops (hp_next (pg_heap w)) (ScopeBounds_from (hp_bounds (pg_heap w) r))"
  "hp_promotion (pg_heap (fold (config_step R) ops w)) r
     = live_promotion R r ops (hp_next (pg_heap w)) (hp_promotion (pg_heap w) r)"
  by (induction ops arbitrary: w)
    (simp_all add: config_step_def heap_step_next heap_step_bounds heap_step_promotion)

lemma configs_step_attrs:
  assumes "i < length cfgs"
  shows "i < length (configs_step oper h cfgs)"
    and "configs_step oper h cfgs ! i = (cfgs ! i)\<lparr>pc_bounds := or_default (bounds_given i oper) (pc_bounds (cfgs ! i)),
      pc_eviction_policy := or_default (policy_given i oper) (pc_eviction_policy (cfgs ! i)),
      pc_demotion_target := or_default (target_given i oper) (pc_demotion_target (cfgs ! i)),
      pc_promotion := or_default (promotion_given i oper) (pc_promotion (cfgs ! i))\<rparr>"
  using assms by (cases oper; auto simp: at_config_def setter_defs nth_append nth_list_update)+

lemma run_attrs:
  assumes "i < length (pg_configs w)"
  shows "pg_configs (fold (config_step R) ops w) ! i = (pg_configs w ! i)
     \<lparr>pc_bounds := last_given (bounds_given i) ops (pc_bounds (pg_configs w ! i)),
      pc_eviction_policy := last_given (policy_given i) ops (pc_eviction_policy (pg_configs w ! i)),
      pc_demotion_target := last_given (target_given i) ops (pc_demotion_target (pg_configs w ! i)),
      pc_promotion := last_given (promotion_given i) ops (pc_promotion (pg_configs w ! i))\<rparr>"
  using assms
proof (induction ops arbitrary: w)
  case (Cons oper ops)
  have "i < length (pg_configs (config_step R oper w))"
    using Cons.prems configs_step_attrs(1) by (simp add: config_step_def)
  from Cons.IH [OF this] show ?case
    using configs_step_attrs(2) [OF Cons.prems, of oper "pg_heap w"] by (simp add: config_step_def)
qed simp

text \<open>
  C35. A configuration object is live and its own. A program makes it with any arguments and
  then makes and changes these and other bounds, promotion and configuration objects. Opening
  it uses the stores of its path; the eviction policy and the demotion target that it was last
  given, the native defaults if none; and the bounds and the promotion settings that the
  objects it was last given hold at that moment, through whichever references, shared or not,
  they were set: the history of the object it was given, or of the fresh default object it
  made. A constructor or a setter that raises changes nothing.
\<close>

theorem py_config_live:
  "let i = length (pg_configs w); h = pg_heap w;
       program = NewConfig path b policy target p # ops;
       w' = fold (config_step R) program w;
       b_last = last_given (bounds_given i) ops (or_default b (hp_next h));
       p_last = last_given (promotion_given i) ops (or_default p (if b = None then Suc (hp_next h) else hp_next h))
   in PySessionConfig_to_native X (pg_heap w') (pg_configs w' ! i) =
        map_ok (\<lambda>c. c\<lparr>cfg_bounds := live_bounds R b_last program (hp_next h) (ScopeBounds_from (hp_bounds h b_last)),
            cfg_eviction_policy := last_given (policy_given i) ops (or_default policy Lru),
            cfg_demotion_target := native_target (last_given (target_given i) ops (or_default target PyOneStepThenDrop)),
            cfg_promotion := live_promotion R p_last program (hp_next h) (hp_promotion h p_last)\<rparr>)
          (SessionConfig_oxigraph X path)"
proof -
  define i where "i = length (pg_configs w)"
  define w1 where "w1 = config_step R (NewConfig path b policy target p) w"
  have "pg_configs w1 ! i = \<lparr>pc_enduring_path = path, pc_bounds = or_default b (hp_next (pg_heap w)),
      pc_eviction_policy = or_default policy Lru, pc_demotion_target = or_default target PyOneStepThenDrop,
      pc_promotion = or_default p (if b = None then Suc (hp_next (pg_heap w)) else hp_next (pg_heap w))\<rparr>"
    by (cases b; cases p; cases target) (simp_all add: w1_def i_def config_step_def PySessionConfig_oxigraph_def heap_defs)
  moreover have "i < length (pg_configs w1)" by (simp add: w1_def i_def config_step_def)
  ultimately show ?thesis
    using run_held [where ops = "NewConfig path b policy target p # ops" and w = w and R = R] run_attrs [of i w1 R ops]
    by (cases "SessionConfig_oxigraph X path")
      (simp_all add: Let_def PySessionConfig_to_native_def native_target_eq flip: w1_def i_def)
qed

text \<open>
  The number of seconds that an object stands for: a number is converted to a float and a
  \<open>timedelta\<close> gives its own total; both conversions may raise. Other objects stand for none.
\<close>

fun seconds_of :: "PyRuntime \<Rightarrow> PyObj \<Rightarrow> (PyErr + f64) option" where
  "seconds_of R (ObjFloat f) = Some (Inr f)"
| "seconds_of R (ObjInt i) = Some (rt_extract_f64 R (ObjInt i))"
| "seconds_of R (ObjBool b) = Some (rt_extract_f64 R (ObjBool b))"
| "seconds_of R (ObjOther c it (Some (Inr x))) = Some (rt_extract_f64 R x)"
| "seconds_of R (ObjOther c it (Some (Inl e))) = Some (Inl e)"
| "seconds_of R _ = None"

text \<open>
  C39. Durations are exact to the nanosecond. A float, an int or bool, or an object with a
  \<open>total_seconds\<close> method stands for a number of seconds, and it becomes the nearest whole
  number of nanoseconds, the even one of two that are equally near. It is refused with
  \<open>ValueError\<close> exactly if that number is negative, not a number or \<open>2 ^ 64\<close> or more, and with
  the runtime's own exception if there is no such number. Any other object is refused with
  \<open>TypeError\<close>. The hypothesis is that the runtime reads a float object as its value.
\<close>

theorem py_duration_exact:
  assumes "\<And>f. rt_extract_f64 R (ObjFloat f) = Inr f"
  shows "case seconds_of R obj of
      None \<Rightarrow> \<exists>e. duration_from_py R obj = Inl e \<and> pe_class e = PyTypeError
    | Some (Inl e) \<Rightarrow> duration_from_py R obj = Inl e
    | Some (Inr f) \<Rightarrow> (case duration_from_py R obj of
          Inr d \<Rightarrow> 0 \<le> f64_value f \<and> f64_value f < 2 ^ 64 \<and> nearest_even d (10 ^ 9 * f64_value f)
        | Inl e \<Rightarrow> pe_class e = PyValueError \<and> (f64_value f < 0 \<or> f64_is_nan f \<or> 2 ^ 64 \<le> f64_value f))"
proof (cases "seconds_of R obj")
  case None
  then show ?thesis
    by (cases "(R, obj)" rule: seconds_of.cases) (simp_all add: duration_from_py_def cast_defs)
next
  case (Some r)
  then have eq: "duration_from_py R obj = (case r of Inl e \<Rightarrow> Inl e
      | Inr f \<Rightarrow> map_err (\<lambda>e. new_err PyValueError (''invalid duration '' @ rt_show_f64 R f @ '' s: '' @ DurationError_display e))
            (Duration_try_from_secs_f64 f))"
    using assms by (cases "(R, obj)" rule: seconds_of.cases) (auto simp: duration_from_py_def cast_defs)
  show ?thesis
  proof (cases r)
    case (Inr f)
    with Some eq Duration_try_from_secs_f64_law [of f] show ?thesis
      by (auto simp: duration_law_def split: sum.splits DurationError.splits)
  qed (simp add: Some eq)
qed

text \<open>A tie: \<open>2\<close> to the minus tenth of a second is \<open>976562.5\<close> nanoseconds.\<close>

theorem py_duration_exact_witness:
  "duration_from_py w_runtime (ObjFloat 0x3F50000000000000) = Inr 976562
   \<and> nearest_even 976562 (10 ^ 9 * f64_value 0x3F50000000000000) \<and> f64_value 0x3F50000000000000 = 1 / 2 ^ 10"
proof -
  have bits: "f64_exponent 0x3F50000000000000 = 1013" "f64_fraction 0x3F50000000000000 = 0"
    "\<not> f64_below_zero 0x3F50000000000000" "\<not> f64_negative 0x3F50000000000000"
    by (simp_all add: f64_exponent_def f64_fraction_def f64_below_zero_def f64_negative_def)
  then have "duration_from_py w_runtime (ObjFloat 0x3F50000000000000) = Inr 976562"
    by (simp add: duration_from_py_def cast_defs w_runtime_def Duration_try_from_secs_f64_def round_shift_def bit_iff_odd)
  moreover have "f64_value 0x3F50000000000000 = 1 / 2 ^ 10" by (simp add: f64_value_def bits)
  moreover have "rt_extract_f64 w_runtime (ObjFloat f) = Inr f" for f by (simp add: w_runtime_def)
  ultimately show ?thesis using py_duration_exact [of w_runtime "ObjFloat 0x3F50000000000000"] by simp
qed

end
