(* ===== verification/Py_Session.thy ===== *)
theory Py_Session
  imports Session_Laws Py_Config
begin

text \<open>
  The Python session object (\<^verbatim>\<open>semanticore-context-py/src/session.rs\<close>): it owns a native
  session until it is closed, and forwards calls to it.

  The native session takes its mutex for the whole of each operation, so a call is a step
  from state to state, whichever Python thread makes it. A panic of the native session
  reaches Python as PyO3's \<open>PanicException\<close>. How Rust's \<open>Debug\<close> quotes a string is the
  parameter \<open>dbg\<close>.
\<close>

section \<open>The session object\<close>

record PySessionStats =
  py_items_added :: nat
  py_queries_served :: nat
  py_reasoning_passes :: nat
  py_items_promoted :: nat
  py_items_demoted :: nat
  py_items_evicted :: nat

definition PySessionStats_from :: "SessionStats \<Rightarrow> PySessionStats" where
  "PySessionStats_from s =
     \<lparr>py_items_added = items_added s, py_queries_served = queries_served s, py_reasoning_passes = reasoning_passes s,
      py_items_promoted = items_promoted s, py_items_demoted = items_demoted s, py_items_evicted = items_evicted s\<rparr>"

text \<open>The derived \<open>Debug\<close> text, with the first \<open>PySessionStats\<close> replaced.\<close>

definition PySessionStats_repr :: "PySessionStats \<Rightarrow> string" where
  "PySessionStats_repr s =
     ''SessionStats { items_added: '' @ show_nat (py_items_added s) @ '', queries_served: '' @ show_nat (py_queries_served s)
     @ '', reasoning_passes: '' @ show_nat (py_reasoning_passes s) @ '', items_promoted: '' @ show_nat (py_items_promoted s)
     @ '', items_demoted: '' @ show_nat (py_items_demoted s) @ '', items_evicted: '' @ show_nat (py_items_evicted s) @ '' }''"

record PyPromotionStats =
  py_promoted :: nat

definition PyPromotionStats_repr :: "PyPromotionStats \<Rightarrow> string" where
  "PyPromotionStats_repr s = ''PromotionStats(promoted='' @ show_nat (py_promoted s) @ '')''"

record PyReasoningStats =
  py_quads_added :: nat

definition PyReasoningStats_repr :: "PyReasoningStats \<Rightarrow> string" where
  "PyReasoningStats_repr s = ''ReasoningStats(quads_added='' @ show_nat (py_quads_added s) @ '')''"

definition PyContextSnapshot_scope :: "ContextSnapshot \<Rightarrow> PyContextScope" where
  "PyContextSnapshot_scope s = PyContextScope_from (snap_scope s)"

definition PyContextSnapshot_items :: "ContextSnapshot \<Rightarrow> (ItemId \<times> ContextItem) list" where
  "PyContextSnapshot_items s = snap_items s"

definition PyContextSnapshot_quad_count :: "ContextSnapshot \<Rightarrow> nat" where
  "PyContextSnapshot_quad_count s = snap_quad_count s"

definition PyContextSnapshot_repr :: "ContextSnapshot \<Rightarrow> string" where
  "PyContextSnapshot_repr s =
     ''<ContextSnapshot '' @ tag (snap_scope s) @ '' '' @ show_nat (length (snap_items s)) @ '' item(s)>''"

datatype 'st PyState = PyOpen "'st Session" | PyClosed SessionStats

datatype CallError = CallClosed | CallSession SessionError

datatype PyAbort = Raise PyErr | PanicException

type_synonym ('st, 'a) py_call = "'st PyState \<Rightarrow> (PyAbort + 'a) \<times> 'st PyState"

fun raise_call :: "(string \<Rightarrow> string) \<Rightarrow> CallError \<Rightarrow> PyAbort" where
  "raise_call dbg CallClosed = Raise closed_err"
| "raise_call dbg (CallSession e) = Raise (to_py_err dbg e)"

fun raise_abort :: "(string \<Rightarrow> string) \<Rightarrow> Abort \<Rightarrow> PyAbort" where
  "raise_abort dbg (Err e) = raise_call dbg (CallSession e)"
| "raise_abort dbg Panic = PanicException"

definition PySession_write :: "(string \<Rightarrow> string) \<Rightarrow> ('st Session, Abort, 'a) res_st \<Rightarrow> ('st, 'a) py_call" where
  "PySession_write dbg f state =
     (case state of
        PyOpen s \<Rightarrow> (case f s of (r, s') \<Rightarrow> (map_err (raise_abort dbg) r, PyOpen s'))
      | PyClosed stats \<Rightarrow> (Inl (raise_call dbg CallClosed), state))"

definition PySession_read :: "(string \<Rightarrow> string) \<Rightarrow> ('st Session, Abort, 'a) res_st \<Rightarrow> ('st, 'a) py_call" where
  "PySession_read dbg f state =
     (case state of
        PyOpen s \<Rightarrow> (case f s of (r, s') \<Rightarrow> (map_err (raise_abort dbg) r, PyOpen s'))
      | PyClosed stats \<Rightarrow> (Inl (raise_call dbg CallClosed), state))"

definition PySession_open :: "(string \<Rightarrow> string) \<Rightarrow> ('s, 't) OxStore \<Rightarrow> ('s OxigraphStore, 'tx) Env \<Rightarrow> (nat \<Rightarrow> Instant) \<Rightarrow>
    PyHeap \<Rightarrow> PySessionConfig \<Rightarrow> PyAbort + 's OxigraphStore PyState" where
  "PySession_open dbg X E clk h config =
     (case PySessionConfig_to_native X h config of Inl e \<Rightarrow> Inl (Raise (to_py_err dbg e))
      | Inr cfg \<Rightarrow>
         (case Session_open E clk cfg of Inl e \<Rightarrow> Inl (Raise (to_py_err dbg e))
          | Inr s \<Rightarrow> Inr (PyOpen s)))"

definition PySession_close :: "(string \<Rightarrow> string) \<Rightarrow> ('st, PySessionStats) py_call" where
  "PySession_close dbg state =
     (case state of
        PyClosed stats \<Rightarrow> (Inr (PySessionStats_from stats), PyClosed stats)
      | PyOpen s \<Rightarrow>
         (case Session_close s of
            Inl e \<Rightarrow> (Inl (raise_call dbg (CallSession e)), PyClosed SessionStats_default)
          | Inr stats \<Rightarrow> (Inr (PySessionStats_from stats), PyClosed stats)))"

fun PySession_closed :: "'st PyState \<Rightarrow> bool" where
  "PySession_closed (PyClosed stats) = True"
| "PySession_closed (PyOpen s) = False"

definition PySession_exit :: "(string \<Rightarrow> string) \<Rightarrow> ('st, bool) py_call" where
  "PySession_exit dbg state =
     (case PySession_close dbg state of (Inl a, t) \<Rightarrow> (Inl a, t) | (Inr _, t) \<Rightarrow> (Inr False, t))"

text \<open>A method of the native session that reads it, and may fail, as a call.\<close>

definition reading :: "('st Session \<Rightarrow> SessionError + 'a) \<Rightarrow> ('st Session, Abort, 'a) res_st" where
  "reading f s = (map_err Err (f s), s)"

definition map_value :: "('a \<Rightarrow> 'b) \<Rightarrow> ('st, 'a) py_call \<Rightarrow> ('st, 'b) py_call" where
  "map_value f m state = (case m state of (Inl a, t) \<Rightarrow> (Inl a, t) | (Inr v, t) \<Rightarrow> (Inr (f v), t))"

definition PySession_add :: "(string \<Rightarrow> string) \<Rightarrow> ('st, 'tx) Env \<Rightarrow> (nat \<Rightarrow> Instant) \<Rightarrow> PyContextScope \<Rightarrow> ContextItem \<Rightarrow> ('st, ItemId) py_call" where
  "PySession_add dbg E clk sc it = PySession_write dbg (Session_add E clk (scope_into sc) it)"

definition PySession_add_batch :: "(string \<Rightarrow> string) \<Rightarrow> ('st, 'tx) Env \<Rightarrow> (nat \<Rightarrow> Instant) \<Rightarrow> PyContextScope \<Rightarrow> ContextItem list \<Rightarrow>
    ('st, ItemId list) py_call" where
  "PySession_add_batch dbg E clk sc items = PySession_write dbg (Session_add_batch E clk (scope_into sc) items)"

definition PySession_remove :: "(string \<Rightarrow> string) \<Rightarrow> ('st, 'tx) Env \<Rightarrow> PyContextScope \<Rightarrow> ItemId \<Rightarrow> ('st, bool) py_call" where
  "PySession_remove dbg E sc i = PySession_write dbg (Session_remove E (scope_into sc) i)"

definition PySession_query :: "(string \<Rightarrow> string) \<Rightarrow> ('st, 'tx) Env \<Rightarrow> (nat \<Rightarrow> Instant) \<Rightarrow> ContextQuery \<Rightarrow> ('st, ContextQueryResult) py_call" where
  "PySession_query dbg E clk q = PySession_read dbg (Session_query E clk q)"

definition PySession_reason :: "(string \<Rightarrow> string) \<Rightarrow> PyContextScope \<Rightarrow> ('st, PyReasoningStats) py_call" where
  "PySession_reason dbg sc =
     map_value (\<lambda>r. \<lparr>py_quads_added = reason_quads_added r\<rparr>)
       (PySession_write dbg (\<lambda>s. case Session_reason (scope_into sc) s of (r, s') \<Rightarrow> (map_err Err r, s')))"

definition not_marshaled :: "string \<Rightarrow> PyErr" where
  "not_marshaled msg = \<lparr>pe_class = PyNotImplementedError, pe_message = msg, pe_attrs = []\<rparr>"

definition PySession_validate :: "(string \<Rightarrow> string) \<Rightarrow> PyContextScope \<Rightarrow> PyContextScope \<Rightarrow> ('st, unit) py_call" where
  "PySession_validate dbg data shapes state =
     (case PySession_read dbg (reading (\<lambda>s. Session_validate s (scope_into data) (scope_into shapes))) state of
        (Inl a, t) \<Rightarrow> (Inl a, t)
      | (Inr _, t) \<Rightarrow> (Inl (Raise (not_marshaled ''SHACL validation reports are not marshaled to Python yet'')), t))"

definition PySession_evaluate_datalog :: "(string \<Rightarrow> string) \<Rightarrow> PyContextScope \<Rightarrow> ('st, unit) py_call" where
  "PySession_evaluate_datalog dbg sc state =
     (case PySession_read dbg (reading (\<lambda>s. Session_evaluate_datalog s DatalogProgram_new (scope_into sc))) state of
        (Inl a, t) \<Rightarrow> (Inl a, t)
      | (Inr _, t) \<Rightarrow> (Inl (Raise (not_marshaled ''Datalog programs and results are not marshaled to Python yet'')), t))"

definition PySession_promote :: "(string \<Rightarrow> string) \<Rightarrow> ('st, 'tx) Env \<Rightarrow> (nat \<Rightarrow> Instant) \<Rightarrow> ItemId list \<Rightarrow> PyContextScope \<Rightarrow>
    PyContextScope \<Rightarrow> ('st, PyPromotionStats) py_call" where
  "PySession_promote dbg E clk ids from to =
     map_value (\<lambda>p. \<lparr>py_promoted = promoted p\<rparr>)
       (PySession_write dbg (Session_promote E clk ids (scope_into from) (scope_into to)))"

definition PySession_evict :: "(string \<Rightarrow> string) \<Rightarrow> ('st, 'tx) Env \<Rightarrow> (nat \<Rightarrow> Instant) \<Rightarrow> PyContextScope \<Rightarrow> EvictionCriteria \<Rightarrow>
    ('st, nat) py_call" where
  "PySession_evict dbg E clk sc criteria = PySession_write dbg (Session_evict E clk (scope_into sc) criteria)"

definition PySession_snapshot :: "(string \<Rightarrow> string) \<Rightarrow> ('st, 'tx) Env \<Rightarrow> PyContextScope \<Rightarrow> ('st, ContextSnapshot) py_call" where
  "PySession_snapshot dbg E sc = PySession_read dbg (reading (\<lambda>s. Session_snapshot E s (scope_into sc)))"

definition PySession_scope_of :: "(string \<Rightarrow> string) \<Rightarrow> ItemId \<Rightarrow> ('st, PyContextScope option) py_call" where
  "PySession_scope_of dbg i = PySession_read dbg (reading (\<lambda>s. Inr (map_option PyContextScope_from (Session_scope_of s i))))"

definition PySession_item_count :: "(string \<Rightarrow> string) \<Rightarrow> PyContextScope \<Rightarrow> ('st, nat) py_call" where
  "PySession_item_count dbg sc = PySession_read dbg (reading (\<lambda>s. Inr (Session_item_count s (scope_into sc))))"

fun PySession_repr :: "'st PyState \<Rightarrow> string" where
  "PySession_repr state = (if PySession_closed state then ''<Session closed>'' else ''<Session open>'')"

section \<open>Calls in sequence\<close>

datatype PyOp =
    CallNative SessionOp
  | CallReason PyContextScope
  | CallValidate PyContextScope PyContextScope
  | CallDatalog PyContextScope
  | CallSnapshot PyContextScope
  | CallScopeOf ItemId
  | CallItemCount PyContextScope
  | CallClose
  | CallExit

datatype PyRes =
    PyOpRes OpResult | PyReasoned PyReasoningStats | PyNat nat | PyNone | PySnapshot ContextSnapshot | PyScope "PyContextScope option"
  | PyStats PySessionStats | PyBool bool

fun run_native :: "(string \<Rightarrow> string) \<Rightarrow> ('st, 'tx) Env \<Rightarrow> (nat \<Rightarrow> Instant) \<Rightarrow> SessionOp \<Rightarrow> ('st, OpResult) py_call" where
  "run_native dbg E clk (OpAdd sc it) = map_value ResId (PySession_add dbg E clk (PyContextScope_from sc) it)"
| "run_native dbg E clk (OpAddBatch sc items) = map_value ResIds (PySession_add_batch dbg E clk (PyContextScope_from sc) items)"
| "run_native dbg E clk (OpRemove sc i) = map_value ResRemoved (PySession_remove dbg E (PyContextScope_from sc) i)"
| "run_native dbg E clk (OpQuery q) = map_value ResQuery (PySession_query dbg E clk q)"
| "run_native dbg E clk (OpPromote ids from to) = 
     map_value (\<lambda>p. ResPromoted \<lparr>promoted = py_promoted p\<rparr>) (PySession_promote dbg E clk ids (PyContextScope_from from) (PyContextScope_from to))"
| "run_native dbg E clk (OpEvict sc crit) = map_value ResEvicted (PySession_evict dbg E clk (PyContextScope_from sc) crit)"

fun run_py :: "(string \<Rightarrow> string) \<Rightarrow> ('st, 'tx) Env \<Rightarrow> (nat \<Rightarrow> Instant) \<Rightarrow> PyOp \<Rightarrow> ('st, PyRes) py_call" where
  "run_py dbg E clk (CallNative oper) = map_value PyOpRes (run_native dbg E clk oper)"
| "run_py dbg E clk (CallReason sc) = map_value PyReasoned (PySession_reason dbg sc)"
| "run_py dbg E clk (CallValidate data shapes) = map_value (\<lambda>_. PyNone) (PySession_validate dbg data shapes)"
| "run_py dbg E clk (CallDatalog sc) = map_value (\<lambda>_. PyNone) (PySession_evaluate_datalog dbg sc)"
| "run_py dbg E clk (CallSnapshot sc) = map_value PySnapshot (PySession_snapshot dbg E sc)"
| "run_py dbg E clk (CallScopeOf i) = map_value PyScope (PySession_scope_of dbg i)"
| "run_py dbg E clk (CallItemCount sc) = map_value PyNat (PySession_item_count dbg sc)"
| "run_py dbg E clk CallClose = map_value PyStats (PySession_close dbg)"
| "run_py dbg E clk CallExit = map_value PyBool (PySession_exit dbg)"

fun py_room :: "'st PyState \<Rightarrow> PyOp \<Rightarrow> bool" where
  "py_room (PyOpen s) (CallNative oper) = id_room (s_next_id s) oper"
| "py_room _ _ = True"

fun py_items :: "PyOp \<Rightarrow> ContextItem list" where
  "py_items (CallNative oper) = op_items oper"
| "py_items _ = []"

inductive py_run :: "(string \<Rightarrow> string) \<Rightarrow> ('st, 'tx) Env \<Rightarrow> (Quad \<Rightarrow> bool) \<Rightarrow> 'st PyState \<Rightarrow> 'st PyState \<Rightarrow> bool"
  for dbg E accepts where
  py_refl: "py_run dbg E accepts s s"
| py_step: "py_run dbg E accepts s t \<Longrightarrow> py_room t oper \<Longrightarrow>
    \<forall>it\<in>set (py_items oper). acceptable accepts (env_json E) it \<Longrightarrow>
    run_py dbg E clk oper t = (r, u) \<Longrightarrow> py_run dbg E accepts s u"

lemmas py_call_defs = PySession_write_def PySession_read_def map_value_def reading_def

lemma run_native_open:
  "run_native dbg E clk oper (PyOpen s) =
     (case run_op E clk oper s of (r, t) \<Rightarrow> (map_err (raise_abort dbg) r, PyOpen t))"
  by (cases oper) (auto simp: PySession_add_def PySession_add_batch_def PySession_remove_def PySession_query_def
    PySession_promote_def PySession_evict_def py_call_defs map_res_def try_bind_def split: prod.splits sum.splits)

lemma run_py_closed:
  "run_py dbg E clk oper (PyClosed stats) =
     (case oper of
        CallClose \<Rightarrow> (Inr (PyStats (PySessionStats_from stats)), PyClosed stats)
      | CallExit \<Rightarrow> (Inr (PyBool False), PyClosed stats)
      | _ \<Rightarrow> (Inl (Raise closed_err), PyClosed stats))"
proof (cases oper)
  case (CallNative x)
  then show ?thesis
    by (cases x) (simp_all add: PySession_add_def PySession_add_batch_def PySession_remove_def PySession_query_def
      PySession_promote_def PySession_evict_def py_call_defs)
qed (simp_all add: PySession_reason_def PySession_validate_def PySession_evaluate_datalog_def PySession_snapshot_def
  PySession_scope_of_def PySession_item_count_def PySession_close_def PySession_exit_def py_call_defs)

lemma run_py_open:
  assumes "run_py dbg E clk oper (PyOpen s) = (r, u)"
  shows "(\<exists>x t. oper = CallNative x \<and> u = PyOpen t \<and> t = snd (run_op E clk x s)) \<or> u = PyOpen s \<or> u = PyClosed (s_stats s)"
  using assms
proof (cases oper)
  case (CallNative x)
  then show ?thesis using assms
    by (auto simp: map_value_def run_native_open split: prod.splits sum.splits)
qed (auto simp: PySession_reason_def PySession_validate_def PySession_evaluate_datalog_def PySession_snapshot_def
  PySession_scope_of_def PySession_item_count_def PySession_close_def PySession_exit_def py_call_defs
  Session_reason_def Session_close_def split: prod.splits sum.splits)

lemma closed_final: "py_run dbg E accepts (PyClosed stats) v \<Longrightarrow> v = PyClosed stats"
proof (induction "PyClosed stats :: 'a PyState" v rule: py_run.induct)
  case (py_step t oper clk r u)
  then show ?case by (auto simp: run_py_closed split: PyOp.splits)
qed simp

lemma py_run_native:
  assumes "py_run dbg E accepts (PyOpen s) u"
  shows "case u of PyOpen t \<Rightarrow> session_run E accepts s t
    | PyClosed stats \<Rightarrow> \<exists>t. session_run E accepts s t \<and> stats = s_stats t"
  using assms
proof (induction "PyOpen s" u rule: py_run.induct)
  case py_refl
  then show ?case by (simp add: session_run.refl)
next
  case (py_step t oper clk r u)
  show ?case
  proof (cases t)
    case (PyClosed stats)
    then have "u = t" using py_step.hyps(5) by (auto simp: run_py_closed split: PyOp.splits)
    then show ?thesis using py_step.hyps(2) by simp
  next
    case (PyOpen v)
    have v: "session_run E accepts s v" using py_step.hyps(2) PyOpen by simp
    from run_py_open [OF py_step.hyps(5) [unfolded PyOpen]]
    consider x w where "oper = CallNative x" "u = PyOpen w" "w = snd (run_op E clk x v)"
      | "u = PyOpen v" | "u = PyClosed (s_stats v)" by blast
    then show ?thesis
    proof cases
      case 1
      then have "id_room (s_next_id v) x" "\<forall>it\<in>set (op_items x). acceptable accepts (env_json E) it"
        using py_step.hyps(3,4) PyOpen by simp_all
      then have "session_step E accepts v w"
        using 1(3) by (intro session_step.intros [where oper = x and r = "fst (run_op E clk x v)"]) simp_all
      with v 1(2) show ?thesis by (simp add: session_run.trans)
    qed (use v in auto)
  qed
qed

section \<open>What a program sees\<close>










end
