(* ===== verification/Py_Restart.thy ===== *)
theory Py_Restart
  imports Session_Reopen Py_Session
begin

text \<open>
  The parts put together: Python programs that open a session on a path, work with it, and end,
  one after the other, over the Oxigraph adapter. Each life of the session may end at any
  moment, closed or not, with any storage errors before. What it leaves on disk is the content
  of its enduring store.
\<close>

section \<open>What a session leaves behind\<close>

text \<open>
  Quads that a session has written: every metadata record belongs to an item id and reads back,
  and an id has either no quads or all quads of one storable item.
\<close>

definition clean :: "JsonOps \<Rightarrow> Quad set \<Rightarrow> bool" where
  "clean J Q \<longleftrightarrow> (\<forall>q\<in>Q. is_record q \<longrightarrow> \<not> unowned q \<and> json_readable J q)
     \<and> (\<forall>i<2 ^ 64. {q \<in> Q. owned i q} = {}
          \<or> Suc i < 2 ^ 64 \<and> (\<exists>it. storable it \<and> {q \<in> Q. owned i q} = set (encode J i it)))"

lemma clean_empty: "clean J {}"
  by (simp add: clean_def)

lemma triple_readable: "\<not> is_record q \<Longrightarrow> json_readable J q"
  by (auto simp: json_readable_def is_record_def)

lemma clean_readable: "clean J Q \<Longrightarrow> q \<in> Q \<Longrightarrow> json_readable J q"
  using triple_readable unfolding clean_def by blast

lemma clean_stored:
  assumes "clean J Q"
  obtains M where "stored J Q M" "\<And>i. i < 2 ^ 64 \<Longrightarrow> M i = None \<Longrightarrow> {q \<in> Q. owned i q} = {}"
    "\<And>i it. M i = Some it \<Longrightarrow> Suc i < 2 ^ 64"
proof -
  let ?of = "\<lambda>i it. storable it \<and> {q \<in> Q. owned i q} = set (encode J i it)"
  define M where "M i = (if i < 2 ^ 64 \<and> {q \<in> Q. owned i q} \<noteq> {} then Some (SOME it. ?of i it) else None)" for i
  have M: "i < 2 ^ 64 \<and> Suc i < 2 ^ 64 \<and> ?of i it" if "M i = Some it" for i it
  proof -
    have i: "i < 2 ^ 64" "{q \<in> Q. owned i q} \<noteq> {}" and it: "it = (SOME it. ?of i it)"
      using that by (auto simp: M_def split: if_splits)
    then have "Suc i < 2 ^ 64" "\<exists>it. ?of i it" using assms by (auto simp: clean_def)
    with i it show ?thesis using someI_ex [of "?of i"] by blast
  qed
  have reads: "reads_back J it" if "M i = Some it" for i it
  proof -
    have "meta_quad J i it \<in> Q" using M [OF that] by (auto simp: set_encode)
    from meta_quad_readable [OF clean_readable [OF assms this]] show ?thesis .
  qed
  have "stored J Q M"
    unfolding stored_def
  proof (intro conjI ballI allI impI)
    fix q assume q: "q \<in> Q" "is_record q"
    then obtain i where i: "i < 2 ^ 64" "owned i q" using assms by (auto simp: clean_def unowned_def)
    with q have "M i \<noteq> None" by (auto simp: M_def)
    then obtain it where it: "M i = Some it" by blast
    then have "q \<in> set (encode J i it)" using M q(1) i(2) by blast
    with it record_in_encode [OF _ q(2)] show "\<exists>i it. M i = Some it \<and> q = meta_quad J i it" by blast
  qed (use M reads in auto)
  moreover have "{q \<in> Q. owned i q} = {}" if "i < 2 ^ 64" "M i = None" for i using that by (auto simp: M_def split: if_splits)
  ultimately show ?thesis using that M by blast
qed

lemma covered_clean:
  assumes "covered quads_of st_ok (json_readable J) J s" "no_foreign_records quads_of s"
  shows "clean J (quads_of (Tiers_get (s_stores s) sc))"
proof -
  have inv: "session_inv False quads_of st_ok (json_readable J) J s" using assms(1) by (simp add: covered_def)
  have N: "s_next_id s < 2 ^ 64" using session_wfD(2) [OF inv] by (simp add: index_wf_def index_of_def)
  have "part quads_of s sc i = {} \<or> Suc i < 2 ^ 64 \<and> (\<exists>it. storable it \<and> part quads_of s sc i = set (encode J i it))"
    if "i < 2 ^ 64" for i
  proof (cases "bt_get (s_items s) i")
    case None
    then show ?thesis using part_invD [OF session_wfD(5) [OF inv] that, of sc] N by (auto simp: part_ok_def)
  next
    case (Some e)
    then show ?thesis using part_invD [OF session_wfD(5) [OF inv] that, of sc] session_wfD(3) [OF inv Some] N
      by (fastforce simp: part_ok_def)
  qed
  moreover have own: "\<not> unowned q" if "q \<in> quads_of (Tiers_get (s_stores s) sc)" "is_record q" for q
    using assms(2) that by (auto simp: no_foreign_records_def foreign_def)
  moreover have "json_readable J q" if q: "q \<in> quads_of (Tiers_get (s_stores s) sc)" "is_record q" for q
  proof -
    obtain i where i: "i < 2 ^ 64" "q \<in> part quads_of s sc i" using own [OF q] q(1) by (auto simp: unowned_def part_def)
    then show ?thesis
    proof (cases "bt_get (s_items s) i")
      case None
      then show ?thesis using part_invD [OF session_wfD(5) [OF inv] i(1), of sc] i(2) by (auto simp: part_ok_def)
    next
      case (Some e)
      then show ?thesis using part_invD [OF session_wfD(5) [OF inv] i(1), of sc] i(2) session_wfD(4) [OF inv Some]
        by (auto simp: part_ok_def)
    qed
  qed
  ultimately show ?thesis by (simp add: clean_def part_def)
qed

text \<open>The quads of an item determine it, up to the order and repetition of its triples.\<close>

lemma encode_same_item:
  assumes reads: "reads_back J a" "reads_back J b" and "storable a" "storable b" and eq: "set (encode J i a) = set (encode J i b)"
  shows "same_item a b"
proof -
  have rec: "is_record (meta_quad J i it)" for it by (simp add: is_record_def)
  have "meta_quad J i a \<in> set (encode J i b)" using eq by (auto simp: set_encode)
  then have meta: "meta_quad J i a = meta_quad J i b" by (rule record_in_encode) (rule rec)
  have not_in: "meta_quad J i c \<notin> in_graph (item_graph i) ` S" for c S
    by (auto dest: arg_cong [of _ _ q_graph])
  have "in_graph (item_graph i) ` set (triples_of a) = in_graph (item_graph i) ` set (triples_of b)"
    using eq meta insert_ident [OF not_in not_in] by (simp add: set_encode)
  moreover have "json_to_string J (record_of a) = json_to_string J (record_of b)"
    using arg_cong [OF meta, of "\<lambda>q. case q_object q of TLiteral l \<Rightarrow> lit_value l"] by simp
  ultimately obtain it where "same_item it a" "same_item it b"
    using decode_encoded [OF reads(1) assms(3), of "map (in_graph (item_graph i)) (triples_of a)" i]
      decode_encoded [OF reads(2) assms(4), of "map (in_graph (item_graph i)) (triples_of a)" i] by auto
  then show ?thesis by (auto simp: same_item_def same_payload_def split: ContextPayload.splits)
qed

section \<open>Opening on what was left behind\<close>

lemma restored_enduring:
  assumes "restored (\<lambda>sc. if sc = Enduring then M else (\<lambda>_. None)) ContextScope_ALL [] items"
  shows "case M i of None \<Rightarrow> bt_get items i = None
    | Some it \<Rightarrow> \<exists>e. bt_get items i = Some e \<and> e_scope e = Enduring \<and> same_item (e_item e) it"
proof -
  have "first_copy (\<lambda>sc. if sc = Enduring then M else (\<lambda>_. None)) ContextScope_ALL i = (if M i = None then None else Some Enduring)"
    by (simp add: first_copy_def ContextScope_ALL_def)
  then show ?thesis
    using assms unfolding restored_def by (auto simp: bt_get_def split: option.splits dest!: spec [of _ i])
qed

text \<open>A session opened on the records of one store covers them.\<close>

lemma opened_covered:
  assumes M: "stored J Q M" "\<And>i. i < 2 ^ 64 \<Longrightarrow> M i = None \<Longrightarrow> {q \<in> Q. owned i q} = {}"
      "\<And>i it. M i = Some it \<Longrightarrow> Suc i < 2 ^ 64"
    and readable: "\<And>q. q \<in> Q \<Longrightarrow> json_readable J q"
    and st: "\<And>sc. st_ok (Tiers_get (s_stores t) sc)"
      "\<And>sc. quads_of (Tiers_get (s_stores t) sc) = (if sc = Enduring then Q else {})"
    and t: "bt_wf (s_items t)" "s_next_id t = first_free_id (s_items t)"
    and get: "\<And>i. case M i of None \<Rightarrow> bt_get (s_items t) i = None
      | Some it \<Rightarrow> \<exists>e. bt_get (s_items t) i = Some e \<and> e_scope e = Enduring \<and> same_item (e_item e) it"
  shows "covered quads_of st_ok (json_readable J) J t"
proof -
  have live: "\<exists>it. M i = Some it \<and> e_scope e = Enduring \<and> same_item (e_item e) it" if "bt_get (s_items t) i = Some e" for i e
    using get [of i] that by (cases "M i") auto
  have M': "i < 2 ^ 64 \<and> storable it \<and> {q \<in> Q. owned i q} = set (encode J i it)" if "M i = Some it" for i it
    using M(1) that by (auto simp: stored_def)
  have keys: "\<forall>i\<in>fst ` set (s_items t). i < 2 ^ 64 - 1"
    using live M(3) t(1) by (fastforce simp: bt_get_iff [symmetric])
  from first_free_id_bound [OF t(1) keys] t(2)
  have next_id: "s_next_id t < 2 ^ 64" "\<forall>i\<in>fst ` set (s_items t). i < s_next_id t" by auto
  have storable: "storable (e_item e)" if "bt_get (s_items t) i = Some e" for i e
    using live [OF that] M' same_item_storable by blast
  then have wf: "index_wf (index_of t)"
    using t(1) next_id by (fastforce simp: index_wf_def index_of_def bt_get_iff)
  have parts: "part quads_of t sc i = (if sc = Enduring then {q \<in> Q. owned i q} else {})" for sc i
    by (simp add: part_def st(2))
  have "part_ok False (json_readable J) J (s_next_id t) i (bt_get (s_items t) i) sc (part quads_of t sc i)" if i: "i < 2 ^ 64" for i sc
  proof (cases "M i")
    case None
    then show ?thesis using get [of i] M(2) [OF i None] by (simp add: part_ok_def parts)
  next
    case (Some it)
    then obtain e where e: "bt_get (s_items t) i = Some e" "e_scope e = Enduring" "same_item (e_item e) it" using get [of i] by auto
    have "set (encode J i (e_item e)) = set (encode J i it)" by (rule same_item_encode [OF e(3)])
    with e M' [OF Some] show ?thesis by (auto simp: part_ok_def parts)
  qed
  moreover have "json_readable J q" if e: "bt_get (s_items t) i = Some e" and q: "q \<in> set (encode J i (e_item e))" for i e q
  proof -
    obtain it where "M i = Some it" "same_item (e_item e) it" using live [OF e] by blast
    then have "q \<in> Q" using M' [of i it] same_item_encode [of "e_item e" it J i] q by blast
    then show ?thesis by (rule readable)
  qed
  ultimately show ?thesis using st(1) wf by (simp add: covered_def session_inv_def session_wf_def part_inv_def)
qed

lemma open_on_clean:
  assumes contract: "storage_contract (env_storage E) quads_of view st_ok tx_ok writable"
    and stores: "cfg_storage cfg = PerScope en ma mi" "st_ok en" "st_ok ma" "st_ok mi"
    and pers: "persistent (capabilities (env_storage E) en)"
    and quads: "clean (env_json E) (quads_of en)" "quads_of ma = {}" "quads_of mi = {}"
  shows "case Session_open E clk cfg of Inl e \<Rightarrow> \<exists>x. e = StorageFailed x
    | Inr t \<Rightarrow> covered quads_of st_ok (json_readable (env_json E)) (env_json E) t \<and> no_foreign_records quads_of t
        \<and> (\<forall>i it. i < 2 ^ 64 \<longrightarrow> storable it \<longrightarrow> {q \<in> quads_of en. owned i q} = set (encode (env_json E) i it) \<longrightarrow>
             (\<exists>e. bt_get (s_items t) i = Some e \<and> e_scope e = Enduring
                \<and> set (encode (env_json E) i (e_item e)) = set (encode (env_json E) i it)))"
proof -
  let ?J = "env_json E"
  obtain M0 where M0: "stored ?J (quads_of en) M0" "\<And>i. i < 2 ^ 64 \<Longrightarrow> M0 i = None \<Longrightarrow> {q \<in> quads_of en. owned i q} = {}"
    "\<And>i it. M0 i = Some it \<Longrightarrow> Suc i < 2 ^ 64" using clean_stored [OF quads(1)] by blast
  let ?M = "\<lambda>sc. if sc = Enduring then M0 else (\<lambda>_. None)"
  let ?s = "undefined\<lparr>s_stores := \<lparr>t_enduring = en, t_major = ma, t_minor = mi\<rparr>\<rparr> :: 'a Session"
  have s: "stores_of cfg = s_stores ?s" by (simp add: stores_of_def stores(1))
  have empty: "stored ?J {} (\<lambda>_. None)" by (simp add: stored_def)
  have content: "quads_of (Tiers_get (s_stores ?s) sc) = (if sc = Enduring then quads_of en else {})" for sc
    using quads by (cases sc) simp_all
  have ok: "\<forall>sc. st_ok (Tiers_get (s_stores ?s) sc) \<and> stored ?J (quads_of (Tiers_get (s_stores ?s) sc)) (?M sc)"
  proof
    fix sc show "st_ok (Tiers_get (s_stores ?s) sc) \<and> stored ?J (quads_of (Tiers_get (s_stores ?s) sc)) (?M sc)"
      using stores M0(1) quads empty by (cases sc) simp_all
  qed
  have pers': "persistent (capabilities (env_storage E) (Tiers_get (s_stores ?s) Enduring))" using pers by simp
  note rule = session_env.open_rule [OF contract_session_env [OF contract] s pers' ok, of clk]
  show ?thesis
  proof (cases "Session_open E clk cfg")
    case (Inr t)
    have t: "\<And>sc. st_ok (Tiers_get (s_stores t) sc)"
      "\<And>sc. quads_of (Tiers_get (s_stores t) sc) = (if sc = Enduring then quads_of en else {})"
      "bt_wf (s_items t)" "restored ?M ContextScope_ALL [] (s_items t)" "s_next_id t = first_free_id (s_items t)"
      using rule Inr content by auto
    note get = restored_enduring [OF t(4)]
    have cov: "covered quads_of st_ok (json_readable ?J) ?J t" by (rule opened_covered [where M = M0 and Q = "quads_of en"]) (fact M0 t get clean_readable [OF quads(1)])+
    have "\<not> is_record q" if "q \<in> foreign quads_of t sc" for q sc
      using that quads(1) by (auto simp: foreign_def clean_def t(2) split: if_splits)
    then have none: "no_foreign_records quads_of t" by (simp add: no_foreign_records_def)
    have found: "\<exists>e. bt_get (s_items t) i = Some e \<and> e_scope e = Enduring \<and> set (encode ?J i (e_item e)) = set (encode ?J i it)"
      if "i < 2 ^ 64" "{q \<in> quads_of en. owned i q} = set (encode ?J i it)" for i it
    proof -
      have "M0 i \<noteq> None" using M0(2) [OF that(1)] that(2) by (auto simp: set_encode)
      then obtain it' where it': "M0 i = Some it'" by blast
      then have "{q \<in> quads_of en. owned i q} = set (encode ?J i it')" using M0(1) by (simp add: stored_def)
      moreover obtain e where "bt_get (s_items t) i = Some e" "e_scope e = Enduring" "same_item (e_item e) it'"
        using get [of i] it' by auto
      ultimately show ?thesis using that(2) same_item_encode [of "e_item e" it' ?J i] by auto
    qed
    with cov none show ?thesis by (simp add: Inr)
  qed (use rule in simp)
qed

section \<open>Lives of a session\<close>

text \<open>
  The crate at a moment when the directory of every session holds the quads \<open>C\<close>: whatever
  \<open>Store::open\<close> returns has this content.
\<close>

definition opens_on :: "('s \<Rightarrow> OxQuad set) \<Rightarrow> OxQuad set \<Rightarrow> (string \<Rightarrow> OxError + 's) \<Rightarrow> bool" where
  "opens_on content C opened \<longleftrightarrow> (\<forall>path s. opened path = Inr s \<longrightarrow> content s = C)"

definition left_on_disk :: "('s \<Rightarrow> OxQuad set) \<Rightarrow> 's OxigraphStore Session \<Rightarrow> OxQuad set" where
  "left_on_disk content s = content (og_inner (t_enduring (s_stores s)))"

text \<open>
  What the directory can hold: nothing at first, then what the enduring store holds at any
  moment of a life of a Python session that was opened on it and given items that the JSON
  crate reads back.
\<close>

inductive on_disk :: "(string \<Rightarrow> string) \<Rightarrow> ('s, 't) OxStore \<Rightarrow> ('s \<Rightarrow> OxQuad set) \<Rightarrow> ('s OxigraphStore, 'tx) Env \<Rightarrow>
    OxQuad set \<Rightarrow> bool" for dbg X content E where
  disk_new: "on_disk dbg X content E {}"
| disk_life: "on_disk dbg X content E C \<Longrightarrow> opens_on content C opened \<Longrightarrow>
    PySession_open dbg (X\<lparr>ox_open := opened\<rparr>) E clk h cfg = Inr u \<Longrightarrow> py_run dbg E (json_readable (env_json E)) u (PyOpen t) \<Longrightarrow>
    on_disk dbg X content E (left_on_disk content t)"

lemma PySession_open_native:
  assumes "PySession_open dbg X E clk h cfg = r"
    and "PySessionConfig_to_native X h cfg = Inr c"
  shows "r = (case Session_open E clk c of Inl e \<Rightarrow> Inl (Raise (to_py_err dbg e)) | Inr s \<Rightarrow> Inr (PyOpen s))"
  using assms by (simp add: PySession_open_def)

lemma to_native_stores:
  assumes "opens_on content C opened" "\<forall>s. ox_new X = Inr s \<longrightarrow> content s = {}"
  shows "case PySessionConfig_to_native (X\<lparr>ox_open := opened\<rparr>) h cfg of Inl e \<Rightarrow> \<exists>x. e = StorageFailed x
    | Inr c \<Rightarrow> \<exists>en ma mi. cfg_storage c = PerScope en ma mi \<and> og_kind en = OnDisk
        \<and> content (og_inner en) = C \<and> content (og_inner ma) = {} \<and> content (og_inner mi) = {}"
  using assms
  by (auto simp: PySessionConfig_to_native_def SessionConfig_oxigraph_def SessionConfig_new_def OxigraphStore_open_def
    OxigraphStore_in_memory_def opens_on_def split: sum.splits)

text \<open>One life: from a clean directory to a clean directory, with the items that it restores.\<close>

lemma py_open_on_clean:
  assumes ox: "ox_assumed P back X content seen live" "\<forall>s. ox_new X = Inr s \<longrightarrow> content s = {}"
    and E: "env_storage E = OxigraphStore_storage P X"
    and disk: "opens_on content C opened" "written P C" "clean (env_json E) (core_quads P C)"
  shows "case PySession_open dbg (X\<lparr>ox_open := opened\<rparr>) E clk h cfg of
      Inl a \<Rightarrow> \<exists>x. a = Raise (to_py_err dbg (StorageFailed x))
    | Inr u \<Rightarrow> \<exists>s. u = PyOpen s \<and> covered (ox_quads P content) (ox_st_ok P content) (json_readable (env_json E)) (env_json E) s
        \<and> no_foreign_records (ox_quads P content) s
        \<and> (\<forall>i it. i < 2 ^ 64 \<longrightarrow> storable it \<longrightarrow> {q \<in> core_quads P C. owned i q} = set (encode (env_json E) i it) \<longrightarrow>
             (\<exists>e. bt_get (s_items s) i = Some e \<and> e_scope e = Enduring
                \<and> set (encode (env_json E) i (e_item e)) = set (encode (env_json E) i it)))"
proof (cases "PySessionConfig_to_native (X\<lparr>ox_open := opened\<rparr>) h cfg")
  case (Inl e)
  then show ?thesis using to_native_stores [OF disk(1) ox(2), of h cfg] by (auto simp: PySession_open_def)
next
  case (Inr c)
  then obtain en ma mi where c: "cfg_storage c = PerScope en ma mi" "og_kind en = OnDisk"
    "content (og_inner en) = C" "content (og_inner ma) = {}" "content (og_inner mi) = {}"
    using to_native_stores [OF disk(1) ox(2), of h cfg] by auto
  have empty: "written P {}" "core_quads P {} = {}" by (simp_all add: written_def core_quads_def)
  note contract = ox_contract [OF ox(1), folded E]
  have pers: "persistent (capabilities (env_storage E) en)"
    using c(2) by (simp add: E OxigraphStore_storage_def OxigraphStore_capabilities_def)
  note opened = open_on_clean [OF contract c(1) _ _ _ pers, of clk]
  show ?thesis
  proof (cases "Session_open E clk c")
    case Left: (Inl e)
    then show ?thesis using Inr opened disk(2,3) c empty by (auto simp: PySession_open_def ox_spec_defs)
  next
    case Right: (Inr s)
    then show ?thesis using Inr opened disk(2,3) c empty by (simp add: PySession_open_def ox_spec_defs)
  qed
qed

lemma covered_live:
  assumes "covered quads_of st_ok accepts J s" "bt_get (s_items s) i = Some e"
  shows "i < 2 ^ 64 \<and> storable (e_item e)"
proof -
  have "session_inv False quads_of st_ok accepts J s" using assms(1) by (simp add: covered_def)
  from session_wfD(3) [OF this assms(2)] show ?thesis by blast
qed

lemma covered_reads:
  "covered quads_of st_ok (json_readable J) J s \<Longrightarrow> \<forall>i e. bt_get (s_items s) i = Some e \<longrightarrow> reads_back J (e_item e)"
  unfolding covered_def by (rule readable_live)

text \<open>What a life leaves on disk is clean, and is what the items of its enduring scope are stored as.\<close>

lemma py_life_leaves:
  assumes ox: "ox_assumed P back X content seen live" and E: "env_storage E = OxigraphStore_storage P X"
    and s: "covered (ox_quads P content) (ox_st_ok P content) (json_readable (env_json E)) (env_json E) s"
      "no_foreign_records (ox_quads P content) s"
    and run: "py_run dbg E (json_readable (env_json E)) (PyOpen s) (PyOpen t)"
  shows "covered (ox_quads P content) (ox_st_ok P content) (json_readable (env_json E)) (env_json E) t"
    and "written P (left_on_disk content t) \<and> clean (env_json E) (core_quads P (left_on_disk content t))"
proof -
  have "session_run E (json_readable (env_json E)) s t" using py_run_native [OF run] by simp
  from run_covered [OF ox_contract [OF ox, folded E] this s(1)]
  have t: "covered (ox_quads P content) (ox_st_ok P content) (json_readable (env_json E)) (env_json E) t"
    and "session_rel (ox_quads P content) s t" by simp_all
  then have "no_foreign_records (ox_quads P content) t" using s(2) by (simp add: no_foreign_records_def session_rel_def)
  with t have "clean (env_json E) (ox_quads P content (Tiers_get (s_stores t) Enduring))" by (rule covered_clean)
  moreover have "ox_st_ok P content (Tiers_get (s_stores t) Enduring)"
    using t unfolding covered_def session_inv_def session_wf_def by blast
  ultimately show "written P (left_on_disk content t) \<and> clean (env_json E) (core_quads P (left_on_disk content t))"
    by (simp add: left_on_disk_def ox_spec_defs)
  show "covered (ox_quads P content) (ox_st_ok P content) (json_readable (env_json E)) (env_json E) t" by (rule t)
qed

lemma on_disk_clean:
  assumes "on_disk dbg X content E C"
    and ox: "ox_assumed P back X content seen live" "\<forall>s. ox_new X = Inr s \<longrightarrow> content s = {}"
    and E: "env_storage E = OxigraphStore_storage P X"
  shows "written P C \<and> clean (env_json E) (core_quads P C)"
  using assms(1)
proof (induction rule: on_disk.induct)
  case disk_new
  then show ?case by (simp add: written_def core_quads_def clean_empty)
next
  case (disk_life C opened clk h cfg u t)
  then obtain s where "u = PyOpen s" "covered (ox_quads P content) (ox_st_ok P content) (json_readable (env_json E)) (env_json E) s"
    "no_foreign_records (ox_quads P content) s"
    using py_open_on_clean [OF ox E, of C opened dbg clk h cfg] by auto
  with disk_life.hyps(4) py_life_leaves(2) [OF ox(1) E] show ?case by blast
qed

text \<open>
  C9. What a Python session keeps survives its process. Over the adapter, and in any life of a
  session directory however many lives it has had, a session may end at any moment, after any
  storage errors, closed or not. Opening the directory again raises at most the storage error
  of the opening itself; otherwise every item that was in the enduring scope is there, under
  its id, in that scope, with the same content up to the order and repetition of its triples.
  The items given to the sessions are ones whose metadata records the JSON crate reads back.
\<close>

theorem restart_keeps_enduring:
  assumes ox: "ox_assumed P back X content seen live" "\<forall>s. ox_new X = Inr s \<longrightarrow> content s = {}"
    and E: "env_storage E = OxigraphStore_storage P X"
    and life: "on_disk dbg X content E C" "opens_on content C opened"
      "PySession_open dbg (X\<lparr>ox_open := opened\<rparr>) E clk h cfg = Inr u" "py_run dbg E (json_readable (env_json E)) u (PyOpen t)"
    and again: "opens_on content (left_on_disk content t) opened'"
  shows "case PySession_open dbg (X\<lparr>ox_open := opened'\<rparr>) E clk' h' cfg' of
      Inl a \<Rightarrow> \<exists>x. a = Raise (to_py_err dbg (StorageFailed x))
    | Inr v \<Rightarrow> \<exists>t'. v = PyOpen t' \<and> (\<forall>i e. bt_get (s_items t) i = Some e \<longrightarrow> e_scope e = Enduring \<longrightarrow>
        (\<exists>e'. bt_get (s_items t') i = Some e' \<and> e_scope e' = Enduring \<and> same_item (e_item e') (e_item e)))"
proof -
  obtain s where u: "u = PyOpen s" and s: "covered (ox_quads P content) (ox_st_ok P content) (json_readable (env_json E)) (env_json E) s"
    "no_foreign_records (ox_quads P content) s"
    using on_disk_clean [OF life(1) ox E] py_open_on_clean [OF ox E life(2), of dbg clk h cfg] life(3) by auto
  note left = py_life_leaves [OF ox(1) E s life(4) [unfolded u]]
  note opened = py_open_on_clean [OF ox E again, of dbg clk' h' cfg']
  show ?thesis
  proof (cases "PySession_open dbg (X\<lparr>ox_open := opened'\<rparr>) E clk' h' cfg'")
    case (Inr v)
    then obtain t' where t': "v = PyOpen t'" "covered (ox_quads P content) (ox_st_ok P content) (json_readable (env_json E)) (env_json E) t'"
      and found: "\<And>i it. i < 2 ^ 64 \<Longrightarrow> storable it \<Longrightarrow>
          {q \<in> core_quads P (left_on_disk content t). owned i q} = set (encode (env_json E) i it) \<Longrightarrow>
          \<exists>e. bt_get (s_items t') i = Some e \<and> e_scope e = Enduring
            \<and> set (encode (env_json E) i (e_item e)) = set (encode (env_json E) i it)"
      using opened left(2) by auto
    have "\<exists>e'. bt_get (s_items t') i = Some e' \<and> e_scope e' = Enduring \<and> same_item (e_item e') (e_item e)"
      if e: "bt_get (s_items t) i = Some e" "e_scope e = Enduring" for i e
    proof -
      have live: "i < 2 ^ 64" "storable (e_item e)" using covered_live [OF left(1) e(1)] by simp_all
      obtain e' where e': "bt_get (s_items t') i = Some e'" "e_scope e' = Enduring"
        "set (encode (env_json E) i (e_item e')) = set (encode (env_json E) i (e_item e))"
        using found [OF live] covered_stored [OF left(1) e(1)] e(2) by (auto simp: left_on_disk_def ox_spec_defs)
      have "reads_back (env_json E) (e_item e')" "reads_back (env_json E) (e_item e)"
        using covered_reads [OF t'(2)] covered_reads [OF left(1)] e'(1) e(1) by blast+
      with encode_same_item [OF _ _ _ live(2) e'(3)] covered_live [OF t'(2) e'(1)] e' show ?thesis by blast
    qed
    then show ?thesis using Inr t'(1) by simp
  qed (use opened left(2) in auto)
qed

text \<open>A first life over the concrete crate: open an empty directory and add an item.\<close>

definition r_env :: "(OxQuad list OxigraphStore, OxQuad list TxInner) Env" where
  "r_env = \<lparr>env_storage = OxigraphStore_storage w_ox w_store, env_json = p_json, env_f64 = w_f64\<rparr>"

definition r_heap :: PyHeap where
  "r_heap = \<lparr>hp_bounds = (\<lambda>_. PyScopeBounds_default), hp_promotion = (\<lambda>_. PromotionConfig_default), hp_next = 0\<rparr>"

definition r_cfg :: PySessionConfig where
  "r_cfg = fst (PySessionConfig_oxigraph ''dir'' None None None None r_heap)"

definition r_open :: "OxQuad list \<Rightarrow> PyAbort + OxQuad list OxigraphStore PyState" where
  "r_open xs = PySession_open (\<lambda>t. t) (w_store\<lparr>ox_open := \<lambda>_. Inr xs\<rparr>) r_env (\<lambda>k. k) r_heap r_cfg"

definition r_fresh :: "OxQuad list OxigraphStore Session" where
  "r_fresh = (case r_open [] of Inr (PyOpen s) \<Rightarrow> s)"

lemmas eval_open = r_open_def PySession_open_def PySessionConfig_to_native_def SessionConfig_oxigraph_def OxigraphStore_open_def
  OxigraphStore_in_memory_def SessionConfig_new_def Session_open_def

lemma r_env_sel [simp]: "env_storage r_env = OxigraphStore_storage w_ox w_store" "env_json r_env = p_json" "env_f64 r_env = w_f64"
  by (simp_all add: r_env_def)

lemma r_load: "og_inner st = [] \<Longrightarrow> load (OxigraphStore_storage w_ox w_store) J st = (Inr [], st)"
  by (cases "og_kind st")
    (simp_all add: load_def OxigraphStore_storage_def OxigraphStore_begin_read_def w_store_def w_iter_def
      OxigraphTransaction_quads_for_pattern_def OxigraphTransaction_rollback_def collect_def split: sum.split)

lemma r_opens: "r_open [] = Inr (PyOpen r_fresh)"
  and r_fresh_sel: "s_items r_fresh = []" "s_next_id r_fresh = 0"
    "s_stores r_fresh = \<lparr>t_enduring = \<lparr>og_inner = [], og_kind = OnDisk\<rparr>,
       t_major = \<lparr>og_inner = [], og_kind = InMemory\<rparr>, t_minor = \<lparr>og_inner = [], og_kind = InMemory\<rparr>\<rparr>"
    "set_bounds (s_settings r_fresh) = \<lparr>enduring_max_items = None, major_max_items = None, minor_max_items = None\<rparr>"
  by (simp_all add: r_cfg_def r_heap_def PySessionConfig_oxigraph_def new_bounds_def new_promotion_def PyScopeBounds_default_def
    ScopeBounds_from_def r_fresh_def eval_open w_store_def [THEN arg_cong [of _ _ ox_new]] r_load ContextScope_ALL_def first_free_id_def
    OxigraphStore_storage_def [THEN arg_cong [of _ _ capabilities]] OxigraphStore_capabilities_def)

lemma r_insert:
  "(\<exists>x. quad_to_ox w_ox q = Inr x) \<Longrightarrow>
    \<exists>b t'. tx_insert (OxigraphStore_storage w_ox w_store) st q (TxWrite t) = (Inr b, TxWrite t')"
  by (auto simp: OxigraphStore_storage_def OxigraphTransaction_insert_def w_store_def w_has_def split: sum.splits)

lemma r_commit: "\<exists>st'. tx_commit (OxigraphStore_storage w_ox w_store) (TxWrite t) st = (Inr (), st')"
  by (simp add: OxigraphStore_storage_def w_store_def)

lemma r_quads: "q \<in> set (encode p_json 0 w_item) \<Longrightarrow> \<exists>x. quad_to_ox w_ox q = Inr x"
  by (auto simp: encode_def triples_of_def eval_item eval_ox meta_quad_def in_graph_def item_graph_def
    record_predicate_def meta_graph_def ITEM_PREFIX_def RECORD_def META_GRAPH_def)

lemma r_insert_each:
  assumes "\<forall>q\<in>set qs. \<exists>x. quad_to_ox w_ox q = Inr x"
  shows "\<exists>t'. insert_each (OxigraphStore_storage w_ox w_store) st qs (TxWrite t) = (Inr (), TxWrite t')"
  using assms
proof (induction qs arbitrary: t)
  case (Cons q qs)
  then obtain b t' where "tx_insert (OxigraphStore_storage w_ox w_store) st q (TxWrite t) = (Inr b, TxWrite t')"
    using r_insert [of q st t] by auto
  with Cons.IH [of t'] Cons.prems show ?case by simp
qed simp

lemma r_write:
  "og_kind st = OnDisk \<Longrightarrow>
    \<exists>st'. with_write (OxigraphStore_storage w_ox w_store) (\<lambda>st. write_batch r_env st [(0, w_item)]) st = (Inr (), st')"
proof -
  assume "og_kind st = OnDisk"
  then have "begin_write (OxigraphStore_storage w_ox w_store) st = Inr (TxWrite (og_inner st))"
    by (simp add: OxigraphStore_storage_def OxigraphStore_begin_write_def w_store_def)
  moreover obtain t' where "insert_each (OxigraphStore_storage w_ox w_store) st (encode p_json 0 w_item) (TxWrite (og_inner st))
      = (Inr (), TxWrite t')"
    using r_insert_each [of "encode p_json 0 w_item"] r_quads by blast
  ultimately show ?thesis using r_commit [of t' st] by (auto simp: with_write_def write_batch_def insert_all_def try_bind_def)
qed

definition r_one :: "OxQuad list OxigraphStore Session" where
  "r_one = snd (run_op r_env (\<lambda>k. k) (OpAdd Enduring w_item) r_fresh)"

lemma r_one_items: "s_items r_one = [(0, Entry_new w_item Enduring Added 0)]"
proof -
  obtain st' where "with_write (OxigraphStore_storage w_ox w_store) (\<lambda>st. write_batch r_env st [(0, w_item)])
      \<lparr>og_inner = [], og_kind = OnDisk\<rparr> = (Inr (), st')"
    using r_write [of "\<lparr>og_inner = [], og_kind = OnDisk\<rparr>"] by auto
  then show ?thesis
    by (simp add: r_one_def map_res_def Session_add_def Session_add_batch_def validate_def trim_is_empty_def ascii_space_def
      space2_def space3_def validate_graphs_def validate_embedding_def eval_item try_bind_def at_store_def r_fresh_sel add64_def Let_def
      enforce_bounds.simps enforce_scope_def)
qed

theorem restart_keeps_enduring_witness:
  "case r_open (og_inner (t_enduring (s_stores r_one))) of Inl a \<Rightarrow> \<exists>x. a = Raise (to_py_err (\<lambda>t. t) (StorageFailed x))
    | Inr v \<Rightarrow> \<exists>t' e'. v = PyOpen t' \<and> bt_get (s_items t') 0 = Some e' \<and> e_scope e' = Enduring \<and> same_item (e_item e') w_item"
proof -
  let ?opened = "\<lambda>xs (_ :: string). Inr xs :: OxError + OxQuad list"
  have ox: "ox_assumed w_ox w_back w_store set set (\<lambda>_ _. True)" "\<forall>s. ox_new w_store = Inr s \<longrightarrow> set s = {}"
    by (rule w_assumed) (simp add: w_store_def)
  have E: "env_storage r_env = OxigraphStore_storage w_ox w_store" by simp
  have first: "opens_on set {} (?opened [])" by (simp add: opens_on_def)
  have opened: "PySession_open (\<lambda>t. t) (w_store\<lparr>ox_open := ?opened []\<rparr>) r_env (\<lambda>k. k) r_heap r_cfg = Inr (PyOpen r_fresh)"
    using r_opens by (simp add: r_open_def)
  obtain r where r: "run_py (\<lambda>t. t) r_env (\<lambda>k. k) (CallNative (OpAdd Enduring w_item)) (PyOpen r_fresh) = (r, PyOpen r_one)"
    by (cases "run_op r_env (\<lambda>k. k) (OpAdd Enduring w_item) r_fresh"; cases "fst (run_op r_env (\<lambda>k. k) (OpAdd Enduring w_item) r_fresh)")
      (simp_all add: map_value_def run_native_open r_one_def del: run_op.simps run_native.simps)
  have room: "py_room (PyOpen r_fresh) (CallNative (OpAdd Enduring w_item))" by (simp add: id_room_def r_fresh_sel)
  have run: "py_run (\<lambda>t. t) r_env (json_readable (env_json r_env)) (PyOpen r_fresh) (PyOpen r_one)"
    by (rule py_step [OF py_refl room _ r]) (simp add: acceptable_def)
  have again: "opens_on set (left_on_disk set r_one) (?opened (og_inner (t_enduring (s_stores r_one))))"
    by (simp add: opens_on_def left_on_disk_def)
  have item: "bt_get (s_items r_one) 0 = Some (Entry_new w_item Enduring Added 0)" by (simp add: r_one_items bt_get_def)
  have kept: "case r_open (og_inner (t_enduring (s_stores r_one))) of
      Inl a \<Rightarrow> \<exists>x. a = Raise (to_py_err (\<lambda>t. t) (StorageFailed x))
    | Inr v \<Rightarrow> \<exists>t'. v = PyOpen t' \<and> (\<forall>i e. bt_get (s_items r_one) i = Some e \<longrightarrow> e_scope e = Enduring \<longrightarrow>
        (\<exists>e'. bt_get (s_items t') i = Some e' \<and> e_scope e' = Enduring \<and> same_item (e_item e') (e_item e)))"
    unfolding r_open_def by (rule restart_keeps_enduring [OF ox E disk_new first opened run again])
  show ?thesis
  proof (cases "r_open (og_inner (t_enduring (s_stores r_one)))")
    case (Inr v)
    then obtain t' where v: "v = PyOpen t'" and found: "\<forall>i e. bt_get (s_items r_one) i = Some e \<longrightarrow> e_scope e = Enduring \<longrightarrow>
        (\<exists>e'. bt_get (s_items t') i = Some e' \<and> e_scope e' = Enduring \<and> same_item (e_item e') (e_item e))"
      using kept by auto
    have "e_scope (Entry_new w_item Enduring Added 0) = Enduring" "e_item (Entry_new w_item Enduring Added 0) = w_item"
      by (simp_all add: Entry_new_def)
    with found item v have "\<exists>t' e'. v = PyOpen t' \<and> bt_get (s_items t') 0 = Some e' \<and> e_scope e' = Enduring \<and> same_item (e_item e') w_item"
      by metis
    then show ?thesis using Inr by auto
  qed (use kept in simp)
qed

end
