(* ===== verification/Left_Over.thy ===== *)
theory Left_Over
  imports Py_Restart
begin

text \<open>
  What becomes of the copy a failed move leaves behind. A move writes the item into its new
  scope and deletes it from the old one in two transactions; when the second fails, the item
  stays where it was, and the copy stays in the new scope. Removing the item then deletes it
  from its own scope only.
\<close>

section \<open>A removal and the next open\<close>

lemma remove_stores:
  assumes contract: "storage_contract (env_storage E) quads_of view st_ok tx_ok writable"
    and cov: "covered quads_of st_ok (json_readable (env_json E)) (env_json E) s"
    and e: "bt_get (s_items s) i = Some e"
    and run: "Session_remove E (e_scope e) i s = (Inr True, t)"
  shows "bt_get (s_items t) i = None"
    and "part quads_of t d i = (if d = e_scope e then {} else part quads_of s d i)"
proof -
  let ?st = "Tiers_get (s_stores s) (e_scope e)"
  have ok: "st_ok ?st" using cov session_wfD(1) by (simp add: covered_def)
  obtain r st' where del: "delete (env_storage E) i ?st = (r, st')" by (cases "delete (env_storage E) i ?st")
  then obtain u where r: "r = Inr u" using run e
    by (cases r) (simp_all add: Session_remove_def try_bind_def at_store_def)
  have t: "t = s\<lparr>s_stores := Tiers_put (s_stores s) (e_scope e) st', s_items := bt_remove i (s_items s)\<rparr>"
    using run e del r by (simp add: Session_remove_def try_bind_def at_store_def)
  have q: "quads_of st' = {q \<in> quads_of ?st. \<not> owned i q}"
    using session_env.delete_rule [OF contract_session_env [OF contract] ok del] r by simp
  show "bt_get (s_items t) i = None" by (simp add: t)
  show "part quads_of t d i = (if d = e_scope e then {} else part quads_of s d i)"
    by (auto simp: part_def t q)
qed

text \<open>In a scope that is not the item's own, its quads are the copy that is read back from there.\<close>

lemma stored_part:
  assumes inv: "session_inv False quads_of st_ok (json_readable J) J t" and i: "bt_get (s_items t) i = None" "i < 2 ^ 64"
    and M: "\<forall>sc. stored J (quads_of (Tiers_get (s_stores t) sc)) (M sc)"
  shows "case M d i of None \<Rightarrow> part quads_of t d i = {}
    | Some it \<Rightarrow> storable it \<and> reads_back J it \<and> part quads_of t d i = set (encode J i it)"
proof (cases "M d i")
  case None
  have "part_ok False (json_readable J) J (s_next_id t) i None d (part quads_of t d i)"
    using part_invD [OF session_wfD(5) [OF inv] i(2), of d] i(1) by simp
  moreover have "meta_quad J i it \<notin> part quads_of t d i" for it
  proof
    assume "meta_quad J i it \<in> part quads_of t d i"
    then have "meta_quad J i it \<in> quads_of (Tiers_get (s_stores t) d)" "is_record (meta_quad J i it)"
      by (simp_all add: part_def is_record_def)
    then obtain j jt where "M d j = Some jt" "meta_quad J i it = meta_quad J j jt"
      using M unfolding stored_def by metis
    moreover from this have "j < 2 ^ 64" using M by (auto simp: stored_def)
    ultimately show False using None i(2) by (metis meta_quad_sel(1) NamedOrBlankNode.inject(1) item_graph_inj option.distinct(1))
  qed
  ultimately show ?thesis using None by (auto simp: part_ok_def set_encode)
next
  case (Some it)
  then show ?thesis using M by (simp add: stored_def part_def)
qed

text \<open>
  C11. A removal lasts exactly if no copy of the item was left behind. Removing a live item
  takes it out of the index; if the session's stores are opened again, the item is there once
  more if and only if some other scope held a copy of it, which an earlier move had written
  before it failed. It then lives in the scope of such a copy, with its content unchanged. The
  stores hold only items whose metadata records the JSON crate reads back.
\<close>

theorem removal_lasts:
  assumes contract: "storage_contract (env_storage E) quads_of view st_ok tx_ok writable"
    and cov: "covered quads_of st_ok (json_readable (env_json E)) (env_json E) s"
    and foreign: "no_foreign_records quads_of s"
    and e: "bt_get (s_items s) i = Some e"
    and run: "Session_remove E (e_scope e) i s = (Inr True, t)"
    and cfg: "stores_of cfg = s_stores t"
    and pers: "persistent (capabilities (env_storage E) (Tiers_get (s_stores t) Enduring))"
  shows "bt_get (s_items t) i = None \<and> (case Session_open E clk cfg of Inl x \<Rightarrow> \<exists>y. x = StorageFailed y
    | Inr u \<Rightarrow> (case bt_get (s_items u) i of
        None \<Rightarrow> \<forall>d. d \<noteq> e_scope e \<longrightarrow> part quads_of s d i = {}
      | Some e' \<Rightarrow> e_scope e' \<noteq> e_scope e \<and> part quads_of s (e_scope e') i \<noteq> {} \<and> same_item (e_item e') (e_item e)))"
proof -
  let ?J = "env_json E"
  have inv: "session_inv False quads_of st_ok (json_readable ?J) ?J s" using cov by (simp add: covered_def)
  have i: "i < s_next_id s" "i < 2 ^ 64" "storable (e_item e)" using session_wfD(3) [OF inv e] by auto
  note gone = remove_stores [OF contract cov e run]
  have "s_next_id s < 2 ^ 64" using session_wfD(2) [OF inv] by (simp add: index_wf_def index_of_def)
  then have "session_step E (json_readable ?J) s t"
    using run by (intro step [where oper = "OpRemove (e_scope e) i"]) (simp_all add: id_room_def map_res_def try_bind_def)
  note after = step_covered [OF contract this cov]
  then have inv_t: "session_inv False quads_of st_ok (json_readable ?J) ?J t" by (simp add: covered_def)
  have "no_foreign_records quads_of t" using after foreign by (simp add: no_foreign_records_def session_rel_def)
  from copies_exist [OF inv_t this readable_live [OF inv_t]] obtain M
    where M: "\<forall>sc. stored ?J (quads_of (Tiers_get (s_stores t) sc)) (M sc)" by auto
  note copy = stored_part [OF inv_t gone(1) i(2) M]
  have same: "same_item it (e_item e) \<and> d \<noteq> e_scope e \<and> part quads_of s d i \<noteq> {}" if d: "M d i = Some it" for d it
  proof -
    have "part quads_of t d i = set (encode ?J i it)" "storable it" "reads_back ?J it" using copy [of d] d by simp_all
    then have ne: "d \<noteq> e_scope e" "part quads_of s d i = set (encode ?J i it)"
      using gone(2) [of d] by (simp_all add: set_encode split: if_splits)
    have "part quads_of s d i = set (encode ?J i (e_item e))"
      using part_invD [OF session_wfD(5) [OF inv] i(2), of d] e ne by (simp add: part_ok_def set_encode)
    then show ?thesis using ne encode_same_item [OF \<open>reads_back ?J it\<close> _ \<open>storable it\<close> i(3)] readable_live [OF inv] e
      by (simp add: set_encode)
  qed
  have ok: "\<forall>sc. st_ok (Tiers_get (s_stores t) sc) \<and> stored ?J (quads_of (Tiers_get (s_stores t) sc)) (M sc)"
    using M session_wfD(1) [OF inv_t] by blast
  note rule = session_env.open_rule [OF contract_session_env [OF contract] cfg pers ok, of clk]
  show ?thesis
  proof (cases "Session_open E clk cfg")
    case (Inr u)
    then have u: "restored M ContextScope_ALL [] (s_items u)" using rule by simp
    show ?thesis
    proof (cases "bt_get (s_items u) i")
      case None
      have "part quads_of s d i = {}" if "d \<noteq> e_scope e" for d
        using restored_lookup [OF u, of i] None copy [of d] gone(2) [of d] that by simp
      then show ?thesis using Inr None gone(1) by simp
    next
      case (Some e')
      with restored_lookup [OF u, of i] obtain it where "M (e_scope e') i = Some it" "same_item (e_item e') it" by auto
      then show ?thesis using Inr Some gone(1) same by (auto intro: same_item_trans)
    qed
  qed (use rule gone(1) in simp)
qed

section \<open>A store whose commits fail as planned\<close>

text \<open>
  Any store, with a plan that tells for each commit to come whether it fails; past the plan
  commits succeed. A failed commit changes nothing but the plan.
\<close>

definition planned_commit :: "('st, 'tx) Storage \<Rightarrow> 'tx \<Rightarrow> 'st \<times> bool list \<Rightarrow> (StorageError + unit) \<times> ('st \<times> bool list)" where
  "planned_commit S tx st =
     (case st of (base, plan) \<Rightarrow>
        if plan \<noteq> [] \<and> hd plan then (Inl (Backend (BoxMessage ''commit failed'')), (base, tl plan))
        else (case tx_commit S tx base of (r, base') \<Rightarrow> (r, (base', tl plan))))"

definition planned :: "('st, 'tx) Storage \<Rightarrow> ('st \<times> bool list, 'tx) Storage" where
  "planned S =
     \<lparr>begin_read = (\<lambda>st. begin_read S (fst st)), begin_write = (\<lambda>st. begin_write S (fst st)),
      quad_count = (\<lambda>st. quad_count S (fst st)), named_graphs = (\<lambda>st. named_graphs S (fst st)),
      capabilities = (\<lambda>st. capabilities S (fst st)),
      tx_insert = (\<lambda>st. tx_insert S (fst st)), tx_remove = (\<lambda>st. tx_remove S (fst st)),
      tx_contains = (\<lambda>st. tx_contains S (fst st)), tx_quads_for_pattern = (\<lambda>st. tx_quads_for_pattern S (fst st)),
      tx_commit = planned_commit S,
      tx_rollback = (\<lambda>tx st. case tx_rollback S tx (fst st) of (r, base) \<Rightarrow> (r, (base, snd st)))\<rparr>"

lemma planned_sel [simp]:
  "begin_read (planned S) st = begin_read S (fst st)" "begin_write (planned S) st = begin_write S (fst st)"
  "quad_count (planned S) st = quad_count S (fst st)" "named_graphs (planned S) st = named_graphs S (fst st)"
  "capabilities (planned S) st = capabilities S (fst st)"
  "tx_insert (planned S) st = tx_insert S (fst st)" "tx_remove (planned S) st = tx_remove S (fst st)"
  "tx_contains (planned S) st = tx_contains S (fst st)"
  "tx_quads_for_pattern (planned S) st = tx_quads_for_pattern S (fst st)"
  "tx_commit (planned S) = planned_commit S"
  "tx_rollback (planned S) tx st = (case tx_rollback S tx (fst st) of (r, base) \<Rightarrow> (r, (base, snd st)))"
  by (simp_all add: planned_def)

context storage_contract begin

lemma planned_contract:
  "storage_contract (planned S) (\<lambda>st. quads_of (fst st)) (\<lambda>st. view (fst st)) (\<lambda>st. st_ok (fst st))
     (\<lambda>st. tx_ok (fst st)) writable"
proof (unfold_locales, goal_cases)
  case (1 st)
  then show ?case using finite_quads [of "fst st"] by simp
next
  case (2 st tx)
  then show ?case using begin_read_ok [of "fst st" tx] by simp
next
  case (3 st tx)
  then show ?case using begin_write_ok [of "fst st" tx] by simp
next
  case (4 st tx q b tx')
  then show ?case using insert_ok [of "fst st" tx q b tx'] by simp
next
  case (5 st tx q e tx')
  then show ?case using insert_err [of "fst st" tx q e tx'] by simp
next
  case (6 st tx q)
  then show ?case using insert_read_only [of "fst st" tx q] by simp
next
  case (7 st tx q b tx')
  then show ?case using remove_ok [of "fst st" tx q b tx'] by simp
next
  case (8 st tx q e tx')
  then show ?case using remove_err [of "fst st" tx q e tx'] by simp
next
  case (9 st tx q)
  then show ?case using remove_read_only [of "fst st" tx q] by simp
next
  case (10 st tx q b)
  then show ?case using contains_ok [of "fst st" tx q b] by simp
next
  case (11 st tx s p obj g qs)
  then show ?case using pattern_ok [of "fst st" tx s p obj g qs] by simp
next
  case (12 st tx u st')
  then obtain base where "tx_commit S tx (fst st) = (Inr u, base)" "fst st' = base"
    by (auto simp: planned_commit_def split: prod.splits if_splits)
  with commit_ok [of "fst st" tx u base] 12(1,2) show ?case by simp
next
  case (13 st tx e st')
  then have "fst st' = fst st \<or> tx_commit S tx (fst st) = (Inl e, fst st')"
    by (auto simp: planned_commit_def split: prod.splits if_splits)
  with commit_err [of "fst st" tx e "fst st'"] 13(1,2) show ?case by auto
next
  case (14 st tx r st')
  then have "tx_rollback S tx (fst st) = (r, fst st')" by (auto split: prod.splits)
  with rollback_ok [of "fst st" tx r "fst st'"] 14(1,2) show ?case by simp
next
  case (15 st n)
  then show ?case using quad_count_ok [of "fst st" n] by simp
next
  case (16 st gs)
  then show ?case using named_graphs_ok [of "fst st" gs] by simp
qed

end

interpretation planned_mem: storage_contract "planned p_storage" "\<lambda>st. mem_quads (fst st)" "\<lambda>st. mem_view (fst st)"
    "\<lambda>st. mem_st_ok (fst st)" "\<lambda>st. mem_tx_ok (fst st)" mt_writable
  using storage_contract.planned_contract [OF p_contract] by simp

section \<open>A removed item that comes back\<close>

definition l_env :: "(MemStore \<times> bool list, MemTx) Env" where
  "l_env = \<lparr>env_storage = planned p_storage, env_json = p_json, env_f64 = w_f64\<rparr>"

text \<open>The second commit in the minor scope will fail.\<close>

definition l_fresh :: "(MemStore \<times> bool list) Session" where
  "l_fresh = \<lparr>s_stores = \<lparr>t_enduring = (MemStore_new, []), t_major = (MemStore_new, []), t_minor = (MemStore_new, [False, True])\<rparr>,
     s_settings = w_settings, s_items = [], s_next_id = 0, s_stats = SessionStats_default\<rparr>"

definition l_added :: "(MemStore \<times> bool list) Session" where
  "l_added = snd (run_op l_env (\<lambda>k. k) (OpAdd Minor w_item) l_fresh)"

definition l_failed :: "(MemStore \<times> bool list) Session" where
  "l_failed = snd (run_op l_env (\<lambda>k. k) (OpPromote [0] Minor Major) l_added)"

definition l_removed :: "(MemStore \<times> bool list) Session" where
  "l_removed = snd (Session_remove l_env Minor 0 l_failed)"

lemma l_env_sel [simp]: "env_storage l_env = planned p_storage" "env_json l_env = p_json" "env_f64 l_env = w_f64"
  by (simp_all add: l_env_def)

lemmas eval_planned = planned_commit_def p_methods

definition l_copy :: MemStore where
  "l_copy = \<lparr>ms_version = 1, ms_quads = encode p_json 0 w_item\<rparr>"

lemma meta_not_in_graph [simp]:
  "meta_quad J i it \<noteq> in_graph (item_graph j) q" "in_graph (item_graph j) q \<noteq> meta_quad J i it"
  by (auto dest: arg_cong [of _ _ q_graph])

lemma l_added_value:
  "run_op l_env (\<lambda>k. k) (OpAdd Minor w_item) l_fresh = (Inr (ResId 0), l_added)"
  "s_items l_added = [(0, Entry_new w_item Minor Added 0)]" "s_next_id l_added = 1" "s_settings l_added = w_settings"
  "s_stores l_added = \<lparr>t_enduring = (MemStore_new, []), t_major = (MemStore_new, []), t_minor = (l_copy, [True])\<rparr>"
  by (simp_all add: l_added_def map_res_def l_fresh_def w_settings_def l_copy_def eval_item eval_session eval_mem eval_planned)

text \<open>The promotion writes the copy, fails to delete the original, and leaves the index as it was.\<close>

lemma l_failed_value:
  "run_op l_env (\<lambda>k. k) (OpPromote [0] Minor Major) l_added
    = (Inl (Err (StorageFailed (Backend (BoxMessage ''commit failed'')))), l_failed)"
  "s_items l_failed = [(0, Entry_new w_item Minor Added 0)]" "s_next_id l_failed = 1"
  "s_stores l_failed = \<lparr>t_enduring = (MemStore_new, []), t_major = (l_copy, []), t_minor = (l_copy, [])\<rparr>"
  by (simp_all add: l_failed_def map_res_def l_added_value scope_less_iff check_in_scope_def move_items_def move_item_def
    bt_get_def delete_def collect_def l_copy_def eval_item eval_session eval_mem eval_planned)

lemma l_removed_value:
  "Session_remove l_env Minor 0 l_failed = (Inr True, l_removed)"
  by (simp add: l_removed_def Session_remove_def l_failed_value bt_get_def Entry_new_def try_bind_def at_store_def
    delete_def with_write_def collect_def l_copy_def eval_item encode_def triples_of_def eval_mem eval_planned)

lemma l_failed_covered: "covered (\<lambda>st. mem_quads (fst st)) (\<lambda>st. mem_st_ok (fst st)) (\<lambda>_. True) p_json l_failed"
  and l_failed_foreign: "no_foreign_records (\<lambda>st. mem_quads (fst st)) l_failed"
proof -
  have stores: "mem_quads (fst (Tiers_get (s_stores l_fresh) sc)) = {}" "mem_st_ok (fst (Tiers_get (s_stores l_fresh) sc))" for sc
    by (cases sc; simp add: l_fresh_def mem_quads_def mem_st_ok_def MemStore_new_def)+
  have "covered (\<lambda>st. mem_quads (fst st)) (\<lambda>st. mem_st_ok (fst st)) (\<lambda>_. True) (env_json l_env) l_fresh"
    by (simp add: covered_def session_inv_def session_wf_def part_inv_def part_ok_def part_def stores)
      (simp add: l_fresh_def index_wf_def index_of_def)
  moreover have "session_run l_env (\<lambda>_. True) l_fresh l_failed"
  proof (rule session_run.trans [OF session_run.trans [OF session_run.refl]])
    show "session_step l_env (\<lambda>_. True) l_fresh l_added"
      by (rule step [OF _ _ l_added_value(1)]) (simp_all add: id_room_def l_fresh_def acceptable_def)
    show "session_step l_env (\<lambda>_. True) l_added l_failed"
      by (rule step [OF _ _ l_failed_value(1)]) (simp_all add: id_room_def l_added_value)
  qed
  moreover have "storage_contract (env_storage l_env) (\<lambda>st. mem_quads (fst st)) (\<lambda>st. mem_view (fst st))
      (\<lambda>st. mem_st_ok (fst st)) (\<lambda>st. mem_tx_ok (fst st)) mt_writable"
    by (simp add: planned_mem.storage_contract_axioms)
  ultimately have run: "covered (\<lambda>st. mem_quads (fst st)) (\<lambda>st. mem_st_ok (fst st)) (\<lambda>_. True) p_json l_failed
    \<and> session_rel (\<lambda>st. mem_quads (fst st)) l_fresh l_failed"
    using run_covered [where E = l_env] by fastforce
  then show "covered (\<lambda>st. mem_quads (fst st)) (\<lambda>st. mem_st_ok (fst st)) (\<lambda>_. True) p_json l_failed" by simp
  have "foreign (\<lambda>st. mem_quads (fst st)) l_failed = foreign (\<lambda>st. mem_quads (fst st)) l_fresh"
    using run by (simp add: session_rel_def)
  then show "no_foreign_records (\<lambda>st. mem_quads (fst st)) l_failed"
    by (simp add: no_foreign_records_def foreign_def stores)
qed

text \<open>
  The run: an item is added to the minor scope, its promotion fails, it is removed. The next
  open finds it again, in the major scope.
\<close>

definition l_config :: "(MemStore \<times> bool list) SessionConfig" where
  "l_config = SessionConfig_new (PerScope (t_enduring (s_stores l_removed)) (t_major (s_stores l_removed)) (t_minor (s_stores l_removed)))"

lemma l_removed_stores:
  "s_stores l_removed = \<lparr>t_enduring = (MemStore_new, []), t_major = (l_copy, []), t_minor = (\<lparr>ms_version = 2, ms_quads = []\<rparr>, [])\<rparr>"
  by (simp add: l_removed_def Session_remove_def l_failed_value bt_get_def Entry_new_def try_bind_def at_store_def
    delete_def with_write_def collect_def l_copy_def eval_item encode_def triples_of_def matches_pattern_def eval_mem eval_planned)

lemma l_opens: "\<exists>u. Session_open l_env (\<lambda>k. k) l_config = Inr u"
proof -
  have J: "json_from_str p_json (json_to_string p_json (record_of w_item)) = Inr (record_of w_item)"
    using p_reads_back [of w_item] by (simp add: reads_back_def)
  have empty: "load (planned p_storage) p_json (\<lparr>ms_version = n, ms_quads = []\<rparr>, []) = (Inr [], (\<lparr>ms_version = n, ms_quads = []\<rparr>, []))" for n
    by (simp add: load_def collect_def eval_mem eval_planned)
  have hint: "scope_hint w_item = None" by (simp add: eval_item)
  have dec: "\<exists>it. decode p_json 0 (json_to_string p_json (record_of w_item)) qs = Inr it" for qs
    unfolding decode_def J by (simp add: record_of_def hint)
  have recs: "\<exists>out. load_records (planned p_storage) p_json st tx [meta_quad p_json 0 w_item] = Inr out" for st tx
  proof -
    obtain it where "decode p_json 0 (json_to_string p_json (record_of w_item))
        (filter (\<lambda>q. matches_pattern q None None None (Some (GNamed (item_graph 0)))) (mt_working tx)) = Inr it"
      using dec by blast
    then show ?thesis by (simp add: record_id_meta collect_def eval_mem eval_planned)
  qed
  have records: "filter (\<lambda>q. matches_pattern q None (Some record_predicate) None (Some meta_graph)) (encode p_json 0 w_item)
      = [meta_quad p_json 0 w_item]"
    by (simp add: encode_def triples_of_def eval_item matches_pattern_def in_graph_def)
  obtain out where "load_records (planned p_storage) p_json (l_copy, []) \<lparr>mt_base_version = 1, mt_working = encode p_json 0 w_item, mt_writable = False\<rparr>
      [meta_quad p_json 0 w_item] = Inr out"
    using recs by blast
  then have "load (planned p_storage) p_json (l_copy, []) = (Inr out, (l_copy, []))"
    by (simp add: load_def collect_def l_copy_def eval_mem eval_planned records)
  then show ?thesis
    using p_persistent by (simp add: Session_open_def l_config_def SessionConfig_new_def l_removed_stores ContextScope_ALL_def
      MemStore_new_def empty)
qed

theorem removal_lasts_witness:
  "bt_get (s_items l_removed) 0 = None \<and> (\<exists>u e'. Session_open l_env (\<lambda>k. k) l_config = Inr u
     \<and> bt_get (s_items u) 0 = Some e' \<and> e_scope e' \<noteq> Minor \<and> same_item (e_item e') w_item)"
proof -
  let ?q = "\<lambda>st. mem_quads (fst st)"
  have e: "bt_get (s_items l_failed) 0 = Some (Entry_new w_item Minor Added 0)" by (simp add: l_failed_value bt_get_def)
  have sel: "e_scope (Entry_new w_item Minor Added 0) = Minor" "e_item (Entry_new w_item Minor Added 0) = w_item"
    by (simp_all add: Entry_new_def)
  have cfg: "stores_of l_config = s_stores l_removed" by (simp add: stores_of_def l_config_def SessionConfig_new_def)
  have pers: "persistent (capabilities (env_storage l_env) (Tiers_get (s_stores l_removed) Enduring))"
    using p_persistent by simp
  have left: "part ?q l_failed Major 0 \<noteq> {}"
    by (auto simp: part_def l_failed_value l_copy_def mem_quads_def encode_def owned_def)
  have contract: "storage_contract (env_storage l_env) ?q (\<lambda>st. mem_view (fst st)) (\<lambda>st. mem_st_ok (fst st)) (\<lambda>st. mem_tx_ok (fst st)) mt_writable"
    by (simp add: planned_mem.storage_contract_axioms)
  have cov: "covered ?q (\<lambda>st. mem_st_ok (fst st)) (json_readable (env_json l_env)) (env_json l_env) l_failed" using l_failed_covered by simp
  have rem: "Session_remove l_env (e_scope (Entry_new w_item Minor Added 0)) 0 l_failed = (Inr True, l_removed)"
    using l_removed_value by (simp add: sel)
  note out = removal_lasts [OF contract cov l_failed_foreign e rem cfg pers, of "\<lambda>k. k", unfolded sel]
  obtain u where u: "Session_open l_env (\<lambda>k. k) l_config = Inr u" using l_opens by blast
  with out left show ?thesis by (cases "bt_get (s_items u) 0") auto
qed

end
