(* ===== verification/Reasoner.thy ===== *)
theory Reasoner
  imports Mem_Store Shacl_Report "HOL-Library.While_Combinator"
begin

text \<open>
  The reasoner traits of \<^verbatim>\<open>semanticore-core/src/reasoner.rs\<close>, the OWL result types of
  \<^verbatim>\<open>owl.rs\<close>, and the reasoners of the documentation, which are compiled and run as tests:
  \<open>ToySubsumption\<close> and \<open>SymmetricClosure\<close> of \<^verbatim>\<open>reasoner.rs\<close>, \<open>Asserted\<close>, and \<open>SymmetricKnows\<close>
  of \<^verbatim>\<open>lib.rs\<close>.

  The reasoners work on any store that implements the storage traits, the argument \<open>S\<close>. Their
  lemmas are proved in the locales of the storage contract, and the theorems are stated for
  the store they are documented with, \<open>DocStore_storage\<close>, through its interpretation.
\<close>

section \<open>Capabilities and profiles\<close>

datatype OwlProfile = El | Ql | Rl | Dl

fun OwlProfile_bit :: "OwlProfile \<Rightarrow> 8 word" where
  "OwlProfile_bit El = push_bit 0 1"
| "OwlProfile_bit Ql = push_bit 1 1"
| "OwlProfile_bit Rl = push_bit 2 1"
| "OwlProfile_bit Dl = push_bit 3 1"

datatype ProfileSet = ProfileSet (profile_bits: "8 word")

definition ProfileSet_empty :: ProfileSet where
  "ProfileSet_empty = ProfileSet 0"

definition ProfileSet_with :: "ProfileSet \<Rightarrow> OwlProfile \<Rightarrow> ProfileSet" where
  "ProfileSet_with ps p = ProfileSet (or (profile_bits ps) (OwlProfile_bit p))"

definition ProfileSet_insert :: "OwlProfile \<Rightarrow> ProfileSet \<Rightarrow> ProfileSet" where
  "ProfileSet_insert p ps = ProfileSet (or (profile_bits ps) (OwlProfile_bit p))"

definition ProfileSet_contains :: "ProfileSet \<Rightarrow> OwlProfile \<Rightarrow> bool" where
  "ProfileSet_contains ps p = (and (profile_bits ps) (OwlProfile_bit p) \<noteq> 0)"

definition ProfileSet_is_empty :: "ProfileSet \<Rightarrow> bool" where
  "ProfileSet_is_empty ps = (profile_bits ps = 0)"

record ReasonerCapabilities =
  rc_profiles :: ProfileSet
  rc_incremental :: bool
  rc_persistent :: bool
  rc_distributed :: bool
  rc_explanation :: bool
  rc_max_axioms :: "nat option"

definition ReasonerCapabilities_default :: ReasonerCapabilities where
  "ReasonerCapabilities_default =
     \<lparr>rc_profiles = ProfileSet_empty, rc_incremental = False, rc_persistent = False, rc_distributed = False,
      rc_explanation = False, rc_max_axioms = None\<rparr>"

record MaterializationStats =
  quads_added :: nat
  quads_removed :: nat
  iterations :: nat
  elapsed_ms :: f64

section \<open>Results\<close>

type_synonym ClassIri = NamedNode

type_synonym IndividualIri = NamedNode

type_synonym btree_set = "NamedNode list"

record EquivalenceClass =
  members :: btree_set

record ClassHierarchy =
  equivalence_classes :: "EquivalenceClass list"
  direct_subclass_of :: "(ClassIri \<times> ClassIri) list"
  unsatisfiable :: "ClassIri list"

definition ClassHierarchy_new :: ClassHierarchy where
  "ClassHierarchy_new = \<lparr>equivalence_classes = [], direct_subclass_of = [], unsatisfiable = []\<rparr>"

record InstanceRealization =
  individual_types :: "(IndividualIri, btree_set) btree_map"

definition InstanceRealization_new :: InstanceRealization where
  "InstanceRealization_new = \<lparr>individual_types = []\<rparr>"

definition types_of :: "InstanceRealization \<Rightarrow> IndividualIri \<Rightarrow> btree_set option" where
  "types_of r i = bt_get (individual_types r) i"

datatype Axiom = Axiom string

datatype ConsistencyResult = Consistent | Inconsistent "Axiom list option"

fun is_consistent :: "ConsistencyResult \<Rightarrow> bool" where
  "is_consistent Consistent = True"
| "is_consistent (Inconsistent _) = False"

datatype OwlError =
    OwlLoad string
  | OwlUnsupportedAxiom string string
  | OwlProfileViolation string
  | OwlConsistencyViolation string
  | OwlMaterializationFailure string
  | OwlEvaluationLimitExceeded nat
  | OwlQuotaExceeded string nat
  | OwlLicense string

fun OwlError_display :: "OwlError \<Rightarrow> string" where
  "OwlError_display (OwlLoad reason) = ''owl load error: '' @ reason"
| "OwlError_display (OwlUnsupportedAxiom axm prof) = ''unsupported axiom for '' @ prof @ '' profile: '' @ axm"
| "OwlError_display (OwlProfileViolation reason) = ''profile violation: '' @ reason"
| "OwlError_display (OwlConsistencyViolation reason) = ''consistency violation: '' @ reason"
| "OwlError_display (OwlMaterializationFailure reason) = ''materialization failure: '' @ reason"
| "OwlError_display (OwlEvaluationLimitExceeded limit) = ''evaluation limit exceeded: '' @ show_nat limit"
| "OwlError_display (OwlQuotaExceeded knd limit) = ''quota exceeded: '' @ knd @ '' (limit '' @ show_nat limit @ '')''"
| "OwlError_display (OwlLicense feature) = ''feature not licensed: '' @ feature"

section \<open>Subsumption\<close>

definition SUB_CLASS_OF :: string where
  "SUB_CLASS_OF = ''http://www.w3.org/2000/01/rdf-schema#subClassOf''"

definition named_edge :: "Quad \<Rightarrow> (NamedNode \<times> NamedNode) option" where
  "named_edge q = (case (q_subject q, q_object q) of (NbNamed s, TNamed ob) \<Rightarrow> Some (s, ob) | _ \<Rightarrow> None)"

definition ToySubsumption_edges :: "('st, 'tx) Storage \<Rightarrow> 'st \<Rightarrow> string \<Rightarrow> StorageError + (NamedNode \<times> NamedNode) list" where
  "ToySubsumption_edges S st pred =
     (case begin_read S st of Inl e \<Rightarrow> Inl e
      | Inr tx \<Rightarrow>
         (case collect_results (tx_quads_for_pattern S st tx None (Some (NamedNode pred)) None None) of
            Inl e \<Rightarrow> Inl e
          | Inr quads \<Rightarrow> Inr (List.map_filter named_edge quads)))"

text \<open>The \<open>while let\<close> loop over the stack \<open>todo\<close>; it ends because every class enters \<open>types\<close> once.\<close>

function close_up :: "(NamedNode \<times> NamedNode) list \<Rightarrow> NamedNode list \<Rightarrow> btree_set \<Rightarrow> btree_set" where
  "close_up sub todo types =
     (if todo = [] then types
      else let c = last todo; rest = butlast todo
           in if List.member types c then close_up sub rest types
              else close_up sub (rest @ map snd (filter (\<lambda>e. fst e = c) sub)) (insort_insert c types))"
  by auto

definition unseen :: "(NamedNode \<times> NamedNode) list \<Rightarrow> NamedNode list \<Rightarrow> btree_set \<Rightarrow> NamedNode set" where
  "unseen sub todo types = (set todo \<union> snd ` set sub) - set types"

lemma finite_unseen [simp]: "finite (unseen sub todo types)"
  by (simp add: unseen_def)

lemma unseen_pop: "todo \<noteq> [] \<Longrightarrow> unseen sub (butlast todo) types \<subseteq> unseen sub todo types"
  by (auto simp: unseen_def dest: in_set_butlastD)

lemma unseen_extend:
  assumes "todo \<noteq> []" "last todo \<notin> set types"
  shows "unseen sub (butlast todo @ map snd (filter (\<lambda>e. fst e = last todo) sub)) (insort_insert (last todo) types)
    \<subset> unseen sub todo types"
proof -
  have "last todo \<in> unseen sub todo types" using assms by (simp add: unseen_def)
  moreover have "unseen sub (butlast todo @ map snd (filter (\<lambda>e. fst e = last todo) sub)) (insort_insert (last todo) types)
      \<subseteq> unseen sub todo types - {last todo}"
    by (auto simp: unseen_def set_insort_insert dest: in_set_butlastD)
  ultimately show ?thesis by blast
qed

termination close_up
proof (relation "(\<lambda>(sub, todo, types). card (unseen sub todo types)) <*mlex*> measure (\<lambda>(sub, todo, types). length todo)",
    goal_cases)
  case 1
  show ?case by (simp add: wf_mlex)
next
  case (2 sub todo types c rest)
  then have "card (unseen sub rest types) \<le> card (unseen sub todo types)"
    by (intro card_mono) (simp_all add: unseen_pop)
  with 2 show ?case by (intro mlex_leq) auto
next
  case (3 sub todo types c rest)
  then show ?case
    by (intro mlex_less) (simp add: psubset_card_mono unseen_extend)
qed

declare close_up.simps [simp del]

fun realize_each :: "(NamedNode \<times> NamedNode) list \<Rightarrow> (IndividualIri \<times> ClassIri) list \<Rightarrow>
    (IndividualIri, btree_set) btree_map \<Rightarrow> (IndividualIri, btree_set) btree_map" where
  "realize_each sub [] m = m"
| "realize_each sub ((i, c) # rest) m =
     realize_each sub rest
       (bt_insert i (close_up sub [c] (case bt_get m i of None \<Rightarrow> [] | Some types \<Rightarrow> types)) m)"

definition ToySubsumption_realization :: "('st, 'tx) Storage \<Rightarrow> 'st \<Rightarrow> StorageError + InstanceRealization" where
  "ToySubsumption_realization S st =
     (case ToySubsumption_edges S st SUB_CLASS_OF of Inl e \<Rightarrow> Inl e
      | Inr sub \<Rightarrow>
         (case ToySubsumption_edges S st RDF_TYPE of Inl e \<Rightarrow> Inl e
          | Inr types \<Rightarrow>
              Inr (InstanceRealization_new\<lparr>individual_types :=
                realize_each sub types (individual_types InstanceRealization_new)\<rparr>)))"

definition type_quad :: "NamedNode \<Rightarrow> NamedNode \<Rightarrow> Quad" where
  "type_quad i c = Quad_triple (NbNamed i) (NamedNode RDF_TYPE) (TNamed c)"

definition ToySubsumption_type_quads :: "('st, 'tx) Storage \<Rightarrow> 'st \<Rightarrow> StorageError + Quad list" where
  "ToySubsumption_type_quads S st =
     (case ToySubsumption_realization S st of Inl e \<Rightarrow> Inl e
      | Inr r \<Rightarrow> Inr (concat (map (\<lambda>(i, types). map (type_quad i) types) (individual_types r))))"

definition ToySubsumption_capabilities :: ReasonerCapabilities where
  "ToySubsumption_capabilities =
     ReasonerCapabilities_default\<lparr>rc_profiles := ProfileSet_with ProfileSet_empty El\<rparr>"

text \<open>\<open>added += u64::from(tx.insert(q)?)\<close> for every quad of a slice.\<close>

fun insert_counting :: "('st, 'tx) Storage \<Rightarrow> 'st \<Rightarrow> Quad list \<Rightarrow> nat \<Rightarrow> 'tx \<Rightarrow> (StorageError + nat) \<times> 'tx" where
  "insert_counting S st [] added tx = (Inr added, tx)"
| "insert_counting S st (q # qs) added tx =
     (case tx_insert S st q tx of (Inl e, tx') \<Rightarrow> (Inl e, tx')
      | (Inr b, tx') \<Rightarrow> insert_counting S st qs (added + of_bool b) tx')"

definition stats_added :: "nat \<Rightarrow> MaterializationStats" where
  "stats_added n = \<lparr>quads_added = n, quads_removed = 0, iterations = 1, elapsed_ms = 0\<rparr>"

definition ToySubsumption_materialize :: "('st, 'tx) Storage \<Rightarrow> ('st, StorageError, MaterializationStats) res_st" where
  "ToySubsumption_materialize S st =
     (case ToySubsumption_type_quads S st of Inl e \<Rightarrow> (Inl e, st)
      | Inr derived \<Rightarrow>
         (case begin_write S st of Inl e \<Rightarrow> (Inl e, st)
          | Inr tx \<Rightarrow>
             (case insert_counting S st derived 0 tx of (Inl e, _) \<Rightarrow> (Inl e, st)
              | (Inr added, tx') \<Rightarrow>
                 (case tx_commit S tx' st of (Inl e, st') \<Rightarrow> (Inl e, st')
                  | (Inr _, st') \<Rightarrow> (Inr (stats_added added), st')))))"

definition ToySubsumption_dematerialize :: "('st, StorageError, unit) res_st" where
  "ToySubsumption_dematerialize st = (Inr (), st)"

definition ToySubsumption_on_insert :: "('st, 'tx) Storage \<Rightarrow> Quad list \<Rightarrow> ('st, StorageError, MaterializationStats) res_st" where
  "ToySubsumption_on_insert S inserted = ToySubsumption_materialize S"

definition ToySubsumption_on_remove :: "('st, 'tx) Storage \<Rightarrow> Quad list \<Rightarrow> ('st, StorageError, MaterializationStats) res_st" where
  "ToySubsumption_on_remove S removed = try_bind ToySubsumption_dematerialize (\<lambda>_. ToySubsumption_materialize S)"

definition ToySubsumption_entails :: "('st, 'tx) Storage \<Rightarrow> 'st \<Rightarrow> Quad \<Rightarrow> StorageError + bool" where
  "ToySubsumption_entails S st candidate =
     (case begin_read S st of Inl e \<Rightarrow> Inl e
      | Inr tx \<Rightarrow>
         (case tx_contains S st tx candidate of Inl e \<Rightarrow> Inl e
          | Inr present \<Rightarrow>
              if present then Inr True
              else (case ToySubsumption_type_quads S st of Inl e \<Rightarrow> Inl e
                    | Inr quads \<Rightarrow> Inr (List.member quads candidate))))"

definition ToySubsumption_entailed_quads :: "('st, 'tx) Storage \<Rightarrow> 'st \<Rightarrow> (StorageError + Quad) list" where
  "ToySubsumption_entailed_quads S st =
     (case ToySubsumption_type_quads S st of Inr quads \<Rightarrow> map Inr quads | Inl e \<Rightarrow> [Inl e])"

definition ToySubsumption_supported_profiles :: "OwlProfile list" where
  "ToySubsumption_supported_profiles = [El]"

definition ToySubsumption_classify :: "('st, 'tx) Storage \<Rightarrow> 'st \<Rightarrow> StorageError + ClassHierarchy" where
  "ToySubsumption_classify S st =
     (case ToySubsumption_edges S st SUB_CLASS_OF of Inl e \<Rightarrow> Inl e
      | Inr es \<Rightarrow> Inr (ClassHierarchy_new\<lparr>direct_subclass_of := es\<rparr>))"

definition ToySubsumption_realize :: "('st, 'tx) Storage \<Rightarrow> 'st \<Rightarrow> StorageError + InstanceRealization" where
  "ToySubsumption_realize S st = ToySubsumption_realization S st"

definition ToySubsumption_check_consistency :: "'st \<Rightarrow> StorageError + ConsistencyResult" where
  "ToySubsumption_check_consistency st = Inr Consistent"

section \<open>Symmetric closure\<close>

definition ex :: "string \<Rightarrow> NamedNode" where
  "ex local = NamedNode (''https://example.org/'' @ local)"

definition SymmetricClosure_inferred :: NamedOrDefault where
  "SymmetricClosure_inferred = GNamed (ex ''inferred'')"

definition converse_quad :: "Quad \<Rightarrow> Quad option" where
  "converse_quad q =
     (case (q_subject q, q_object q) of
        (NbNamed s, TNamed ob) \<Rightarrow> Some (Quad_new (NbNamed ob) (q_predicate q) (TNamed s) SymmetricClosure_inferred)
      | _ \<Rightarrow> None)"

fun insert_converses :: "('st, 'tx) Storage \<Rightarrow> 'st \<Rightarrow> Quad list \<Rightarrow> nat \<Rightarrow> 'tx \<Rightarrow> (StorageError + nat) \<times> 'tx" where
  "insert_converses S st [] added tx = (Inr added, tx)"
| "insert_converses S st (q # qs) added tx =
     (case converse_quad q of
        None \<Rightarrow> insert_converses S st qs added tx
      | Some cq \<Rightarrow>
         (case tx_contains S st tx (cq\<lparr>q_graph := q_graph q\<rparr>) of Inl e \<Rightarrow> (Inl e, tx)
          | Inr present \<Rightarrow>
              if present then insert_converses S st qs added tx
              else (case tx_insert S st cq tx of (Inl e, tx') \<Rightarrow> (Inl e, tx')
                    | (Inr b, tx') \<Rightarrow> insert_converses S st qs (if b then added + 1 else added) tx')))"

definition add_converses :: "('st, 'tx) Storage \<Rightarrow> Quad list \<Rightarrow> ('st, StorageError, MaterializationStats) res_st" where
  "add_converses S asserted st =
     (case begin_write S st of Inl e \<Rightarrow> (Inl e, st)
      | Inr tx \<Rightarrow>
         (case insert_converses S st asserted 0 tx of (Inl e, _) \<Rightarrow> (Inl e, st)
          | (Inr added, tx') \<Rightarrow>
             (case tx_commit S tx' st of (Inl e, st') \<Rightarrow> (Inl e, st')
              | (Inr _, st') \<Rightarrow> (Inr (stats_added added), st'))))"

definition SymmetricClosure_capabilities :: ReasonerCapabilities where
  "SymmetricClosure_capabilities = ReasonerCapabilities_default\<lparr>rc_incremental := True\<rparr>"

definition SymmetricClosure_materialize :: "('st, 'tx) Storage \<Rightarrow> ('st, StorageError, MaterializationStats) res_st" where
  "SymmetricClosure_materialize S st =
     (case begin_read S st of Inl e \<Rightarrow> (Inl e, st)
      | Inr tx \<Rightarrow>
         (case collect_results (tx_quads_for_pattern S st tx None (Some (ex ''knows'')) None (Some GDefault)) of
            Inl e \<Rightarrow> (Inl e, st)
          | Inr asserted \<Rightarrow> add_converses S asserted st))"

definition SymmetricClosure_dematerialize :: "('st, 'tx) Storage \<Rightarrow> ('st, StorageError, unit) res_st" where
  "SymmetricClosure_dematerialize S st =
     (case begin_write S st of Inl e \<Rightarrow> (Inl e, st)
      | Inr tx \<Rightarrow>
         (case collect_results (tx_quads_for_pattern S st tx None None None (Some SymmetricClosure_inferred)) of
            Inl e \<Rightarrow> (Inl e, st)
          | Inr inferred \<Rightarrow>
             (case remove_each S st inferred tx of (Inl e, _) \<Rightarrow> (Inl e, st)
              | (Inr _, tx') \<Rightarrow> tx_commit S tx' st)))"

definition SymmetricClosure_on_insert :: "('st, 'tx) Storage \<Rightarrow> Quad list \<Rightarrow> ('st, StorageError, MaterializationStats) res_st" where
  "SymmetricClosure_on_insert S inserted = add_converses S (filter (\<lambda>q. q_predicate q = ex ''knows'') inserted)"

definition SymmetricClosure_on_remove :: "('st, 'tx) Storage \<Rightarrow> Quad list \<Rightarrow> ('st, StorageError, MaterializationStats) res_st" where
  "SymmetricClosure_on_remove S removed =
     try_bind (SymmetricClosure_dematerialize S) (\<lambda>_. SymmetricClosure_materialize S)"

section \<open>Backward chaining\<close>

definition Asserted_entails :: "('st, 'tx) Storage \<Rightarrow> 'st \<Rightarrow> Quad \<Rightarrow> StorageError + bool" where
  "Asserted_entails S st candidate =
     (case begin_read S st of Inl e \<Rightarrow> Inl e | Inr tx \<Rightarrow> tx_contains S st tx candidate)"

definition Asserted_entailed_quads :: "('st, 'tx) Storage \<Rightarrow> 'st \<Rightarrow> (StorageError + Quad) list" where
  "Asserted_entailed_quads S st =
     (case begin_read S st of Inr tx \<Rightarrow> tx_quads_for_pattern S st tx None None None None | Inl e \<Rightarrow> [Inl e])"

definition SymmetricKnows_entails :: "('st, 'tx) Storage \<Rightarrow> 'st \<Rightarrow> Quad \<Rightarrow> StorageError + bool" where
  "SymmetricKnows_entails S st candidate =
     (case begin_read S st of Inl e \<Rightarrow> Inl e
      | Inr tx \<Rightarrow>
         (case tx_contains S st tx candidate of Inl e \<Rightarrow> Inl e
          | Inr present \<Rightarrow>
              if present then Inr True
              else (case (q_subject candidate, q_object candidate) of
                      (NbNamed s, TNamed ob) \<Rightarrow>
                        if q_predicate candidate \<noteq> ex ''knows'' then Inr False
                        else tx_contains S st tx (Quad_new (NbNamed ob) (ex ''knows'') (TNamed s) (q_graph candidate))
                    | _ \<Rightarrow> Inr False)))"

definition SymmetricKnows_entailed_quads :: "('st, 'tx) Storage \<Rightarrow> 'st \<Rightarrow> (StorageError + Quad) list" where
  "SymmetricKnows_entailed_quads S st =
     (case begin_read S st of Inl e \<Rightarrow> [Inl e]
      | Inr tx \<Rightarrow>
         (let asserted = (case collect_results (tx_quads_for_pattern S st tx None (Some (ex ''knows'')) None None) of
                            Inl _ \<Rightarrow> [] | Inr qs \<Rightarrow> qs)
          in List.map_filter (\<lambda>q. case (q_subject q, q_object q) of
                 (NbNamed s, TNamed ob) \<Rightarrow> Some (Inr (Quad_new (NbNamed ob) (q_predicate q) (TNamed s) (q_graph q)))
               | _ \<Rightarrow> None) asserted))"

section \<open>The loop of the realization\<close>

definition close_step :: "(NamedNode \<times> NamedNode) list \<Rightarrow> NamedNode list \<times> btree_set \<Rightarrow> NamedNode list \<times> btree_set" where
  "close_step sub = (\<lambda>(todo, types).
     let c = last todo; rest = butlast todo
     in if List.member types c then (rest, types)
        else (rest @ map snd (filter (\<lambda>e. fst e = c) sub), insort_insert c types))"

lemma close_up_while:
  "while_option (\<lambda>(todo, types). todo \<noteq> []) (close_step sub) (todo, types) = Some ([], close_up sub todo types)"
proof (induction sub todo types rule: close_up.induct)
  case (1 sub todo types)
  show ?case
  proof (cases "todo = []")
    case True
    then show ?thesis by (simp add: while_option_unfold [of _ _ "([], types)"] close_up.simps)
  next
    case False
    then show ?thesis using "1.IH" [OF False refl refl]
      by (subst while_option_unfold, subst close_up.simps) (simp add: close_step_def Let_def)
  qed
qed

lemma reach_through:
  assumes "\<And>x y. (x, y) \<in> r \<Longrightarrow> x \<in> A \<Longrightarrow> y \<in> A \<union> B" "(x, y) \<in> r\<^sup>*" "x \<in> A"
  shows "y \<in> A \<union> r\<^sup>* `` B"
  using assms(2,3)
proof (induction rule: rtrancl_induct)
  case (step y z)
  then consider "y \<in> A" | b where "b \<in> B" "(b, y) \<in> r\<^sup>*" by auto
  then show ?case
  proof cases
    case 1
    with assms(1) step.hyps(2) show ?thesis by blast
  next
    case 2
    then have "(b, z) \<in> r\<^sup>*" using step.hyps(2) by (rule_tac rtrancl_into_rtrancl)
    with 2 show ?thesis by blast
  qed
qed simp

lemma reach_pop:
  assumes "todo \<noteq> []" "last todo \<in> set types" "\<And>x y. (x, y) \<in> set sub \<Longrightarrow> x \<in> set types \<Longrightarrow> y \<in> set types \<union> set todo"
  shows "set types \<union> (set sub)\<^sup>* `` set (butlast todo) = set types \<union> (set sub)\<^sup>* `` set todo"
proof -
  have td: "set todo = insert (last todo) (set (butlast todo))"
    using assms(1) by (metis append_butlast_last_id insert_is_Un list.simps(15) set_append sup_commute empty_set)
  have "y \<in> set types \<union> (set sub)\<^sup>* `` set (butlast todo)" if "(last todo, y) \<in> (set sub)\<^sup>*" for y
  proof (rule reach_through [OF _ that assms(2)])
    fix x y assume "(x, y) \<in> set sub" "x \<in> set types"
    from assms(3) [OF this] show "y \<in> set types \<union> set (butlast todo)" unfolding td using assms(2) by blast
  qed
  then show ?thesis unfolding td by blast
qed

lemma reach_push:
  assumes "todo \<noteq> []"
  shows "insert (last todo) (set types) \<union> (set sub)\<^sup>* `` set (butlast todo @ map snd (filter (\<lambda>e. fst e = last todo) sub))
    = set types \<union> (set sub)\<^sup>* `` set todo"
proof -
  have td: "set todo = insert (last todo) (set (butlast todo))"
    using assms by (metis append_butlast_last_id insert_is_Un list.simps(15) set_append sup_commute empty_set)
  have succs: "set (map snd (filter (\<lambda>e. fst e = last todo) sub)) = set sub `` {last todo}" by force
  have "(set sub)\<^sup>* `` {last todo} = insert (last todo) ((set sub)\<^sup>* `` (set sub `` {last todo}))"
    by (auto elim: converse_rtranclE intro: converse_rtrancl_into_rtrancl)
  then show ?thesis unfolding set_append succs td by blast
qed

lemma close_up_set:
  assumes "\<And>x y. (x, y) \<in> set sub \<Longrightarrow> x \<in> set types \<Longrightarrow> y \<in> set types \<union> set todo"
  shows "set (close_up sub todo types) = set types \<union> (set sub)\<^sup>* `` set todo"
  using assms
proof (induction sub todo types rule: close_up.induct)
  case (1 sub todo types)
  note inv = "1.prems"
  consider "todo = []" | "todo \<noteq> []" "last todo \<in> set types" | "todo \<noteq> []" "last todo \<notin> set types" by blast
  then show ?case
  proof cases
    case 1
    then show ?thesis by (simp add: close_up.simps)
  next
    case 2
    have "set (close_up sub (butlast todo) types) = set types \<union> (set sub)\<^sup>* `` set (butlast todo)"
    proof (rule "1.IH"(1) [OF 2(1) refl refl])
      fix x y assume "(x, y) \<in> set sub" "x \<in> set types"
      from inv [OF this] show "y \<in> set types \<union> set (butlast todo)"
        using 2 by (metis Un_iff append_butlast_last_id set_append list.set(1,2) singletonD)
    qed (use 2 in simp)
    then show ?thesis using 2 reach_pop [OF 2 inv] by (subst close_up.simps) simp
  next
    case 3
    let ?todo = "butlast todo @ map snd (filter (\<lambda>e. fst e = last todo) sub)"
    have "set (close_up sub ?todo (insort_insert (last todo) types))
        = set (insort_insert (last todo) types) \<union> (set sub)\<^sup>* `` set ?todo"
    proof (rule "1.IH"(2) [OF 3(1) refl refl])
      fix x y assume xy: "(x, y) \<in> set sub" "x \<in> set (insort_insert (last todo) types)"
      show "y \<in> set (insort_insert (last todo) types) \<union> set ?todo"
      proof (cases "x = last todo")
        case True
        then have "y \<in> set ?todo" using xy(1) by force
        then show ?thesis by blast
      next
        case False
        with xy have "y \<in> set types \<union> set todo" using inv by (simp add: set_insort_insert)
        then show ?thesis using 3(1)
          by (metis Un_iff append_butlast_last_id insertCI list.set(1,2) set_append set_insort_insert singletonD)
      qed
    qed (use 3 in simp)
    then show ?thesis using 3 reach_push [OF 3(1), of types sub] by (subst close_up.simps) (simp add: set_insort_insert Let_def)
  qed
qed

lemma close_up_sorted: "sorted types \<Longrightarrow> distinct types \<Longrightarrow> sorted (close_up sub todo types) \<and> distinct (close_up sub todo types)"
proof (induction sub todo types rule: close_up.induct)
  case (1 sub todo types)
  then show ?case
    by (subst (1 2) close_up.simps) (simp add: Let_def sorted_insort_insert distinct_insort_insert)
qed

text \<open>The map under construction: ordered, with closed and ordered type sets.\<close>

definition realization_wf :: "(NamedNode \<times> NamedNode) set \<Rightarrow> (IndividualIri, btree_set) btree_map \<Rightarrow> bool" where
  "realization_wf r m \<longleftrightarrow> bt_wf m \<and> (\<forall>i T. bt_get m i = Some T \<longrightarrow> T \<noteq> [] \<and> sorted T \<and> distinct T \<and> r `` set T \<subseteq> set T)"

definition type_set :: "(IndividualIri, btree_set) btree_map \<Rightarrow> IndividualIri \<Rightarrow> NamedNode set" where
  "type_set m i = (case bt_get m i of None \<Rightarrow> {} | Some T \<Rightarrow> set T)"

lemma close_up_nonempty: "set (close_up sub [c] types) = set types \<union> (set sub)\<^sup>* `` {c} \<Longrightarrow> close_up sub [c] types \<noteq> []"
  by auto

lemma realize_one:
  fixes i c :: NamedNode
  assumes "realization_wf (set sub) m"
  defines "T \<equiv> close_up sub [c] (case bt_get m i of None \<Rightarrow> [] | Some types \<Rightarrow> types)"
  shows "realization_wf (set sub) (bt_insert i T m) \<and> set T = type_set m i \<union> (set sub)\<^sup>* `` {c}"
proof -
  let ?old = "case bt_get m i of None \<Rightarrow> [] | Some types \<Rightarrow> types"
  have old: "sorted ?old" "distinct ?old" "set ?old = type_set m i" "set sub `` set ?old \<subseteq> set ?old"
    using assms(1) by (cases "bt_get m i"; auto simp: realization_wf_def type_set_def)+
  have T: "set T = type_set m i \<union> (set sub)\<^sup>* `` {c}"
    unfolding T_def by (subst close_up_set) (use old in auto)
  have "set sub `` set T \<subseteq> set T" unfolding T using old(3,4) by (auto intro: rtrancl_into_rtrancl)
  moreover have "T \<noteq> []" using T by auto
  moreover have "sorted T" "distinct T" unfolding T_def using close_up_sorted [OF old(1,2)] by auto
  ultimately show ?thesis using T assms(1) by (auto simp: realization_wf_def)
qed

lemma realize_each_result:
  assumes "realization_wf (set sub) m"
  shows "realization_wf (set sub) (realize_each sub es m)
    \<and> (\<forall>i. type_set (realize_each sub es m) i = type_set m i \<union> (set sub)\<^sup>* `` {c. (i, c) \<in> set es})"
  using assms
proof (induction es arbitrary: m)
  case (Cons e es)
  obtain i c where e: "e = (i, c)" by (cases e)
  let ?T = "close_up sub [c] (case bt_get m i of None \<Rightarrow> [] | Some types \<Rightarrow> types)"
  note one = realize_one [OF Cons.prems, of i c]
  have "type_set (bt_insert i ?T m) j = type_set m j \<union> (if j = i then (set sub)\<^sup>* `` {c} else {})" for j
    using one Cons.prems by (simp add: type_set_def realization_wf_def)
  with Cons.IH [of "bt_insert i ?T m"] one show ?case by (auto simp: e)
qed simp

lemma realization_wf_Nil [simp]: "realization_wf r []" "type_set [] i = {}"
  by (simp_all add: realization_wf_def type_set_def)

section \<open>What the reasoners answer\<close>

definition edge_set :: "string \<Rightarrow> Quad set \<Rightarrow> (NamedNode \<times> NamedNode) set" where
  "edge_set pred Q = {(s, ob). \<exists>q\<in>Q. q_predicate q = NamedNode pred \<and> q_subject q = NbNamed s \<and> q_object q = TNamed ob}"

text \<open>The types of an individual: its asserted classes and all their superclasses.\<close>

definition derived_types :: "Quad set \<Rightarrow> NamedNode \<Rightarrow> NamedNode set" where
  "derived_types Q i = (edge_set SUB_CLASS_OF Q)\<^sup>* `` (edge_set RDF_TYPE Q `` {i})"

definition type_closure :: "Quad set \<Rightarrow> Quad set" where
  "type_closure Q = {type_quad i c | i c. c \<in> derived_types Q i}"

lemma set_map_filter: "set (List.map_filter f xs) = {y. \<exists>x\<in>set xs. f x = Some y}"
  by (induction xs) (auto simp: List.map_filter_simps split: option.splits)

lemma named_edge_Some: "named_edge q = Some (s, ob) \<longleftrightarrow> q_subject q = NbNamed s \<and> q_object q = TNamed ob"
  by (auto simp: named_edge_def split: NamedOrBlankNode.splits Term.splits)

context storage_contract begin

lemma edges_Inr:
  assumes "st_ok st" "ToySubsumption_edges S st pred = Inr es"
  shows "set es = edge_set pred (quads_of st)"
proof -
  obtain tx qs where tx: "begin_read S st = Inr tx"
    and qs: "collect_results (tx_quads_for_pattern S st tx None (Some (NamedNode pred)) None None) = Inr qs"
    and es: "es = List.map_filter named_edge qs"
    using assms(2) by (auto simp: ToySubsumption_edges_def split: sum.splits)
  note ok = begin_read_ok [OF assms(1) tx]
  have "set qs = {q \<in> quads_of st. q_predicate q = NamedNode pred}"
    using pattern_ok [OF assms(1) _ qs] ok by (simp add: matches_pattern_def)
  then show ?thesis unfolding es set_map_filter edge_set_def by (auto simp: named_edge_Some)
qed

lemma realization_Inr:
  assumes "st_ok st" "ToySubsumption_realization S st = Inr r"
  shows "realization_wf (edge_set SUB_CLASS_OF (quads_of st)) (individual_types r)
    \<and> (\<forall>i. type_set (individual_types r) i = derived_types (quads_of st) i)"
proof -
  obtain sub es where sub: "ToySubsumption_edges S st SUB_CLASS_OF = Inr sub" and es: "ToySubsumption_edges S st RDF_TYPE = Inr es"
    and r: "individual_types r = realize_each sub es []"
    using assms(2) by (auto simp: ToySubsumption_realization_def InstanceRealization_new_def split: sum.splits)
  have "realization_wf (set sub) []" by simp
  from realize_each_result [OF this, of es] show ?thesis
    unfolding r edges_Inr [OF assms(1) sub] edges_Inr [OF assms(1) es] derived_types_def
    by (simp add: Image_def)
qed

lemma type_quads_Inr:
  assumes "st_ok st" "ToySubsumption_type_quads S st = Inr qs"
  shows "set qs = type_closure (quads_of st)"
proof -
  obtain r where r: "ToySubsumption_realization S st = Inr r"
    and qs: "qs = concat (map (\<lambda>(i, types). map (type_quad i) types) (individual_types r))"
    using assms(2) by (auto simp: ToySubsumption_type_quads_def split: sum.splits)
  note R = realization_Inr [OF assms(1) r]
  then have wf: "bt_wf (individual_types r)" by (simp add: realization_wf_def)
  have "set qs = {type_quad i c | i c. c \<in> type_set (individual_types r) i}"
    unfolding qs type_set_def by (force simp: bt_get_iff [OF wf, symmetric] split: option.splits)
  then show ?thesis using R by (simp add: type_closure_def)
qed

lemma insert_counting_Inr:
  assumes "st_ok st" "tx_ok st tx" "finite (view st tx)" "insert_counting S st qs n tx = (Inr m, tx')"
  shows "tx_ok st tx' \<and> writable tx' = writable tx \<and> view st tx' = view st tx \<union> set qs
    \<and> m = n + card (set qs - view st tx)"
  using assms(2-)
proof (induction qs arbitrary: n tx)
  case (Cons q qs)
  then obtain b t where t: "tx_insert S st q tx = (Inr b, t)"
    and rest: "insert_counting S st qs (n + of_bool b) t = (Inr m, tx')"
    by (auto split: prod.splits sum.splits)
  note ins = insert_ok [OF assms(1) Cons.prems(1) t]
  then have "finite (view st t)" using Cons.prems(2) by simp
  with Cons.IH [OF _ _ rest] ins
  have IH: "tx_ok st tx' \<and> writable tx' = writable tx \<and> view st tx' = insert q (view st tx) \<union> set qs"
    "m = n + of_bool (q \<notin> view st tx) + card (set qs - insert q (view st tx))" by auto
  have "card (set (q # qs) - view st tx) = of_bool (q \<notin> view st tx) + card (set qs - insert q (view st tx))"
  proof (cases "q \<in> view st tx")
    case False
    then have "set (q # qs) - view st tx = insert q (set qs - insert q (view st tx))" by auto
    with False show ?thesis by simp
  qed (simp add: insert_absorb)
  with IH show ?case by auto
qed simp

lemma materialize_Inr:
  assumes "st_ok st" "ToySubsumption_materialize S st = (Inr stats, st')"
  shows "st_ok st' \<and> quads_of st' = quads_of st \<union> type_closure (quads_of st)
    \<and> stats = stats_added (card (type_closure (quads_of st) - quads_of st))"
proof -
  obtain derived tx added tx' u where parts: "ToySubsumption_type_quads S st = Inr derived" "begin_write S st = Inr tx"
    "insert_counting S st derived 0 tx = (Inr added, tx')" "tx_commit S tx' st = (Inr u, st')" "stats = stats_added added"
    using assms(2) by (auto simp: ToySubsumption_materialize_def split: sum.splits prod.splits)
  note w = begin_write_ok [OF assms(1) parts(2)]
  have "finite (view st tx)" using w finite_quads [OF assms(1)] by simp
  from insert_counting_Inr [OF assms(1) _ this parts(3)] w
  have "tx_ok st tx'" "writable tx'" "view st tx' = quads_of st \<union> set derived" "added = card (set derived - quads_of st)" by auto
  with commit_ok [OF assms(1) _ parts(4)] show ?thesis
    using type_quads_Inr [OF assms(1) parts(1)] parts(5) by simp
qed

lemma entails_Inr:
  assumes "st_ok st" "ToySubsumption_entails S st q = Inr b"
  shows "b \<longleftrightarrow> q \<in> quads_of st \<union> type_closure (quads_of st)"
proof -
  obtain tx where tx: "begin_read S st = Inr tx"
    using assms(2) by (cases "begin_read S st") (simp_all add: ToySubsumption_entails_def)
  obtain present where present: "tx_contains S st tx q = Inr present"
    using assms(2) tx by (cases "tx_contains S st tx q") (simp_all add: ToySubsumption_entails_def)
  have "present \<and> b \<or> \<not> present \<and> (\<exists>qs. ToySubsumption_type_quads S st = Inr qs \<and> b = (q \<in> set qs))"
    using assms(2) tx present
    by (cases "ToySubsumption_type_quads S st"; cases present) (simp_all add: ToySubsumption_entails_def)
  moreover have "present \<longleftrightarrow> q \<in> quads_of st"
    using contains_ok [OF assms(1) _ present] begin_read_ok [OF assms(1) tx] by simp
  ultimately show ?thesis using type_quads_Inr [OF assms(1)] by blast
qed

end

context reliable_storage begin

lemma edges_total: "st_ok st \<Longrightarrow> \<exists>es. ToySubsumption_edges S st pred = Inr es"
proof -
  assume st: "st_ok st"
  obtain tx where tx: "begin_read S st = Inr tx" using begin_read_total [OF st] by blast
  with begin_read_ok [OF st tx] pattern_total [OF st, of tx None "Some (NamedNode pred)" None None]
  show ?thesis by (auto simp: ToySubsumption_edges_def)
qed

lemma realization_total: "st_ok st \<Longrightarrow> \<exists>r. ToySubsumption_realization S st = Inr r"
  using edges_total [of st SUB_CLASS_OF] edges_total [of st RDF_TYPE] by (auto simp: ToySubsumption_realization_def)

lemma type_quads_total: "st_ok st \<Longrightarrow> \<exists>qs. ToySubsumption_type_quads S st = Inr qs"
  using realization_total [of st] by (auto simp: ToySubsumption_type_quads_def)

lemma insert_counting_total:
  assumes "st_ok st" "tx_ok st tx" "writable tx" "\<forall>q\<in>set qs. accepts q"
  shows "\<exists>m tx'. insert_counting S st qs n tx = (Inr m, tx')"
  using assms(2-)
proof (induction qs arbitrary: n tx)
  case (Cons q qs)
  obtain b t where t: "tx_insert S st q tx = (Inr b, t)"
    using insert_total [OF assms(1) Cons.prems(1,2), of q] Cons.prems(3) by auto
  with insert_ok [OF assms(1) Cons.prems(1) t] Cons.IH [of t] Cons.prems show ?case by auto
qed simp

lemma materialize_total:
  assumes "st_ok st" "\<And>q. accepts q"
  shows "\<exists>stats st'. ToySubsumption_materialize S st = (Inr stats, st')"
proof -
  obtain qs tx where qs: "ToySubsumption_type_quads S st = Inr qs" and tx: "begin_write S st = Inr tx"
    using type_quads_total [OF assms(1)] begin_write_total [OF assms(1)] by blast
  note w = begin_write_ok [OF assms(1) tx]
  then obtain m tx' where ins: "insert_counting S st qs 0 tx = (Inr m, tx')"
    using insert_counting_total [OF assms(1), of tx qs 0] assms(2) by blast
  have "finite (view st tx)" using w finite_quads [OF assms(1)] by simp
  then have "tx_ok st tx'" using insert_counting_Inr [OF assms(1) _ _ ins] w by simp
  then obtain st' where "tx_commit S tx' st = (Inr (), st')" using commit_total [OF assms(1)] by blast
  with qs tx ins show ?thesis by (auto simp: ToySubsumption_materialize_def)
qed

lemma entails_total: "st_ok st \<Longrightarrow> \<exists>b. ToySubsumption_entails S st q = Inr b"
proof -
  assume st: "st_ok st"
  obtain tx qs where tx: "begin_read S st = Inr tx" and qs: "ToySubsumption_type_quads S st = Inr qs"
    using begin_read_total [OF st] type_quads_total [OF st] by blast
  with begin_read_ok [OF st tx] contains_total [OF st, of tx q] show ?thesis
    by (auto simp: ToySubsumption_entails_def)
qed

end

section \<open>Symmetry\<close>

text \<open>
  The converses that are missing for the quads \<open>A\<close>, in a store with the quads \<open>Q\<close>: those
  whose converse is not asserted in the graph of the quad itself.
\<close>

definition missing :: "Quad set \<Rightarrow> Quad set \<Rightarrow> Quad set" where
  "missing Q A = {cq. \<exists>q\<in>A. converse_quad q = Some cq \<and> cq\<lparr>q_graph := q_graph q\<rparr> \<notin> Q}"

definition knows_quads :: "Quad set \<Rightarrow> Quad set" where
  "knows_quads Q = {q \<in> Q. q_predicate q = ex ''knows''}"

definition inferred_quads :: "Quad set \<Rightarrow> Quad set" where
  "inferred_quads Q = {q \<in> Q. q_graph q = SymmetricClosure_inferred}"

lemma converse_graph: "converse_quad q = Some cq \<Longrightarrow> q_graph cq = SymmetricClosure_inferred"
  by (auto simp: converse_quad_def split: NamedOrBlankNode.splits Term.splits)

lemma missing_insert_inferred:
  assumes "\<forall>q\<in>A. q_graph q \<noteq> SymmetricClosure_inferred" "q_graph x = SymmetricClosure_inferred"
  shows "missing (insert x Q) A = missing Q A"
  using assms by (auto simp: missing_def)

lemma missing_Cons:
  "missing Q (insert q A) =
     (case converse_quad q of None \<Rightarrow> missing Q A
      | Some cq \<Rightarrow> if cq\<lparr>q_graph := q_graph q\<rparr> \<in> Q then missing Q A else insert cq (missing Q A))"
  by (auto simp: missing_def split: option.splits)

lemma missing_inferred: "cq \<in> missing Q A \<Longrightarrow> q_graph cq = SymmetricClosure_inferred"
  by (auto simp: missing_def converse_graph)

lemma finite_missing: "finite A \<Longrightarrow> finite (missing Q A)"
proof -
  assume "finite A"
  then have "finite ((\<lambda>q. the (converse_quad q)) ` A)" by simp
  then show ?thesis by (rule finite_subset [rotated]) (force simp: missing_def)
qed

context storage_contract begin

lemma insert_converses_Inr:
  assumes "st_ok st" "tx_ok st tx" "finite (view st tx)" "\<forall>q\<in>set qs. q_graph q \<noteq> SymmetricClosure_inferred"
    and "insert_converses S st qs n tx = (Inr m, tx')"
  shows "tx_ok st tx' \<and> writable tx' = writable tx \<and> view st tx' = view st tx \<union> missing (view st tx) (set qs)
    \<and> m = n + card (missing (view st tx) (set qs) - view st tx)"
  using assms(2-)
proof (induction qs arbitrary: n tx)
  case Nil
  then show ?case by (simp add: missing_def)
next
  case (Cons q qs)
  show ?case
  proof (cases "converse_quad q")
    case None
    with Cons show ?thesis by (simp add: missing_Cons)
  next
    case (Some cq)
    with Cons.prems(4) obtain present where present: "tx_contains S st tx (cq\<lparr>q_graph := q_graph q\<rparr>) = Inr present"
      by (auto split: sum.splits)
    then have here: "present \<longleftrightarrow> cq\<lparr>q_graph := q_graph q\<rparr> \<in> view st tx" by (rule contains_ok [OF assms(1) Cons.prems(1)])
    show ?thesis
    proof (cases present)
      case True
      with Some present here Cons show ?thesis by (simp add: missing_Cons)
    next
      case False
      with Some present Cons.prems(4) obtain b t where t: "tx_insert S st cq tx = (Inr b, t)"
        and rest: "insert_converses S st qs (if b then n + 1 else n) t = (Inr m, tx')"
        by (auto split: prod.splits sum.splits)
      note ins = insert_ok [OF assms(1) Cons.prems(1) t]
      let ?M = "missing (view st tx) (set qs)"
      have M: "missing (insert cq (view st tx)) (set qs) = ?M"
        using Cons.prems(3) by (intro missing_insert_inferred converse_graph [OF Some]) simp
      have IH: "tx_ok st tx'" "writable tx' = writable tx" "view st tx' = insert cq (view st tx) \<union> ?M"
        "m = (if b then n + 1 else n) + card (?M - insert cq (view st tx))"
        using Cons.IH [OF _ _ _ rest] ins Cons.prems(2,3) M by auto
      have "card (insert cq ?M - view st tx) = of_bool b + card (?M - insert cq (view st tx))"
      proof (cases b)
        case True
        then have "insert cq ?M - view st tx = insert cq (?M - insert cq (view st tx))" using ins by auto
        with True show ?thesis by (simp add: finite_missing)
      qed (use ins in \<open>simp add: insert_absorb\<close>)
      with IH Some here False show ?thesis by (auto simp: missing_Cons)
    qed
  qed
qed

lemma add_converses_Inr:
  assumes "st_ok st" "\<forall>q\<in>set qs. q_graph q \<noteq> SymmetricClosure_inferred" "add_converses S qs st = (Inr stats, st')"
  shows "st_ok st' \<and> quads_of st' = quads_of st \<union> missing (quads_of st) (set qs)
    \<and> stats = stats_added (card (missing (quads_of st) (set qs) - quads_of st))"
proof -
  obtain tx added tx' u where parts: "begin_write S st = Inr tx" "insert_converses S st qs 0 tx = (Inr added, tx')"
    "tx_commit S tx' st = (Inr u, st')" "stats = stats_added added"
    using assms(3) by (auto simp: add_converses_def split: sum.splits prod.splits)
  note w = begin_write_ok [OF assms(1) parts(1)]
  have "finite (view st tx)" using w finite_quads [OF assms(1)] by simp
  from insert_converses_Inr [OF assms(1) _ this assms(2) parts(2)] w
  have "tx_ok st tx'" "writable tx'" "view st tx' = quads_of st \<union> missing (quads_of st) (set qs)"
    "added = card (missing (quads_of st) (set qs) - quads_of st)" by auto
  with commit_ok [OF assms(1) _ parts(3)] parts(4) show ?thesis by simp
qed

lemma sym_materialize_Inr:
  assumes "st_ok st" "SymmetricClosure_materialize S st = (Inr stats, st')"
  shows "st_ok st' \<and> quads_of st' = quads_of st \<union> missing (quads_of st) {q \<in> knows_quads (quads_of st). q_graph q = GDefault}
    \<and> stats = stats_added (card (missing (quads_of st) {q \<in> knows_quads (quads_of st). q_graph q = GDefault} - quads_of st))"
proof -
  obtain tx qs where tx: "begin_read S st = Inr tx"
    and qs: "collect_results (tx_quads_for_pattern S st tx None (Some (ex ''knows'')) None (Some GDefault)) = Inr qs"
    and add: "add_converses S qs st = (Inr stats, st')"
    using assms(2) by (auto simp: SymmetricClosure_materialize_def split: sum.splits)
  have "set qs = {q \<in> knows_quads (quads_of st). q_graph q = GDefault}"
    using pattern_ok [OF assms(1) _ qs] begin_read_ok [OF assms(1) tx] by (auto simp: matches_pattern_def knows_quads_def)
  moreover from this have "\<forall>q\<in>set qs. q_graph q \<noteq> SymmetricClosure_inferred" by (simp add: SymmetricClosure_inferred_def)
  ultimately show ?thesis using add_converses_Inr [OF assms(1) _ add] by simp
qed

lemma sym_dematerialize_Inr:
  assumes "st_ok st" "SymmetricClosure_dematerialize S st = (Inr u, st')"
  shows "st_ok st' \<and> quads_of st' = quads_of st - inferred_quads (quads_of st)"
proof -
  obtain tx qs tx' v where tx: "begin_write S st = Inr tx"
    and qs: "collect_results (tx_quads_for_pattern S st tx None None None (Some SymmetricClosure_inferred)) = Inr qs"
    and rem: "remove_each S st qs tx = (Inr v, tx')" and com: "tx_commit S tx' st = (Inr u, st')"
    using assms(2) by (auto simp: SymmetricClosure_dematerialize_def split: sum.splits prod.splits)
  note w = begin_write_ok [OF assms(1) tx]
  have "set qs = inferred_quads (quads_of st)"
    using pattern_ok [OF assms(1) _ qs] w by (auto simp: matches_pattern_def inferred_quads_def)
  with remove_each_Inr [OF assms(1) _ rem] w commit_ok [OF assms(1) _ com] show ?thesis by simp
qed

end

context reliable_storage begin

lemma insert_converses_total:
  assumes "st_ok st" "tx_ok st tx" "writable tx" "\<And>q. accepts q"
  shows "\<exists>m tx'. insert_converses S st qs n tx = (Inr m, tx') \<and> tx_ok st tx'"
  using assms(2,3)
proof (induction qs arbitrary: n tx)
  case (Cons q qs)
  show ?case
  proof (cases "converse_quad q")
    case None
    with Cons show ?thesis by simp
  next
    case (Some cq)
    obtain present where "tx_contains S st tx (cq\<lparr>q_graph := q_graph q\<rparr>) = Inr present"
      using contains_total [OF assms(1) Cons.prems(1)] by blast
    moreover obtain b t where t: "tx_insert S st cq tx = (Inr b, t)"
      using insert_total [OF assms(1) Cons.prems assms(4)] by blast
    ultimately show ?thesis
      using Some insert_ok [OF assms(1) Cons.prems(1) t] Cons.IH [of tx n] Cons.IH [of t "if b then n + 1 else n"] Cons.prems
      by simp
  qed
qed simp

lemma add_converses_total:
  assumes "st_ok st" "\<And>q. accepts q"
  shows "\<exists>stats st'. add_converses S qs st = (Inr stats, st')"
proof -
  obtain tx where tx: "begin_write S st = Inr tx" using begin_write_total [OF assms(1)] by blast
  note w = begin_write_ok [OF assms(1) tx]
  then obtain m tx' where ins: "insert_converses S st qs 0 tx = (Inr m, tx')" "tx_ok st tx'"
    using insert_converses_total [OF assms(1) _ _ assms(2)] by blast
  then obtain st' where "tx_commit S tx' st = (Inr (), st')" using commit_total [OF assms(1)] by blast
  with tx ins show ?thesis by (simp add: add_converses_def)
qed

lemma sym_materialize_total:
  assumes "st_ok st" "\<And>q. accepts q"
  shows "\<exists>stats st'. SymmetricClosure_materialize S st = (Inr stats, st')"
proof -
  obtain tx where tx: "begin_read S st = Inr tx" using begin_read_total [OF assms(1)] by blast
  then obtain qs where "collect_results (tx_quads_for_pattern S st tx None (Some (ex ''knows'')) None (Some GDefault)) = Inr qs"
    using pattern_total [OF assms(1)] begin_read_ok [OF assms(1) tx] by blast
  with tx add_converses_total [OF assms] show ?thesis by (simp add: SymmetricClosure_materialize_def)
qed

lemma sym_dematerialize_total:
  assumes "st_ok st"
  shows "\<exists>st'. SymmetricClosure_dematerialize S st = (Inr (), st')"
proof -
  obtain tx where tx: "begin_write S st = Inr tx" using begin_write_total [OF assms] by blast
  note w = begin_write_ok [OF assms tx]
  obtain qs where qs: "collect_results (tx_quads_for_pattern S st tx None None None (Some SymmetricClosure_inferred)) = Inr qs"
    using pattern_total [OF assms] w by blast
  obtain tx' where rem: "remove_each S st qs tx = (Inr (), tx')" using remove_each_total [OF assms] w by blast
  then have "tx_ok st tx'" using remove_each_Inr [OF assms _ rem] w by blast
  then obtain st' where "tx_commit S tx' st = (Inr (), st')" using commit_total [OF assms] by blast
  with tx qs rem show ?thesis by (simp add: SymmetricClosure_dematerialize_def)
qed

end

section \<open>Properties\<close>

lemma edge_set_Un: "edge_set pred (A \<union> B) = edge_set pred A \<union> edge_set pred B"
  by (auto simp: edge_set_def)

lemma derived_types_closed: "derived_types (Q \<union> type_closure Q) = derived_types Q"
proof
  fix i
  have sub: "edge_set SUB_CLASS_OF (Q \<union> type_closure Q) = edge_set SUB_CLASS_OF Q"
    by (auto simp: edge_set_def type_closure_def type_quad_def SUB_CLASS_OF_def RDF_TYPE_def)
  have "edge_set RDF_TYPE (type_closure Q) = {(i, c). c \<in> derived_types Q i}"
    by (force simp: edge_set_def type_closure_def type_quad_def)
  then have "edge_set RDF_TYPE (Q \<union> type_closure Q) = edge_set RDF_TYPE Q \<union> {(i, c). c \<in> derived_types Q i}"
    by (simp only: edge_set_Un)
  then have "derived_types (Q \<union> type_closure Q) i
      = (edge_set SUB_CLASS_OF Q)\<^sup>* `` (edge_set RDF_TYPE Q `` {i} \<union> derived_types Q i)"
    by (auto simp: derived_types_def [of "Q \<union> type_closure Q"] sub)
  also have "\<dots> = derived_types Q i"
    by (auto simp: derived_types_def intro: rtrancl_trans)
  finally show "derived_types (Q \<union> type_closure Q) i = derived_types Q i" .
qed

text \<open>
  C28. The loop that closes a set of types upwards ends, for every class hierarchy, cycles
  included: the iteration of its body reaches an empty stack, with the value of
  \<open>close_up\<close>; from one class it collects exactly the superclasses, in order, each once.
\<close>

theorem closure_loop_terminates:
  "while_option (\<lambda>(todo, types). todo \<noteq> []) (close_step sub) (todo, types) = Some ([], close_up sub todo types)
   \<and> set (close_up sub [c] []) = (set sub)\<^sup>* `` {c} \<and> sorted_wrt (<) (close_up sub [c] [])"
  using close_up_while [of sub todo types] close_up_set [of sub "[]" "[c]"] close_up_sorted [of "[]" sub "[c]"]
  by (simp add: strict_sorted_iff)

text \<open>
  Realization: for every individual the reasoner reports its asserted classes and all
  their superclasses, ordered and without repetition, and it reports an individual exactly if
  it has a type.
\<close>

lemma toy_realization:
  assumes "distinct st"
  shows "\<exists>r. ToySubsumption_realize DocStore_storage st = Inr r
    \<and> (\<forall>i. case types_of r i of
          None \<Rightarrow> derived_types (set st) i = {}
        | Some T \<Rightarrow> T \<noteq> [] \<and> sorted_wrt (<) T \<and> set T = derived_types (set st) i)"
proof -
  obtain r where r: "ToySubsumption_realization DocStore_storage st = Inr r"
    using docmem.realization_total [OF assms] by blast
  note R = docmem.realization_Inr [OF assms r]
  have "case types_of r i of None \<Rightarrow> derived_types (set st) i = {}
      | Some T \<Rightarrow> T \<noteq> [] \<and> sorted_wrt (<) T \<and> set T = derived_types (set st) i" for i
    using R [THEN conjunct2, rule_format, of i] R [THEN conjunct1]
    by (auto simp: types_of_def type_set_def realization_wf_def strict_sorted_iff split: option.splits)
  then show ?thesis using r by (auto simp: ToySubsumption_realize_def)
qed

text \<open>
  Materialization writes exactly the derived types, counts the new quads, and is
  saturated: a second run adds nothing.
\<close>

theorem toy_materialize_saturates:
  assumes "distinct st"
  shows "\<exists>st' st''. ToySubsumption_materialize DocStore_storage st
        = (Inr (stats_added (card (type_closure (set st) - set st))), st')
    \<and> set st' = set st \<union> type_closure (set st) \<and> distinct st'
    \<and> ToySubsumption_materialize DocStore_storage st' = (Inr (stats_added 0), st'') \<and> set st'' = set st'"
proof -
  obtain stats st' where m1: "ToySubsumption_materialize DocStore_storage st = (Inr stats, st')"
    using docmem.materialize_total [OF assms] by blast
  note r1 = docmem.materialize_Inr [OF assms m1]
  obtain stats' st'' where m2: "ToySubsumption_materialize DocStore_storage st' = (Inr stats', st'')"
    using docmem.materialize_total [of st'] r1 by blast
  have "type_closure (set st') = type_closure (set st)"
    using r1 derived_types_closed [of "set st"] by (simp add: type_closure_def)
  then have none: "type_closure (set st') - set st' = {}" "set st' \<union> type_closure (set st') = set st'" using r1 by auto
  have "stats' = stats_added 0 \<and> set st'' = set st'"
    using docmem.materialize_Inr [OF _ m2] r1 unfolding none by simp
  then show ?thesis using m1 m2 r1 by blast
qed

text \<open>
  C29. Backward and forward chaining agree: a quad is entailed exactly if materialization
  leaves it in the store, because it was asserted or because it was derived.
\<close>

theorem toy_entails_iff_materialized:
  assumes "distinct st"
  shows "ToySubsumption_entails DocStore_storage st q
    = Inr (q \<in> set (snd (ToySubsumption_materialize DocStore_storage st)))"
proof -
  obtain stats st' where m: "ToySubsumption_materialize DocStore_storage st = (Inr stats, st')"
    using docmem.materialize_total [OF assms] by blast
  obtain b where b: "ToySubsumption_entails DocStore_storage st q = Inr b"
    using docmem.entails_total [OF assms] by blast
  show ?thesis using docmem.entails_Inr [OF assms b] docmem.materialize_Inr [OF assms m] b m by simp
qed

text \<open>
  The symmetric closure: materialization adds exactly the converses of the \<open>knows\<close>
  quads of the default graph that are not asserted, to the inferred graph, and
  dematerialization gives back the asserted base.
\<close>

lemma symmetric_closure_round_trip:
  assumes "distinct st" "inferred_quads (set st) = {}"
  shows "\<exists>n st1 st2. SymmetricClosure_materialize DocStore_storage st = (Inr (stats_added n), st1)
    \<and> set st1 = set st \<union> missing (set st) {q \<in> knows_quads (set st). q_graph q = GDefault}
    \<and> n = card (set st1 - set st)
    \<and> SymmetricClosure_dematerialize DocStore_storage st1 = (Inr (), st2) \<and> set st2 = set st"
proof -
  let ?M = "missing (set st) {q \<in> knows_quads (set st). q_graph q = GDefault}"
  obtain stats st1 where m: "SymmetricClosure_materialize DocStore_storage st = (Inr stats, st1)"
    using docmem.sym_materialize_total [OF assms(1)] by blast
  note r1 = docmem.sym_materialize_Inr [OF assms(1) m]
  obtain st2 where d: "SymmetricClosure_dematerialize DocStore_storage st1 = (Inr (), st2)"
    using docmem.sym_dematerialize_total r1 by blast
  have "inferred_quads (set st1) = ?M"
    using r1 assms(2) missing_inferred [of _ "set st"] by (auto simp: inferred_quads_def)
  moreover have "?M \<inter> set st = {}"
    using assms(2) missing_inferred [of _ "set st"] by (auto simp: inferred_quads_def)
  moreover have st1: "set st1 = set st \<union> ?M" "set st2 = set st1 - inferred_quads (set st1)"
    using docmem.sym_dematerialize_Inr [OF _ d] r1 by blast+
  ultimately have "set st2 = set st" by blast
  moreover have "set st1 - set st = ?M - set st" unfolding st1(1) by blast
  then have "stats = stats_added (card (set st1 - set st))" using r1 by simp
  ultimately show ?thesis using m d st1(1) by (intro exI [of _ "card (set st1 - set st)"] exI [of _ st1] exI [of _ st2]) simp
qed

text \<open>
  After a removal the symmetric closure is recomputed: whatever the inferred graph held,
  it afterwards holds exactly what a fresh materialization of the asserted base gives.
\<close>

lemma symmetric_on_remove_recomputes:
  assumes "distinct st"
  shows "\<exists>stats st'. SymmetricClosure_on_remove DocStore_storage removed st = (Inr stats, st')
    \<and> (let base = set st - inferred_quads (set st)
       in set st' = base \<union> missing base {q \<in> knows_quads base. q_graph q = GDefault})"
proof -
  obtain st1 where d: "SymmetricClosure_dematerialize DocStore_storage st = (Inr (), st1)"
    using docmem.sym_dematerialize_total [OF assms] by blast
  note r1 = docmem.sym_dematerialize_Inr [OF assms d]
  obtain stats st' where m: "SymmetricClosure_materialize DocStore_storage st1 = (Inr stats, st')"
    using docmem.sym_materialize_total [of st1] r1 by blast
  have "SymmetricClosure_on_remove DocStore_storage removed st = (Inr stats, st')"
    using d m by (simp add: SymmetricClosure_on_remove_def)
  moreover have "let base = set st - inferred_quads (set st)
      in set st' = base \<union> missing base {q \<in> knows_quads base. q_graph q = GDefault}"
    using docmem.sym_materialize_Inr [OF _ m] r1 by (simp add: Let_def)
  ultimately show ?thesis by blast
qed

text \<open>
  The invariant of incremental maintenance: every asserted \<open>knows\<close> has its converse, in the
  same graph or in the inferred one.
\<close>

definition symmetric :: "Quad set \<Rightarrow> bool" where
  "symmetric Q \<longleftrightarrow>
     (\<forall>q\<in>knows_quads Q. q_graph q \<noteq> SymmetricClosure_inferred \<longrightarrow>
        (case converse_quad q of None \<Rightarrow> True | Some cq \<Rightarrow> cq \<in> Q \<or> cq\<lparr>q_graph := q_graph q\<rparr> \<in> Q))"

text \<open>
  Incremental insertion keeps the closure symmetric: if it was symmetric before the
  caller inserted the quads, it is symmetric after \<open>on_insert\<close>.
\<close>

lemma symmetric_on_insert_keeps:
  assumes "distinct st" "set st = Q \<union> set inserted" "symmetric Q"
    and "\<forall>q\<in>set inserted. q_graph q \<noteq> SymmetricClosure_inferred"
  shows "\<exists>stats st'. SymmetricClosure_on_insert DocStore_storage inserted st = (Inr stats, st')
    \<and> symmetric (set st') \<and> set st \<subseteq> set st'"
proof -
  let ?new = "filter (\<lambda>q. q_predicate q = ex ''knows'') inserted"
  obtain stats st' where a: "add_converses DocStore_storage ?new st = (Inr stats, st')"
    using docmem.add_converses_total [OF assms(1)] by blast
  have st': "set st' = set st \<union> missing (set st) (set ?new)"
    using docmem.add_converses_Inr [OF assms(1) _ a] assms(4) by simp
  have "case converse_quad q of None \<Rightarrow> True | Some cq \<Rightarrow> cq \<in> set st' \<or> cq\<lparr>q_graph := q_graph q\<rparr> \<in> set st'"
    if q: "q \<in> knows_quads (set st')" "q_graph q \<noteq> SymmetricClosure_inferred" for q
  proof -
    have "q \<in> Q \<or> q \<in> set ?new"
      using q missing_inferred [of q] assms(2) unfolding st' knows_quads_def by auto
    then show ?thesis
    proof
      assume "q \<in> Q"
      then have "case converse_quad q of None \<Rightarrow> True | Some cq \<Rightarrow> cq \<in> Q \<or> cq\<lparr>q_graph := q_graph q\<rparr> \<in> Q"
        using assms(3) q by (simp add: symmetric_def knows_quads_def)
      then show ?thesis using assms(2) unfolding st' by (auto split: option.splits)
    next
      assume "q \<in> set ?new"
      then show ?thesis unfolding st' missing_def by (auto split: option.splits)
    qed
  qed
  then have "symmetric (set st')" by (simp add: symmetric_def)
  then show ?thesis using a st' by (auto simp: SymmetricClosure_on_insert_def)
qed

text \<open>A set of profiles: the bits of distinct profiles are disjoint.\<close>

lemma profile_bits_disjoint: "and (OwlProfile_bit p) (OwlProfile_bit q) = (if p = q then OwlProfile_bit p else 0)" "OwlProfile_bit p \<noteq> 0"
  by (cases p; cases q; simp)+

lemma contains_with: "ProfileSet_contains (ProfileSet_with ps p) q \<longleftrightarrow> q = p \<or> ProfileSet_contains ps q"
  by (auto simp: ProfileSet_contains_def ProfileSet_with_def bit.conj_disj_distrib2 profile_bits_disjoint or_eq_0_iff)

lemma profile_set_members:
  "(ProfileSet_contains (foldl ProfileSet_with ps qs) p \<longleftrightarrow> p \<in> set qs \<or> ProfileSet_contains ps p)"
  by (induction qs arbitrary: ps) (auto simp: contains_with)

text \<open>
  A profile set is a set: after any additions it contains exactly the profiles added,
  whatever the order and however often, and it is empty exactly if none was added.
\<close>

theorem profile_set_refines:
  "let s = foldl ProfileSet_with ProfileSet_empty qs
   in (ProfileSet_contains s p \<longleftrightarrow> p \<in> set qs) \<and> (ProfileSet_is_empty s \<longleftrightarrow> qs = [])
    \<and> foldr ProfileSet_insert qs ProfileSet_empty = s"
proof -
  let ?s = "foldl ProfileSet_with ProfileSet_empty qs"
  have mem: "ProfileSet_contains ?s p \<longleftrightarrow> p \<in> set qs" for p
    by (simp add: profile_set_members) (simp add: ProfileSet_contains_def ProfileSet_empty_def)
  have "ProfileSet_is_empty ?s \<longleftrightarrow> qs = []"
  proof (cases qs)
    case (Cons q qs')
    then have "ProfileSet_contains ?s q" unfolding mem by simp
    then show ?thesis using Cons by (auto simp: ProfileSet_contains_def ProfileSet_is_empty_def)
  qed (simp add: ProfileSet_is_empty_def ProfileSet_empty_def)
  moreover have "foldr ProfileSet_insert qs ps = foldl ProfileSet_with ps qs" for ps
  proof (induction qs arbitrary: ps)
    case (Cons q qs)
    have "ProfileSet_insert q (foldl ProfileSet_with ps rs) = foldl ProfileSet_with (ProfileSet_with ps q) rs" for rs
      by (induction rs arbitrary: ps)
        (simp_all add: ProfileSet_insert_def ProfileSet_with_def or.assoc or.commute or.left_commute)
    with Cons.IH show ?case by simp
  qed simp
  ultimately show ?thesis using mem by (simp add: Let_def)
qed

section \<open>Witnesses\<close>

definition w_types :: DocStore where
  "w_types = [Quad_triple (NbNamed (ex ''Cat'')) (NamedNode SUB_CLASS_OF) (TNamed (ex ''Animal'')),
     Quad_triple (NbNamed (ex ''Animal'')) (NamedNode SUB_CLASS_OF) (TNamed (ex ''Cat'')),
     type_quad (ex ''tom'') (ex ''Cat'')]"

definition w_knows :: DocStore where
  "w_knows = [Quad_triple (NbNamed (ex ''alice'')) (ex ''knows'') (TNamed (ex ''bob''))]"

lemma w_distinct: "distinct w_types" "distinct w_knows"
  by (simp_all add: w_types_def w_knows_def type_quad_def Quad_eq_iff ex_def SUB_CLASS_OF_def RDF_TYPE_def)

lemma w_derived: "derived_types (set w_types) (ex ''tom'') = {ex ''Cat'', ex ''Animal''}"
proof -
  have sub: "edge_set SUB_CLASS_OF (set w_types) = {(ex ''Cat'', ex ''Animal''), (ex ''Animal'', ex ''Cat'')}"
    by (force simp: edge_set_def w_types_def type_quad_def SUB_CLASS_OF_def RDF_TYPE_def)
  have "edge_set RDF_TYPE (set w_types) = {(ex ''tom'', ex ''Cat'')}"
    by (force simp: edge_set_def w_types_def type_quad_def SUB_CLASS_OF_def RDF_TYPE_def)
  moreover have "c \<in> {ex ''Cat'', ex ''Animal''}" if "(ex ''Cat'', c) \<in> {(ex ''Cat'', ex ''Animal''), (ex ''Animal'', ex ''Cat'')}\<^sup>*" for c
    using that by (induction rule: rtrancl_induct) auto
  ultimately show ?thesis unfolding derived_types_def sub by auto
qed

lemma toy_realization_example:
  "\<exists>r T. ToySubsumption_realize DocStore_storage w_types = Inr r \<and> types_of r (ex ''tom'') = Some T
     \<and> set T = {ex ''Cat'', ex ''Animal''}"
proof -
  obtain r where r: "ToySubsumption_realize DocStore_storage w_types = Inr r"
    "case types_of r (ex ''tom'') of None \<Rightarrow> derived_types (set w_types) (ex ''tom'') = {}
      | Some T \<Rightarrow> T \<noteq> [] \<and> sorted_wrt (<) T \<and> set T = derived_types (set w_types) (ex ''tom'')"
    using toy_realization [OF w_distinct(1)] by blast
  then show ?thesis by (cases "types_of r (ex ''tom'')") (auto simp: w_derived)
qed

theorem toy_materialize_saturates_witness:
  "\<exists>st' st''. ToySubsumption_materialize DocStore_storage w_types = (Inr (stats_added 1), st')
     \<and> type_quad (ex ''tom'') (ex ''Animal'') \<in> set st'
     \<and> ToySubsumption_materialize DocStore_storage st' = (Inr (stats_added 0), st'')"
proof -
  have other: "derived_types (set w_types) i = {}" if "i \<noteq> ex ''tom''" for i
    using that by (auto simp: derived_types_def edge_set_def w_types_def type_quad_def SUB_CLASS_OF_def RDF_TYPE_def)
  have closure: "type_closure (set w_types) = {type_quad (ex ''tom'') (ex ''Cat''), type_quad (ex ''tom'') (ex ''Animal'')}"
  proof -
    have "c \<in> derived_types (set w_types) i \<longleftrightarrow> i = ex ''tom'' \<and> (c = ex ''Cat'' \<or> c = ex ''Animal'')" for i c
      using w_derived other by (cases "i = ex ''tom''") simp_all
    then show ?thesis by (auto simp: type_closure_def)
  qed
  have "type_closure (set w_types) - set w_types = {type_quad (ex ''tom'') (ex ''Animal'')}"
    unfolding closure by (auto simp: w_types_def type_quad_def Quad_eq_iff ex_def SUB_CLASS_OF_def RDF_TYPE_def)
  then have "card (type_closure (set w_types) - set w_types) = 1" by simp
  with toy_materialize_saturates [OF w_distinct(1)] closure show ?thesis by (metis UnCI insertCI)
qed

theorem toy_entails_iff_materialized_witness:
  "ToySubsumption_entails DocStore_storage w_types (type_quad (ex ''tom'') (ex ''tom''))
    = Inr (type_quad (ex ''tom'') (ex ''tom'') \<in> set (snd (ToySubsumption_materialize DocStore_storage w_types)))"
  by (rule toy_entails_iff_materialized [OF w_distinct(1)])

lemma symmetric_closure_round_trip_example:
  "\<exists>st1 st2. SymmetricClosure_materialize DocStore_storage w_knows = (Inr (stats_added 1), st1)
     \<and> SymmetricClosure_dematerialize DocStore_storage st1 = (Inr (), st2) \<and> set st2 = set w_knows"
proof -
  have none: "inferred_quads (set w_knows) = {}" by (simp add: inferred_quads_def w_knows_def SymmetricClosure_inferred_def)
  let ?rq = "Quad_new (NbNamed (ex ''bob'')) (ex ''knows'') (TNamed (ex ''alice'')) SymmetricClosure_inferred"
  have "{q \<in> knows_quads (set w_knows). q_graph q = GDefault} = set w_knows"
    by (auto simp: knows_quads_def w_knows_def)
  moreover have "missing (set w_knows) (set w_knows) = {?rq}"
    by (auto simp: missing_def w_knows_def converse_quad_def ex_def Quad_new_def Quad_triple_def)
  ultimately have M: "missing (set w_knows) {q \<in> knows_quads (set w_knows). q_graph q = GDefault} = {?rq}" by simp
  have new: "?rq \<notin> set w_knows"
    by (simp add: w_knows_def Quad_new_def Quad_triple_def SymmetricClosure_inferred_def)
  obtain n st1 st2 where run: "SymmetricClosure_materialize DocStore_storage w_knows = (Inr (stats_added n), st1)"
    "set st1 = set w_knows \<union> {?rq}" "n = card (set st1 - set w_knows)"
    "SymmetricClosure_dematerialize DocStore_storage st1 = (Inr (), st2)" "set st2 = set w_knows"
    using symmetric_closure_round_trip [OF w_distinct(2) none] unfolding M by blast
  have "set st1 - set w_knows = {?rq}" unfolding run(2) using new by blast
  then have "n = 1" using run(3) by simp
  with run(1,4,5) show ?thesis by (intro exI [of _ st1] exI [of _ st2]) simp
qed

end
