(* ===== verification/Example_Engines.thy ===== *)
theory Example_Engines
  imports Mem_Store Datalog_Ir Shacl_Report
begin

text \<open>
  What the example engines of the documentation compute: \<open>OneStep\<close> of
  \<^verbatim>\<open>semanticore-core/src/datalog.rs\<close> against the model-theoretic reading of its rules, and
  \<open>MinCountOne\<close> of \<^verbatim>\<open>semanticore-core/src/shacl.rs\<close> against the set of missing values. The
  lemmas are proved in the locales of the storage contract; the theorems are about the store
  the engines are documented with.
\<close>

section \<open>Errors of the engine families\<close>

datatype DatalogError =
    GroundingFailure string string
  | StratificationViolation string
  | DatalogEvaluationLimitExceeded nat
  | DatalogQuotaExceeded string nat
  | DatalogLicense string

fun DatalogError_display :: "DatalogError \<Rightarrow> string" where
  "DatalogError_display (GroundingFailure rule reason) = ''grounding failure in rule '' @ rule @ '': '' @ reason"
| "DatalogError_display (StratificationViolation rule_set) = ''stratification violation: '' @ rule_set"
| "DatalogError_display (DatalogEvaluationLimitExceeded iters) =
     ''evaluation limit exceeded after '' @ show_nat iters @ '' iterations''"
| "DatalogError_display (DatalogQuotaExceeded knd limit) = ''quota exceeded: '' @ knd @ '' (limit '' @ show_nat limit @ '')''"
| "DatalogError_display (DatalogLicense feature) = ''feature not licensed: '' @ feature"

datatype ShaclError =
    ConstraintViolation NamedOrBlankNode NamedNode string
  | UnsupportedConstraintComponent NamedNode
  | SparqlExecutionError string
  | MalformedShapesGraph string
  | ShaclQuotaExceeded string nat
  | ShaclLicense string

text \<open>
  \<open>Display\<close> of \<open>ShaclError\<close>. Nodes appear in their derived \<open>Debug\<close> form, in which the library
  quotes a string; that is the parameter \<open>dbg\<close>.
\<close>

definition NamedNode_debug :: "(string \<Rightarrow> string) \<Rightarrow> NamedNode \<Rightarrow> string" where
  "NamedNode_debug dbg n = ''NamedNode { iri: '' @ dbg (iri n) @ '' }''"

fun NamedOrBlankNode_debug :: "(string \<Rightarrow> string) \<Rightarrow> NamedOrBlankNode \<Rightarrow> string" where
  "NamedOrBlankNode_debug dbg (NbNamed n) = ''Named('' @ NamedNode_debug dbg n @ '')''"
| "NamedOrBlankNode_debug dbg (NbBlank b) = ''Blank(BlankNode { id: '' @ dbg (label b) @ '' })''"

fun ShaclError_display :: "(string \<Rightarrow> string) \<Rightarrow> ShaclError \<Rightarrow> string" where
  "ShaclError_display dbg (ConstraintViolation focus con message) =
     ''constraint violation on '' @ NamedOrBlankNode_debug dbg focus @ '' ('' @ NamedNode_debug dbg con @ ''): '' @ message"
| "ShaclError_display dbg (UnsupportedConstraintComponent com) = ''unsupported constraint component: '' @ NamedNode_debug dbg com"
| "ShaclError_display dbg (SparqlExecutionError detail) = ''sparql execution error: '' @ detail"
| "ShaclError_display dbg (MalformedShapesGraph reason) = ''malformed shapes graph: '' @ reason"
| "ShaclError_display dbg (ShaclQuotaExceeded knd limit) = ''quota exceeded: '' @ knd @ '' (limit '' @ show_nat limit @ '')''"
| "ShaclError_display dbg (ShaclLicense feature) = ''feature not licensed: '' @ feature"

definition OneStep_supports_negation :: NegationKind where
  "OneStep_supports_negation = NegNone"

section \<open>Datalog results\<close>

definition facts :: "DatalogResult \<Rightarrow> NamedNode \<Rightarrow> Term list set" where
  "facts r p = (case relation r p of None \<Rightarrow> {} | Some ts \<Rightarrow> set ts)"

lemma map_of_push_fact:
  "map_of (push_fact p t m) p' = (if p' = p then Some ((case map_of m p of None \<Rightarrow> [] | Some ts \<Rightarrow> ts) @ [t]) else map_of m p')"
  by (induction p t m rule: push_fact.induct) auto

lemma keys_push_fact: "set (map fst (push_fact p t m)) = insert p (set (map fst m))"
  by (induction p t m rule: push_fact.induct) auto

lemma facts_new [simp]: "facts DatalogResult_new p = {}"
  by (simp add: facts_def relation_def DatalogResult_new_def)

lemma facts_add [simp]: "facts (add_fact p t r) p' = (if p' = p then insert t (facts r p) else facts r p')"
  by (auto simp: facts_def relation_def add_fact_def map_of_push_fact split: option.split)

lemma push_fact_wf:
  assumes "distinct (map fst m)" "\<forall>(p, ts)\<in>set m. ts \<noteq> []"
  shows "distinct (map fst (push_fact p t m)) \<and> (\<forall>(p, ts)\<in>set (push_fact p t m). ts \<noteq> [])
    \<and> sum_list (map (\<lambda>(p, ts). length ts) (push_fact p t m)) = Suc (sum_list (map (\<lambda>(p, ts). length ts) m))"
  using assms
proof (induction p t m rule: push_fact.induct)
  case (2 p t q ts rest)
  then show ?case using keys_push_fact [of p t rest] by auto
qed simp

lemma result_wf_add: "result_wf r \<Longrightarrow> result_wf (add_fact p t r) \<and> total_facts (add_fact p t r) = Suc (total_facts r)"
  using push_fact_wf [of "relations r" p t] by (simp add: result_wf_def add_fact_def total_facts_def)

lemma result_wf_new [simp]: "result_wf DatalogResult_new" "total_facts DatalogResult_new = 0"
  by (simp_all add: result_wf_def DatalogResult_new_def total_facts_def)

section \<open>Rules\<close>

fun instantiate :: "(string \<Rightarrow> Term) \<Rightarrow> DatalogTerm \<Rightarrow> Term" where
  "instantiate \<sigma> (Var v) = \<sigma> v"
| "instantiate \<sigma> (Const c) = c"

definition atom_vars :: "Atom \<Rightarrow> string set" where
  "atom_vars a = {v. Var v \<in> set (atom_terms a)}"

definition quad_row :: "Quad \<Rightarrow> Term list" where
  "quad_row q = [Term_from_subject (q_subject q), q_object q]"

text \<open>
  The reading of a rule: an instance of the body is a quad of the database, the head has only
  variables of the body, and the tuple is the same instance of the head.
\<close>

definition derives :: "Quad set \<Rightarrow> Rule \<Rightarrow> Term list \<Rightarrow> bool" where
  "derives Q rule t \<longleftrightarrow>
     (\<exists>body \<sigma>. \<exists>q\<in>Q. rule_body rule = [Positive body] \<and> q_predicate q = atom_predicate body
        \<and> map (instantiate \<sigma>) (atom_terms body) = quad_row q
        \<and> atom_vars (rule_head rule) \<subseteq> atom_vars body
        \<and> map (instantiate \<sigma>) (atom_terms (rule_head rule)) = t)"

text \<open>A body in which no variable is repeated.\<close>

definition linear :: "Rule \<Rightarrow> bool" where
  "linear rule = (case rule_body rule of [Positive body] \<Rightarrow> distinct (filter (\<lambda>t. case t of Var _ \<Rightarrow> True | Const _ \<Rightarrow> False) (atom_terms body)) | _ \<Rightarrow> True)"

lemma collect_options_Some: "collect_options xs = Some ys \<longleftrightarrow> xs = map Some ys"
proof (induction xs arbitrary: ys)
  case (Cons x xs)
  have "collect_options xs = None \<Longrightarrow> xs \<noteq> map Some zs" for zs using Cons.IH [of zs] by auto
  with Cons.IH show ?case by (cases ys; cases x) (auto split: option.splits)
qed auto

lemma consts_match_row:
  assumes "atom_terms body = [a, b]"
  shows "consts_match body [x, y] \<longleftrightarrow> (\<forall>c. a = Const c \<longrightarrow> c = x) \<and> (\<forall>c. b = Const c \<longrightarrow> c = y)"
  using assms by (cases a; cases b) (auto simp: consts_match_def)

lemma lookup_instance:
  assumes "atom_terms body = [a, b]" "instantiate \<sigma> a = x" "instantiate \<sigma> b = y" "t \<in> range Const \<or> (\<exists>v\<in>atom_vars body. t = Var v)"
  shows "lookup_term body [x, y] t = Some (instantiate \<sigma> t)"
  using assms by (cases t; cases a; cases b) (auto simp: atom_vars_def)

lemma lookup_vars: "lookup_term body row t = Some u \<Longrightarrow> t = Var v \<Longrightarrow> v \<in> atom_vars body"
proof -
  assume "lookup_term body row t = Some u" "t = Var v"
  then obtain i where "position (is_var v) (atom_terms body) = Some i" by auto
  from position_Some [OF this] have "i < length (atom_terms body)" "is_var v (atom_terms body ! i)" by auto
  then show ?thesis unfolding atom_vars_def by (cases "atom_terms body ! i") (auto simp: in_set_conv_nth)
qed

lemma linear_binding:
  assumes "atom_terms body = [a, b]" "rule_body rule = [Positive body]" "linear rule" "consts_match body [x, y]"
  defines "\<sigma> \<equiv> \<lambda>v. the (lookup_term body [x, y] (Var v))"
  shows "instantiate \<sigma> a = x \<and> instantiate \<sigma> b = y"
  using assms by (cases a; cases b) (auto simp: linear_def consts_match_row)

lemma fire_iff:
  assumes "rule_body rule = [Positive body]" "length (atom_terms body) = 2" "linear rule"
  shows "fire rule body q = Some t \<longleftrightarrow>
    (\<exists>\<sigma>. map (instantiate \<sigma>) (atom_terms body) = quad_row q \<and> atom_vars (rule_head rule) \<subseteq> atom_vars body
       \<and> map (instantiate \<sigma>) (atom_terms (rule_head rule)) = t)"
proof -
  obtain a b where ab: "atom_terms body = [a, b]" using assms(2) by (metis One_nat_def Suc_1 length_0_conv length_Suc_conv)
  obtain x y where xy: "quad_row q = [x, y]" by (simp add: quad_row_def)
  have fire: "fire rule body q = Some t \<longleftrightarrow>
      consts_match body [x, y] \<and> map (lookup_term body [x, y]) (atom_terms (rule_head rule)) = map Some t"
    using xy by (auto simp: fire_def quad_row_def Let_def collect_options_Some)
  show ?thesis unfolding fire xy ab
  proof (intro iffI; elim exE conjE)
    assume c: "consts_match body [x, y]" and l: "map (lookup_term body [x, y]) (atom_terms (rule_head rule)) = map Some t"
    define \<sigma> where "\<sigma> = (\<lambda>v. the (lookup_term body [x, y] (Var v)))"
    have \<sigma>: "instantiate \<sigma> a = x" "instantiate \<sigma> b = y"
      using linear_binding [OF ab assms(1,3) c] by (auto simp: \<sigma>_def)
    have some: "lookup_term body [x, y] u \<noteq> None" if "u \<in> set (atom_terms (rule_head rule))" for u
    proof -
      have "lookup_term body [x, y] u \<in> set (map Some t)" unfolding l [symmetric] using that by simp
      then show ?thesis by auto
    qed
    have vars: "atom_vars (rule_head rule) \<subseteq> atom_vars body"
    proof
      fix v assume "v \<in> atom_vars (rule_head rule)"
      then show "v \<in> atom_vars body" using some [of "Var v"] lookup_vars [OF _ refl, of body "[x, y]" v]
        unfolding atom_vars_def by blast
    qed
    have "lookup_term body [x, y] u = Some (instantiate \<sigma> u)" if "u \<in> set (atom_terms (rule_head rule))" for u
      using some [OF that] by (cases u) (auto simp: \<sigma>_def)
    then have "map Some (map (instantiate \<sigma>) (atom_terms (rule_head rule))) = map Some t" using l by (simp cong: map_cong)
    then have "map (instantiate \<sigma>) (atom_terms (rule_head rule)) = t" by (metis inj_Some inj_map_eq_map)
    with \<sigma> vars show "\<exists>\<sigma>. map (instantiate \<sigma>) [a, b] = [x, y] \<and> atom_vars (rule_head rule) \<subseteq> atom_vars body
        \<and> map (instantiate \<sigma>) (atom_terms (rule_head rule)) = t" by auto
  next
    fix \<sigma> assume h: "map (instantiate \<sigma>) [a, b] = [x, y]" "atom_vars (rule_head rule) \<subseteq> atom_vars body"
      "map (instantiate \<sigma>) (atom_terms (rule_head rule)) = t"
    have "lookup_term body [x, y] u = Some (instantiate \<sigma> u)" if "u \<in> set (atom_terms (rule_head rule))" for u
    proof (rule lookup_instance [OF ab])
      show "u \<in> range Const \<or> (\<exists>v\<in>atom_vars body. u = Var v)"
        using h(2) that by (cases u) (auto simp: atom_vars_def)
    qed (use h(1) in simp_all)
    then have "map (lookup_term body [x, y]) (atom_terms (rule_head rule)) = map Some t" using h(3) by auto
    moreover have "consts_match body [x, y]" using h(1) by (auto simp: consts_match_row [OF ab])
    ultimately show "consts_match body [x, y] \<and> map (lookup_term body [x, y]) (atom_terms (rule_head rule)) = map Some t" by blast
  qed
qed

lemma supported_body:
  assumes "rule_supported rule"
  obtains body where "rule_body rule = [Positive body]" "length (atom_terms body) = 2"
proof (cases "rule_body rule")
  case Nil
  with assms show ?thesis by (simp add: rule_supported_def)
next
  case (Cons l ls)
  with assms that show ?thesis by (cases l; cases ls) (auto simp: rule_supported_def)
qed

text \<open>The loops of \<open>evaluate\<close>.\<close>

lemma eval_quads_Inr:
  assumes "result_wf res"
  shows "eval_quads rule body (map Inr qs) res = Inr res' \<Longrightarrow>
    result_wf res' \<and> total_facts res' = total_facts res + length (filter (\<lambda>q. fire rule body q \<noteq> None) qs)
    \<and> (\<forall>p. facts res' p = facts res p \<union> {t. p = atom_predicate (rule_head rule) \<and> (\<exists>q\<in>set qs. fire rule body q = Some t)})"
  using assms
proof (induction qs arbitrary: res)
  case (Cons q qs)
  show ?case
  proof (cases "fire rule body q")
    case None
    with Cons show ?thesis by simp
  next
    case (Some t)
    with Cons.IH [of "add_fact (atom_predicate (rule_head rule)) t res"] Cons.prems
      result_wf_add [of res "atom_predicate (rule_head rule)" t]
    show ?thesis by (auto split: if_splits)
  qed
qed simp

lemma eval_quads_total: "\<exists>res'. eval_quads rule body (map Inr qs) res = Inr res'"
  by (induction qs arbitrary: res) auto

context storage_contract begin

lemma eval_rules_Inr:
  assumes "st_ok st" "tx_ok st tx" "list_all rule_supported rules" "list_all linear rules" "result_wf res"
    and "eval_rules S st tx rules res = Inr res'"
  shows "result_wf res' \<and> (\<forall>p. facts res' p = facts res p \<union> {t. \<exists>rule\<in>set rules. p = atom_predicate (rule_head rule) \<and> derives (view st tx) rule t})"
  using assms(3-)
proof (induction rules arbitrary: res)
  case (Cons rule rules)
  obtain body where body: "rule_body rule = [Positive body]" "length (atom_terms body) = 2"
    using supported_body Cons.prems(1) by auto
  let ?it = "tx_quads_for_pattern S st tx None (Some (atom_predicate body)) None None"
  have no_err: "\<exists>mid. eval_quads rule body ?it res = Inr mid" using Cons.prems(4) body(1) by (auto split: sum.splits)
  have "Inl e \<notin> set rs" if "eval_quads rule body rs r = Inr mid" for rs r mid e
    using that by (induction rs arbitrary: r) (auto split: sum.splits)
  then have "\<forall>e. Inl e \<notin> set ?it" using no_err by blast
  then obtain qs where qs: "collect_results ?it = Inr qs" using collect_results_no_err by blast
  then have it: "?it = map Inr qs" by (simp add: collect_results_Inr)
  have set_qs: "set qs = {q \<in> view st tx. q_predicate q = atom_predicate body}"
    using pattern_ok [OF assms(1,2) qs] by (simp add: matches_pattern_def)
  obtain mid where mid: "eval_quads rule body (map Inr qs) res = Inr mid" "eval_rules S st tx rules mid = Inr res'"
    using Cons.prems(4) body(1) it by (auto split: sum.splits)
  note E = eval_quads_Inr [OF Cons.prems(3) mid(1)]
  have lin: "linear rule" using Cons.prems(2) by simp
  have fired: "(\<exists>q\<in>set qs. fire rule body q = Some t) \<longleftrightarrow> derives (view st tx) rule t" for t
    unfolding derives_def set_qs using fire_iff [OF body lin] body(1) by auto
  have "result_wf res' \<and> (\<forall>p. facts res' p = facts mid p \<union> {t. \<exists>rule\<in>set rules. p = atom_predicate (rule_head rule) \<and> derives (view st tx) rule t})"
    using Cons.IH [OF _ _ _ mid(2)] Cons.prems(1,2) E by simp
  then show ?case using E unfolding fired by auto
qed simp

end

context reliable_storage begin

lemma pattern_items: "st_ok st \<Longrightarrow> tx_ok st tx \<Longrightarrow> \<exists>qs. tx_quads_for_pattern S st tx s p obj g = map Inr qs"
  using pattern_total by (metis collect_results_Inr)

lemma eval_rules_total:
  assumes "st_ok st" "tx_ok st tx"
  shows "\<exists>res'. eval_rules S st tx rules res = Inr res'"
proof (induction rules arbitrary: res)
  case (Cons rule rules)
  show ?case
  proof (cases "\<exists>body. rule_body rule = [Positive body]")
    case True
    then obtain body where body: "rule_body rule = [Positive body]" by blast
    obtain qs where qs: "tx_quads_for_pattern S st tx None (Some (atom_predicate body)) None None = map Inr qs"
      using pattern_items [OF assms] by blast
    obtain mid where "eval_quads rule body (map Inr qs) res = Inr mid" using eval_quads_total by blast
    with Cons.IH [of mid] body qs show ?thesis by simp
  next
    case False
    then have "eval_rules S st tx (rule # rules) res = eval_rules S st tx rules res"
      by (auto split: list.split BodyLiteral.split)
    with Cons.IH show ?thesis by simp
  qed
qed simp

end

text \<open>
  C31. The example Datalog engine: a program it loads, none of whose rule bodies mentions a
  variable twice (\<open>linear\<close>), is evaluated completely and correctly. A tuple is in the result for
  a predicate exactly if some rule for the predicate derives it from the stored quads; the
  result has one entry per predicate, none of them empty. The engine loads programs with
  repeated variables too, and evaluates them wrongly: \<open>onestep_repeated_variable\<close>.
\<close>

theorem onestep_correct:
  assumes "distinct st" "OneStep_load_program program engine = (Inr (), loaded)" "list_all linear (prog_rules program)"
  shows "\<exists>res. OneStep_evaluate DocStore_storage loaded st = Inr res \<and> result_wf res
    \<and> (\<forall>p t. t \<in> facts res p \<longleftrightarrow> (\<exists>rule\<in>set (prog_rules program). p = atom_predicate (rule_head rule) \<and> derives (set st) rule t))"
proof -
  have ld: "loaded = program" "list_all rule_supported (prog_rules program)"
    using assms(2) by (auto simp: OneStep_load_program_def split: if_splits)
  obtain tx where tx: "begin_read DocStore_storage st = Inr tx" using docmem.begin_read_total [OF assms(1)] by blast
  note R = docmem.begin_read_ok [OF assms(1) tx]
  obtain res where res: "eval_rules DocStore_storage st tx (prog_rules program) DatalogResult_new = Inr res"
    using docmem.eval_rules_total [OF assms(1)] R by blast
  have "OneStep_evaluate DocStore_storage loaded st = Inr res" using tx res ld(1) by (simp add: OneStep_evaluate_def)
  with docmem.eval_rules_Inr [OF assms(1) _ ld(2) assms(3) result_wf_new(1) res] R show ?thesis by auto
qed

definition w_parents :: DocStore where
  "w_parents = [Quad_triple (NbNamed (NamedNode ''alice'')) (NamedNode ''parent'') (TNamed (NamedNode ''bob''))]"

definition w_rule :: "string \<Rightarrow> string \<Rightarrow> Rule" where
  "w_rule x y = Rule_new (Atom_new (NamedNode ''child'') [Var y, Var x]) [Positive (Atom_new (NamedNode ''parent'') [Var x, Var y])]"

lemmas eval_datalog = w_parents_def w_rule_def Rule_new_def Atom_new_def OneStep_load_program_def rule_supported_def linear_def
  OneStep_evaluate_def doc_defs DocTx_snapshot_def fire_def consts_match_def

theorem onestep_correct_witness:
  "\<exists>res. OneStep_evaluate DocStore_storage \<lparr>prog_rules = [w_rule ''X'' ''Y'']\<rparr> w_parents = Inr res \<and> result_wf res
     \<and> [TNamed (NamedNode ''bob''), TNamed (NamedNode ''alice'')] \<in> facts res (NamedNode ''child'')"
proof -
  let ?p = "\<lparr>prog_rules = [w_rule ''X'' ''Y'']\<rparr>"
  have "distinct w_parents" "OneStep_load_program ?p DatalogProgram_new = (Inr (), ?p)" "list_all linear (prog_rules ?p)"
    by (simp_all add: eval_datalog)
  from onestep_correct [OF this] obtain res where res: "OneStep_evaluate DocStore_storage ?p w_parents = Inr res" "result_wf res"
    "\<forall>p t. t \<in> facts res p \<longleftrightarrow> (\<exists>rule\<in>set (prog_rules ?p). p = atom_predicate (rule_head rule) \<and> derives (set w_parents) rule t)"
    by blast
  have "derives (set w_parents) (w_rule ''X'' ''Y'') [TNamed (NamedNode ''bob''), TNamed (NamedNode ''alice'')]"
    unfolding derives_def
    by (rule exI [of _ "Atom_new (NamedNode ''parent'') [Var ''X'', Var ''Y'']"],
        rule exI [of _ "\<lambda>v. if v = ''X'' then TNamed (NamedNode ''alice'') else TNamed (NamedNode ''bob'')"])
      (auto simp: eval_datalog quad_row_def atom_vars_def)
  then have "[TNamed (NamedNode ''bob''), TNamed (NamedNode ''alice'')] \<in> facts res (NamedNode ''child'')"
    using res(3) by (auto simp: w_rule_def Rule_new_def Atom_new_def)
  with res(1,2) show ?thesis by blast
qed

text \<open>
  With a repeated variable in the body the engine is not sound: from \<open>parent(alice, bob)\<close>, the
  rule \<open>child(X, X) :- parent(X, X)\<close> yields a fact, although no instance of its body holds.
\<close>

lemma onestep_repeated_variable:
  "\<exists>res. OneStep_evaluate DocStore_storage \<lparr>prog_rules = [w_rule ''X'' ''X'']\<rparr> w_parents = Inr res
     \<and> [TNamed (NamedNode ''alice''), TNamed (NamedNode ''alice'')] \<in> facts res (NamedNode ''child'')
     \<and> \<not> derives (set w_parents) (w_rule ''X'' ''X'') [TNamed (NamedNode ''alice''), TNamed (NamedNode ''alice'')]"
  by (auto simp: eval_datalog quad_row_def derives_def)

section \<open>Validation\<close>

text \<open>
  The violations of the shapes \<open>Sh\<close> in the data \<open>D\<close>: a target class, a path of its shape, and a
  member of the class that has no value for the path.
\<close>

definition member_of :: "Quad set \<Rightarrow> Term \<Rightarrow> NamedOrBlankNode \<Rightarrow> bool" where
  "member_of D cls focus \<longleftrightarrow> (\<exists>q\<in>D. q_predicate q = NamedNode RDF_TYPE \<and> q_object q = cls \<and> q_subject q = focus)"

definition has_value :: "Quad set \<Rightarrow> NamedOrBlankNode \<Rightarrow> NamedNode \<Rightarrow> bool" where
  "has_value D focus path \<longleftrightarrow> (\<exists>q\<in>D. q_subject q = focus \<and> q_predicate q = path)"

definition path_violations :: "Quad set \<Rightarrow> NamedOrBlankNode option \<Rightarrow> NamedOrBlankNode \<Rightarrow> Term \<Rightarrow> NamedNode \<Rightarrow> ValidationResult set" where
  "path_violations D only shape cls path =
     {missing_value focus shape path | focus. is_none_or only focus \<and> member_of D cls focus \<and> \<not> has_value D focus path}"

definition violations :: "Quad set \<Rightarrow> Quad set \<Rightarrow> NamedOrBlankNode option \<Rightarrow> ValidationResult set" where
  "violations D Sh only =
     {v. \<exists>t\<in>Sh. \<exists>q\<in>Sh. \<exists>path. q_predicate t = sh ''targetClass'' \<and> q_subject q = q_subject t \<and> q_predicate q = sh ''path''
        \<and> q_object q = TNamed path \<and> v \<in> path_violations D only (q_subject t) (q_object t) path}"

context reliable_storage begin

lemma objects_result:
  assumes "st_ok st" "tx_ok st tx"
  shows "\<exists>objs. MinCountOne_objects S st tx s p = Inr objs
    \<and> set objs = {q_object q | q. q \<in> view st tx \<and> q_subject q = s \<and> q_predicate q = p}"
proof -
  obtain qs where qs: "tx_quads_for_pattern S st tx (Some s) (Some p) None None = map Inr qs"
    using pattern_items [OF assms] by blast
  then have "set qs = {q \<in> view st tx. q_subject q = s \<and> q_predicate q = p}"
    using pattern_ok [OF assms, of "Some s" "Some p" None None qs] by (simp add: matches_pattern_def)
  moreover have "MinCountOne_objects S st tx s p = Inr (map q_object qs)"
    by (simp add: MinCountOne_objects_def qs comp_def collect_results_Inr)
  ultimately show ?thesis by auto
qed

lemma check_members_result:
  assumes "st_ok st" "tx_ok st tx"
  shows "\<exists>out'. check_members S st tx only shape path (map Inr qs) out = Inr out'
    \<and> set out' = set out \<union> {missing_value focus shape path | focus.
        is_none_or only focus \<and> focus \<in> q_subject ` set qs \<and> \<not> has_value (view st tx) focus path}"
proof (induction qs arbitrary: out)
  case (Cons q qs)
  obtain objs where objs: "MinCountOne_objects S st tx (q_subject q) path = Inr objs"
    "set objs = {q_object r | r. r \<in> view st tx \<and> q_subject r = q_subject q \<and> q_predicate r = path}"
    using objects_result [OF assms] by blast
  have "objs = [] \<longleftrightarrow> set objs = {}" by simp
  also have "\<dots> \<longleftrightarrow> \<not> has_value (view st tx) (q_subject q) path" unfolding objs(2) has_value_def by blast
  finally have none: "objs = [] \<longleftrightarrow> \<not> has_value (view st tx) (q_subject q) path" .
  let ?out = "if is_none_or only (q_subject q) \<and> objs = [] then out @ [missing_value (q_subject q) shape path] else out"
  obtain out' where out': "check_members S st tx only shape path (map Inr qs) ?out = Inr out'"
    "set out' = set ?out \<union> {missing_value focus shape path | focus.
        is_none_or only focus \<and> focus \<in> q_subject ` set qs \<and> \<not> has_value (view st tx) focus path}"
    using Cons.IH [of ?out] by blast
  have "check_members S st tx only shape path (map Inr (q # qs)) out = Inr out'"
    using out'(1) objs(1) by (cases "is_none_or only (q_subject q)"; cases "objs = []") (simp_all add: Let_def)
  moreover have "set out' = set out \<union> {missing_value focus shape path | focus.
        is_none_or only focus \<and> focus \<in> q_subject ` set (q # qs) \<and> \<not> has_value (view st tx) focus path}"
    unfolding out'(2) using none by auto
  ultimately show ?case by blast
qed simp

lemma check_paths_result:
  assumes "st_ok st" "tx_ok st tx"
  shows "\<exists>out'. check_paths S st tx only shape cls ts out = Inr out'
    \<and> set out' = set out \<union> (\<Union>path\<in>{path. TNamed path \<in> set ts}. path_violations (view st tx) only shape cls path)"
proof (induction ts arbitrary: out)
  case (Cons t ts)
  show ?case
  proof (cases "\<exists>path. t = TNamed path")
    case True
    then obtain path where t: "t = TNamed path" by blast
    obtain qs where qs: "tx_quads_for_pattern S st tx None (Some (NamedNode RDF_TYPE)) (Some cls) None = map Inr qs"
      using pattern_items [OF assms] by blast
    then have "set qs = {q \<in> view st tx. q_predicate q = NamedNode RDF_TYPE \<and> q_object q = cls}"
      using pattern_ok [OF assms, of None "Some (NamedNode RDF_TYPE)" "Some cls" None qs] by (simp add: matches_pattern_def)
    then have mem: "focus \<in> q_subject ` set qs \<longleftrightarrow> member_of (view st tx) cls focus" for focus
      by (auto simp: member_of_def)
    obtain mid where mid: "check_members S st tx only shape path (map Inr qs) out = Inr mid"
      "set mid = set out \<union> path_violations (view st tx) only shape cls path"
      using check_members_result [OF assms, of only shape path qs out] unfolding mem path_violations_def by blast
    obtain out' where "check_paths S st tx only shape cls ts mid = Inr out'"
      "set out' = set mid \<union> (\<Union>path\<in>{path. TNamed path \<in> set ts}. path_violations (view st tx) only shape cls path)"
      using Cons.IH by blast
    then show ?thesis using t qs mid by (auto simp: Collect_disj_eq)
  next
    case False
    then have "check_paths S st tx only shape cls (t # ts) out = check_paths S st tx only shape cls ts out"
      by (cases t) auto
    moreover have "{path. TNamed path \<in> set (t # ts)} = {path. TNamed path \<in> set ts}" using False by auto
    ultimately show ?thesis using Cons.IH [of out] by simp
  qed
qed simp

lemma check_targets_result:
  assumes "st_ok data" "tx_ok data dtx" "st_ok shapes" "tx_ok shapes stx"
  shows "\<exists>out'. check_targets S data dtx shapes stx only (map Inr ts) out = Inr out'
    \<and> set out' = set out \<union> {v. \<exists>t\<in>set ts. \<exists>q\<in>view shapes stx. \<exists>path. q_subject q = q_subject t \<and> q_predicate q = sh ''path''
        \<and> q_object q = TNamed path \<and> v \<in> path_violations (view data dtx) only (q_subject t) (q_object t) path}"
proof (induction ts arbitrary: out)
  case (Cons t ts)
  obtain paths where paths: "MinCountOne_objects S shapes stx (q_subject t) (sh ''path'') = Inr paths"
    "set paths = {q_object q | q. q \<in> view shapes stx \<and> q_subject q = q_subject t \<and> q_predicate q = sh ''path''}"
    using objects_result [OF assms(3,4)] by blast
  obtain mid where mid: "check_paths S data dtx only (q_subject t) (q_object t) paths out = Inr mid"
    "set mid = set out \<union> (\<Union>path\<in>{path. TNamed path \<in> set paths}. path_violations (view data dtx) only (q_subject t) (q_object t) path)"
    using check_paths_result [OF assms(1,2)] by blast
  obtain out' where out': "check_targets S data dtx shapes stx only (map Inr ts) mid = Inr out'"
    "set out' = set mid \<union> {v. \<exists>t\<in>set ts. \<exists>q\<in>view shapes stx. \<exists>path. q_subject q = q_subject t \<and> q_predicate q = sh ''path''
        \<and> q_object q = TNamed path \<and> v \<in> path_violations (view data dtx) only (q_subject t) (q_object t) path}"
    using Cons.IH by blast
  have at: "TNamed path \<in> set paths \<longleftrightarrow>
      (\<exists>q\<in>view shapes stx. q_subject q = q_subject t \<and> q_predicate q = sh ''path'' \<and> q_object q = TNamed path)" for path
    unfolding paths(2) by force
  have "check_targets S data dtx shapes stx only (map Inr (t # ts)) out = Inr out'"
    using paths(1) mid(1) out'(1) by simp
  moreover have "set out' = set out \<union> {v. \<exists>t\<in>set (t # ts). \<exists>q\<in>view shapes stx. \<exists>path. q_subject q = q_subject t \<and> q_predicate q = sh ''path''
        \<and> q_object q = TNamed path \<and> v \<in> path_violations (view data dtx) only (q_subject t) (q_object t) path}"
    unfolding list.set(2) out'(2) mid(2) at by blast
  ultimately show ?case by blast
qed simp

lemma check_result:
  assumes "st_ok data" "st_ok shapes"
  shows "\<exists>rs. MinCountOne_check S data shapes only = Inr rs \<and> set rs = violations (quads_of data) (quads_of shapes) only"
proof -
  obtain dtx stx where tx: "begin_read S data = Inr dtx" "begin_read S shapes = Inr stx"
    using begin_read_total [OF assms(1)] begin_read_total [OF assms(2)] by blast
  note D = begin_read_ok [OF assms(1) tx(1)] and Sh = begin_read_ok [OF assms(2) tx(2)]
  obtain ts where ts: "tx_quads_for_pattern S shapes stx None (Some (sh ''targetClass'')) None None = map Inr ts"
    using pattern_items [OF assms(2)] Sh by blast
  then have set_ts: "set ts = {t \<in> quads_of shapes. q_predicate t = sh ''targetClass''}"
    using pattern_ok [OF assms(2), of stx None "Some (sh ''targetClass'')" None None ts] Sh by (simp add: matches_pattern_def)
  obtain rs where rs: "check_targets S data dtx shapes stx only (map Inr ts) [] = Inr rs"
    "set rs = {v. \<exists>t\<in>set ts. \<exists>q\<in>quads_of shapes. \<exists>path. q_subject q = q_subject t \<and> q_predicate q = sh ''path''
        \<and> q_object q = TNamed path \<and> v \<in> path_violations (quads_of data) only (q_subject t) (q_object t) path}"
    using check_targets_result [OF assms(1) _ assms(2), of dtx stx only ts "[]"] D Sh by auto
  have "set rs = violations (quads_of data) (quads_of shapes) only"
    unfolding rs(2) set_ts violations_def by blast
  then show ?thesis using tx ts rs(1) by (simp add: MinCountOne_check_def)
qed

end

text \<open>
  C32. The example SHACL validator: the report lists exactly the violations, a focus node of
  a target class without a value for a required path, and says that the data conform exactly
  if there is none; validation of one node lists exactly the violations at this node.
\<close>

theorem min_count_validates:
  assumes "distinct data" "distinct shapes"
  shows "\<exists>rep node. MinCountOne_validate DocStore_storage data shapes = Inr rep
    \<and> set (results rep) = violations (set data) (set shapes) None
    \<and> (conforms rep \<longleftrightarrow> violations (set data) (set shapes) None = {})
    \<and> MinCountOne_validate_node DocStore_storage data shapes focus = Inr node
    \<and> set (nv_results node) = violations (set data) (set shapes) (Some focus)
    \<and> (nv_conforms node \<longleftrightarrow> violations (set data) (set shapes) (Some focus) = {})"
proof -
  obtain rs where rs: "MinCountOne_check DocStore_storage data shapes None = Inr rs"
    "set rs = violations (set data) (set shapes) None"
    using docmem.check_result [OF assms] by blast
  obtain ns where ns: "MinCountOne_check DocStore_storage data shapes (Some focus) = Inr ns"
    "set ns = violations (set data) (set shapes) (Some focus)"
    using docmem.check_result [OF assms] by blast
  show ?thesis unfolding rs(2) [symmetric] ns(2) [symmetric]
    by (simp add: MinCountOne_validate_def MinCountOne_validate_node_def rs(1) ns(1) from_results_def List.null_iff)
qed

definition w_shapes :: DocStore where
  "w_shapes = [Quad_triple (NbNamed (NamedNode ''shape'')) (sh ''targetClass'') (TNamed (NamedNode ''Person'')),
     Quad_triple (NbNamed (NamedNode ''shape'')) (sh ''path'') (TNamed (NamedNode ''name''))]"

definition w_people :: DocStore where
  "w_people = [Quad_triple (NbNamed (NamedNode ''bob'')) (NamedNode RDF_TYPE) (TNamed (NamedNode ''Person''))]"

theorem min_count_validates_witness:
  "\<exists>rep. MinCountOne_validate DocStore_storage w_people w_shapes = Inr rep \<and> \<not> conforms rep"
proof -
  have "distinct w_people" "distinct w_shapes"
    by (simp_all add: w_people_def w_shapes_def Quad_eq_iff sh_def SH_def)
  from min_count_validates [OF this, of "NbNamed (NamedNode ''bob'')"]
  obtain rep where rep: "MinCountOne_validate DocStore_storage w_people w_shapes = Inr rep"
    "conforms rep \<longleftrightarrow> violations (set w_people) (set w_shapes) None = {}" by blast
  have "missing_value (NbNamed (NamedNode ''bob'')) (NbNamed (NamedNode ''shape'')) (NamedNode ''name'')
      \<in> violations (set w_people) (set w_shapes) None"
    by (simp add: violations_def w_shapes_def w_people_def path_violations_def member_of_def has_value_def
      sh_def SH_def RDF_TYPE_def)
  with rep show ?thesis by blast
qed

end
