(* ===== verification/Reasoner_Traits.thy ===== *)
theory Reasoner_Traits
  imports Reasoner Example_Engines
begin

text \<open>
  The reasoner traits of \<^verbatim>\<open>semanticore-core\<close> (\<^verbatim>\<open>reasoner.rs\<close>, \<^verbatim>\<open>shacl.rs\<close>, \<^verbatim>\<open>datalog.rs\<close>) as
  records of methods, each method a function of \<open>&self\<close>; a supertrait is an extended record or
  a field. The documented implementations are values of these records.

  What the traits promise is stated in locales: \<open>materializer\<close> for \<open>Materialization\<close>,
  \<open>incremental_reasoner\<close> for \<open>IncrementalReasoner\<close> and \<open>entailment\<close> for \<open>Entailment\<close>. The
  remark that recomputing is always a conforming fallback is a lemma of the first. The second
  is about what is known, not in which graph: a converse that was derived first and asserted
  later stays in the inferred graph.
\<close>

section \<open>Views\<close>

record ('r, 'st) ReasonerView =
  view_reasoner :: 'r
  view_storage :: 'st

definition ReasonerView_new :: "'r \<Rightarrow> 'st \<Rightarrow> ('r, 'st) ReasonerView" where
  "ReasonerView_new r st = \<lparr>view_reasoner = r, view_storage = st\<rparr>"

section \<open>Traits\<close>

record ('r, 'st) Reasoner =
  reasoner_capabilities :: "'r \<Rightarrow> ReasonerCapabilities"
  over :: "'r \<Rightarrow> 'st \<Rightarrow> ('r, 'st) ReasonerView"

record ('r, 'st, 'e) Materialization = "('r, 'st) Reasoner" +
  materialize :: "'r \<Rightarrow> ('st, 'e, MaterializationStats) res_st"
  dematerialize :: "'r \<Rightarrow> ('st, 'e, unit) res_st"

record ('r, 'st, 'e) IncrementalReasoner = "('r, 'st, 'e) Materialization" +
  on_insert :: "'r \<Rightarrow> Quad list \<Rightarrow> ('st, 'e, MaterializationStats) res_st"
  on_remove :: "'r \<Rightarrow> Quad list \<Rightarrow> ('st, 'e, MaterializationStats) res_st"

record ('r, 'st, 'e) Entailment = "('r, 'st) Reasoner" +
  entails :: "'r \<Rightarrow> 'st \<Rightarrow> Quad \<Rightarrow> 'e + bool"
  entailed_quads :: "'r \<Rightarrow> 'st \<Rightarrow> ('e + Quad) list"

text \<open>\<open>OwlReasoner\<close> has the incremental traits by extension and \<open>Entailment\<close> as a field.\<close>

record ('r, 'st, 'e) OwlReasoner = "('r, 'st, 'e) IncrementalReasoner" +
  owl_entailment :: "('r, 'st, 'e) Entailment"
  supported_profiles :: "'r \<Rightarrow> OwlProfile list"
  classify :: "'r \<Rightarrow> 'st \<Rightarrow> 'e + ClassHierarchy"
  realize :: "'r \<Rightarrow> 'st \<Rightarrow> 'e + InstanceRealization"
  check_consistency :: "'r \<Rightarrow> 'st \<Rightarrow> 'e + ConsistencyResult"

record ('r, 'st, 'e) ShaclValidator = "('r, 'st) Reasoner" +
  shacl_validate :: "'r \<Rightarrow> 'st \<Rightarrow> 'st \<Rightarrow> 'e + ShaclValidationReport"
  shacl_validate_node :: "'r \<Rightarrow> 'st \<Rightarrow> 'st \<Rightarrow> NamedOrBlankNode \<Rightarrow> 'e + NodeValidationResult"
  supports_sparql_constraints :: "'r \<Rightarrow> bool"

text \<open>\<open>load_program\<close> takes \<open>&mut self\<close>: the engine is the state it changes.\<close>

record ('r, 'st, 'e) DatalogEngine = "('r, 'st) Reasoner" +
  load_program :: "DatalogProgram \<Rightarrow> ('r, 'e, unit) res_st"
  datalog_evaluate :: "'r \<Rightarrow> 'st \<Rightarrow> 'e + DatalogResult"
  supports_negation :: "'r \<Rightarrow> NegationKind"
  supports_aggregation :: "'r \<Rightarrow> bool"

section \<open>The documented implementations\<close>

text \<open>The unit structs of the documentation have the type \<open>unit\<close>; \<open>OneStep\<close> is its program.\<close>

definition ToyElReasoner_capabilities :: ReasonerCapabilities where
  "ToyElReasoner_capabilities =
     ReasonerCapabilities_default\<lparr>rc_profiles := ProfileSet_with ProfileSet_empty El, rc_incremental := True\<rparr>"

definition ToyElReasoner :: "(unit, 'st) Reasoner" where
  "ToyElReasoner = \<lparr>reasoner_capabilities = \<lambda>_. ToyElReasoner_capabilities, over = ReasonerView_new\<rparr>"

definition SymmetricClosure :: "('st, 'tx) Storage \<Rightarrow> (unit, 'st, StorageError) IncrementalReasoner" where
  "SymmetricClosure S =
     \<lparr>reasoner_capabilities = \<lambda>_. SymmetricClosure_capabilities, over = ReasonerView_new,
      materialize = \<lambda>_. SymmetricClosure_materialize S,
      dematerialize = \<lambda>_. SymmetricClosure_dematerialize S,
      on_insert = \<lambda>_. SymmetricClosure_on_insert S,
      on_remove = \<lambda>_. SymmetricClosure_on_remove S\<rparr>"

definition Asserted :: "('st, 'tx) Storage \<Rightarrow> (unit, 'st, StorageError) Entailment" where
  "Asserted S =
     \<lparr>reasoner_capabilities = \<lambda>_. ReasonerCapabilities_default, over = ReasonerView_new,
      entails = \<lambda>_. Asserted_entails S, entailed_quads = \<lambda>_. Asserted_entailed_quads S\<rparr>"

definition SymmetricKnows :: "('st, 'tx) Storage \<Rightarrow> (unit, 'st, StorageError) Entailment" where
  "SymmetricKnows S =
     \<lparr>reasoner_capabilities = \<lambda>_. ReasonerCapabilities_default, over = ReasonerView_new,
      entails = \<lambda>_. SymmetricKnows_entails S, entailed_quads = \<lambda>_. SymmetricKnows_entailed_quads S\<rparr>"

definition ToySubsumption :: "('st, 'tx) Storage \<Rightarrow> (unit, 'st, StorageError) OwlReasoner" where
  "ToySubsumption S =
     \<lparr>reasoner_capabilities = \<lambda>_. ToySubsumption_capabilities, over = ReasonerView_new,
      materialize = \<lambda>_. ToySubsumption_materialize S,
      dematerialize = \<lambda>_. ToySubsumption_dematerialize,
      on_insert = \<lambda>_. ToySubsumption_on_insert S,
      on_remove = \<lambda>_. ToySubsumption_on_remove S,
      owl_entailment =
        \<lparr>reasoner_capabilities = \<lambda>_. ToySubsumption_capabilities, over = ReasonerView_new,
         entails = \<lambda>_. ToySubsumption_entails S, entailed_quads = \<lambda>_. ToySubsumption_entailed_quads S\<rparr>,
      supported_profiles = \<lambda>_. ToySubsumption_supported_profiles,
      classify = \<lambda>_. ToySubsumption_classify S,
      realize = \<lambda>_. ToySubsumption_realize S,
      check_consistency = \<lambda>_. ToySubsumption_check_consistency\<rparr>"

definition MinCountOne :: "('st, 'tx) Storage \<Rightarrow> (unit, 'st, StorageError) ShaclValidator" where
  "MinCountOne S =
     \<lparr>reasoner_capabilities = \<lambda>_. ReasonerCapabilities_default, over = ReasonerView_new,
      shacl_validate = \<lambda>_. MinCountOne_validate S,
      shacl_validate_node = \<lambda>_. MinCountOne_validate_node S,
      supports_sparql_constraints = \<lambda>_. False\<rparr>"

definition OneStep :: "('st, 'tx) Storage \<Rightarrow> (DatalogProgram, 'st, StorageError) DatalogEngine" where
  "OneStep S =
     \<lparr>reasoner_capabilities = \<lambda>_. ReasonerCapabilities_default, over = ReasonerView_new,
      load_program = OneStep_load_program,
      datalog_evaluate = OneStep_evaluate S,
      supports_negation = \<lambda>_. OneStep_supports_negation,
      supports_aggregation = \<lambda>_. False\<rparr>"

section \<open>What the traits promise\<close>

text \<open>
  The fallback the documentation allows every incremental reasoner: \<open>dematerialize\<close>, then
  \<open>materialize\<close>.
\<close>

definition recompute :: "('r, 'st, 'e, 'z) Materialization_scheme \<Rightarrow> 'r \<Rightarrow> ('st, 'e, MaterializationStats) res_st" where
  "recompute M r = try_bind (dematerialize M r) (\<lambda>_. materialize M r)"

text \<open>
  \<open>asserted\<close> tells the asserted base of a store's quads, \<open>consequences\<close> what a base entails.
  \<open>materialize\<close> persists all entailments, \<open>dematerialize\<close> leaves the asserted base.
\<close>

locale materializer =
  fixes M :: "('r, 'st, 'e, 'z) Materialization_scheme"
    and r :: 'r
    and quads_of :: "'st \<Rightarrow> Quad set"
    and st_ok :: "'st \<Rightarrow> bool"
    and asserted :: "Quad set \<Rightarrow> Quad set"
    and consequences :: "Quad set \<Rightarrow> Quad set"
  assumes asserted_saturated: "asserted (asserted Q \<union> consequences (asserted Q)) = asserted Q"
    and asserted_asserted: "asserted (asserted Q) = asserted Q"
    and materialize_ok: "st_ok st \<Longrightarrow> materialize M r st = (Inr stats, st') \<Longrightarrow>
      st_ok st' \<and> quads_of st' = quads_of st \<union> consequences (asserted (quads_of st))"
    and dematerialize_ok: "st_ok st \<Longrightarrow> dematerialize M r st = (Inr u, st') \<Longrightarrow>
      st_ok st' \<and> quads_of st' = asserted (quads_of st)"

begin

lemma recompute_ok:
  assumes "st_ok st" "recompute M r st = (Inr stats, st')"
  shows "st_ok st' \<and> quads_of st' = asserted (quads_of st) \<union> consequences (asserted (quads_of st))
    \<and> asserted (quads_of st') = asserted (quads_of st)"
proof -
  obtain u st1 where d: "dematerialize M r st = (Inr u, st1)" and m: "materialize M r st1 = (Inr stats, st')"
    using assms(2) by (auto simp: recompute_def try_bind_def split: prod.splits sum.splits)
  from dematerialize_ok [OF assms(1) d] materialize_ok [OF _ m] asserted_saturated [of "quads_of st"] asserted_asserted
  show ?thesis by simp
qed

end

text \<open>
  A caller that keeps a store materialized: it starts from an asserted base, and after every
  change to the base, made in its own transaction, calls the reasoner. The first argument
  after the fixed ones is the asserted base.
\<close>

inductive maintained :: "('r, 'st, 'e, 'z) IncrementalReasoner_scheme \<Rightarrow> 'r \<Rightarrow> ('st \<Rightarrow> Quad set) \<Rightarrow>
    ('st \<Rightarrow> bool) \<Rightarrow> (Quad \<Rightarrow> bool) \<Rightarrow> Quad set \<Rightarrow> 'st \<Rightarrow> bool"
  for M r quads_of st_ok base where
  materialized: "st_ok st \<Longrightarrow> Ball (quads_of st) base \<Longrightarrow> materialize M r st = (Inr stats, st') \<Longrightarrow>
    maintained M r quads_of st_ok base (quads_of st) st'"
| inserted: "maintained M r quads_of st_ok base B st \<Longrightarrow> list_all base qs \<Longrightarrow>
    st_ok st' \<Longrightarrow> quads_of st' = quads_of st \<union> set qs \<Longrightarrow> on_insert M r qs st' = (Inr stats, st'') \<Longrightarrow>
    maintained M r quads_of st_ok base (B \<union> set qs) st''"
| removed: "maintained M r quads_of st_ok base B st \<Longrightarrow> list_all base qs \<Longrightarrow>
    st_ok st' \<Longrightarrow> quads_of st' = quads_of st - set qs \<Longrightarrow> on_remove M r qs st' = (Inr stats, st'') \<Longrightarrow>
    maintained M r quads_of st_ok base (B - set qs) st''"

text \<open>
  \<open>base\<close> admits the quads a caller may assert, \<open>known\<close> is what a materialized store tells. An
  update keeps the base and lets the store tell what the new base entails.
\<close>

locale incremental_reasoner = materializer M r quads_of st_ok asserted consequences
  for M :: "('r, 'st, 'e, 'z) IncrementalReasoner_scheme"
    and r :: 'r
    and quads_of :: "'st \<Rightarrow> Quad set"
    and st_ok :: "'st \<Rightarrow> bool"
    and asserted :: "Quad set \<Rightarrow> Quad set"
    and consequences :: "Quad set \<Rightarrow> Quad set" +
  fixes base :: "Quad \<Rightarrow> bool"
    and known :: "Quad set \<Rightarrow> 'f set"
  assumes base_asserted: "Ball B base \<Longrightarrow> asserted B = B"
    and on_insert_ok: "st_ok st \<Longrightarrow> list_all base qs \<Longrightarrow> quads_of st = Q \<union> set qs \<Longrightarrow>
      known Q = known (asserted Q \<union> consequences (asserted Q)) \<Longrightarrow>
      on_insert M r qs st = (Inr stats, st') \<Longrightarrow>
      st_ok st' \<and> asserted (quads_of st') = asserted Q \<union> set qs
      \<and> known (quads_of st') = known (asserted (quads_of st') \<union> consequences (asserted (quads_of st')))"
    and on_remove_ok: "st_ok st \<Longrightarrow> list_all base qs \<Longrightarrow> quads_of st = Q - set qs \<Longrightarrow>
      known Q = known (asserted Q \<union> consequences (asserted Q)) \<Longrightarrow>
      on_remove M r qs st = (Inr stats, st') \<Longrightarrow>
      st_ok st' \<and> asserted (quads_of st') = asserted Q - set qs
      \<and> known (quads_of st') = known (asserted (quads_of st') \<union> consequences (asserted (quads_of st')))"

begin

lemma maintained_invariant:
  assumes "maintained M r quads_of st_ok base B st"
  shows "st_ok st \<and> asserted (quads_of st) = B \<and> known (quads_of st) = known (B \<union> consequences B)"
  using assms
proof (induction rule: maintained.induct)
  case (materialized st stats st')
  note B = base_asserted [OF materialized(2)]
  with materialize_ok [OF materialized(1,3)] asserted_saturated [of "quads_of st"] show ?case by simp
next
  case (inserted B st qs st' stats st'')
  with on_insert_ok [OF inserted(3,2,4) _ inserted(5)] show ?case by simp
next
  case (removed B st qs st' stats st'')
  with on_remove_ok [OF removed(3,2,4) _ removed(5)] show ?case by simp
qed

lemma maintained_agrees:
  assumes "maintained M r quads_of st_ok base B st" "recompute M r st = (Inr stats, st')"
  shows "known (quads_of st) = known (quads_of st')"
  using maintained_invariant [OF assms(1)] recompute_ok [OF _ assms(2)] by simp

end

section \<open>The symmetric closure\<close>

definition sym_asserted :: "Quad set \<Rightarrow> Quad set" where
  "sym_asserted Q = Q - inferred_quads Q"

definition sym_consequences :: "Quad set \<Rightarrow> Quad set" where
  "sym_consequences B = missing B {q \<in> knows_quads B. q_graph q = GDefault}"

text \<open>The triples a store tells: those of the default graph and those of the inferred graph.\<close>

definition told :: "Quad set \<Rightarrow> (NamedOrBlankNode \<times> NamedNode \<times> Term) set" where
  "told Q = (\<lambda>q. (q_subject q, q_predicate q, q_object q)) ` {q \<in> Q. q_graph q = GDefault \<or> q_graph q = SymmetricClosure_inferred}"

text \<open>The symmetric closure of a set of triples, for \<open>knows\<close> between named nodes.\<close>

definition sym_closure :: "(NamedOrBlankNode \<times> NamedNode \<times> Term) set \<Rightarrow> (NamedOrBlankNode \<times> NamedNode \<times> Term) set" where
  "sym_closure T = T \<union> {(NbNamed b, ex ''knows'', TNamed a) | a b. (NbNamed a, ex ''knows'', TNamed b) \<in> T}"

lemma sym_closure_Un: "sym_closure (A \<union> B) = sym_closure A \<union> sym_closure B"
  by (auto simp: sym_closure_def)

lemma told_iff:
  "(a, p, b) \<in> told Q \<longleftrightarrow> (\<exists>q\<in>Q. q_subject q = a \<and> q_predicate q = p \<and> q_object q = b
     \<and> (q_graph q = GDefault \<or> q_graph q = SymmetricClosure_inferred))"
  by (auto simp: told_def)

lemma told_Un: "told (A \<union> B) = told A \<union> told B"
  by (auto simp: told_def)

lemma told_asserted: "told (sym_asserted Q) = (\<lambda>q. (q_subject q, q_predicate q, q_object q)) ` {q \<in> Q. q_graph q = GDefault}"
  by (auto simp: told_def sym_asserted_def inferred_quads_def SymmetricClosure_inferred_def)

lemma GDefault_not_inferred [simp]: "GDefault \<noteq> SymmetricClosure_inferred" "SymmetricClosure_inferred \<noteq> GDefault"
  by (simp_all add: SymmetricClosure_inferred_def)

lemma converse_sel:
  "converse_quad q = Some cq \<Longrightarrow> \<exists>a b. q_subject q = NbNamed a \<and> q_object q = TNamed b \<and> q_subject cq = NbNamed b
     \<and> q_object cq = TNamed a \<and> q_predicate cq = q_predicate q"
  by (auto simp: converse_quad_def Quad_new_def split: NamedOrBlankNode.splits Term.splits)

text \<open>Adding the missing converses of default-graph quads closes what is told under symmetry.\<close>

lemma told_missing:
  assumes "A \<subseteq> Q" "\<forall>q\<in>A. q_graph q = GDefault"
  shows "told Q \<union> told (missing Q (knows_quads A)) = told Q \<union> sym_closure (told A)"
proof -
  have "t \<in> sym_closure (told A)" if t: "t \<in> told (missing Q (knows_quads A))" for t
  proof -
    obtain q cq where q: "q \<in> A" "q_predicate q = ex ''knows''" "converse_quad q = Some cq"
      and tq: "t = (q_subject cq, q_predicate cq, q_object cq)"
      using t by (auto simp: told_def missing_def knows_quads_def)
    moreover have "(q_subject q, q_predicate q, q_object q) \<in> told A"
      using q(1) assms(2) by (auto simp: told_def)
    ultimately show ?thesis using converse_sel [OF q(3)] by (auto simp: sym_closure_def)
  qed
  moreover have "t \<in> told Q \<union> told (missing Q (knows_quads A))" if t: "t \<in> sym_closure (told A)" for t
  proof (cases "t \<in> told A")
    case False
    then obtain a b q where q: "q \<in> A" "q_subject q = NbNamed a" "q_predicate q = ex ''knows''" "q_object q = TNamed b"
      and tq: "t = (NbNamed b, ex ''knows'', TNamed a)"
      using t by (auto simp: sym_closure_def told_iff)
    define cq where "cq = Quad_new (NbNamed b) (ex ''knows'') (TNamed a) SymmetricClosure_inferred"
    have cq: "converse_quad q = Some cq" "q \<in> knows_quads A"
      using q by (simp_all add: converse_quad_def cq_def knows_quads_def)
    have sel: "t = (q_subject cq, q_predicate cq, q_object cq)" "q_graph cq = SymmetricClosure_inferred"
      by (simp_all add: tq cq_def Quad_new_def)
    have g: "q_graph q = GDefault" using q(1) assms(2) by blast
    show ?thesis
    proof (cases "cq\<lparr>q_graph := GDefault\<rparr> \<in> Q")
      case True
      moreover have "q_graph (cq\<lparr>q_graph := GDefault\<rparr>) = GDefault" by simp
      moreover have "t = (q_subject (cq\<lparr>q_graph := GDefault\<rparr>), q_predicate (cq\<lparr>q_graph := GDefault\<rparr>), q_object (cq\<lparr>q_graph := GDefault\<rparr>))"
        using sel(1) by simp
      ultimately have "t \<in> told Q" unfolding told_def by blast
      then show ?thesis by blast
    next
      case False
      then have "cq \<in> missing Q (knows_quads A)" using cq g by (auto simp: missing_def)
      then have "t \<in> told (missing Q (knows_quads A))" using sel by (force simp: told_def)
      then show ?thesis by blast
    qed
  qed (use assms(1) in \<open>auto simp: told_def\<close>)
  ultimately show ?thesis by blast
qed

lemma told_consequences: "told (B \<union> sym_consequences B) = told B \<union> sym_closure (told {q \<in> B. q_graph q = GDefault})"
proof -
  have "{q \<in> knows_quads B. q_graph q = GDefault} = knows_quads {q \<in> B. q_graph q = GDefault}"
    by (auto simp: knows_quads_def)
  moreover have "told B \<union> told (missing B (knows_quads {q \<in> B. q_graph q = GDefault}))
      = told B \<union> sym_closure (told {q \<in> B. q_graph q = GDefault})"
    by (rule told_missing) auto
  ultimately show ?thesis by (simp only: sym_consequences_def told_Un)
qed

lemma told_closed: "told (sym_asserted Q \<union> sym_consequences (sym_asserted Q)) = sym_closure (told (sym_asserted Q))"
proof -
  have "told {q \<in> sym_asserted Q. q_graph q = GDefault} = told (sym_asserted Q)"
    by (auto simp: told_def sym_asserted_def inferred_quads_def)
  moreover have "T \<subseteq> sym_closure T" for T by (simp add: sym_closure_def)
  ultimately show ?thesis unfolding told_consequences by auto
qed

lemma sym_asserted_iff: "q \<in> sym_asserted Q \<longleftrightarrow> q \<in> Q \<and> q_graph q \<noteq> SymmetricClosure_inferred"
  by (auto simp: sym_asserted_def inferred_quads_def)

lemma sym_asserted_missing: "sym_asserted (missing Q A) = {}"
  using missing_inferred [of _ Q A] by (auto simp: sym_asserted_iff)

lemma sym_asserted_simps:
  "sym_asserted (A \<union> B) = sym_asserted A \<union> sym_asserted B" "sym_asserted (A - B) = sym_asserted A - B"
  "sym_asserted (sym_asserted A) = sym_asserted A"
  by (auto simp: sym_asserted_iff)

lemma sym_asserted_default: "\<forall>q\<in>A. q_graph q = GDefault \<Longrightarrow> sym_asserted A = A"
  by (auto simp: sym_asserted_iff)

lemma missing_asserted:
  assumes "\<forall>q\<in>A. q_graph q = GDefault"
  shows "missing Q A = missing (sym_asserted Q) A"
proof -
  have "cq\<lparr>q_graph := q_graph q\<rparr> \<in> Q \<longleftrightarrow> cq\<lparr>q_graph := q_graph q\<rparr> \<in> sym_asserted Q" if "q \<in> A" for q cq
    using assms that by (simp add: sym_asserted_iff)
  then show ?thesis unfolding missing_def by (intro Collect_cong bex_cong refl) auto
qed

lemma knows_asserted:
  "{q \<in> knows_quads (sym_asserted Q). q_graph q = GDefault} = {q \<in> knows_quads Q. q_graph q = GDefault}"
  by (auto simp: knows_quads_def sym_asserted_iff)

context storage_contract begin

lemma symmetric_materializer: "materializer (SymmetricClosure S) r quads_of st_ok sym_asserted sym_consequences"
proof
  show "sym_asserted (sym_asserted Q \<union> sym_consequences (sym_asserted Q)) = sym_asserted Q" for Q
    by (simp add: sym_consequences_def sym_asserted_simps sym_asserted_missing)
  show "sym_asserted (sym_asserted Q) = sym_asserted Q" for Q by (rule sym_asserted_simps)
  have base: "missing Q {q \<in> knows_quads Q. q_graph q = GDefault} = sym_consequences (sym_asserted Q)" for Q
    unfolding sym_consequences_def knows_asserted by (rule missing_asserted) simp
  show "st_ok st' \<and> quads_of st' = quads_of st \<union> sym_consequences (sym_asserted (quads_of st))"
    if "st_ok st" "materialize (SymmetricClosure S) r st = (Inr stats, st')" for st stats st'
    using sym_materialize_Inr [OF that(1), of stats st'] that(2) by (simp add: SymmetricClosure_def base)
  show "st_ok st' \<and> quads_of st' = sym_asserted (quads_of st)"
    if "st_ok st" "dematerialize (SymmetricClosure S) r st = (Inr u, st')" for st u st'
    using sym_dematerialize_Inr [OF that(1), of u st'] that(2) by (simp add: SymmetricClosure_def sym_asserted_def)
qed

lemma symmetric_on_insert_ok:
  assumes "st_ok st" "\<forall>q\<in>set qs. q_graph q = GDefault" "quads_of st = Q \<union> set qs"
    and Q: "told Q = sym_closure (told (sym_asserted Q))"
    and run: "on_insert (SymmetricClosure S) r qs st = (Inr stats, st')"
  shows "st_ok st' \<and> sym_asserted (quads_of st') = sym_asserted Q \<union> set qs
    \<and> told (quads_of st') = sym_closure (told (sym_asserted (quads_of st')))"
proof -
  let ?new = "filter (\<lambda>q. q_predicate q = ex ''knows'') qs"
  have new: "set ?new = knows_quads (set qs)" by (auto simp: knows_quads_def)
  have "add_converses S ?new st = (Inr stats, st')" using run by (simp add: SymmetricClosure_def SymmetricClosure_on_insert_def)
  from add_converses_Inr [OF assms(1) _ this] assms(2)
  have st': "st_ok st'" "quads_of st' = quads_of st \<union> missing (quads_of st) (knows_quads (set qs))"
    unfolding new [symmetric] by auto
  have base: "sym_asserted (quads_of st') = sym_asserted Q \<union> set qs"
    using assms(2,3) st'(2) by (simp add: sym_asserted_simps sym_asserted_missing sym_asserted_default)
  have "told (quads_of st') = told (quads_of st) \<union> sym_closure (told (set qs))"
    using told_missing [of "set qs" "quads_of st"] assms(2,3) unfolding st'(2) told_Un by auto
  also have "\<dots> = sym_closure (told (sym_asserted Q)) \<union> sym_closure (told (set qs))"
    unfolding assms(3) told_Un Q by (auto simp: sym_closure_def)
  finally show ?thesis using st'(1) base by (simp add: told_Un sym_closure_Un)
qed

lemma symmetric_on_remove_ok:
  assumes "st_ok st" "on_remove (SymmetricClosure S) r qs st = (Inr stats, st')"
  shows "st_ok st' \<and> sym_asserted (quads_of st') = sym_asserted (quads_of st)
    \<and> told (quads_of st') = sym_closure (told (sym_asserted (quads_of st')))"
proof -
  have "recompute (SymmetricClosure S) r st = (Inr stats, st')"
    using assms(2) by (simp add: SymmetricClosure_def SymmetricClosure_on_remove_def recompute_def)
  note out = materializer.recompute_ok [OF symmetric_materializer assms(1) this]
  then have "told (quads_of st') = sym_closure (told (sym_asserted (quads_of st)))" using told_closed [of "quads_of st"] by metis
  with out show ?thesis by metis
qed

lemma symmetric_incremental:
  "incremental_reasoner (SymmetricClosure S) r quads_of st_ok sym_asserted sym_consequences (\<lambda>q. q_graph q = GDefault) told"
proof (intro incremental_reasoner.intro incremental_reasoner_axioms.intro symmetric_materializer)
  show "sym_asserted B = B" if "\<forall>q\<in>B. q_graph q = GDefault" for B using that by (rule sym_asserted_default)
next
  fix st and qs :: "Quad list" and Q stats st'
  assume a: "st_ok st" "list_all (\<lambda>q. q_graph q = GDefault) qs"
    and Q: "told Q = told (sym_asserted Q \<union> sym_consequences (sym_asserted Q))"
  have qs: "\<forall>q\<in>set qs. q_graph q = GDefault" using a(2) by (simp add: list_all_iff)
  have closed: "told (sym_asserted Q' \<union> sym_consequences (sym_asserted Q')) = sym_closure (told (sym_asserted Q'))" for Q'
    by (rule told_closed)
  show "st_ok st' \<and> sym_asserted (quads_of st') = sym_asserted Q \<union> set qs
      \<and> told (quads_of st') = told (sym_asserted (quads_of st') \<union> sym_consequences (sym_asserted (quads_of st')))"
    if "quads_of st = Q \<union> set qs" "on_insert (SymmetricClosure S) r qs st = (Inr stats, st')"
    using symmetric_on_insert_ok [OF a(1) qs that(1) _ that(2)] Q unfolding closed by simp
  show "st_ok st' \<and> sym_asserted (quads_of st') = sym_asserted Q - set qs
      \<and> told (quads_of st') = told (sym_asserted (quads_of st') \<union> sym_consequences (sym_asserted (quads_of st')))"
    if "quads_of st = Q - set qs" "on_remove (SymmetricClosure S) r qs st = (Inr stats, st')"
    using symmetric_on_remove_ok [OF a(1) that(2)] that(1) unfolding closed by (simp add: sym_asserted_simps)
qed

end

interpretation doc_symmetric: incremental_reasoner "SymmetricClosure DocStore_storage" r set distinct
    sym_asserted sym_consequences "\<lambda>q. q_graph q = GDefault" told
  for r
  by (rule docmem.symmetric_incremental)

text \<open>
  C30. Incremental maintenance agrees with recomputing. Whatever default-graph quads a caller
  inserts and removes, in any order, telling \<open>SymmetricClosure\<close> after each change: the
  store tells exactly the symmetric closure of the asserted quads, which is also what it
  tells after everything derived is dropped and materialized again.
\<close>

theorem symmetric_maintenance:
  assumes "storage_contract S quads_of view st_ok tx_ok writable"
    and "maintained (SymmetricClosure S) () quads_of st_ok (\<lambda>q. q_graph q = GDefault) B st"
  shows "sym_asserted (quads_of st) = B \<and> told (quads_of st) = sym_closure (told B)
    \<and> (\<forall>stats st'. recompute (SymmetricClosure S) () st = (Inr stats, st') \<longrightarrow> told (quads_of st') = told (quads_of st))"
proof -
  note inc = storage_contract.symmetric_incremental [OF assms(1), of "()"]
  have B: "sym_asserted (quads_of st) = B" "told (quads_of st) = told (B \<union> sym_consequences B)"
    using incremental_reasoner.maintained_invariant [OF inc assms(2)] by simp_all
  have "told (B \<union> sym_consequences B) = sym_closure (told B)"
    using told_closed [of "quads_of st"] unfolding B(1) .
  with B incremental_reasoner.maintained_agrees [OF inc assms(2)] show ?thesis by auto
qed

theorem symmetric_maintenance_witness:
  "\<exists>st stats st'. maintained (SymmetricClosure DocStore_storage) () set distinct (\<lambda>q. q_graph q = GDefault) (set w_knows) st
     \<and> told (set st) = {(NbNamed (ex ''alice''), ex ''knows'', TNamed (ex ''bob'')), (NbNamed (ex ''bob''), ex ''knows'', TNamed (ex ''alice''))}
     \<and> recompute (SymmetricClosure DocStore_storage) () st = (Inr stats, st')"
proof -
  obtain stats st where "SymmetricClosure_materialize DocStore_storage w_knows = (Inr stats, st)"
    using docmem.sym_materialize_total [OF w_distinct(2)] by blast
  then have m: "maintained (SymmetricClosure DocStore_storage) () set distinct (\<lambda>q. q_graph q = GDefault) (set w_knows) st"
    by (intro materialized) (simp_all add: SymmetricClosure_def w_distinct w_knows_def)
  have base: "told (set w_knows) = {(NbNamed (ex ''alice''), ex ''knows'', TNamed (ex ''bob''))}"
    by (auto simp: told_def w_knows_def)
  have "sym_closure (told (set w_knows)) = {(NbNamed (ex ''alice''), ex ''knows'', TNamed (ex ''bob'')), (NbNamed (ex ''bob''), ex ''knows'', TNamed (ex ''alice''))}"
    unfolding base by (auto simp: sym_closure_def)
  then have told: "told (set st) = {(NbNamed (ex ''alice''), ex ''knows'', TNamed (ex ''bob'')), (NbNamed (ex ''bob''), ex ''knows'', TNamed (ex ''alice''))}"
    using symmetric_maintenance [OF docmem.storage_contract_axioms m] by simp
  have "distinct st" using doc_symmetric.maintained_invariant [OF m] by simp
  then obtain stats' st' where "SymmetricClosure_on_remove DocStore_storage [] st = (Inr stats', st')"
    using symmetric_on_remove_recomputes [of st "[]"] by blast
  then have "recompute (SymmetricClosure DocStore_storage) () st = (Inr stats', st')"
    by (simp add: SymmetricClosure_def SymmetricClosure_on_remove_def recompute_def)
  with m told show ?thesis by blast
qed

text \<open>
  Without the restriction to the default graph the agreement fails: \<open>on_insert\<close> derives the
  converse of a quad of any graph, \<open>materialize\<close> only of the default graph.
\<close>

definition w_other_graph :: DocStore where
  "w_other_graph = [Quad_new (NbNamed (ex ''alice'')) (ex ''knows'') (TNamed (ex ''bob'')) (GNamed (ex ''g''))]"

lemma on_insert_ignores_graphs:
  "\<exists>stats st stats' st'. on_insert (SymmetricClosure DocStore_storage) () w_other_graph w_other_graph = (Inr stats, st)
     \<and> told (set st) = {(NbNamed (ex ''bob''), ex ''knows'', TNamed (ex ''alice''))}
     \<and> recompute (SymmetricClosure DocStore_storage) () st = (Inr stats', st') \<and> told (set st') = {}"
proof -
  have d: "distinct w_other_graph" by (simp add: w_other_graph_def)
  have g: "\<forall>q\<in>set w_other_graph. q_graph q \<noteq> SymmetricClosure_inferred \<and> q_graph q \<noteq> GDefault"
    by (simp add: w_other_graph_def SymmetricClosure_inferred_def ex_def)
  obtain stats st where ins: "SymmetricClosure_on_insert DocStore_storage w_other_graph w_other_graph = (Inr stats, st)"
    unfolding SymmetricClosure_on_insert_def using docmem.add_converses_total [OF d] by blast
  let ?cq = "Quad_new (NbNamed (ex ''bob'')) (ex ''knows'') (TNamed (ex ''alice'')) SymmetricClosure_inferred"
  have "missing (set w_other_graph) (set w_other_graph) = {?cq}"
    by (auto simp: missing_def w_other_graph_def converse_quad_def ex_def Quad_new_def)
  moreover have "filter (\<lambda>q. q_predicate q = ex ''knows'') w_other_graph = w_other_graph"
    by (simp add: w_other_graph_def)
  ultimately have st: "distinct st" "set st = insert ?cq (set w_other_graph)"
    using docmem.add_converses_Inr [OF d, of w_other_graph stats st] ins g by (simp_all add: SymmetricClosure_on_insert_def)
  have "told (set w_other_graph) = {}" using g by (auto simp: told_def)
  then have "told (set st) = told {?cq}"
    unfolding st(2) insert_is_Un [of ?cq "set w_other_graph"] told_Un by simp
  moreover have "told {?cq} = {(NbNamed (ex ''bob''), ex ''knows'', TNamed (ex ''alice''))}" by (auto simp: told_def)
  moreover obtain stats' st' where rem: "SymmetricClosure_on_remove DocStore_storage [] st = (Inr stats', st')"
    and st': "let base = set st - inferred_quads (set st) in set st' = base \<union> missing base {q \<in> knows_quads base. q_graph q = GDefault}"
    using symmetric_on_remove_recomputes [OF st(1), of "[]"] by blast
  have base: "set st - inferred_quads (set st) = set w_other_graph"
    using g unfolding st(2) inferred_quads_def by auto
  have empty: "{q \<in> knows_quads (set w_other_graph). q_graph q = GDefault} = {}" using g by (auto simp: knows_quads_def)
  have "missing Q {} = {}" for Q by (simp add: missing_def)
  then have "set st' = set w_other_graph" using st' unfolding base Let_def empty by simp
  then have "told (set st') = {}" using g by (auto simp: told_def)
  moreover have "recompute (SymmetricClosure DocStore_storage) () st = (Inr stats', st')"
    using rem by (simp add: SymmetricClosure_def SymmetricClosure_on_remove_def recompute_def)
  ultimately show ?thesis using ins by (auto simp: SymmetricClosure_def)
qed

section \<open>The subsumption reasoner is no materializer\<close>

text \<open>
  \<open>ToySubsumption::dematerialize\<close> removes nothing. So it does not leave the asserted base, for
  no reading of what the base is that takes a fresh store as asserted; and after a removal,
  \<open>on_remove\<close> keeps every type that was derived from what has been removed.
\<close>

lemma toy_no_materializer:
  assumes "asserted (set w_types) = set w_types"
  shows "\<not> materializer (ToySubsumption DocStore_storage) () set distinct asserted type_closure"
proof
  assume m: "materializer (ToySubsumption DocStore_storage) () set distinct asserted type_closure"
  obtain stats st where mat: "ToySubsumption_materialize DocStore_storage w_types = (Inr stats, st)"
    using docmem.materialize_total [OF w_distinct(1)] by blast
  note st = docmem.materialize_Inr [OF w_distinct(1) mat]
  have "set st = asserted (set st)"
    using materializer.dematerialize_ok [OF m, of st "()" st] st by (simp add: ToySubsumption_def ToySubsumption_dematerialize_def)
  also have "\<dots> = set w_types" using materializer.asserted_saturated [OF m, of "set w_types"] st assms by simp
  finally have "type_closure (set w_types) \<subseteq> set w_types" using st by blast
  moreover have "type_quad (ex ''tom'') (ex ''Animal'') \<in> type_closure (set w_types)"
    using w_derived by (auto simp: type_closure_def)
  ultimately show False by (auto simp: w_types_def type_quad_def Quad_eq_iff ex_def SUB_CLASS_OF_def RDF_TYPE_def)
qed

context storage_contract begin

lemma toy_on_remove_keeps:
  assumes "st_ok st" "on_remove (ToySubsumption S) r qs st = (Inr stats, st')"
  shows "quads_of st \<subseteq> quads_of st'"
  using assms(2) materialize_Inr [OF assms(1), of stats st']
  by (simp add: ToySubsumption_def ToySubsumption_on_remove_def ToySubsumption_dematerialize_def try_bind_def)

end

section \<open>Backward chaining\<close>

text \<open>
  \<open>entails\<close> decides what \<open>entailed_quads\<close> enumerates: the asserted quads and what follows from
  them.
\<close>

locale entailment =
  fixes N :: "('r, 'st, 'e, 'z) Entailment_scheme"
    and r :: 'r
    and quads_of :: "'st \<Rightarrow> Quad set"
    and st_ok :: "'st \<Rightarrow> bool"
    and consequences :: "Quad set \<Rightarrow> Quad set"
  assumes entails_ok: "st_ok st \<Longrightarrow> entails N r st q = Inr b \<Longrightarrow>
      b \<longleftrightarrow> q \<in> quads_of st \<union> consequences (quads_of st)"
    and entailed_quads_ok: "st_ok st \<Longrightarrow> collect_results (entailed_quads N r st) = Inr qs \<Longrightarrow>
      set qs = quads_of st \<union> consequences (quads_of st)"

begin

lemma entails_iff_listed:
  assumes "st_ok st" "entails N r st q = Inr b" "collect_results (entailed_quads N r st) = Inr qs"
  shows "b \<longleftrightarrow> q \<in> set qs"
  using entails_ok [OF assms(1,2)] entailed_quads_ok [OF assms(1,3)] by simp

end

text \<open>The converses of the \<open>knows\<close> quads, each in the graph of the quad itself.\<close>

definition knows_converses :: "Quad set \<Rightarrow> Quad set" where
  "knows_converses Q = {Quad_new (NbNamed b) (ex ''knows'') (TNamed a) g | a b g. Quad_new (NbNamed a) (ex ''knows'') (TNamed b) g \<in> Q}"

lemma knows_converses_iff:
  "q \<in> knows_converses Q \<longleftrightarrow> (case (q_subject q, q_object q) of
     (NbNamed s, TNamed ob) \<Rightarrow> q_predicate q = ex ''knows'' \<and> Quad_new (NbNamed ob) (ex ''knows'') (TNamed s) (q_graph q) \<in> Q
   | _ \<Rightarrow> False)"
  by (cases "q_subject q"; cases "q_object q") (auto simp: knows_converses_def Quad_new_def Quad_eq_iff)

context storage_contract begin

lemma asserted_entailment: "entailment (Asserted S) r quads_of st_ok (\<lambda>_. {})"
proof
  show "b \<longleftrightarrow> q \<in> quads_of st \<union> {}" if "st_ok st" "entails (Asserted S) r st q = Inr b" for st q b
    using that begin_read_ok [OF that(1)] contains_ok [OF that(1)]
    by (auto simp: Asserted_def Asserted_entails_def split: sum.splits)
  show "set qs = quads_of st \<union> {}" if "st_ok st" "collect_results (entailed_quads (Asserted S) r st) = Inr qs" for st qs
    using that begin_read_ok [OF that(1)] pattern_ok [OF that(1)]
    by (auto simp: Asserted_def Asserted_entailed_quads_def split: sum.splits)
qed

text \<open>\<open>SymmetricKnows::entails\<close> is right; its \<open>entailed_quads\<close> lists the derived quads only.\<close>

lemma symmetric_knows_entails:
  assumes "st_ok st" "entails (SymmetricKnows S) r st q = Inr b"
  shows "b \<longleftrightarrow> q \<in> quads_of st \<union> knows_converses (quads_of st)"
proof -
  obtain tx where tx: "begin_read S st = Inr tx"
    using assms(2) by (cases "begin_read S st") (simp_all add: SymmetricKnows_def SymmetricKnows_entails_def)
  note ok = begin_read_ok [OF assms(1) tx]
  have contains: "tx_contains S st tx x = Inr c \<Longrightarrow> c \<longleftrightarrow> x \<in> quads_of st" for x c
    using contains_ok [OF assms(1), of tx x c] ok by simp
  obtain present where p: "tx_contains S st tx q = Inr present"
    using assms(2) tx by (cases "tx_contains S st tx q") (simp_all add: SymmetricKnows_def SymmetricKnows_entails_def)
  let ?c = "\<lambda>s ob. Quad_new (NbNamed ob) (ex ''knows'') (TNamed s) (q_graph q)"
  have run: "entails (SymmetricKnows S) r st q = (if present then Inr True else
      case (q_subject q, q_object q) of
        (NbNamed s, TNamed ob) \<Rightarrow> if q_predicate q \<noteq> ex ''knows'' then Inr False else tx_contains S st tx (?c s ob)
      | _ \<Rightarrow> Inr False)"
    using tx p by (simp add: SymmetricKnows_def SymmetricKnows_entails_def)
  show ?thesis
  proof (cases present)
    case True
    then show ?thesis using run assms(2) contains [OF p] by simp
  next
    case False
    then have "b \<longleftrightarrow> q \<in> knows_converses (quads_of st)"
      using run assms(2) unfolding knows_converses_iff
      by (simp add: contains split: NamedOrBlankNode.splits Term.splits if_splits)
    then show ?thesis using False contains [OF p] by simp
  qed
qed

end

lemma map_filter_Inr: "(\<And>x. g x = map_option Inr (f x)) \<Longrightarrow> List.map_filter g xs = map Inr (List.map_filter f xs)"
  by (induction xs) (simp_all add: List.map_filter_simps split: option.splits)

context reliable_storage begin

lemma symmetric_knows_lists:
  assumes "st_ok st"
  shows "\<exists>qs. entailed_quads (SymmetricKnows S) r st = map Inr qs \<and> set qs = knows_converses (quads_of st)"
proof -
  let ?f = "\<lambda>q. case (q_subject q, q_object q) of
      (NbNamed s, TNamed ob) \<Rightarrow> Some (Quad_new (NbNamed ob) (q_predicate q) (TNamed s) (q_graph q)) | _ \<Rightarrow> None"
  obtain tx where tx: "begin_read S st = Inr tx" using begin_read_total [OF assms] by blast
  note ok = begin_read_ok [OF assms tx]
  obtain ks where ks: "collect_results (tx_quads_for_pattern S st tx None (Some (ex ''knows'')) None None) = Inr ks"
    using pattern_total [OF assms] ok by blast
  have set_ks: "set ks = knows_quads (quads_of st)"
    using pattern_ok [OF assms _ ks] ok by (simp add: matches_pattern_def knows_quads_def)
  let ?g = "\<lambda>q. case (q_subject q, q_object q) of
      (NbNamed s, TNamed ob) \<Rightarrow> Some (Inr (Quad_new (NbNamed ob) (q_predicate q) (TNamed s) (q_graph q))) | _ \<Rightarrow> None"
  have "List.map_filter ?g ks = map Inr (List.map_filter ?f ks)"
    by (rule map_filter_Inr) (simp split: NamedOrBlankNode.splits Term.splits)
  moreover have "entailed_quads (SymmetricKnows S) r st = List.map_filter ?g ks"
    using tx ks by (simp add: SymmetricKnows_def SymmetricKnows_entailed_quads_def)
  ultimately have "entailed_quads (SymmetricKnows S) r st = map Inr (List.map_filter ?f ks)" by (rule trans [rotated])
  moreover have some: "?f q = Some cq \<longleftrightarrow> (\<exists>a b. q_subject q = NbNamed a \<and> q_object q = TNamed b
      \<and> cq = Quad_new (NbNamed b) (q_predicate q) (TNamed a) (q_graph q))" for q cq
    by (cases "q_subject q"; cases "q_object q") auto
  have "set (List.map_filter ?f ks) = knows_converses (quads_of st)"
  proof (intro set_eqI iffI)
    fix cq assume "cq \<in> set (List.map_filter ?f ks)"
    then obtain q a b where q: "q \<in> knows_quads (quads_of st)" "q_subject q = NbNamed a" "q_object q = TNamed b"
      and cq: "cq = Quad_new (NbNamed b) (q_predicate q) (TNamed a) (q_graph q)"
      unfolding set_map_filter set_ks some by blast
    moreover have "Quad_new (NbNamed a) (ex ''knows'') (TNamed b) (q_graph q) \<in> quads_of st"
      using q by (cases q) (simp add: knows_quads_def Quad_new_def)
    moreover have "q_predicate q = ex ''knows''" using q(1) by (simp add: knows_quads_def)
    ultimately show "cq \<in> knows_converses (quads_of st)" unfolding knows_converses_def by auto
  next
    fix cq assume "cq \<in> knows_converses (quads_of st)"
    then obtain a b g where q: "Quad_new (NbNamed a) (ex ''knows'') (TNamed b) g \<in> knows_quads (quads_of st)"
      and cq: "cq = Quad_new (NbNamed b) (ex ''knows'') (TNamed a) g"
      by (auto simp: knows_converses_def knows_quads_def Quad_new_def)
    show "cq \<in> set (List.map_filter ?f ks)"
      unfolding set_map_filter set_ks some by (intro CollectI bexI [OF _ q]) (simp add: cq Quad_new_def)
  qed
  ultimately show ?thesis by blast
qed

text \<open>So a quad is entailed exactly if it is asserted or listed.\<close>

lemma symmetric_knows_complete:
  assumes "st_ok st" "entails (SymmetricKnows S) r st q = Inr b"
  shows "b \<longleftrightarrow> q \<in> quads_of st \<or> Inr q \<in> set (entailed_quads (SymmetricKnows S) r st)"
  using symmetric_knows_lists [OF assms(1), of r] symmetric_knows_entails [OF assms] by auto

end

interpretation doc_asserted: entailment "Asserted DocStore_storage" r set distinct "\<lambda>_. {}"
  for r
  by (rule docmem.asserted_entailment)

text \<open>The trait promises all entailed quads; the asserted ones are missing from the list.\<close>

lemma symmetric_knows_no_entailment: "\<not> entailment (SymmetricKnows DocStore_storage) () set distinct consequences"
proof
  assume e: "entailment (SymmetricKnows DocStore_storage) () set distinct consequences"
  obtain qs where qs: "entailed_quads (SymmetricKnows DocStore_storage) () w_knows = map Inr qs"
    "set qs = knows_converses (set w_knows)"
    using docmem.symmetric_knows_lists [OF w_distinct(2)] by blast
  have "set qs = set w_knows \<union> consequences (set w_knows)"
    using entailment.entailed_quads_ok [OF e w_distinct(2)] qs(1) by simp
  then have "set w_knows \<subseteq> knows_converses (set w_knows)" using qs(2) by auto
  then show False by (auto simp: w_knows_def knows_converses_iff Quad_eq_iff ex_def)
qed

end
