(* ===== verification/Doc_Programs.thy ===== *)
theory Doc_Programs
  imports Reasoner_Traits
begin

text \<open>
  The programs that the documentation of \<^verbatim>\<open>semanticore-core\<close> runs as tests: the one of the
  storage traits (\<^verbatim>\<open>storage.rs\<close>) and, through the traits, those of the example engines. Each
  is a function of a store, that yields whether it runs to its end with every assertion
  holding; an error or a panic is \<open>False\<close>. They start from an empty example store.
\<close>

section \<open>Loading and storing\<close>

text \<open>The helper \<open>load\<close> of the documentation, whose \<open>unwrap\<close>s panic.\<close>

definition doc_load :: "('st, 'tx) Storage \<Rightarrow> Quad list \<Rightarrow> 'st \<Rightarrow> 'st option" where
  "doc_load S quads st =
     (case begin_write S st of Inl _ \<Rightarrow> None
      | Inr tx \<Rightarrow> (case insert_each S st quads tx of (Inl _, _) \<Rightarrow> None
        | (Inr _, tx') \<Rightarrow> (case tx_commit S tx' st of (Inl _, _) \<Rightarrow> None | (Inr _, st') \<Rightarrow> Some st')))"

definition named_triple :: "string \<Rightarrow> string \<Rightarrow> string \<Rightarrow> Quad" where
  "named_triple s p ob = Quad_triple (NbNamed (ex s)) (ex p) (TNamed (ex ob))"

definition doc_storage :: "('st, 'tx) Storage \<Rightarrow> 'st \<Rightarrow> bool" where
  "doc_storage S st =
     (let graph = GNamed (ex ''g''); q = Quad_new (NbNamed (ex ''alice'')) (ex ''knows'') (TNamed (ex ''bob'')) graph
      in case begin_write S st of Inl _ \<Rightarrow> False
         | Inr tx \<Rightarrow>
             (case tx_insert S st q tx of (r, tx) \<Rightarrow> r = Inr True \<and>
             (case tx_insert S st q tx of (r, tx) \<Rightarrow> r = Inr False \<and>
             (case tx_commit S tx st of (r, st) \<Rightarrow> r = Inr () \<and>
                quad_count S st = Inr 1 \<and> named_graphs S st = Inr [ex ''g''] \<and>
             (case begin_read S st of Inl _ \<Rightarrow> False
              | Inr read \<Rightarrow>
                  tx_quads_for_pattern S st read None (Some (ex ''knows'')) None (Some graph) = [Inr q] \<and>
             (case begin_read S st of Inl _ \<Rightarrow> False
              | Inr read \<Rightarrow>
                  (case tx_insert S st q read of (Inl _, _) \<Rightarrow> True | (Inr _, _) \<Rightarrow> False) \<and>
             (case begin_write S st of Inl _ \<Rightarrow> False
              | Inr tx \<Rightarrow>
                  (case tx_remove S st q tx of (r, tx) \<Rightarrow> r = Inr True \<and>
                  (case tx_rollback S tx st of (r, st) \<Rightarrow> r = Inr () \<and>
                     quad_count S st = Inr 1 \<and> \<not> persistent (capabilities S st))))))))))"

section \<open>Reasoners\<close>

definition doc_capabilities :: "('st, 'tx) Storage \<Rightarrow> 'st \<Rightarrow> bool" where
  "doc_capabilities S st =
     (let R = ToyElReasoner; caps = reasoner_capabilities R ()
      in ProfileSet_contains (rc_profiles caps) El \<and> \<not> ProfileSet_contains (rc_profiles caps) Dl
       \<and> rc_incremental caps \<and> \<not> rc_distributed caps
       \<and> quad_count S (view_storage (over R () st)) = Inr 0)"

definition doc_symmetric_knows :: "('st, 'tx) Storage \<Rightarrow> 'st \<Rightarrow> bool" where
  "doc_symmetric_knows S st =
     (case doc_load S [named_triple ''alice'' ''knows'' ''bob''] st of None \<Rightarrow> False
      | Some st \<Rightarrow>
          entails (SymmetricKnows S) () st (named_triple ''bob'' ''knows'' ''alice'') = Inr True
        \<and> length (entailed_quads (SymmetricKnows S) () st) = 1
        \<and> (let view = over (SymmetricKnows S) () st
           in quad_count S (view_storage view) = Inr 1
            \<and> \<not> rc_distributed (reasoner_capabilities (SymmetricKnows S) (view_reasoner view))))"

definition doc_asserted_only :: "('st, 'tx) Storage \<Rightarrow> 'st \<Rightarrow> bool" where
  "doc_asserted_only S st =
     (let q = named_triple ''alice'' ''knows'' ''bob''
      in case doc_load S [q] st of None \<Rightarrow> False
         | Some st \<Rightarrow> entails (Asserted S) () st q = Inr True \<and> length (entailed_quads (Asserted S) () st) = 1
             \<and> quad_count S st = Inr 1)"

definition doc_maintenance :: "('st, 'tx) Storage \<Rightarrow> 'st \<Rightarrow> bool" where
  "doc_maintenance S st =
     (let R = SymmetricClosure S; bc = named_triple ''bob'' ''knows'' ''carol''
      in case doc_load S [named_triple ''alice'' ''knows'' ''bob''] st of None \<Rightarrow> False
         | Some st \<Rightarrow>
             (case materialize R () st of (Inl _, _) \<Rightarrow> False
              | (Inr stats, st) \<Rightarrow> quad_count S st = Inr 2 \<and> quads_added stats = 1 \<and>
             (case doc_load S [bc] st of None \<Rightarrow> False
              | Some st \<Rightarrow>
             (case on_insert R () [bc] st of (Inl _, _) \<Rightarrow> False
              | (Inr stats, st) \<Rightarrow> quads_added stats = 1 \<and> quad_count S st = Inr 4 \<and>
             (case dematerialize R () st of (r, st) \<Rightarrow> r = Inr () \<and> quad_count S st = Inr 2)))))"

definition doc_subsumption :: "('st, 'tx) Storage \<Rightarrow> 'st \<Rightarrow> bool" where
  "doc_subsumption S st =
     (let R = ToySubsumption S; sub = Quad_triple (NbNamed (ex ''Cat'')) (NamedNode SUB_CLASS_OF) (TNamed (ex ''Animal''))
      in case doc_load S [sub, type_quad (ex ''tom'') (ex ''Cat'')] st of None \<Rightarrow> False
         | Some st \<Rightarrow>
             supported_profiles R () = [El]
           \<and> (case classify R () st of Inl _ \<Rightarrow> False | Inr h \<Rightarrow> direct_subclass_of h = [(ex ''Cat'', ex ''Animal'')])
           \<and> (case realize R () st of Inl _ \<Rightarrow> False
              | Inr realized \<Rightarrow> types_of realized (ex ''tom'') = Some [ex ''Animal'', ex ''Cat''])
           \<and> (case check_consistency R () st of Inl _ \<Rightarrow> False | Inr c \<Rightarrow> is_consistent c)
           \<and> entails (owl_entailment R) () st (type_quad (ex ''tom'') (ex ''Animal'')) = Inr True)"

section \<open>The Datalog engine and the validator\<close>

definition doc_datalog :: "('st, 'tx) Storage \<Rightarrow> 'st \<Rightarrow> bool" where
  "doc_datalog S st =
     (let D = OneStep S;
          rule = Rule_new (Atom_new (ex ''child'') [Var ''Y'', Var ''X'']) [Positive (Atom_new (ex ''parent'') [Var ''X'', Var ''Y''])];
          program = DatalogProgram_new\<lparr>prog_rules := [rule]\<rparr>
      in case doc_load S [named_triple ''alice'' ''parent'' ''bob'', named_triple ''bob'' ''parent'' ''carol''] st of None \<Rightarrow> False
         | Some edb \<Rightarrow>
             (case load_program D program DatalogProgram_new of (Inl _, _) \<Rightarrow> False
              | (Inr _, engine) \<Rightarrow>
             (case datalog_evaluate D engine edb of Inl _ \<Rightarrow> False
              | Inr res \<Rightarrow> total_facts res = 2
                 \<and> (case relation res (ex ''child'') of None \<Rightarrow> False
                    | Some children \<Rightarrow> List.member children [TNamed (ex ''bob''), TNamed (ex ''alice'')])
                 \<and> supports_negation D engine = NegNone)))"

definition doc_shacl :: "('st, 'tx) Storage \<Rightarrow> 'st \<Rightarrow> bool" where
  "doc_shacl S st =
     (let V = MinCountOne S; is_person = (\<lambda>who. type_quad (ex who) (ex ''Person''));
          shape = (\<lambda>p ob. Quad_triple (NbNamed (ex ''PersonShape'')) (sh p) (TNamed (ex ob)));
          name = Quad_triple (NbNamed (ex ''alice'')) (ex ''name'') (TLiteral (Literal_new_simple ''Alice''))
      in case doc_load S [shape ''targetClass'' ''Person'', shape ''path'' ''name''] st of None \<Rightarrow> False
         | Some shapes \<Rightarrow>
        (case doc_load S [is_person ''alice'', name, is_person ''bob''] st of None \<Rightarrow> False
         | Some data \<Rightarrow>
             (case shacl_validate V () data shapes of Inl _ \<Rightarrow> False
              | Inr report \<Rightarrow> \<not> conforms report \<and> map focus_node (results report) = [TNamed (ex ''bob'')])
           \<and> (case shacl_validate_node V () data shapes (NbNamed (ex ''alice'')) of Inl _ \<Rightarrow> False | Inr r \<Rightarrow> nv_conforms r)
           \<and> \<not> supports_sparql_constraints V ()))"

lemma doc_programs_pass:
  "doc_storage DocStore_storage []"
  "doc_capabilities DocStore_storage []" "doc_symmetric_knows DocStore_storage []" "doc_asserted_only DocStore_storage []"
  "doc_maintenance DocStore_storage []" "doc_subsumption DocStore_storage []"
  "doc_datalog DocStore_storage []" "doc_shacl DocStore_storage []"
  by code_simp+

end
