(* ===== verification/Core_Tests.thy ===== *)
theory Core_Tests
  imports Reasoner_Traits Record_Layout Py_Errors
begin

text \<open>
  The unit tests of \<^verbatim>\<open>semanticore-core\<close> and of \<^verbatim>\<open>record.rs\<close> and \<^verbatim>\<open>item.rs\<close>, and the programs
  that the documentation of the reasoner families runs, as functions of the model: the
  conjunction of the assertions a test makes. That each holds shows that the model computes
  what the code was tested to compute. A test that only constructs values is left out when
  the model's types make it trivial (\<open>Copy\<close>, \<open>matches!\<close> on the constructor just applied).
\<close>

section \<open>Terms\<close>

text \<open>\<open>NamedNode::new\<close>, \<open>as_str\<close> and their like are the constructors and selectors.\<close>

definition test_named_node_round_trips_and_displays :: bool where
  "test_named_node_round_trips_and_displays =
     (let n = NamedNode ''https://example.org/foo''
      in iri n = ''https://example.org/foo'' \<and> NamedNode_display n = ''<https://example.org/foo>'')"

definition test_blank_node_displays_with_prefix :: bool where
  "test_blank_node_displays_with_prefix =
     (let b = BlankNode ''b0'' in label b = ''b0'' \<and> BlankNode_display b = ''_:b0'')"

definition test_simple_literal_is_xsd_string :: bool where
  "test_simple_literal_is_xsd_string =
     (let l = Literal_new_simple ''hi''
      in lit_value l = ''hi'' \<and> iri (lit_datatype l) = xsd_STRING \<and> lit_language l = None)"

definition test_lang_literal_carries_tag_and_langstring_datatype :: bool where
  "test_lang_literal_carries_tag_and_langstring_datatype =
     (let l = Literal_new_lang ''bonjour'' ''fr''
      in lit_language l = Some ''fr'' \<and> iri (lit_datatype l) = RDF_LANG_STRING
       \<and> Literal_display l = quote_char # ''bonjour'' @ quote_char # ''@fr'')"

definition test_typed_literal_keeps_datatype :: bool where
  "test_typed_literal_keeps_datatype =
     (let dt = NamedNode ''http://www.w3.org/2001/XMLSchema#integer''
      in lit_datatype (Literal_new_typed ''42'' dt) = dt)"

definition test_quad_default_graph_constructor :: bool where
  "test_quad_default_graph_constructor =
     (let q = Quad_triple (NbNamed (NamedNode ''https://example.org/s'')) (NamedNode ''https://example.org/p'')
                (TLiteral (Literal_new_simple ''o''))
      in q_graph q = GDefault \<and> q_subject q = NbNamed (NamedNode ''https://example.org/s''))"

definition test_term_conversions :: bool where
  "test_term_conversions =
     (Term_from_subject (NbBlank (BlankNode ''x'')) = TBlank (BlankNode ''x'')
      \<and> Term_from_subject (NbNamed (NamedNode ''https://example.org/a'')) = TNamed (NamedNode ''https://example.org/a''))"

definition test_iri_round_trip :: bool where
  "test_iri_round_trip = (iri_text (Iri ''https://example.org/foo'') = ''https://example.org/foo'')"

lemma model_tests_pass:
  "test_named_node_round_trips_and_displays" "test_blank_node_displays_with_prefix"
  "test_simple_literal_is_xsd_string" "test_lang_literal_carries_tag_and_langstring_datatype"
  "test_typed_literal_keeps_datatype" "test_quad_default_graph_constructor" "test_term_conversions"
  "test_iri_round_trip"
  by (simp_all add: test_named_node_round_trips_and_displays_def test_blank_node_displays_with_prefix_def
    test_simple_literal_is_xsd_string_def test_lang_literal_carries_tag_and_langstring_datatype_def
    test_typed_literal_keeps_datatype_def test_quad_default_graph_constructor_def test_term_conversions_def test_iri_round_trip_def
    NamedNode_display_def BlankNode_display_def Literal_display_def Quad_triple_def Quad_new_def)

section \<open>Messages\<close>

text \<open>\<open>str::contains\<close>.\<close>

fun str_contains :: "string \<Rightarrow> string \<Rightarrow> bool" where
  "str_contains [] needle = (needle = [])"
| "str_contains (c # cs) needle = (take (length needle) (c # cs) = needle \<or> str_contains cs needle)"

definition test_storage_error_displays_unsupported_capability :: bool where
  "test_storage_error_displays_unsupported_capability =
     (let e = UnsupportedCapability BulkLoad
      in str_contains (StorageError_display e) ''unsupported capability'' \<and> str_contains (StorageError_display e) ''BulkLoad'')"

definition test_datalog_error_displays :: bool where
  "test_datalog_error_displays =
     str_contains (DatalogError_display (StratificationViolation ''p :- not p'')) ''stratification violation''"

definition test_owl_error_displays :: bool where
  "test_owl_error_displays =
     (str_contains (OwlError_display (OwlUnsupportedAxiom ''ObjectUnionOf(...)'' ''EL'')) ''unsupported axiom for EL''
      \<and> str_contains (OwlError_display (OwlLicense ''OwlDl'')) ''not licensed'')"

definition test_shacl_error_displays :: "(string \<Rightarrow> string) \<Rightarrow> bool" where
  "test_shacl_error_displays dbg =
     str_contains (ShaclError_display dbg (UnsupportedConstraintComponent (NamedNode ''http://www.w3.org/ns/shacl#ClosedConstraintComponent'')))
       ''unsupported constraint component''"

lemma message_tests_pass:
  "test_storage_error_displays_unsupported_capability" "test_datalog_error_displays" "test_owl_error_displays"
  "test_shacl_error_displays dbg"
  by (simp_all add: test_storage_error_displays_unsupported_capability_def test_datalog_error_displays_def
    test_owl_error_displays_def test_shacl_error_displays_def)

section \<open>Reasoner vocabulary\<close>

definition test_profile_set_empty_by_default :: bool where
  "test_profile_set_empty_by_default =
     (ProfileSet_is_empty ProfileSet_empty \<and> \<not> ProfileSet_contains ProfileSet_empty El)"

definition test_profile_set_insert_and_contains :: bool where
  "test_profile_set_insert_and_contains =
     (let p = ProfileSet_with (ProfileSet_with ProfileSet_empty El) Rl
      in ProfileSet_contains p El \<and> ProfileSet_contains p Rl \<and> \<not> ProfileSet_contains p Dl \<and> \<not> ProfileSet_is_empty p)"

definition test_profile_set_insert_mut :: bool where
  "test_profile_set_insert_mut = ProfileSet_contains (ProfileSet_insert Ql ProfileSet_empty) Ql"

definition test_default_capabilities_are_oss_scope :: bool where
  "test_default_capabilities_are_oss_scope =
     (let c = ReasonerCapabilities_default
      in \<not> rc_persistent c \<and> \<not> rc_distributed c \<and> \<not> rc_explanation c \<and> ProfileSet_is_empty (rc_profiles c)
       \<and> rc_max_axioms c = None)"

definition test_empty_hierarchy_and_realization :: bool where
  "test_empty_hierarchy_and_realization =
     (equivalence_classes ClassHierarchy_new = [] \<and> individual_types InstanceRealization_new = [])"

definition test_realization_types_of :: bool where
  "test_realization_types_of =
     (let r = InstanceRealization_new\<lparr>individual_types :=
                bt_insert (ex ''alice'') (insort_insert (ex ''Person'') []) (individual_types InstanceRealization_new)\<rparr>
      in map_option length (types_of r (ex ''alice'')) = Some 1 \<and> types_of r (ex ''bob'') = None)"

definition test_consistency_result_predicate :: bool where
  "test_consistency_result_predicate = (is_consistent Consistent \<and> \<not> is_consistent (Inconsistent None))"

definition test_equivalence_class_holds_members :: bool where
  "test_equivalence_class_holds_members =
     (length (members \<lparr>members = insort_insert (ex ''B'') (insort_insert (ex ''A'') [])\<rparr>) = 2)"

section \<open>Datalog\<close>

definition test_fact_has_empty_body :: bool where
  "test_fact_has_empty_body = is_fact (Rule_new (Atom_new (ex ''edge'') [Var ''x'', Var ''y'']) [])"

definition test_program_detects_negation :: bool where
  "test_program_detects_negation =
     (let p = \<lparr>prog_rules = [Rule_new (Atom_new (ex ''reachable'') [Var ''x'']) [Positive (Atom_new (ex ''edge'') [Var ''x''])]]\<rparr>;
          p' = p\<lparr>prog_rules := prog_rules p @
            [Rule_new (Atom_new (ex ''unreached'') [Var ''x'']) [Negative (Atom_new (ex ''reachable'') [Var ''x''])]]\<rparr>
      in \<not> has_negation p \<and> has_negation p')"

definition test_body_literal_polarity :: bool where
  "test_body_literal_polarity =
     (let l = Negative (Atom_new (ex ''p'') [Var ''x'']) in is_negative l \<and> atom_predicate (BodyLiteral_atom l) = ex ''p'')"

definition test_result_accumulates_and_counts :: bool where
  "test_result_accumulates_and_counts =
     (let p = ex ''path'';
          r = add_fact p [TNamed (ex ''b''), TNamed (ex ''c'')]
                (add_fact p [TNamed (ex ''a''), TNamed (ex ''b'')] DatalogResult_new)
      in predicate_count r = 1 \<and> total_facts r = 2 \<and> map_option length (relation r p) = Some 2
       \<and> relation r (ex ''missing'') = None)"

section \<open>SHACL\<close>

definition test_result :: "Severity \<Rightarrow> ValidationResult" where
  "test_result severity =
     ValidationResult (TNamed (NamedNode ''https://example.org/n'')) severity
       (NamedNode ''http://www.w3.org/ns/shacl#MinCountConstraintComponent'')
       (Some (Predicate (NamedNode ''https://example.org/p''))) None None (Some ''too few'') []"

definition test_conforming_report_is_empty :: bool where
  "test_conforming_report_is_empty =
     (conforms ShaclValidationReport_conforming \<and> results ShaclValidationReport_conforming = [])"

definition test_violation_makes_report_nonconforming :: bool where
  "test_violation_makes_report_nonconforming =
     (let r = from_results [test_result Violation] in \<not> conforms r \<and> length (results r) = 1)"

definition test_warning_only_does_not_conform :: bool where
  "test_warning_only_does_not_conform = (\<not> conforms (from_results [test_result Warning]))"

definition test_sha_conf_warning_result_makes_conforms_false :: bool where
  "test_sha_conf_warning_result_makes_conforms_false = (\<not> conforms (from_results [test_result Warning]))"

definition test_sha_conf_info_result_makes_conforms_false :: bool where
  "test_sha_conf_info_result_makes_conforms_false = (\<not> conforms (from_results [test_result Info]))"

definition test_sha_conf_mixed_warning_info_makes_conforms_false :: bool where
  "test_sha_conf_mixed_warning_info_makes_conforms_false =
     (\<not> conforms (from_results [test_result Warning, test_result Info]))"

definition test_sha_conf_empty_results_conforms_true :: bool where
  "test_sha_conf_empty_results_conforms_true = conforms (from_results [])"


lemma vocabulary_tests_pass:
  "test_profile_set_empty_by_default" "test_profile_set_insert_and_contains" "test_profile_set_insert_mut"
  "test_default_capabilities_are_oss_scope" "test_empty_hierarchy_and_realization" "test_realization_types_of"
  "test_consistency_result_predicate" "test_equivalence_class_holds_members"
  by code_simp+

lemma datalog_tests_pass:
  "test_fact_has_empty_body" "test_program_detects_negation" "test_body_literal_polarity" "test_result_accumulates_and_counts"
  by code_simp+

lemma shacl_tests_pass:
  "test_conforming_report_is_empty" "test_violation_makes_report_nonconforming" "test_warning_only_does_not_conform"
  "test_sha_conf_info_result_makes_conforms_false" "test_sha_conf_mixed_warning_info_makes_conforms_false"
  "test_sha_conf_empty_results_conforms_true" "test_sha_conf_warning_result_makes_conforms_false"
  by code_simp+

section \<open>Items and records\<close>

definition test_scope_tags_round_trip :: bool where
  "test_scope_tags_round_trip =
     (list_all (\<lambda>s. from_tag (tag s) = Some s \<and> ContextScope_display s = tag s) ContextScope_ALL \<and> from_tag ''nope'' = None)"

definition test_item_id_displays_its_number :: bool where
  "test_item_id_displays_its_number = (ItemId_display 7 = ''item:7'')"

definition test_item_graph_round_trips_canonical_ids_only :: bool where
  "test_item_graph_round_trips_canonical_ids_only =
     (parse_item_graph (item_graph 42) = Some 42
      \<and> list_all (\<lambda>bad. parse_item_graph (NamedNode (ITEM_PREFIX @ bad)) = None) [''01'', ''+1'', ''x'', []]
      \<and> parse_item_graph (ex ''1'') = None)"

text \<open>The embedding is \<open>[0.1, 2.5]\<close>, as bit patterns.\<close>

definition test_item :: ContextItem where
  "test_item =
     with_embedding (with_scope_hint
       (ContextItem_triples [Quad_triple (NbNamed (ex ''a'')) (ex ''p'') (TNamed (ex ''b''))]
         (with_derived_from (Provenance_new ''src'') [3])) Enduring)
       [0x3DCCCCCD, 0x40200000]"

definition test_encode_then_decode_is_identity :: "JsonOps \<Rightarrow> bool" where
  "test_encode_then_decode_is_identity J =
     (let quads = encode J 9 test_item
      in length quads = 2
       \<and> (case partition (\<lambda>q. q_graph q = meta_graph) quads of (meta, pl) \<Rightarrow>
            (case q_object (hd meta) of TLiteral lit \<Rightarrow> decode J 9 (lit_value lit) pl = Inr test_item | _ \<Rightarrow> False)))"

definition test_decode_reports_corrupt_metadata :: "JsonOps \<Rightarrow> string \<Rightarrow> bool" where
  "test_decode_reports_corrupt_metadata J bad_hint =
     ((case decode J 1 ''not json'' [] of Inl (Corrupt _) \<Rightarrow> True | _ \<Rightarrow> False)
      \<and> (case decode J 1 bad_hint [] of Inl (Corrupt _) \<Rightarrow> True | _ \<Rightarrow> False))"

lemma show_digit: "n < 10 \<Longrightarrow> show_nat n = [digit_char n]"
  by (simp add: show_nat.simps)

lemma digits:
  "digit_char 0 = CHR ''0''" "digit_char 1 = CHR ''1''" "digit_char 7 = CHR ''7''"
  "digit_val CHR ''0'' = Some 0" "digit_val CHR ''1'' = Some 1" "digit_val CHR ''x'' = None"
  by code_simp+

lemma item_tests_pass: "test_scope_tags_round_trip" "test_item_id_displays_its_number"
  by (simp_all add: test_scope_tags_round_trip_def test_item_id_displays_its_number_def ContextScope_ALL_def
    ContextScope_display_def from_tag_def ItemId_display_def show_digit digits)

lemma item_graph_test_passes: "test_item_graph_round_trips_canonical_ids_only"
proof -
  have "parse_item_graph (item_graph 42) = Some 42" by (rule parse_item_graph_item_graph) simp
  moreover have "strip_prefix ITEM_PREFIX (iri (ex ''1'')) = None" by (simp add: strip_prefix_def ITEM_PREFIX_def ex_def)
  then have "parse_item_graph (ex ''1'') = None" by (simp add: parse_item_graph_def)
  moreover have "list_all (\<lambda>bad. parse_item_graph (NamedNode (ITEM_PREFIX @ bad)) = None) [''01'', ''+1'', ''x'', []]"
    by (simp add: parse_item_graph_def parse_u64_def show_digit digits)
  ultimately show ?thesis by (simp only: test_item_graph_round_trips_canonical_ids_only_def)
qed

lemma encode_test_passes:
  assumes "reads_back J test_item"
  shows "test_encode_then_decode_is_identity J"
proof -
  have "json_from_str J (json_to_string J (record_of test_item)) = Inr (record_of test_item)"
    using assms by (simp add: reads_back_def)
  moreover have "from_tag ''enduring'' = Some Enduring" using from_tag_tag [of Enduring] by simp
  ultimately show ?thesis
    by (simp add: test_encode_then_decode_is_identity_def encode_def decode_def decode_payload_def record_of_def
      triples_of_def in_graph_def meta_quad_def test_item_def ContextItem_triples_def ContextItem_new_def
      with_embedding_def with_scope_hint_def with_derived_from_def Provenance_new_def Quad_triple_def Quad_new_def)
qed

text \<open>
  The third test is about texts: one that is no JSON, and the JSON of a record with an unknown
  scope.
\<close>

lemma decode_test_passes:
  assumes "json_from_str J ''not json'' = Inl e" "json_from_str J bad_hint = Inr (Record RTriples ''s'' [] (Some ''huge'') None)"
  shows "test_decode_reports_corrupt_metadata J bad_hint"
proof -
  have "from_tag ''huge'' = None" by code_simp
  then show ?thesis by (simp add: test_decode_reports_corrupt_metadata_def decode_def assms)
qed

end
