(* ===== verification/Ox_Tests.thy ===== *)
theory Ox_Tests
  imports Core_Tests Strategies
begin

text \<open>
  The unit tests of \<^verbatim>\<open>convert.rs\<close> of the Oxigraph adapter. What they expect of the crate's own
  parsers, on the texts they use, is collected in \<open>test_texts\<close>; the rest is the adapter's.
\<close>

definition int_literal :: "string \<Rightarrow> Literal" where
  "int_literal v = Literal_new_typed v (NamedNode (XSD @ ''integer''))"

definition is_ok :: "'e + 'a \<Rightarrow> bool" where
  "is_ok r = (case r of Inl _ \<Rightarrow> False | Inr _ \<Rightarrow> True)"

definition test_canonical_numeric_literals_pass :: "OxModel \<Rightarrow> bool" where
  "test_canonical_numeric_literals_pass P =
     list_all (\<lambda>v. is_ok (literal_to_ox P (int_literal v))) [''1'', ''-42'', ''abc'']"

definition test_non_canonical_literals_are_refused :: "OxModel \<Rightarrow> bool" where
  "test_non_canonical_literals_are_refused P =
     (list_all (\<lambda>v. case literal_to_ox P (int_literal v) of Inl (NonCanonicalLiteral _ _) \<Rightarrow> True | _ \<Rightarrow> False) [''01'', ''+1'', ''-0'']
      \<and> is_ok (literal_to_ox P (int_literal '' 1''))
      \<and> \<not> is_ok (literal_to_ox P (Literal_new_typed ''1'' (NamedNode (XSD @ ''boolean''))))
      \<and> \<not> is_ok (literal_to_ox P (Literal_new_typed ''5'' (NamedNode (XSD @ ''int''))))
      \<and> is_ok (literal_to_ox P (Literal_new_typed ''five'' (NamedNode (XSD @ ''int'')))))"

definition test_language_tags_are_validated_but_kept_verbatim :: "OxModel \<Rightarrow> bool" where
  "test_language_tags_are_validated_but_kept_verbatim P =
     ((case literal_to_ox P (Literal_new_lang ''colour'' ''en-GB'') of Inl _ \<Rightarrow> False | Inr l \<Rightarrow> ol_language l = Some ''en-GB'')
      \<and> (case literal_to_ox P (Literal_new_lang ''x'' []) of Inl (ULanguageTag _) \<Rightarrow> True | _ \<Rightarrow> False)
      \<and> (case literal_to_ox P (Literal_new_lang ''x'' ''not a tag'') of Inl (ULanguageTag _) \<Rightarrow> True | _ \<Rightarrow> False))"

definition test_lang_string_without_tag_is_refused :: "OxModel \<Rightarrow> bool" where
  "test_lang_string_without_tag_is_refused P =
     (literal_to_ox P (Literal_new_typed ''x'' (NamedNode RDF_LANG_STRING)) = Inl LangStringWithoutTag)"

definition test_invalid_iris_and_blank_labels_are_refused :: "OxModel \<Rightarrow> bool" where
  "test_invalid_iris_and_blank_labels_are_refused P =
     ((case named_to_ox P (NamedNode ''not an iri'') of Inl (UIri _) \<Rightarrow> True | _ \<Rightarrow> False)
      \<and> (case blank_to_ox P (BlankNode ''has space'') of Inl (UBlankNode _) \<Rightarrow> True | _ \<Rightarrow> False)
      \<and> (case literal_to_ox P (Literal_new_typed ''x'' (NamedNode ''relative'')) of Inl (UIri _) \<Rightarrow> True | _ \<Rightarrow> False))"

definition test_blank_graph_names_do_not_convert_back :: "OxModel \<Rightarrow> bool" where
  "test_blank_graph_names_do_not_convert_back P =
     (let node = (\<lambda>s. OxNamedNode (''https://example.org/'' @ s));
          q = OxQuad (OxSNamed (node ''s'')) (node ''p'') (OxTNamed (node ''o'')) (OxGBlank (OxBlankNode ''g''))
      in case quad_from_ox P q of Inl (Serialization m) \<Rightarrow> str_contains m ''_:g'' | _ \<Rightarrow> False)"

definition test_unrepresentable_messages_name_the_term :: bool where
  "test_unrepresentable_messages_name_the_term =
     list_all (\<lambda>(u, needle). str_contains (Unrepresentable_display u) needle
        \<and> (case StorageError_from u of Serialization _ \<Rightarrow> True | _ \<Rightarrow> False))
       [(UIri ''x'', ''<x>''), (UBlankNode ''x y'', ''_:x y''), (ULanguageTag [], ''language tag''),
        (LangStringWithoutTag, ''rdf:langString''),
        (NonCanonicalLiteral ''01'' ''dt'', quote_char # ''01'' @ quote_char # ''^^<dt>''),
        (BlankGraphName ''g'', ''_:g''), (Rdf12Term ''t'', ''RDF 1.2'')]"

text \<open>An I/O error keeps its value, and so its kind.\<close>

definition test_io_errors_keep_their_kind :: "string \<Rightarrow> bool" where
  "test_io_errors_keep_their_kind io =
     (map_ox_err (OxIo io) = Io io \<and> (case map_ox_err (OxOther ''boom'') of Backend _ \<Rightarrow> True | _ \<Rightarrow> False))"

text \<open>
  The texts of the tests as the crate reads them: integers and their canonical forms (it does
  not trim), a boolean, invalid IRIs, labels and tags.
\<close>

definition test_texts :: "OxModel \<Rightarrow> bool" where
  "test_texts P \<longleftrightarrow>
     list_all (\<lambda>(v, shown). xsd_parse P XInteger v = shown)
       [(''1'', Some ''1''), (''-42'', Some ''-42''), (''abc'', None), (''01'', Some ''1''), (''+1'', Some ''1''), (''-0'', Some ''0''),
        ('' 1'', None), (''5'', Some ''5''), (''five'', None)]
   \<and> xsd_parse P XBoolean ''1'' = Some ''true''
   \<and> ox_named_new P (XSD @ ''integer'') \<noteq> None \<and> ox_named_new P (XSD @ ''int'') \<noteq> None
   \<and> ox_named_new P ''not an iri'' = None \<and> ox_named_new P ''relative'' = None \<and> ox_blank_new P ''has space'' = None
   \<and> ox_lang_valid P ''colour'' ''en-GB'' \<and> \<not> ox_lang_valid P ''x'' [] \<and> \<not> ox_lang_valid P ''x'' ''not a tag''"

lemma round_trips_xsd [simp]:
  "round_trips P v (XSD @ ''integer'') \<longleftrightarrow> canonical P XInteger v \<or> unparsable P XInteger v"
  "round_trips P v (XSD @ ''boolean'') \<longleftrightarrow> canonical P XBoolean v \<or> unparsable P XBoolean v"
  "round_trips P v (XSD @ ''int'') \<longleftrightarrow> unparsable P XInteger v"
  by (simp_all add: round_trips_def primitive_type_def derived_type_def)

lemma not_lang_string: "XSD @ s \<noteq> RDF_LANG_STRING" "''relative'' \<noteq> RDF_LANG_STRING"
  by (simp_all add: XSD_def RDF_LANG_STRING_def)

lemma convert_tests_pass:
  assumes "ox_model_ok P" "test_texts P"
  shows "test_canonical_numeric_literals_pass P" "test_non_canonical_literals_are_refused P"
    "test_language_tags_are_validated_but_kept_verbatim P" "test_invalid_iris_and_blank_labels_are_refused P"
proof -
  have "round_trips P v ''relative''" for v by (simp add: round_trips_def strip_prefix_def XSD_def)
  with assms show "test_canonical_numeric_literals_pass P" "test_non_canonical_literals_are_refused P"
    "test_language_tags_are_validated_but_kept_verbatim P" "test_invalid_iris_and_blank_labels_are_refused P"
    by (auto simp: test_canonical_numeric_literals_pass_def test_non_canonical_literals_are_refused_def
      test_language_tags_are_validated_but_kept_verbatim_def test_invalid_iris_and_blank_labels_are_refused_def
      test_texts_def ox_model_ok_def int_literal_def is_ok_def literal_to_ox_def named_to_ox_def blank_to_ox_def
      canonical_def unparsable_def not_lang_string Let_def)
qed

lemma convert_messages_pass:
  "test_lang_string_without_tag_is_refused P" "test_blank_graph_names_do_not_convert_back P"
  "test_io_errors_keep_their_kind io"
  by (simp_all add: test_lang_string_without_tag_is_refused_def test_blank_graph_names_do_not_convert_back_def
    test_io_errors_keep_their_kind_def literal_to_ox_def quad_from_ox_def StorageError_from_def)

lemma unrepresentable_messages_pass: "test_unrepresentable_messages_name_the_term"
  by code_simp

text \<open>A crate that reads the texts so, and the tests on it.\<close>

definition w_texts :: OxModel where
  "w_texts = w_ox
     \<lparr>ox_blank_new := (\<lambda>s. if s = [] \<or> List.member s CHR '' '' then None else Some (OxBlankNode s)),
      ox_lang_valid := (\<lambda>v tag. tag \<noteq> [] \<and> \<not> List.member tag CHR '' ''),
      xsd_parse := (\<lambda>T v. map_of [((XInteger, ''1''), ''1''), ((XInteger, ''-42''), ''-42''), ((XInteger, ''01''), ''1''),
        ((XInteger, ''+1''), ''1''), ((XInteger, ''-0''), ''0''), ((XInteger, ''5''), ''5''), ((XBoolean, ''1''), ''true'')] (T, v))\<rparr>"

lemma w_texts_ok: "ox_model_ok w_texts" "test_texts w_texts"
proof -
  show "ox_model_ok w_texts" by (auto simp: ox_model_ok_def w_texts_def w_ox_def split: if_splits)
  show "test_texts w_texts" by (simp add: test_texts_def w_texts_def w_ox_def XSD_def)
qed

lemma convert_tests_run: "test_canonical_numeric_literals_pass w_texts" "test_non_canonical_literals_are_refused w_texts"
  by (rule convert_tests_pass [OF w_texts_ok])+

end
