(* ===== verification/Walkthrough.thy ===== *)
theory Walkthrough
  imports Session_Reopen Reasoner
begin

text \<open>
  The documented use of a session (\<^verbatim>\<open>semanticore-context/src/lib.rs\<close>) from end to end: open on
  an empty directory, add a fact to the major scope, find it, promote it to the enduring scope,
  close. It is a program over \<open>Session_Model\<close> whose calls compose here for the first time; its
  result is what the next session finds.
\<close>

section \<open>The program\<close>

definition wt_item :: ContextItem where
  "wt_item = ContextItem_triples [Quad_triple (NbNamed (ex ''alice'')) (ex ''knows'') (TNamed (ex ''bob''))] (Provenance_new ''chat'')"

definition wt_query :: ContextQuery where
  "wt_query = ContextQuery_pattern All (with_subject QuadPattern_default (NbNamed (ex ''alice'')))"

text \<open>
  \<open>clk n\<close> is the clock during the \<open>n\<close>-th call; an assertion that fails and an index out of
  range are panics. The value is the id, the final counters and the stores left behind.
\<close>

definition walkthrough :: "('st, 'tx) Env \<Rightarrow> (nat \<Rightarrow> nat \<Rightarrow> Instant) \<Rightarrow> 'st SessionConfig \<Rightarrow>
    Abort + ItemId \<times> SessionStats \<times> 'st Tiers" where
  "walkthrough E clk cfg =
     (case Session_open E (clk 0) cfg of Inl e \<Rightarrow> Inl (Err e)
      | Inr session \<Rightarrow>
         (case try_bind (Session_add E (clk 1) Major wt_item)
            (\<lambda>i. try_bind (Session_query E (clk 2) wt_query)
              (\<lambda>result. case res_items result of [] \<Rightarrow> throw Panic
                 | hit # _ \<Rightarrow> if ri_id hit \<noteq> i then throw Panic
                     else try_bind (Session_promote E (clk 3) [i] Major Enduring) (\<lambda>_. ok i))) session of
            (Inl a, _) \<Rightarrow> Inl a
          | (Inr i, session') \<Rightarrow>
             (case Session_close session' of Inl e \<Rightarrow> Inl (Err e)
              | Inr stats \<Rightarrow> Inr (i, stats, s_stores session'))))"

section \<open>Steps over a store that does not fail\<close>

lemma reliable_step:
  assumes "reliable_storage (env_storage E) quads_of view st_ok tx_ok writable accepts"
    and "mirrored quads_of st_ok accepts (env_json E) s"
    and "\<forall>it\<in>set (op_items oper). acceptable accepts (env_json E) it" "id_room (s_next_id s) oper"
    and "ix_run_op (env_f64 E) clk oper (index_of s) = (r, x)"
  obtains t where "run_op E clk oper s = (r, t)" "index_of t = x" "mirrored quads_of st_ok accepts (env_json E) t"
    "foreign quads_of t = foreign quads_of s"
proof -
  obtain r' t where run: "run_op E clk oper s = (r', t)" by (cases "run_op E clk oper s")
  note out = session_sim.run_op_outcome [OF reliable_session_sim [OF assms(1)] _ assms(3,4) run, of True]
  have "session_rel quads_of s t" "(r', index_of t) = (r, x)" "mirrored quads_of st_ok accepts (env_json E) t"
    using out assms(2,5) by (auto simp: mirrored_def)
  then show ?thesis using that run by (simp add: session_rel_def)
qed

lemma map_res_Inr: "map_res f m s = (Inr v, t) \<longleftrightarrow> (\<exists>a. m s = (Inr a, t) \<and> v = f a)"
  by (auto simp: map_res_def try_bind_def split: prod.splits sum.splits)

text \<open>An index with the default settings, and the given entries under the ids from 0.\<close>

definition wt_settings :: Settings where
  "wt_settings = \<lparr>set_bounds = ScopeBounds_default, set_eviction_policy = Lru, set_demotion_target = OneStepThenDrop,
     set_promotion = PromotionConfig_default\<rparr>"

definition wt_index :: "Entry list \<Rightarrow> SessionStats \<Rightarrow> Index" where
  "wt_index es stats = \<lparr>ix_settings = wt_settings, ix_items = zip [0..<length es] es, ix_next_id = length es, ix_stats = stats\<rparr>"

text \<open>Opening on stores without quads gives a session without items.\<close>

lemma open_empty:
  assumes rel: "reliable_storage (env_storage E) quads_of view st_ok tx_ok writable accepts"
    and cfg: "cfg = SessionConfig_new (PerScope en ma mi)"
    and ok: "st_ok en" "st_ok ma" "st_ok mi" "quads_of en = {}" "quads_of ma = {}" "quads_of mi = {}"
    and pers: "persistent (capabilities (env_storage E) en)"
  obtains s where "Session_open E clk cfg = Inr s" "mirrored quads_of st_ok accepts (env_json E) s"
    "\<And>sc. quads_of (Tiers_get (s_stores s) sc) = {}"
    "index_of s = wt_index [] SessionStats_default"
proof -
  let ?stores = "\<lparr>t_enduring = en, t_major = ma, t_minor = mi\<rparr>"
  let ?dummy = "\<lparr>s_stores = ?stores, s_settings = undefined, s_items = [], s_next_id = 0, s_stats = undefined\<rparr>"
  have all: "st_ok (Tiers_get ?stores sc) \<and> quads_of (Tiers_get ?stores sc) = {}" for sc
    using ok by (cases sc) simp_all
  have none: "stored (env_json E) {} (\<lambda>_. None)" by (simp add: stored_def)
  note rule = session_env.open_rule [OF reliable_session_env [OF rel], of cfg ?dummy "\<lambda>_ _. None" clk]
  have "case Session_open E clk cfg of Inl e \<Rightarrow> False
    | Inr t \<Rightarrow> (\<forall>sc. st_ok (Tiers_get (s_stores t) sc) \<and> quads_of (Tiers_get (s_stores t) sc) = {})
        \<and> bt_wf (s_items t) \<and> restored (\<lambda>_ _. None) ContextScope_ALL [] (s_items t) \<and> s_next_id t = first_free_id (s_items t)"
    using rule all none pers by (simp add: cfg stores_of_def SessionConfig_new_def split: sum.splits)
  then obtain s where s: "Session_open E clk cfg = Inr s"
    and st: "\<And>sc. st_ok (Tiers_get (s_stores s) sc)" "\<And>sc. quads_of (Tiers_get (s_stores s) sc) = {}"
    and it: "restored (\<lambda>_ _. None) ContextScope_ALL [] (s_items s)" "s_next_id s = first_free_id (s_items s)"
    by (cases "Session_open E clk cfg") auto
  have no_entry: "bt_get (s_items s) i = None" for i
    using it(1) unfolding restored_def by (simp add: bt_get_def first_copy_None)
  have items: "s_items s = []"
  proof (cases "s_items s")
    case (Cons p rest)
    then have "bt_get (s_items s) (fst p) = Some (snd p)" by (cases p) (simp add: bt_get_def)
    then show ?thesis using no_entry by simp
  qed simp
  have "s_settings s = \<lparr>set_bounds = ScopeBounds_default, set_eviction_policy = Lru, set_demotion_target = OneStepThenDrop,
      set_promotion = PromotionConfig_default\<rparr> \<and> s_stats s = SessionStats_default"
    using s by (auto simp: Session_open_def cfg SessionConfig_new_def split: sum.splits if_splits)
  then have ix: "index_of s = wt_index [] SessionStats_default"
    using items it(2) by (simp add: index_of_def first_free_id_def wt_index_def wt_settings_def)
  have "mirrored quads_of st_ok accepts (env_json E) s"
    using st items ix by (simp add: mirrored_def session_inv_def session_wf_def part_inv_def part_ok_def part_def index_wf_def wt_index_def)
  then show ?thesis using that s st ix by blast
qed

section \<open>The walkthrough on the index\<close>

definition wt_entry :: "Instant \<Rightarrow> Entry" where
  "wt_entry now = Entry_new wt_item Major Added now"

lemma wt_enforce: "ix_settings x = wt_settings \<Longrightarrow> ix_enforce F clk k sc x = (Inr (), x)"
proof (induction "scope_rank sc" arbitrary: sc k rule: less_induct)
  case less
  have "ix_enforce_scope F (clk k) sc x = (Inr (), x)"
    using less.prems by (cases sc) (simp_all add: ix_enforce_scope_def wt_settings_def ScopeBounds_default_def)
  then show ?case using less
    by (subst ix_enforce.simps) (auto simp: try_bind_def scope_less_iff dest: colder_less split: option.splits)
qed

lemmas eval_wt = wt_item_def ContextItem_triples_def ContextItem_new_def Provenance_new_def

lemma wt_valid: "validate items wt_item = Inr ()"
  by (simp add: validate_def validate_graphs_def validate_embedding_def trim_is_empty_def ascii_space_def space2_def space3_def
    eval_wt Quad_triple_def Quad_new_def)

lemma add_to_empty:
  assumes "\<And>items. validate items it = Inr ()"
  shows "ix_run_op F clk (OpAdd Major it) (wt_index [] stats)
    = (Inr (ResId 0), wt_index [Entry_new it Major Added (clk 0)] (stats\<lparr>items_added := add64 (items_added stats) 1\<rparr>))"
  by (simp add: map_res_def ix_add_def ix_add_batch_def try_bind_def assms Let_def wt_index_def wt_enforce)

lemmas wt_add = add_to_empty [OF wt_valid, folded wt_entry_def]

definition wt_touched :: "F64Ops \<Rightarrow> Instant \<Rightarrow> Entry \<Rightarrow> Entry" where
  "wt_touched F now e = Entry_touch F now (minor_window PromotionConfig_default) None e"

lemma wt_query_on_index:
  assumes "e_item e = wt_item" "e_scope e = Major"
  shows "\<exists>res. ix_run_op F clk (OpQuery wt_query) (wt_index [e] stats)
    = (Inr (ResQuery res), wt_index [wt_touched F (clk 0) e] (stats\<lparr>queries_served := add64 (queries_served stats) 1,
         items_promoted := add64 (items_promoted stats) 0\<rparr>))
    \<and> map ri_id (res_items res) = [0]"
proof -
  let ?x = "wt_index [e] stats" and ?e = "wt_touched F (clk 0) e"
  let ?y = "wt_index [?e] stats" and ?z = "wt_index [?e] (stats\<lparr>queries_served := add64 (queries_served stats) 1\<rparr>)"
  let ?p = "with_subject QuadPattern_default (NbNamed (ex ''alice''))"
  have match: "item_matches ?p wt_item \<noteq> []"
    by (simp add: item_matches_def triples_of_def eval_wt with_subject_def QuadPattern_default_def matches_pattern_def
      filter_empty_conv Quad_triple_def Quad_new_def)
  have hits: "concat (map (hits_in ?p (ix_items ?x)) ContextScope_ALL) = [(0, Major)]"
    using match assms by (simp add: ContextScope_ALL_def hits_in_def scope_entries_def wt_index_def)
  have item: "e_item ?e = wt_item" "e_scope ?e = Major" by (simp_all add: wt_touched_def Entry_touch_def assms Let_def)
  have touch: "ix_touch F (clk 0) (minor_window PromotionConfig_default) None [(0, Major)] ?x
      = (Inr [\<lparr>ri_id = 0, ri_item = wt_item, ri_score = f64_one, ri_source_scope = Major\<rparr>], ?y)"
    by (simp add: wt_index_def bt_get_def bt_adjust_def assms wt_touched_def)
  have none: "to_enduring PromotionConfig_default (ix_items ?z) = []" "to_major PromotionConfig_default now (ix_items ?z) = []" for now
    using item by (simp_all add: to_enduring_def to_major_def wt_index_def references_def cited_def eval_wt)
  have auto: "ix_auto_promote F clk 1 (clk 0) ?z = (Inr 0, ix_promoted 0 ?z)"
    using none by (simp add: ix_auto_promote_def Let_def ix_move_all_def try_bind_def)
      (simp add: wt_index_def wt_settings_def)
  have settings: "ix_settings ?x = wt_settings" "set_promotion wt_settings = PromotionConfig_default"
    "policy_half_life (set_eviction_policy wt_settings) = None" "cadence PromotionConfig_default = AfterEachQuery"
    by (simp_all add: wt_index_def wt_settings_def policy_half_life_def PromotionConfig_default_def)
  have query: "ScopeSelection_scopes (qy_scopes wt_query) = ContextScope_ALL" "truncate_hits (qy_limit wt_query) hs = hs" for hs :: "(ItemId \<times> ContextScope) list"
    by (simp_all add: wt_query_def ContextQuery_pattern_def ContextQuery_new_def truncate_hits_def
      ContextScope_ALL_def ScopeSelection_scopes_def scopes_listed_def push_new_dedup)
  have served: "?y\<lparr>ix_stats := (ix_stats ?y)\<lparr>queries_served := add64 (queries_served (ix_stats ?y)) 1\<rparr>\<rparr> = ?z"
    by (simp add: wt_index_def)
  have run: "ix_run_pattern F clk wt_query ?p ?x = (Inr \<lparr>res_items = [\<lparr>ri_id = 0, ri_item = wt_item, ri_score = f64_one, ri_source_scope = Major\<rparr>],
      res_query_stats = \<lparr>scopes_consulted = 3, quads_matched = sum_list (map (matched_in ?p (ix_items ?x)) ContextScope_ALL),
        auto_promoted = 0\<rparr>\<rparr>, ix_promoted 0 ?z)"
    using served auto
    by (simp add: ix_run_pattern_def Let_def settings query try_bind_def touch hits del: ix_touch.simps)
      (simp add: ContextScope_ALL_def)
  have z: "ix_promoted 0 ?z = wt_index [?e] (stats\<lparr>queries_served := add64 (queries_served stats) 1,
      items_promoted := add64 (items_promoted stats) 0\<rparr>)"
    by (simp add: ix_promoted_def wt_index_def)
  have "qy_kind wt_query = Pattern ?p" "qy_reasoner_hint wt_query = None"
    by (simp_all add: wt_query_def ContextQuery_pattern_def ContextQuery_new_def)
  then show ?thesis using run z by (simp add: map_res_def try_bind_def ix_query_def)
qed

lemma wt_promote:
  assumes "e_scope e = Major"
  shows "ix_run_op F clk (OpPromote [0] Major Enduring) (wt_index [e] stats)
    = (Inr (ResPromoted \<lparr>promoted = 1\<rparr>), wt_index [Entry_moved Enduring Promoted e]
        (stats\<lparr>items_promoted := add64 (items_promoted stats) 1\<rparr>))"
  using assms by (simp add: map_res_def ix_promote_def check_in_scope_def scope_less_iff ix_move_all_def ix_move_def try_bind_def
    wt_index_def bt_get_def bt_adjust_def ix_promoted_def wt_enforce)

section \<open>The walkthrough\<close>

lemma walkthrough_runs:
  assumes rel: "reliable_storage (env_storage E) quads_of view st_ok tx_ok writable accepts"
    and acc: "acceptable accepts (env_json E) wt_item"
    and ok: "st_ok en" "st_ok ma" "st_ok mi" "quads_of en = {}" "quads_of ma = {}" "quads_of mi = {}"
    and pers: "persistent (capabilities (env_storage E) en)"
  obtains s e where "walkthrough E clk (SessionConfig_new (PerScope en ma mi)) = Inr (0, s_stats s, s_stores s)"
    "mirrored quads_of st_ok accepts (env_json E) s" "foreign quads_of s = (\<lambda>_. {})"
    "s_items s = [(0, e)]" "e_item e = wt_item" "e_scope e = Enduring"
    "items_added (s_stats s) = 1" "queries_served (s_stats s) = 1" "items_promoted (s_stats s) = 1"
proof -
  let ?m = "mirrored quads_of st_ok accepts (env_json E)" and ?F = "env_f64 E"
  obtain s0 where s0: "Session_open E (clk 0) (SessionConfig_new (PerScope en ma mi)) = Inr s0" "?m s0"
    "\<And>sc. quads_of (Tiers_get (s_stores s0) sc) = {}" "index_of s0 = wt_index [] SessionStats_default"
    using open_empty [OF rel HOL.refl ok pers] by blast
  have next_id: "s_next_id s = length es" if "index_of s = wt_index es stats" for s :: "'a Session" and es stats
    using arg_cong [OF that, of ix_next_id] by (simp add: wt_index_def)
  obtain s1 where s1: "run_op E (clk 1) (OpAdd Major wt_item) s0 = (Inr (ResId 0), s1)" "?m s1" "foreign quads_of s1 = foreign quads_of s0"
    "index_of s1 = wt_index [wt_entry (clk 1 0)] (SessionStats_default\<lparr>items_added := add64 0 1\<rparr>)"
    by (rule reliable_step [OF rel s0(2) _ _ wt_add [of ?F "clk 1" SessionStats_default, folded s0(4)]])
      (auto simp: acc id_room_def next_id [OF s0(4)] SessionStats_default_def)
  let ?e1 = "wt_touched ?F (clk 2 0) (wt_entry (clk 1 0))"
  have e: "e_item (wt_entry (clk 1 0)) = wt_item" "e_scope (wt_entry (clk 1 0)) = Major"
    "e_item ?e1 = wt_item" "e_scope ?e1 = Major"
    by (simp_all add: wt_entry_def Entry_new_def wt_touched_def Entry_touch_def Let_def)
  obtain res stats2 where q: "ix_run_op ?F (clk 2) (OpQuery wt_query) (index_of s1) = (Inr (ResQuery res), wt_index [?e1] stats2)"
    "map ri_id (res_items res) = [0]"
    "items_added stats2 = 1" "queries_served stats2 = 1" "items_promoted stats2 = 0"
    using wt_query_on_index [OF e(1,2), of ?F "clk 2"] unfolding s1(4)
    by (fastforce simp: SessionStats_default_def add64_def)
  obtain s2 where s2: "run_op E (clk 2) (OpQuery wt_query) s1 = (Inr (ResQuery res), s2)" "?m s2"
    "foreign quads_of s2 = foreign quads_of s1" "index_of s2 = wt_index [?e1] stats2"
    by (rule reliable_step [OF rel s1(2) _ _ q(1)]) (auto simp: id_room_def next_id [OF s1(4)])
  obtain s3 where s3: "run_op E (clk 3) (OpPromote [0] Major Enduring) s2 = (Inr (ResPromoted \<lparr>promoted = 1\<rparr>), s3)" "?m s3"
    "foreign quads_of s3 = foreign quads_of s2"
    "index_of s3 = wt_index [Entry_moved Enduring Promoted ?e1] (stats2\<lparr>items_promoted := add64 (items_promoted stats2) 1\<rparr>)"
    by (rule reliable_step [OF rel s2(2) _ _ wt_promote [OF e(4), of ?F "clk 3" stats2, folded s2(4)]])
      (auto simp: id_room_def next_id [OF s2(4)])
  have run: "walkthrough E clk (SessionConfig_new (PerScope en ma mi)) = Inr (0, s_stats s3, s_stores s3)"
  proof -
    have "Session_add E (clk 1) Major wt_item s0 = (Inr 0, s1)" "Session_query E (clk 2) wt_query s1 = (Inr res, s2)"
      "Session_promote E (clk 3) [0] Major Enduring s2 = (Inr \<lparr>promoted = 1\<rparr>, s3)"
      using s1(1) s2(1) s3(1) by (simp_all add: map_res_Inr)
    then show ?thesis using s0(1) q(2) by (auto simp: walkthrough_def try_bind_def Session_close_def Cons_eq_map_conv split: list.split)
  qed
  have stats: "items_added (s_stats s3) = 1" "queries_served (s_stats s3) = 1" "items_promoted (s_stats s3) = 1"
    using arg_cong [OF s3(4), of ix_stats] q(3-5) by (simp_all add: wt_index_def add64_def)
  have items: "s_items s3 = [(0, Entry_moved Enduring Promoted ?e1)]"
    using arg_cong [OF s3(4), of ix_items] by (simp add: wt_index_def)
  have none: "foreign quads_of s3 = (\<lambda>_. {})"
    unfolding s3(3) s2(3) s1(3) using s0(3) by (simp add: foreign_def fun_eq_iff)
  show thesis
    by (rule that [OF run s3(2) none items _ _ stats]) (use e(3) in \<open>simp_all add: Entry_moved_def\<close>)
qed

text \<open>
  The first part of the index is all that is in the enduring scope; so a session on the
  enduring store, and on stores without quads for the other scopes, has exactly these items.
\<close>

lemma reopen_enduring:
  assumes rel: "reliable_storage (env_storage E) quads_of view st_ok tx_ok writable accepts"
    and J: "\<forall>i e. bt_get (s_items s) i = Some e \<longrightarrow> reads_back (env_json E) (e_item e)"
    and m: "mirrored quads_of st_ok accepts (env_json E) s"
    and f: "no_foreign_records quads_of s" and enduring: "\<And>i e. bt_get (s_items s) i = Some e \<Longrightarrow> e_scope e = Enduring"
    and ok: "st_ok ma" "st_ok mi" "quads_of ma = {}" "quads_of mi = {}"
    and pers: "persistent (capabilities (env_storage E) (t_enduring (s_stores s)))"
  shows "\<exists>t. Session_open E clk (SessionConfig_new (PerScope (t_enduring (s_stores s)) ma mi)) = Inr t
    \<and> (\<forall>i. case bt_get (s_items s) i of None \<Rightarrow> bt_get (s_items t) i = None
        | Some e \<Rightarrow> \<exists>e'. bt_get (s_items t) i = Some e' \<and> e_scope e' = Enduring \<and> same_item (e_item e') (e_item e))"
proof -
  let ?en = "t_enduring (s_stores s)"
  let ?cfg = "SessionConfig_new (PerScope ?en ma mi)"
  obtain M where M: "\<forall>sc. stored (env_json E) (quads_of (Tiers_get (s_stores s) sc)) (M sc)"
    and live: "\<And>i e. bt_get (s_items s) i = Some e \<Longrightarrow> M (e_scope e) i = Some (e_item e)"
    and dead: "\<And>i sc. bt_get (s_items s) i = None \<Longrightarrow> M sc i = None"
    using copies_exist [OF m [unfolded mirrored_def] f J] by auto
  define left where "left = \<lparr>t_enduring = ?en, t_major = ma, t_minor = mi\<rparr>"
  define M' where "M' sc = (if sc = Enduring then M Enduring else (\<lambda>_. None))" for sc
  have inv: "session_inv True quads_of st_ok accepts (env_json E) s" using m by (simp add: mirrored_def)
  have all: "st_ok (Tiers_get left sc) \<and> stored (env_json E) (quads_of (Tiers_get left sc)) (M' sc)" for sc
    using ok spec [OF M, of Enduring] session_wfD(1) [OF inv, of Enduring]
      stored_def [of "env_json E" "{}" "\<lambda>_. None"]
    by (cases sc) (simp_all add: left_def M'_def)
  let ?dummy = "\<lparr>s_stores = left, s_settings = undefined, s_items = [], s_next_id = 0, s_stats = undefined\<rparr>"
  have "case Session_open E clk ?cfg of Inl e \<Rightarrow> False | Inr t \<Rightarrow> restored M' ContextScope_ALL [] (s_items t)"
    using session_env.open_rule [OF reliable_session_env [OF rel], of ?cfg ?dummy M' clk] all pers
    by (simp add: stores_of_def SessionConfig_new_def left_def split: sum.splits)
  then obtain t where t: "Session_open E clk ?cfg = Inr t" "restored M' ContextScope_ALL [] (s_items t)"
    by (cases "Session_open E clk ?cfg") auto
  have "case bt_get (s_items s) i of None \<Rightarrow> bt_get (s_items t) i = None
      | Some e \<Rightarrow> \<exists>e'. bt_get (s_items t) i = Some e' \<and> e_scope e' = Enduring \<and> same_item (e_item e') (e_item e)" for i
    using restored_lookup [OF t(2), of i] live [of i] dead [of i] enduring [of i]
    by (cases "bt_get (s_items s) i"; cases "bt_get (s_items t) i") (auto simp: M'_def split: if_splits)
  with t(1) show ?thesis by blast
qed

text \<open>
  C10. The documented use of a session works, over every store that does not fail, and keeps
  its promise. On stores without quads the walkthrough runs to its end: the query finds the
  fact just added, nothing panics, and the counters tell one item added, one query, one
  promotion. When the major and minor stores are gone, opening the enduring store again, which
  still declares itself persistent, finds exactly that one item, unchanged, in the enduring
  scope. Of the JSON crate this needs only that it reads back the record of that one item.
\<close>

theorem walkthrough_keeps_the_fact:
  assumes rel: "reliable_storage (env_storage E) quads_of view st_ok tx_ok writable accepts"
    and J: "reads_back (env_json E) wt_item" and acc: "acceptable accepts (env_json E) wt_item"
    and ok: "st_ok en" "st_ok ma" "st_ok mi" "quads_of en = {}" "quads_of ma = {}" "quads_of mi = {}"
    and pers: "persistent (capabilities (env_storage E) en)"
  shows "\<exists>stats left. walkthrough E clk (SessionConfig_new (PerScope en ma mi)) = Inr (0, stats, left)
    \<and> items_added stats = 1 \<and> queries_served stats = 1 \<and> items_promoted stats = 1
    \<and> (persistent (capabilities (env_storage E) (t_enduring left)) \<longrightarrow>
         (\<exists>t e. Session_open E clk' (SessionConfig_new (PerScope (t_enduring left) ma mi)) = Inr t
         \<and> Session_scope_of t 0 = Some Enduring \<and> bt_get (s_items t) 0 = Some e \<and> same_item (e_item e) wt_item
         \<and> (\<forall>i. i \<noteq> 0 \<longrightarrow> Session_scope_of t i = None)))"
proof -
  obtain s e where run: "walkthrough E clk (SessionConfig_new (PerScope en ma mi)) = Inr (0, s_stats s, s_stores s)"
    and s: "mirrored quads_of st_ok accepts (env_json E) s" "foreign quads_of s = (\<lambda>_. {})"
    and items: "s_items s = [(0, e)]" and e: "e_item e = wt_item" "e_scope e = Enduring"
    and stats: "items_added (s_stats s) = 1" "queries_served (s_stats s) = 1" "items_promoted (s_stats s) = 1"
    by (rule walkthrough_runs [OF rel acc ok pers])
  have f: "no_foreign_records quads_of s" using s(2) by (simp add: no_foreign_records_def)
  have get: "bt_get (s_items s) i = (if i = 0 then Some e else None)" for i by (simp add: items bt_get_def)
  then have in_enduring: "e_scope e' = Enduring" if "bt_get (s_items s) i = Some e'" for i e'
    using that e(2) by (simp split: if_splits)
  have reads: "\<forall>i e'. bt_get (s_items s) i = Some e' \<longrightarrow> reads_back (env_json E) (e_item e')"
    using get e(1) J by simp
  have "\<exists>t e'. Session_open E clk' (SessionConfig_new (PerScope (t_enduring (s_stores s)) ma mi)) = Inr t
      \<and> Session_scope_of t 0 = Some Enduring \<and> bt_get (s_items t) 0 = Some e' \<and> same_item (e_item e') wt_item
      \<and> (\<forall>i. i \<noteq> 0 \<longrightarrow> Session_scope_of t i = None)"
    if pers': "persistent (capabilities (env_storage E) (t_enduring (s_stores s)))"
  proof -
    obtain t where t: "Session_open E clk' (SessionConfig_new (PerScope (t_enduring (s_stores s)) ma mi)) = Inr t"
      and found: "\<forall>i. case bt_get (s_items s) i of None \<Rightarrow> bt_get (s_items t) i = None
        | Some e \<Rightarrow> \<exists>e'. bt_get (s_items t) i = Some e' \<and> e_scope e' = Enduring \<and> same_item (e_item e') (e_item e)"
      using reopen_enduring [OF rel reads s(1) f _ ok(2,3,5,6) pers', where clk = clk'] in_enduring by blast
    have "bt_get (s_items t) i = None" if "i \<noteq> 0" for i using spec [OF found, of i] get [of i] that by simp
    moreover obtain e' where "bt_get (s_items t) 0 = Some e'" "e_scope e' = Enduring" "same_item (e_item e') wt_item"
      using spec [OF found, of 0] get [of 0] e by auto
    ultimately show ?thesis using t by (simp add: Session_scope_of_def)
  qed
  then show ?thesis using run stats by blast
qed

theorem walkthrough_keeps_the_fact_witness:
  "\<exists>stats left t. walkthrough p_env (\<lambda>_ k. k) (SessionConfig_new (PerScope MemStore_new MemStore_new MemStore_new)) = Inr (0, stats, left)
     \<and> Session_open p_env (\<lambda>k. k) (SessionConfig_new (PerScope (t_enduring left) MemStore_new MemStore_new)) = Inr t
     \<and> Session_scope_of t 0 = Some Enduring"
proof -
  have J: "reads_back (env_json p_env) wt_item" by simp
  have acc: "acceptable (\<lambda>_. True) (env_json p_env) wt_item" by (simp add: acceptable_def)
  have ok: "mem_st_ok MemStore_new" "mem_quads MemStore_new = {}" by (simp_all add: mem_st_ok_def mem_quads_def MemStore_new_def)
  show ?thesis
    using walkthrough_keeps_the_fact [OF p_reliable J acc ok(1) ok(1) ok(1) ok(2) ok(2) ok(2) p_persistent, of "\<lambda>_ k. k" "\<lambda>k. k"]
      p_persistent by blast
qed

end
