(* ===== verification/Py_Tests.thy ===== *)
theory Py_Tests
  imports Py_Session Walkthrough
begin

text \<open>
  The extension module of \<^verbatim>\<open>semanticore-context-py\<close> (\<^verbatim>\<open>lib.rs\<close>) and the unit tests of its
  modules, as functions of the model: the conjunction of the assertions a test makes. Python
  expressions that the tests evaluate are written as the objects they denote. A test uses the
  runtime only where it says so.
\<close>

section \<open>The module\<close>

datatype ModuleAttr = VersionAttr string | ClassAttr | ExceptionAttr PyClass

definition registered_classes :: "string list" where
  "registered_classes =
     [''BlankNode'', ''Literal'',
      ''ContextScope'', ''ItemId'', ''Provenance'', ''ContextItem'',
      ''ContextQuery'', ''ContextQueryResult'', ''RankedItem'', ''QueryStats'',
      ''SessionConfig'', ''ScopeBounds'', ''PromotionConfig'', ''PromotionCadence'', ''EvictionPolicy'', ''DemotionTarget'',
      ''EvictionCriteria'',
      ''Session'', ''SessionStats'', ''PromotionStats'', ''ReasoningStats'', ''ContextSnapshot'']"

definition semanticore_context_module :: "string \<Rightarrow> (string \<times> ModuleAttr) list" where
  "semanticore_context_module version =
     (''__version__'', VersionAttr version) # map (\<lambda>c. (c, ClassAttr)) registered_classes
       @ map (\<lambda>(n, c). (n, ExceptionAttr c)) errors_register"

text \<open>
  No registration hides another: every name stands for one attribute. In particular the
  exception \<open>StorageError\<close> and the class \<open>Session\<close> can both be imported.
\<close>

lemma module_names_distinct: "distinct (map fst (semanticore_context_module version))"
  by (simp add: semanticore_context_module_def registered_classes_def errors_register_def)

lemma module_raises:
  "(\<exists>n. (n, ExceptionAttr (pe_class (to_py_err dbg e))) \<in> set (semanticore_context_module version))"
  using raised_registered(1) [of dbg e] by (force simp: semanticore_context_module_def)

section \<open>Exceptions\<close>

definition raises :: "PyClass \<Rightarrow> PyErr + 'a \<Rightarrow> bool" where
  "raises c r = (case r of Inl e \<Rightarrow> is_subclass (pe_class e) c | Inr _ \<Rightarrow> False)"

text \<open>The errors of the test and the classes expected; the id, the reason of corruption and the boxed error are any.\<close>

definition error_cases :: "ItemId \<Rightarrow> CorruptReason \<Rightarrow> StorageError \<Rightarrow> (SessionError \<times> PyClass) list" where
  "error_cases i r x =
     [(CapabilityShortfall Enduring Persistent, CapabilityShortfallError), (MissingProvenance, MissingProvenanceError),
      (InvalidItem ''r'', InvalidItemError), (DurabilityViolation Enduring Minor, DurabilityViolationError),
      (PremiumOnly ShaclUnavailable, ShaclUnavailableError), (PremiumOnly DatalogUnavailable, DatalogUnavailableError),
      (NotYetImplemented Sparql, NotYetImplementedError), (Corrupt r, CorruptStoreError),
      (StorageFailed x, PyStorageError), (ScopeMismatch i Minor Major, ScopeMismatchError),
      (UnknownItem i, UnknownItemError)]"

definition test_every_variant_maps_to_its_own_session_error_subclass :: "(string \<Rightarrow> string) \<Rightarrow> ItemId \<Rightarrow> CorruptReason \<Rightarrow> StorageError \<Rightarrow> bool" where
  "test_every_variant_maps_to_its_own_session_error_subclass dbg i r x =
     list_all (\<lambda>(e, c). let err = to_py_err dbg e
       in pe_class err = c \<and> is_subclass (pe_class err) PySessionError \<and> pe_message err = SessionError_display dbg e)
     (error_cases i r x)"

definition test_premium_only_errors_share_a_base :: "(string \<Rightarrow> string) \<Rightarrow> bool" where
  "test_premium_only_errors_share_a_base dbg =
     (let shacl = pe_class (to_py_err dbg (PremiumOnly ShaclUnavailable));
          nyi = pe_class (to_py_err dbg (NotYetImplemented AnnIndex))
      in is_subclass shacl PremiumOnlyError \<and> \<not> is_subclass shacl NotYetImplementedError \<and> \<not> is_subclass nyi PremiumOnlyError)"

definition test_variant_fields_become_attributes :: "(string \<Rightarrow> string) \<Rightarrow> ItemId \<Rightarrow> bool" where
  "test_variant_fields_become_attributes dbg i =
     (let attr = (\<lambda>e n. map_of (pe_attrs (to_py_err dbg e)) n)
      in attr (DurabilityViolation Enduring Minor) ''from_scope'' = Some (AttrScope Enduring)
       \<and> attr (DurabilityViolation Enduring Minor) ''to_scope'' = Some (AttrScope Minor)
       \<and> attr (ScopeMismatch i Minor Major) ''item_id'' = Some (AttrId i)
       \<and> attr (ScopeMismatch i Minor Major) ''found'' = Some (AttrScope Major)
       \<and> attr (CapabilityShortfall Enduring Persistent) ''required'' = Some (AttrStr ''Persistent'')
       \<and> list_all (\<lambda>(what, n). attr (NotYetImplemented what) ''feature'' = Some (AttrStr n))
           [(OwlElReasoner, ''owl_el_reasoner''), (AnnIndex, ''ann_index''), (Sparql, ''sparql'')]
       \<and> attr (InvalidItem ''why'') ''reason'' = Some (AttrStr ''why''))"

definition test_session_closed_is_a_session_error :: bool where
  "test_session_closed_is_a_session_error =
     (is_subclass (pe_class closed_err) SessionClosedError \<and> is_subclass (pe_class closed_err) PySessionError)"

lemma error_tests_pass:
  "test_every_variant_maps_to_its_own_session_error_subclass dbg i r x"
  "test_premium_only_errors_share_a_base dbg" "test_variant_fields_become_attributes dbg i"
  "test_session_closed_is_a_session_error"
  by (simp_all add: test_every_variant_maps_to_its_own_session_error_subclass_def error_cases_def
    test_premium_only_errors_share_a_base_def test_variant_fields_become_attributes_def
    test_session_closed_is_a_session_error_def to_py_err_def Let_def is_subclass_def closed_err_def)

section \<open>Terms\<close>

definition test_str_terms_are_iris_in_every_position :: "PyRuntime \<Rightarrow> bool" where
  "test_str_terms_are_iris_in_every_position R =
     (triple_from_py R (ObjTuple [py_str ''urn:s'', py_str ''urn:p'', py_str ''urn:o''])
      = Inr (Quad_triple (NbNamed (NamedNode ''urn:s'')) (NamedNode ''urn:p'') (TNamed (NamedNode ''urn:o''))))"

definition test_blank_nodes_and_literals_convert_both_ways :: "PyRuntime \<Rightarrow> bool" where
  "test_blank_nodes_and_literals_convert_both_ways R =
     (case PyLiteral_new ''chat'' None (Some ''en'') of Inl _ \<Rightarrow> False
      | Inr l \<Rightarrow>
          (let t = ObjTuple [ObjBlankNode (PyBlankNode_new ''b0''), py_str ''urn:p'', ObjLiteral l]
           in case triple_from_py R t of Inl _ \<Rightarrow> False
              | Inr q \<Rightarrow> q_subject q = NbBlank (BlankNode ''b0'')
                  \<and> q_object q = TLiteral (Literal_new_lang ''chat'' ''en'') \<and> triple_to_py q = t))"

definition test_typed_and_simple_literals :: "PyRuntime \<Rightarrow> bool" where
  "test_typed_and_simple_literals R =
     (let int = ''http://www.w3.org/2001/XMLSchema#integer''
      in PyLiteral_new ''3'' (Some int) None = Inr (Literal_new_typed ''3'' (NamedNode int))
       \<and> object_from_py R (ObjLiteral (Literal_new_typed ''3'' (NamedNode int))) = Inr (TLiteral (Literal_new_typed ''3'' (NamedNode int)))
       \<and> PyLiteral_new ''x'' None None = Inr (Literal_new_simple ''x'')
       \<and> object_from_py R (ObjLiteral (Literal_new_simple ''x'')) = Inr (TLiteral (Literal_new_simple ''x'')))"

definition test_literal_refuses_datatype_and_language_together :: bool where
  "test_literal_refuses_datatype_and_language_together =
     (case PyLiteral_new ''x'' (Some ''urn:dt'') (Some ''en'') of Inl _ \<Rightarrow> True | Inr _ \<Rightarrow> False)"

definition test_positions_refuse_the_wrong_term_kinds :: "PyRuntime \<Rightarrow> bool" where
  "test_positions_refuse_the_wrong_term_kinds R =
     (raises PyTypeError (subject_from_py R (ObjLiteral (Literal_new_simple ''x'')))
      \<and> raises PyTypeError (predicate_from_py R (ObjBlankNode (PyBlankNode_new ''b'')))
      \<and> raises PyTypeError (object_from_py R (ObjInt 3)))"

definition test_triples_must_be_three_tuples :: "PyRuntime \<Rightarrow> bool" where
  "test_triples_must_be_three_tuples R =
     (raises PyValueError (triple_from_py R (ObjTuple [py_str ''urn:s'', py_str ''urn:p'']))
      \<and> raises PyTypeError (triple_from_py R (ObjList [py_str ''urn:s'', py_str ''urn:p'', py_str ''urn:o''])))"

lemma term_tests_pass:
  "test_str_terms_are_iris_in_every_position R" "test_blank_nodes_and_literals_convert_both_ways R"
  "test_typed_and_simple_literals R" "test_literal_refuses_datatype_and_language_together"
  "test_positions_refuse_the_wrong_term_kinds R" "test_triples_must_be_three_tuples R"
  by (simp_all add: test_str_terms_are_iris_in_every_position_def test_blank_nodes_and_literals_convert_both_ways_def
    test_typed_and_simple_literals_def test_literal_refuses_datatype_and_language_together_def
    test_positions_refuse_the_wrong_term_kinds_def test_triples_must_be_three_tuples_def raises_def triple_from_py_def
    subject_from_py_def predicate_from_py_def object_from_py_def PyLiteral_new_def PyBlankNode_new_def new_err_def
    is_subclass_def triple_to_py_def Quad_triple_def Quad_new_def)

section \<open>JSON\<close>

definition test_json :: Json where
  "test_json =
     JObject [(''big'', JNumber (PosInt (2 ^ 64 - 1))), (''n'', JNumber (PosInt 3)), (''neg'', JNumber (NegInt (-7))),
       (''none'', JNull), (''ok'', JBool True), (''ratio'', JNumber (Float 0x3FE0000000000000)),
       (''tags'', JArray [JString ''a'', JNumber (PosInt 1), JBool False]), (''tool'', JString ''search'')]"

definition test_json_round_trips_through_python :: "PyRuntime \<Rightarrow> bool" where
  "test_json_round_trips_through_python R =
     (let obj = json_to_py test_json
      in (case obj of ObjDict _ \<Rightarrow> True | _ \<Rightarrow> False) \<and> json_from_py R obj = Inr test_json)"

definition test_json_keeps_bools_distinct_from_ints :: "PyRuntime \<Rightarrow> bool" where
  "test_json_keeps_bools_distinct_from_ints R =
     (json_from_py R (ObjDict [(py_str ''b'', ObjBool True), (py_str ''i'', ObjInt 1), (py_str ''t'', ObjTuple [ObjInt 1, ObjInt 2])])
      = Inr (JObject [(''b'', JBool True), (''i'', JNumber (PosInt 1)), (''t'', JArray [JNumber (PosInt 1), JNumber (PosInt 2)])]))"

text \<open>The set is an object whose iterator yields its elements.\<close>

definition test_json_refuses_what_json_cannot_hold :: "PyRuntime \<Rightarrow> bool" where
  "test_json_refuses_what_json_cannot_hold R =
     (list_all (\<lambda>obj. raises PyValueError (json_from_py R obj))
        [ObjFloat 0x7FF8000000000000, ObjInt (2 ^ 70), ObjInt (- (2 ^ 70))]
      \<and> list_all (\<lambda>obj. raises PyTypeError (json_from_py R obj))
        [ObjDict [(ObjInt 1, py_str ''x'')], ObjOther ''object'' None None,
         ObjOther ''set'' (Some [Inr (ObjInt 1), Inr (ObjInt 2)]) None])"

lemmas json_kinds = is_none_def cast_bool_def cast_int_def cast_float_def cast_str_def json_key_def json_from_int_def
  extract_i64_def extract_u64_def json_from_float_def

lemma json_round_trip_test_passes: "test_json_round_trips_through_python R"
proof -
  have "sorted_wrt (<) [''big'', ''n'', ''neg'', ''none'', ''ok'', ''ratio'', ''tags'', ''tool'']" by code_simp
  then have "json_wf test_json" by (simp add: test_json_def f64_is_finite_def bt_wf_def)
  then have "json_from_py R (json_to_py test_json) = Inr test_json" by (rule json_round_trip)
  then show ?thesis unfolding test_json_round_trips_through_python_def Let_def by (simp add: test_json_def)
qed

lemma json_tests_pass:
  "test_json_keeps_bools_distinct_from_ints R" "test_json_refuses_what_json_cannot_hold R"
  by (simp_all add: test_json_keeps_bools_distinct_from_ints_def test_json_refuses_what_json_cannot_hold_def raises_def
    json_from_py.simps json_kinds json_of_i64_def f64_is_finite_def new_err_def is_subclass_def)

section \<open>Items\<close>

definition test_scopes_convert_both_ways_and_keep_their_order :: bool where
  "test_scopes_convert_both_ways_and_keep_their_order =
     (list_all (\<lambda>s. scope_into (PyContextScope_from s) = s) ContextScope_ALL
      \<and> PyMinor < PyMajor \<and> PyMajor < PyEnduring
      \<and> PyContextScope_colder PyMajor = Some PyMinor \<and> PyContextScope_colder PyMinor = None
      \<and> PyContextScope_all = [PyEnduring, PyMajor, PyMinor] \<and> PyContextScope_str PyEnduring = ''enduring'')"

definition test_from_triples_builds_the_rust_item :: "PyRuntime \<Rightarrow> bool" where
  "test_from_triples_builds_the_rust_item R =
     (let triples = ObjList [ObjTuple [py_str ''urn:a'', py_str ''urn:p'', py_str ''urn:b'']];
          expected = with_embedding (with_scope_hint (ContextItem_triples
            [Quad_triple (NbNamed (NamedNode ''urn:a'')) (NamedNode ''urn:p'') (TNamed (NamedNode ''urn:b''))]
            (Provenance_new ''chat'')) Major) [0x3F000000]
      in case PyContextItem_from_triples R triples (py_str ''chat'') (Some PyMajor) (Some [0x3F000000]) of Inl _ \<Rightarrow> False
         | Inr it \<Rightarrow> it = expected \<and> PyContextItem_payload_type it = ''triples''
             \<and> (case PyContextItem_triples it of Some (ObjList xs) \<Rightarrow> length xs = 1 | _ \<Rightarrow> False)
             \<and> PyContextItem_event_kind it = None)"

definition test_event_and_chunk_items_expose_their_payloads :: "PyRuntime \<Rightarrow> bool" where
  "test_event_and_chunk_items_expose_their_payloads R =
     (let body = ObjDict [(py_str ''tool'', py_str ''search'')]; prov = ObjProvenance (PyProvenance_new ''agent'' [])
      in (case PyContextItem_event R ''tool_call'' body prov None None of Inl _ \<Rightarrow> False
          | Inr e \<Rightarrow> PyContextItem_payload_type e = ''event'' \<and> PyContextItem_event_kind e = Some ''tool_call''
              \<and> PyContextItem_event_body e = Some body \<and> PyContextItem_triples e = None)
       \<and> (case PyContextItem_chunk R ''hi'' ''text/plain'' prov None None of Inl _ \<Rightarrow> False
          | Inr c \<Rightarrow> PyContextItem_payload_type c = ''chunk'' \<and> PyContextItem_content c = Some ''hi''
              \<and> PyContextItem_content_type c = Some ''text/plain'' \<and> prov_source (provenance c) = ''agent''))"

definition test_provenance_accepts_a_provenance_or_a_str_only :: "PyRuntime \<Rightarrow> bool" where
  "test_provenance_accepts_a_provenance_or_a_str_only R =
     (provenance_from_py R (py_str ''src'') = Inr (Provenance_new ''src'') \<and> raises PyTypeError (provenance_from_py R (ObjInt 1)))"

lemma py_item_tests_pass:
  "test_scopes_convert_both_ways_and_keep_their_order" "test_from_triples_builds_the_rust_item R"
  "test_event_and_chunk_items_expose_their_payloads R" "test_provenance_accepts_a_provenance_or_a_str_only R"
  by code_simp+

section \<open>Queries\<close>

text \<open>Iterating over an \<open>int\<close> is an error, whichever the runtime raises.\<close>

definition test_scope_spellings_map_to_scope_selections :: "PyRuntime \<Rightarrow> bool" where
  "test_scope_spellings_map_to_scope_selections R =
     (scopes_from_py R None = Inr All \<and> scopes_from_py R (Some ObjNone) = Inr All
      \<and> scopes_from_py R (Some (ObjScope PyMajor)) = Inr (Single Major)
      \<and> scopes_from_py R (Some (ObjTuple [ObjScope PyMinor, ObjScope PyEnduring])) = Inr (Set [Minor, Enduring])
      \<and> list_all (\<lambda>bad. raises PyTypeError (scopes_from_py R (Some bad)))
          [py_str ''major'', ObjList [ObjScope PyMajor, ObjInt 1], ObjInt 3])"

definition test_pattern_builder_fills_the_rust_query :: "PyRuntime \<Rightarrow> bool" where
  "test_pattern_builder_fills_the_rust_query R =
     (let ob = Literal_new_simple ''A'';
          expected = with_reasoner_hint (with_limit (ContextQuery_pattern All
            (with_object (with_subject QuadPattern_default (NbNamed (NamedNode ''urn:alice''))) (TLiteral ob))) 2) Major
      in case PyContextQuery_pattern R (Some (py_str ''urn:alice'')) None (Some (ObjLiteral ob)) None (Some 2) (Some PyMajor) of
           Inl _ \<Rightarrow> False
         | Inr q \<Rightarrow> q = expected \<and> PyContextQuery_kind q = ''pattern'' \<and> PyContextQuery_scopes q = None)"

definition test_other_query_kinds_build_their_rust_variants :: "PyRuntime \<Rightarrow> bool" where
  "test_other_query_kinds_build_their_rust_variants R =
     ((case PyContextQuery_sparql R ''ASK {}'' None None None of Inl _ \<Rightarrow> False | Inr q \<Rightarrow> qy_kind q = SparqlQuery ''ASK {}'')
      \<and> (case PyContextQuery_similarity R [0x3F800000] 3 None None None of Inl _ \<Rightarrow> False
         | Inr q \<Rightarrow> qy_kind q = Similarity [0x3F800000] 3)
      \<and> (case PyContextQuery_inference R None None None None None None of Inl _ \<Rightarrow> False
         | Inr q \<Rightarrow> PyContextQuery_kind q = ''inference''
             \<and> (let q = PyContextQuery_with_reasoner_hint (PyContextQuery_with_limit q 4) PyMinor
                in qy_limit q = Some 4 \<and> qy_reasoner_hint q = Some Minor)))"

lemma query_tests_pass:
  "test_scope_spellings_map_to_scope_selections R" "test_pattern_builder_fills_the_rust_query R"
  "test_other_query_kinds_build_their_rust_variants R"
  by code_simp+

section \<open>Configuration\<close>

text \<open>Floats are given as bit patterns. \<open>total_seconds\<close> of the \<open>timedelta\<close> is \<open>1.5\<close>.\<close>

definition test_durations_accept_seconds_and_timedeltas :: "PyRuntime \<Rightarrow> bool" where
  "test_durations_accept_seconds_and_timedeltas R =
     (duration_from_py R (ObjInt 2) = Inr (Duration_from_secs 2)
      \<and> duration_from_py R (ObjFloat 0x3FD0000000000000) = Inr (250 * 10 ^ 6)
      \<and> duration_from_py R (ObjOther ''timedelta'' None (Some (Inr (ObjFloat 0x3FF8000000000000)))) = Inr (1500 * 10 ^ 6)
      \<and> raises PyValueError (duration_from_py R (ObjInt (-1))) \<and> raises PyTypeError (duration_from_py R (py_str ''1s'')))"

definition test_promotion_defaults_come_from_the_rust_crate :: "PyRuntime \<Rightarrow> F64Ops \<Rightarrow> bool" where
  "test_promotion_defaults_come_from_the_rust_crate R F =
     (case PyPromotionConfig_new R None None None None of Inl _ \<Rightarrow> False
      | Inr c \<Rightarrow> c = PromotionConfig_default \<and> PyPromotionConfig_minor_to_major_accesses c = 3
          \<and> PyPromotionConfig_minor_window F c = 0x404E000000000000
          \<and> PyPromotionConfig_major_to_enduring_references c = 5 \<and> PyPromotionConfig_cadence c = PyAfterEachQuery)"

definition test_enums_convert_both_ways :: "F64Ops \<Rightarrow> bool" where
  "test_enums_convert_both_ways F =
     (list_all (\<lambda>t. demotion_into (PyDemotionTarget_from t) = t) [Drop, NextColder, OneStepThenDrop]
      \<and> list_all (\<lambda>c. cadence_into (PyPromotionCadence_from c) = c) [AfterEachQuery, Never]
      \<and> PyEvictionPolicy_kind PyEvictionPolicy_lfu = ''lfu'' \<and> PyEvictionPolicy_half_life F PyEvictionPolicy_lru = None)"

definition test_to_native_carries_every_setting :: "PyRuntime \<Rightarrow> ('s, 't) OxStore \<Rightarrow> string \<Rightarrow> PyHeap \<Rightarrow> bool" where
  "test_to_native_carries_every_setting R X path h =
     (case PyEvictionPolicy_recency_weighted R (ObjFloat 0x3FF8000000000000) of Inl _ \<Rightarrow> False
      | Inr policy \<Rightarrow>
     (case new_bounds (PyScopeBounds_new (Some 1) (Some 2) None) h of (b, h) \<Rightarrow>
     (case PySessionConfig_oxigraph path (Some b) (Some policy) (Some PyNextColder) None h of (cfg, h) \<Rightarrow>
        (let h = at_promotion (pc_promotion cfg) (PyPromotionConfig_set_minor_to_major_accesses 9) h;
             h = at_bounds (pc_bounds cfg) (set_bound Minor (Some 3)) h
         in case PySessionConfig_to_native X h cfg of Inl _ \<Rightarrow> False
            | Inr native \<Rightarrow>
                cfg_bounds native = \<lparr>enduring_max_items = Some 1, major_max_items = Some 2, minor_max_items = Some 3\<rparr>
              \<and> cfg_eviction_policy native = RecencyWeighted (1500 * 10 ^ 6)
              \<and> cfg_demotion_target native = NextColder
              \<and> minor_to_major_accesses (cfg_promotion native) = 9
              \<and> minor_window (cfg_promotion native) = Duration_from_secs 60))))"

definition test_default_config_matches_the_rust_defaults :: "('s, 't) OxStore \<Rightarrow> string \<Rightarrow> string \<Rightarrow> PyHeap \<Rightarrow> bool" where
  "test_default_config_matches_the_rust_defaults X path other h =
     (case PySessionConfig_oxigraph path None None None None h of (cfg, h) \<Rightarrow>
       (case (PySessionConfig_to_native X h cfg, SessionConfig_oxigraph X other) of
          (Inr native, Inr rust) \<Rightarrow> cfg_bounds native = cfg_bounds rust
            \<and> cfg_eviction_policy native = cfg_eviction_policy rust
            \<and> cfg_demotion_target native = cfg_demotion_target rust \<and> cfg_promotion native = cfg_promotion rust
        | _ \<Rightarrow> False))"

definition test_eviction_criteria_build_their_rust_variants :: bool where
  "test_eviction_criteria_build_their_rust_variants =
     (PyEvictionCriteria_policy 2 = Policy 2 \<and> PyEvictionCriteria_demote [] PyMinor = Demote [] Minor)"

lemma test_durations:
  "Duration_try_from_secs_f64 0x4000000000000000 = Inr (Duration_from_secs 2)"
  "Duration_try_from_secs_f64 0x3FD0000000000000 = Inr (250 * 10 ^ 6)"
  "Duration_try_from_secs_f64 0x3FF8000000000000 = Inr (1500 * 10 ^ 6)"
  "Duration_try_from_secs_f64 0xBFF0000000000000 = Inl NegativeSecs"
proof -
  have e: "f64_exponent 0x4000000000000000 = 1024" "f64_exponent 0x3FD0000000000000 = 1021"
      "f64_exponent 0x3FF8000000000000 = 1023"
    and f: "f64_fraction 0x4000000000000000 = 0" "f64_fraction 0x3FD0000000000000 = 0"
      "f64_fraction 0x3FF8000000000000 = 2 ^ 51"
    and n: "\<not> f64_below_zero 0x4000000000000000" "\<not> f64_below_zero 0x3FD0000000000000"
      "\<not> f64_below_zero 0x3FF8000000000000" "f64_below_zero 0xBFF0000000000000"
    by (simp_all add: f64_exponent_def f64_fraction_def f64_below_zero_def f64_negative_def f64_is_nan_def)
  show "Duration_try_from_secs_f64 0x4000000000000000 = Inr (Duration_from_secs 2)"
    "Duration_try_from_secs_f64 0x3FD0000000000000 = Inr (250 * 10 ^ 6)"
    "Duration_try_from_secs_f64 0x3FF8000000000000 = Inr (1500 * 10 ^ 6)"
    "Duration_try_from_secs_f64 0xBFF0000000000000 = Inl NegativeSecs"
    by (simp_all add: Duration_try_from_secs_f64_def e f n round_shift_def bit_iff_odd Duration_from_secs_def)
qed

text \<open>What the duration test needs of the runtime: small integers and floats become floats as they are.\<close>

lemma duration_test_passes:
  assumes "rt_extract_f64 R (ObjInt 2) = Inr 0x4000000000000000" "rt_extract_f64 R (ObjInt (-1)) = Inr 0xBFF0000000000000"
    and "\<And>f. rt_extract_f64 R (ObjFloat f) = Inr f"
  shows "test_durations_accept_seconds_and_timedeltas R"
  using assms test_durations by (simp add: test_durations_accept_seconds_and_timedeltas_def duration_from_py_def
    cast_float_def cast_int_def raises_def new_err_def is_subclass_def)

lemma promotion_test_passes:
  assumes "f_as_secs F (Duration_from_secs 60) = 0x404E000000000000"
  shows "test_promotion_defaults_come_from_the_rust_crate R F"
  using assms by (simp add: test_promotion_defaults_come_from_the_rust_crate_def PyPromotionConfig_new_def
    PyPromotionConfig_minor_to_major_accesses_def PyPromotionConfig_minor_window_def PyPromotionConfig_cadence_def
    PyPromotionConfig_major_to_enduring_references_def PromotionConfig_default_def)

lemma config_tests_pass: "test_enums_convert_both_ways F" "test_eviction_criteria_build_their_rust_variants"
  by (simp_all add: test_enums_convert_both_ways_def test_eviction_criteria_build_their_rust_variants_def
    PyEvictionPolicy_lfu_def PyEvictionPolicy_half_life_def PyEvictionPolicy_lru_def
    PyEvictionCriteria_policy_def PyEvictionCriteria_demote_def)

lemma oxigraph_defaults:
  assumes "SessionConfig_oxigraph X path = Inr c"
  shows "\<exists>stores. c = SessionConfig_new stores"
  using assms by (auto simp: SessionConfig_oxigraph_def split: sum.splits)

lemma to_native_test_passes:
  assumes "SessionConfig_oxigraph X path = Inr c" "\<And>f. rt_extract_f64 R (ObjFloat f) = Inr f"
  shows "test_to_native_carries_every_setting R X path h"
proof -
  have "PyEvictionPolicy_recency_weighted R (ObjFloat 0x3FF8000000000000) = Inr (RecencyWeighted (1500 * 10 ^ 6))"
    by (simp add: PyEvictionPolicy_recency_weighted_def duration_from_py_def cast_float_def assms(2) test_durations)
  then show ?thesis
    by (simp add: test_to_native_carries_every_setting_def PySessionConfig_oxigraph_def PySessionConfig_to_native_def
      heap_defs assms(1) PyScopeBounds_new_def ScopeBounds_from_def PyPromotionConfig_set_minor_to_major_accesses_def
      PromotionConfig_default_def)
qed

lemma default_config_test_passes:
  assumes "SessionConfig_oxigraph X path = Inr c" "SessionConfig_oxigraph X other = Inr d"
  shows "test_default_config_matches_the_rust_defaults X path other h"
  using oxigraph_defaults [OF assms(2)] assms
  by (auto simp: test_default_config_matches_the_rust_defaults_def PySessionConfig_oxigraph_def PySessionConfig_to_native_def
    heap_defs SessionConfig_new_def PyScopeBounds_default_def ScopeBounds_from_def ScopeBounds_default_def)

section \<open>Sessions\<close>

text \<open>The sessions of the tests are open ones; \<open>clk n\<close> is the clock during the \<open>n\<close>-th call.\<close>

definition call_raises :: "PyClass \<Rightarrow> PyAbort + 'a \<Rightarrow> bool" where
  "call_raises c r = (case r of Inl (Raise e) \<Rightarrow> is_subclass (pe_class e) c | _ \<Rightarrow> False)"

definition py_test_item :: ContextItem where
  "py_test_item =
     ContextItem_triples [Quad_triple (NbNamed (NamedNode ''urn:a'')) (NamedNode ''urn:p'') (TNamed (NamedNode ''urn:b''))]
       (Provenance_new ''test'')"

definition test_calls_after_close_raise_session_closed :: "(string \<Rightarrow> string) \<Rightarrow> ('st, 'tx) Env \<Rightarrow> (nat \<Rightarrow> nat \<Rightarrow> Instant) \<Rightarrow>
    'st PyState \<Rightarrow> bool" where
  "test_calls_after_close_raise_session_closed dbg E clk s =
     (case PySession_add dbg E (clk 1) PyMajor py_test_item s of (Inl _, _) \<Rightarrow> False
      | (Inr _, s) \<Rightarrow>
     (case PySession_close dbg s of (Inl _, _) \<Rightarrow> False
      | (Inr first, s) \<Rightarrow> py_items_added first = 1 \<and> PySession_closed s \<and>
     (case PySession_close dbg s of (r, s) \<Rightarrow> r = Inr first \<and>
     (case PySession_add dbg E (clk 2) PyMajor py_test_item s of (r, s) \<Rightarrow> call_raises SessionClosedError r \<and>
        call_raises SessionClosedError (fst (PySession_item_count dbg PyMajor s))))))"

definition test_reserved_surfaces_raise_their_typed_errors :: "(string \<Rightarrow> string) \<Rightarrow> 'st PyState \<Rightarrow> bool" where
  "test_reserved_surfaces_raise_their_typed_errors dbg s =
     (case PySession_validate dbg PyEnduring PyMajor s of (r, s) \<Rightarrow> call_raises ShaclUnavailableError r \<and>
     (case PySession_evaluate_datalog dbg PyEnduring s of (r, s) \<Rightarrow> call_raises DatalogUnavailableError r \<and>
        call_raises NotYetImplementedError (fst (PySession_reason dbg PyMinor s))))"

definition test_exit_closes_the_session :: "(string \<Rightarrow> string) \<Rightarrow> 'st PyState \<Rightarrow> bool" where
  "test_exit_closes_the_session dbg s =
     (case PySession_exit dbg s of (r, s) \<Rightarrow> r = Inr False \<and> PySession_closed s)"

lemmas py_calls = PySession_write_def PySession_read_def PySession_close_def call_raises_def Session_close_def

lemma reserved_tests_pass:
  "test_reserved_surfaces_raise_their_typed_errors dbg (PyOpen s)" "test_exit_closes_the_session dbg (PyOpen s)"
  by (simp_all add: test_reserved_surfaces_raise_their_typed_errors_def test_exit_closes_the_session_def PySession_validate_def
    PySession_evaluate_datalog_def PySession_reason_def PySession_exit_def map_value_def reading_def py_calls
    Session_validate_def Session_evaluate_datalog_def Session_reason_def nyi_def to_py_err_def is_subclass_def)

text \<open>The test that adds an item passes over every store that does not fail, opened on empty scopes.\<close>

lemma close_test_passes:
  assumes rel: "reliable_storage (env_storage E) quads_of view st_ok tx_ok writable accepts"
    and acc: "acceptable accepts (env_json E) py_test_item"
    and ok: "st_ok en" "st_ok ma" "st_ok mi" "quads_of en = {}" "quads_of ma = {}" "quads_of mi = {}"
    and pers: "persistent (capabilities (env_storage E) en)"
  shows "\<exists>s. Session_open E (clk 0) (SessionConfig_new (PerScope en ma mi)) = Inr s
    \<and> test_calls_after_close_raise_session_closed dbg E clk (PyOpen s)"
proof -
  obtain s where s: "Session_open E (clk 0) (SessionConfig_new (PerScope en ma mi)) = Inr s"
    "mirrored quads_of st_ok accepts (env_json E) s" "index_of s = wt_index [] SessionStats_default"
    using open_empty [OF rel HOL.refl ok pers] by blast
  have "validate items py_test_item = Inr ()" for items
    by (simp add: py_test_item_def validate_def validate_graphs_def validate_embedding_def trim_is_empty_def ascii_space_def
      space2_def space3_def ContextItem_triples_def ContextItem_new_def Provenance_new_def Quad_triple_def Quad_new_def)
  note add = add_to_empty [OF this]
  have "s_next_id s = 0" using arg_cong [OF s(3), of ix_next_id] by (simp add: wt_index_def)
  then obtain t where "run_op E (clk 1) (OpAdd Major py_test_item) s = (Inr (ResId 0), t)"
    "index_of t = wt_index [Entry_new py_test_item Major Added (clk 1 0)] (SessionStats_default\<lparr>items_added := add64 0 1\<rparr>)"
    by (rule_tac reliable_step [OF rel s(2) _ _ add [of "env_f64 E" "clk 1" SessionStats_default, folded s(3)]])
      (auto simp: acc id_room_def SessionStats_default_def)
  then have "Session_add E (clk 1) Major py_test_item s = (Inr 0, t)" "items_added (s_stats t) = 1"
    using map_res_Inr [of ResId "Session_add E (clk 1) Major py_test_item" s "ResId 0" t]
    by (auto dest: arg_cong [of _ _ ix_stats] simp: wt_index_def add64_def)
  then have "test_calls_after_close_raise_session_closed dbg E clk (PyOpen s)"
    by (simp add: test_calls_after_close_raise_session_closed_def PySession_add_def PySession_item_count_def py_calls
      PySessionStats_from_def closed_err_def is_subclass_def)
  with s(1) show ?thesis by blast
qed

end
