(* ===== verification/Spec2Isabelle.thy ===== *)
theory Spec2Isabelle
  imports Oxigraph_Suite Left_Over Doc_Programs Ox_Tests Py_Tests
begin

text \<open>
  A verification of semantiCore (Rust, \<^verbatim>\<open>src/crates\<close>): the RDF data model, the storage
  traits with their implementations and contract suite, the \<open>Session\<close> of the context layer,
  the reasoner, Datalog and SHACL surfaces with their documented example engines, and the
  Python bindings.

  \<^bold>\<open>The program.\<close> \<^verbatim>\<open>semanticore-core\<close> defines terms and quads (\<^verbatim>\<open>model.rs\<close>), the traits
  \<open>Storage\<close> and \<open>StorageTransaction\<close> (\<^verbatim>\<open>storage.rs\<close>) and the reasoner families
  (\<^verbatim>\<open>reasoner.rs\<close>, \<^verbatim>\<open>owl.rs\<close>, \<^verbatim>\<open>datalog.rs\<close>, \<^verbatim>\<open>shacl.rs\<close>). Stores implement the
  traits: \<open>MemStore\<close> of \<^verbatim>\<open>semanticore-storage-testkit\<close>, the example store of the
  documentation, and the Oxigraph adapter \<^verbatim>\<open>semanticore-store-oxigraph\<close>. The test kit's
  contract suite checks any store. \<^verbatim>\<open>semanticore-context\<close> keeps items in three scopes
  (enduring, major, minor), each backed by a store: a \<open>Session\<close> holds an index of entries in
  memory and writes every item as quads (\<^verbatim>\<open>record.rs\<close>), moves items between scopes on
  promotion, demotion and eviction, answers pattern queries, and loads the index back on
  \<open>open\<close>. \<^verbatim>\<open>semanticore-context-py\<close> wraps the session, its items, queries and
  configuration as Python classes.

  \<^bold>\<open>Theories.\<close>
  \<^item> \<open>Prelude\<close>, \<open>Rust_Std\<close>: results, state and loops; the parts of the standard library the
    code uses (decimal \<open>u64\<close>, \<open>BTreeMap\<close>, stable sorting, bit patterns of floats).
  \<^item> \<open>Rdf_Model\<close>: \<^verbatim>\<open>model.rs\<close>. \<open>Literal\<close> is a type whose values are those the three
    constructors build.
  \<^item> \<open>Storage_Trait\<close>: the traits as a record of methods; their documented contract as the
    locale \<open>storage_contract\<close>, extended by \<open>reliable_storage\<close> for stores that do not fail.
  \<^item> \<open>Mem_Store\<close>: \<open>MemStore\<close> and the documented example store, each an interpretation of
    \<open>reliable_storage\<close>.
  \<^item> \<open>Contract\<close>: the checks of \<^verbatim>\<open>contract.rs\<close>, as programs that may panic, and \<open>WithGuard\<close>.
    The locale \<open>shared_storage\<close> states what they need of overlapping transactions.
  \<^item> \<open>Threads\<close>: the five threads of \<open>shareable_across_threads\<close> as a step relation whose runs are
    the schedules; the locale \<open>concurrent_storage\<close>, interpreted on both in-memory stores.
  \<^item> \<open>Strategies\<close>: the generators of \<^verbatim>\<open>strategies.rs\<close>.
  \<^item> \<open>Oxigraph_Convert\<close>, \<open>Oxigraph_Store\<close>: the adapter's term conversion and its transactions
    over the crate, which is a parameter. \<open>Oxigraph_Suite\<close>: the adapter under the suite.
  \<^item> \<open>Context_Types\<close>, \<open>Record_Layout\<close>: items, errors, configuration and queries of
    \<^verbatim>\<open>semanticore-context\<close>; the layout of an item in quads, and its reading.
  \<^item> \<open>Session_Model\<close>: \<^verbatim>\<open>session.rs\<close>, one definition per function, with the partial effects
    of operations that fail. \<open>Session_Spec\<close> is the abstract session, on the index alone.
  \<^item> \<open>Session_Index\<close>, \<open>Session_Ops\<close>: correctness of the abstract session. \<open>Refinement\<close>: a
    calculus (locale \<open>refinement\<close>) of simulations between operations that may fail.
    \<open>Session_Refine\<close>, \<open>Session_Sim\<close>, \<open>Session_Query\<close>: the session refines the abstract one,
    in the locales \<open>session_env\<close> and \<open>session_sim\<close>, interpreted over \<open>MemStore\<close>.
  \<^item> \<open>Session_Props\<close>, \<open>Session_Laws\<close>, \<open>Session_Behaviour\<close>, \<open>Session_Answers\<close>,
    \<open>Session_Reopen\<close>: the properties of the session, over every store that satisfies the
    contract. \<open>Session_Trace\<close>: runs as traces of events (the call, the session before, the
    outcome, the session after), on which what a run keeps is stated. \<open>Left_Over\<close>: what becomes of the copy a failed move leaves behind, with a store
    whose commits fail as planned. \<open>Walkthrough\<close>: the documented use of a session, end to end.
  \<^item> \<open>Py_Errors\<close>, \<open>Py_Values\<close>, \<open>Py_Items\<close>, \<open>Py_Config\<close>, \<open>Py_Session\<close>: the modules \<^verbatim>\<open>errors.rs\<close>,
    \<^verbatim>\<open>terms.rs\<close>, \<^verbatim>\<open>item.rs\<close> with \<^verbatim>\<open>query.rs\<close>, \<^verbatim>\<open>config.rs\<close> and \<^verbatim>\<open>session.rs\<close> of
    \<^verbatim>\<open>semanticore-context-py\<close>. Python objects are a datatype; configuration objects that are
    shared are references into a heap. \<open>Durations\<close>: the standard library's conversion of a
    float to a duration, on bit patterns.
  \<^item> \<open>Py_Restart\<close>: Python sessions that open the same directory one after the other, over the
    Oxigraph adapter.
  \<^item> \<open>Datalog_Ir\<close>, \<open>Shacl_Report\<close>, \<open>Reasoner\<close>, \<open>Example_Engines\<close>: the reasoner families and the
    engines of their documentation, which are compiled and run as tests. \<open>Reasoner_Traits\<close>:
    the reasoner traits as records of methods, the engines as their values, and what the traits
    promise as the locales \<open>materializer\<close>, \<open>incremental_reasoner\<close> and \<open>entailment\<close>.
  \<^item> \<open>Doc_Programs\<close>, \<open>Core_Tests\<close>, \<open>Ox_Tests\<close>, \<open>Py_Tests\<close>: the programs of the documentation
    and the unit tests of the crates, run on the model; \<open>Py_Tests\<close> also lists what the
    extension module registers.

  \<^bold>\<open>What is shown.\<close>
  \<^item> The session implements the abstract session (C1, C2); no run of operations loses an
    item, whatever storage errors occur in the middle of an operation: every live item stays
    live and stored unless a call of the run was to remove it or could evict it under the
    bounds (C3). No run touches quads of others (C4); no operation panics (C5); the bounds hold after every operation that no
    storage error interrupts (C6); the index stays well formed (C40). Reopening restores the
    items whose metadata the JSON crate reads back (C7, C8; an item whose metadata it cannot
    read back blocks every later \<open>open\<close>, \<open>unreadable_item_blocks_open\<close>), and over Python, the session and the adapter together, what is in the
    enduring scope survives any number of process ends (C9). The documented program does what
    it says (C10). A removed item stays removed, unless a move of it had failed halfway (C11).
    C12 to C20 give the result of each operation, its errors included.
  \<^item> Every store with the documented behaviour passes the contract suite (C21), so the suite
    asks for nothing else; the Oxigraph adapter passes it for all generated inputs (C22). No
    schedule of the thread test fails or goes on for ever (C23). Overlapping writers of the
    reference store conflict (C24).
  \<^item> The Oxigraph adapter satisfies the contract, whatever errors the crate reports (C25):
    terms are stored verbatim (C26), and what could not be is refused (C27).
  \<^item> The example reasoners, the Datalog engine and the validator compute what their
    declarative readings say (C28, C29, C31 for rules without repeated variables, C32); the worklist loop ends on cyclic
    hierarchies. Incremental maintenance agrees with recomputing (C30).
  \<^item> A Python session gives the native session's answer to every call until it is closed, and
    refuses every call afterwards (C33); its exceptions tell a handler which error was raised,
    field by field (C34), and its configuration is live (C35). Triples, event bodies and items
    cross the binding unharmed (C36 to C38), durations rounded to the nearest nanosecond (C39).
  \<^item> Further theorems, not numbered: \<open>mem_store_passes_suite\<close>, \<open>with_guard_keeps_contract\<close>,
    \<open>literal_accepted_iff\<close>, \<open>adapter_errors\<close>, \<open>toy_materialize_saturates\<close>,
    \<open>profile_set_refines\<close>, \<open>add_batch_with_room\<close>, \<open>evict_items_result\<close>,
    \<open>evict_policy_targets\<close>, \<open>query_counts\<close>, \<open>query_touches\<close> and \<open>py_pattern_query_spelled\<close>.
  \<^item> Where the code does not keep its documentation: \<open>removal_lasts_witness\<close> (a removed item
    comes back), \<open>unreadable_item_blocks_open\<close> (an item that \<open>add\<close> accepts makes the store
    unopenable), \<open>add_batch_atomic\<close> (an error although the batch was written),
    \<open>onestep_repeated_variable\<close>, \<open>on_insert_ignores_graphs\<close>, \<open>toy_no_materializer\<close> and
    \<open>symmetric_knows_no_entailment\<close>.

  \<^bold>\<open>Parameters and hypotheses.\<close> The \<open>serde_json\<close> crate (\<open>JsonOps\<close>; the crate does not promise
  to read back every record it writes, since it stops parsing at a depth of 128 and may be one
  unit off for a float, so where items are read back the theorem asks it of these items alone,
  with \<open>reads_back\<close> or \<open>json_readable\<close>), floating-point arithmetic (\<open>F64Ops\<close>, no hypotheses), the clock
  (a sequence of readings), and the \<open>oxigraph\<close> and \<open>oxsdatatypes\<close> crates (\<open>OxModel\<close>, \<open>OxStore\<close>,
  with \<open>ox_model_ok\<close>, \<open>ox_reads_back\<close> and \<open>ox_behaves\<close>; in C22 also \<open>rdf_syntax\<close> and
  \<open>ox_never_fails\<close>), and what the Python runtime does by itself (\<open>PyRuntime\<close>; C39 assumes that it
  reads a float object as its value). A transaction of the contract is one that no other commit overtakes,
  except where overlap is stated (C21 to C24).

  \<^bold>\<open>Bounds.\<close> Item ids are \<open>u64\<close>: the theorems on adding items assume that the ids in use stay
  below \<open>2 ^ 64\<close> (\<open>id_room\<close>), and the model wraps there (\<open>add64\<close>). There is no fuel: every
  recursion is structural or has a measure (\<open>enforce_bounds\<close>: the scope gets colder;
  \<open>close_up\<close>: the unseen classes).

  \<^bold>\<open>Not modelled.\<close> Threads inside a session and blocking (the mutex of a session is held for a
  whole operation, and so is the lock of a Python session; the interpreter lock is released
  meanwhile); the sampling and shrinking of the random generators; hashing and \<open>Debug\<close>
  formatting, except where a message or a \<open>repr\<close> contains it; Python objects that contain
  themselves and subclasses of the built-in types, other than \<open>bool\<close>; exhaustion of the native
  stack; the copies of the
  documented example store that the other documentation examples repeat; unit tests of derived
  \<open>Copy\<close> and \<open>PartialEq\<close>.
\<close>

section \<open>Sessions over any store\<close>

text \<open>
  C40. The index of a session stays well formed in every run, whatever storage errors occur:
  it is ordered by id without repetition, every id is below the next free id, which never
  decreases and fits 64 bits, and every item in it is one that can be stored.
\<close>

theorem run_keeps_index_wf:
  assumes "storage_contract (env_storage E) quads_of view st_ok tx_ok writable"
    and "session_run E (\<lambda>_. True) s t"
    and "covered quads_of st_ok (\<lambda>_. True) (env_json E) s"
  shows "sorted_wrt (<) (map fst (s_items t)) \<and> s_next_id s \<le> s_next_id t \<and> s_next_id t < 2 ^ 64
    \<and> list_all (\<lambda>(i, e). i < s_next_id t \<and> storable (e_item e)) (s_items t)"
proof -
  have "index_wf (index_of t)" "s_next_id s \<le> s_next_id t"
    using run_covered [OF assms] by (auto simp: covered_def session_inv_def session_wf_def session_rel_def)
  then show ?thesis by (simp add: index_wf_def index_of_def bt_wf_def list_all_iff)
qed

theorem run_keeps_index_wf_witness: "list_all (\<lambda>(i, e). i < 1) (s_items w_one) \<and> s_items w_one \<noteq> []"
  using run_keeps_index_wf [OF w_contract w_run] w_fresh_covered by (simp add: w_one_next w_one_items)

end
